(* ===== verification/OranPrelude.thy ===== *)
theory OranPrelude
  imports Main "HOL-Library.Word" "HOL-Library.Multiset"
begin

text \<open>
  Shared vocabulary of the development: the machine integer types of the C++ sources, the ways in
  which the code stops the simulation (\<open>NS_ABORT_MSG_IF\<close>, \<open>NS_ASSERT\<close>, undefined behaviour)
  as values of a sum type, sequencing of fallible steps, loops over containers, and the generic
  list and map lemmas that the component theories use.
\<close>

section \<open>Machine integers\<close>

type_synonym u8 = "8 word"
type_synonym u16 = "16 word"
type_synonym u32 = "32 word"
type_synonym u64 = "64 word"

text \<open>
  \<open>ns3::Time\<close> is a signed count of time steps (nanoseconds). It is an \<^typ>\<open>int\<close> here; where the
  code stores it in an unsigned 64-bit time stamp the conversion is written out.
\<close>

type_synonym Time = int

lemma sint_u64: "- (2 ^ 63) \<le> i \<Longrightarrow> i < 2 ^ 63 \<Longrightarrow> sint (word_of_int i :: u64) = i"
  by (simp add: int_word_sint)

lemma sint_ucast_u32: "uint (x :: u64) < 2 ^ 31 \<Longrightarrow> sint (ucast x :: u32) = uint x"
proof -
  assume x: "uint x < 2 ^ 31"
  have "ucast x = (word_of_int (uint x) :: u32)" by simp
  then have "sint (ucast x :: u32) = sint (word_of_int (uint x) :: u32)" by (rule arg_cong)
  also have "\<dots> = uint x" unfolding int_word_sint using x by simp
  finally show ?thesis .
qed

lemma nat_sint_le: "nat (sint (w :: u64)) \<le> unat w"
proof -
  have "sint w = sint (word_of_int (uint w) :: u64)" by simp
  also have "\<dots> = (uint w + 2 ^ 63) mod 2 ^ 64 - 2 ^ 63" unfolding int_word_sint by simp
  also have "(uint w + 2 ^ 63) mod 2 ^ 64 \<le> uint w + 2 ^ 63" by (rule zmod_le_nonneg_dividend) simp
  finally have "nat (sint w) \<le> nat (uint w)" by (intro nat_mono) simp
  then show ?thesis by simp
qed

section \<open>Failures as values\<close>

text \<open>
  \<open>NS_ABORT\<close> is the text of an \<open>NS_ABORT_MSG\<close>/\<open>NS_ABORT_MSG_IF\<close>, \<open>NS_ASSERT\<close> a failed
  assertion, \<open>UB\<close> a read that the C++ standard leaves undefined (an empty container's \<open>front()\<close>,
  a null pointer): the model never gives such a read a value.
\<close>

datatype failure = NS_ABORT string | NS_ASSERT string | UB string

type_synonym 'a res = "failure + 'a"

definition res_bind :: "'a res \<Rightarrow> ('a \<Rightarrow> 'b res) \<Rightarrow> 'b res" where
  "res_bind m f = (case m of Inl e \<Rightarrow> Inl e | Inr x \<Rightarrow> f x)"

definition abort_if :: "bool \<Rightarrow> string \<Rightarrow> 'b res \<Rightarrow> 'b res" where
  "abort_if b msg k = (if b then Inl (NS_ABORT msg) else k)"

definition ns_assert :: "bool \<Rightarrow> string \<Rightarrow> 'b res \<Rightarrow> 'b res" where
  "ns_assert b msg k = (if b then k else Inl (NS_ASSERT msg))"

text \<open>A range-based \<open>for\<close> whose body may stop the simulation.\<close>

fun for_each :: "('s \<Rightarrow> 'a \<Rightarrow> 's res) \<Rightarrow> 'a list \<Rightarrow> 's \<Rightarrow> 's res" where
  "for_each body [] s = Inr s"
| "for_each body (x # xs) s = res_bind (body s x) (for_each body xs)"

named_theorems res_simps \<open>equations that push results through fallible steps\<close>

lemma res_bind_Inr [simp, res_simps]: "res_bind (Inr x) f = f x"
  by (simp add: res_bind_def)

lemma res_bind_Inl [simp, res_simps]: "res_bind (Inl e) f = Inl e"
  by (simp add: res_bind_def)

lemma res_bind_eq_Inr [res_simps]:
  "res_bind m f = Inr y \<longleftrightarrow> (\<exists>x. m = Inr x \<and> f x = Inr y)"
  by (simp add: res_bind_def split: sum.splits)

lemma res_bind_eq_Inl:
  "res_bind m f = Inl e \<longleftrightarrow> m = Inl e \<or> (\<exists>x. m = Inr x \<and> f x = Inl e)"
  by (simp add: res_bind_def split: sum.splits)

lemma abort_if_eq_Inr [res_simps]: "abort_if b msg k = Inr y \<longleftrightarrow> \<not> b \<and> k = Inr y"
  by (simp add: abort_if_def)

lemma abort_if_False [simp]: "abort_if False msg k = k"
  by (simp add: abort_if_def)

lemma abort_if_True [simp]: "abort_if True msg k = Inl (NS_ABORT msg)"
  by (simp add: abort_if_def)

lemma ns_assert_eq_Inr [res_simps]: "ns_assert b msg k = Inr y \<longleftrightarrow> b \<and> k = Inr y"
  by (simp add: ns_assert_def)

lemma ns_assert_True [simp]: "ns_assert True msg k = k"
  by (simp add: ns_assert_def)

text \<open>A property that every iteration keeps is kept by the loop.\<close>

lemma for_each_invariant:
  assumes "for_each body xs s = Inr t" and "P s"
    and "\<And>s x t. x \<in> set xs \<Longrightarrow> P s \<Longrightarrow> body s x = Inr t \<Longrightarrow> P t"
  shows "P t"
  using assms
proof (induction xs arbitrary: s)
  case Nil
  then show ?case by simp
next
  case (Cons x xs)
  from Cons.prems(1) obtain u where u: "body s x = Inr u" "for_each body xs u = Inr t"
    by (auto simp: res_simps)
  have "P u" using Cons.prems(2,3) u(1) by auto
  with u(2) show ?case using Cons.IH Cons.prems(3) by (metis list.set_intros(2))
qed

lemma for_each_append:
  "for_each body (xs @ ys) s = res_bind (for_each body xs s) (for_each body ys)"
  by (induction xs arbitrary: s) (auto simp: res_bind_def split: sum.splits)

text \<open>A loop whose body never fails is a fold.\<close>

lemma for_each_total:
  "(\<And>s x. x \<in> set xs \<Longrightarrow> body s x = Inr (g x s)) \<Longrightarrow> for_each body xs s = Inr (fold g xs s)"
  by (induction xs arbitrary: s) auto

section \<open>Lists\<close>

lemma mset_butlast: "xs \<noteq> [] \<Longrightarrow> mset xs = add_mset (last xs) (mset (butlast xs))"
  by (cases xs rule: rev_cases) auto

lemma sum_list_map_upd:
  assumes "distinct ks" and "k \<in> set ks"
  shows "(\<Sum>x\<leftarrow>ks. (f(k := v)) x) + f k = (\<Sum>x\<leftarrow>ks. (f x :: nat)) + v"
  using assms by (induction ks) (auto simp: map_fun_upd)

lemma sum_list_ge_length: "(\<And>x. x \<in> set xs \<Longrightarrow> 1 \<le> f x) \<Longrightarrow> length xs \<le> (\<Sum>x\<leftarrow>xs. (f x :: nat))"
proof (induction xs)
  case (Cons a xs)
  have "1 \<le> f a" and "length xs \<le> (\<Sum>x\<leftarrow>xs. f x)" using Cons by auto
  then show ?case by simp
qed simp

lemma distinct_length_u16: "distinct (xs :: u16 list) \<Longrightarrow> length xs \<le> 65536"
proof -
  assume "distinct xs"
  then have "length xs = card (set xs)" by (simp add: distinct_card)
  also have "\<dots> \<le> card (UNIV :: u16 set)" by (simp add: card_mono)
  finally show ?thesis by (simp add: card_word)
qed

section \<open>Ordered maps\<close>

lemma for_each_map: "for_each (\<lambda>s x. body s (f x)) xs s = for_each body (map f xs) s"
  by (induction xs arbitrary: s) (auto simp: res_bind_def split: sum.split)

text \<open>
  \<open>std::map\<close> as the sequence of its entries in key order; \<open>smap_put\<close> is the assignment
  \<open>m[k] = v\<close>, \<open>map_of\<close> the lookup.
\<close>

fun smap_put :: "'k :: linorder \<Rightarrow> 'v \<Rightarrow> ('k \<times> 'v) list \<Rightarrow> ('k \<times> 'v) list" where
  "smap_put k v [] = [(k, v)]"
| "smap_put k v ((k', v') # m) =
     (if k < k' then (k, v) # (k', v') # m
      else if k' < k then (k', v') # smap_put k v m else (k, v) # m)"

definition smap_ok :: "('k :: linorder \<times> 'v) list \<Rightarrow> bool" where
  "smap_ok m = sorted_wrt (<) (map fst m)"

lemma smap_put_keys [simp]: "fst ` set (smap_put k v m) = insert k (fst ` set m)"
proof (induction m)
  case (Cons kv m)
  obtain k' v' where kv: "kv = (k', v')" by (cases kv)
  consider "k < k'" | "k' < k" | "k = k'" by (cases k k' rule: linorder_cases) auto
  then show ?case using Cons by cases (auto simp: kv)
qed simp

lemma smap_put_ok [simp]: "smap_ok m \<Longrightarrow> smap_ok (smap_put k v m)"
  unfolding smap_ok_def
proof (induction m)
  case (Cons kv m)
  obtain k' v' where kv: "kv = (k', v')" by (cases kv)
  have keys: "set (map fst (smap_put k v m)) = insert k (set (map fst m))" by simp
  consider "k < k'" | "k' < k" | "k = k'" by (cases k k' rule: linorder_cases) auto
  then show ?case
  proof cases
    case 2
    have "\<forall>x \<in> set (map fst (smap_put k v m)). k' < x"
      using Cons.prems 2 unfolding keys by (auto simp: kv)
    with Cons 2 show ?thesis by (auto simp: kv dest: less_asym)
  qed (use Cons in \<open>auto simp: kv\<close>)
qed simp

lemma map_of_smap_put [simp]: "smap_ok m \<Longrightarrow> map_of (smap_put k v m) = (map_of m)(k \<mapsto> v)"
  unfolding smap_ok_def
proof (induction m)
  case (Cons kv m)
  obtain k' v' where kv: "kv = (k', v')" by (cases kv)
  consider "k < k'" | "k' < k" | "k = k'" by (cases k k' rule: linorder_cases) auto
  then show ?case using Cons by cases (auto simp: kv fun_eq_iff)
qed auto

lemma smap_ok_distinct: "smap_ok m \<Longrightarrow> distinct (map fst m)"
  by (simp add: smap_ok_def strict_sorted_iff)

lemma smap_ok_Nil [simp]: "smap_ok []"
  by (simp add: smap_ok_def)

lemma length_sorted_keys:
  "sorted_wrt (<) (map fst m) \<Longrightarrow> length m = card (fst ` set (m :: ('k :: linorder \<times> 'v) list))"
  using distinct_card [of "map fst m"] by (simp add: strict_sorted_iff)

text \<open>The entries of one key: at most one, the one that the lookup finds.\<close>

lemma smap_filter_key:
  "smap_ok m \<Longrightarrow> filter (\<lambda>kv. fst kv = k) m = (case map_of m k of None \<Rightarrow> [] | Some v \<Rightarrow> [(k, v)])"
  unfolding smap_ok_def
proof (induction m)
  case (Cons kv m)
  have "filter (\<lambda>kv. fst kv = k) m = []" if "fst kv = k"
    using Cons.prems that by (auto simp: filter_empty_conv)
  with Cons show ?case by (cases kv) (auto split: option.split)
qed simp

lemma length_smap_put:
  "smap_ok m \<Longrightarrow> length (smap_put k v m) = (if map_of m k = None then length m + 1 else length m)"
  unfolding smap_ok_def
proof (induction m)
  case (Cons kv m)
  obtain k' v' where kv: "kv = (k', v')" by (cases kv)
  consider "k < k'" | "k' < k" | "k = k'" by (cases k k' rule: linorder_cases) auto
  then show ?case
  proof cases
    case 1
    with Cons.prems have "k \<notin> fst ` set m" by (force simp: kv)
    then have "map_of m k = None" by (simp add: map_of_eq_None_iff)
    with 1 show ?thesis by (simp add: kv)
  qed (use Cons in \<open>auto simp: kv\<close>)
qed simp

lemma smap_put_twice [simp]: "smap_put k v (smap_put k v' m) = smap_put k v m"
  by (induction m) (auto dest: less_asym)

end
