(* ===== verification/NsScheduler.thy ===== *)
theory NsScheduler
  imports OranPrelude
begin

text \<open>
  The event lists of the ns-3 core (\<open>src/core/model\<close>): the event key and its order, the
  \<open>Scheduler\<close> interface as a record of operations (the C++ virtual table), and its list and
  map implementations. The locale \<open>event_list\<close> is the contract that the simulator relies
  on; the list and the map are interpreted here, the binary heap, the calendar queue and the priority
  queue in their own theories.
\<close>

section \<open>Events and keys (scheduler.h)\<close>

datatype EventKey = EventKey (key_ts: u64) (key_uid: u32) (key_context: u32)

text \<open>\<open>ev_impl\<close> is the address of the \<open>EventImpl\<close>; address 0 is the null pointer.\<close>

datatype Event = Event (ev_impl: nat) (ev_key: EventKey)

definition key_eq :: "EventKey \<Rightarrow> EventKey \<Rightarrow> bool" where
  "key_eq a b = (key_uid a = key_uid b)"

definition key_less :: "EventKey \<Rightarrow> EventKey \<Rightarrow> bool" where
  "key_less a b = (key_ts a < key_ts b \<or> (key_ts a = key_ts b \<and> key_uid a < key_uid b))"

definition ev_less :: "Event \<Rightarrow> Event \<Rightarrow> bool" where
  "ev_less a b = key_less (ev_key a) (ev_key b)"

abbreviation ev_uid :: "Event \<Rightarrow> u32" where
  "ev_uid e \<equiv> key_uid (ev_key e)"

abbreviation ev_ts :: "Event \<Rightarrow> u64" where
  "ev_ts e \<equiv> key_ts (ev_key e)"

record 's scheduler_ops =
  op_Insert :: "'s \<Rightarrow> Event \<Rightarrow> 's res"
  op_IsEmpty :: "'s \<Rightarrow> bool"
  op_PeekNext :: "'s \<Rightarrow> Event res"
  op_RemoveNext :: "'s \<Rightarrow> (Event \<times> 's) res"
  op_Remove :: "'s \<Rightarrow> Event \<Rightarrow> 's res"

section \<open>ListScheduler\<close>

fun ListScheduler_Insert :: "Event list \<Rightarrow> Event \<Rightarrow> Event list" where
  "ListScheduler_Insert [] ev = [ev]"
| "ListScheduler_Insert (i # is) ev =
     (if key_less (ev_key ev) (ev_key i) then ev # i # is else i # ListScheduler_Insert is ev)"

definition ListScheduler_IsEmpty :: "Event list \<Rightarrow> bool" where
  "ListScheduler_IsEmpty m_events = (m_events = [])"

definition ListScheduler_PeekNext :: "Event list \<Rightarrow> Event res" where
  "ListScheduler_PeekNext m_events =
     (case m_events of [] \<Rightarrow> Inl (UB ''front'') | e # _ \<Rightarrow> Inr e)"

definition ListScheduler_RemoveNext :: "Event list \<Rightarrow> (Event \<times> Event list) res" where
  "ListScheduler_RemoveNext m_events =
     (case m_events of [] \<Rightarrow> Inl (UB ''front'') | next # rest \<Rightarrow> Inr (next, rest))"

fun ListScheduler_Remove :: "Event list \<Rightarrow> Event \<Rightarrow> Event list res" where
  "ListScheduler_Remove [] ev = Inl (NS_ASSERT ''false'')"
| "ListScheduler_Remove (i # is) ev =
     (if ev_uid i = ev_uid ev
      then ns_assert (ev_impl ev = ev_impl i) ''ev.impl == i->impl'' (Inr is)
      else res_bind (ListScheduler_Remove is ev) (\<lambda>r. Inr (i # r)))"

definition ListScheduler :: "Event list scheduler_ops" where
  "ListScheduler = \<lparr>op_Insert = (\<lambda>s e. Inr (ListScheduler_Insert s e)),
     op_IsEmpty = ListScheduler_IsEmpty, op_PeekNext = ListScheduler_PeekNext,
     op_RemoveNext = ListScheduler_RemoveNext, op_Remove = ListScheduler_Remove\<rparr>"

section \<open>MapScheduler\<close>

text \<open>
  \<open>std::map<EventKey, EventImpl*>\<close> as its in-order sequence of entries, under the comparison
  \<open>operator<\<close> of the key. Two keys are the same entry when neither is less than the other.
\<close>

type_synonym event_map = "(EventKey \<times> nat) list"

fun std_map_insert :: "event_map \<Rightarrow> EventKey \<Rightarrow> nat \<Rightarrow> event_map \<times> bool" where
  "std_map_insert [] k v = ([(k, v)], True)"
| "std_map_insert ((k', v') # m) k v =
     (if key_less k k' then ((k, v) # (k', v') # m, True)
      else if key_less k' k
      then (let (m', r) = std_map_insert m k v in ((k', v') # m', r))
      else ((k', v') # m, False))"

fun std_map_find :: "event_map \<Rightarrow> EventKey \<Rightarrow> (EventKey \<times> nat) option" where
  "std_map_find [] k = None"
| "std_map_find ((k', v') # m) k =
     (if \<not> key_less k k' \<and> \<not> key_less k' k then Some (k', v') else std_map_find m k)"

fun std_map_erase :: "event_map \<Rightarrow> EventKey \<Rightarrow> event_map" where
  "std_map_erase [] k = []"
| "std_map_erase ((k', v') # m) k =
     (if \<not> key_less k k' \<and> \<not> key_less k' k then m else (k', v') # std_map_erase m k)"

definition MapScheduler_Insert :: "event_map \<Rightarrow> Event \<Rightarrow> event_map res" where
  "MapScheduler_Insert m_list ev =
     (let (m, inserted) = std_map_insert m_list (ev_key ev) (ev_impl ev)
      in ns_assert inserted ''result.second'' (Inr m))"

definition MapScheduler_IsEmpty :: "event_map \<Rightarrow> bool" where
  "MapScheduler_IsEmpty m_list = (m_list = [])"

definition MapScheduler_PeekNext :: "event_map \<Rightarrow> Event res" where
  "MapScheduler_PeekNext m_list =
     (case m_list of [] \<Rightarrow> Inl (NS_ASSERT ''i != m_list.end()'')
      | (k, v) # _ \<Rightarrow> Inr (Event v k))"

definition MapScheduler_RemoveNext :: "event_map \<Rightarrow> (Event \<times> event_map) res" where
  "MapScheduler_RemoveNext m_list =
     (case m_list of [] \<Rightarrow> Inl (NS_ASSERT ''i != m_list.end()'')
      | (k, v) # m \<Rightarrow> Inr (Event v k, m))"

definition MapScheduler_Remove :: "event_map \<Rightarrow> Event \<Rightarrow> event_map res" where
  "MapScheduler_Remove m_list ev =
     (case std_map_find m_list (ev_key ev) of
        None \<Rightarrow> Inl (UB ''dereference of end()'')
      | Some (k, v) \<Rightarrow>
          ns_assert (v = ev_impl ev) ''i->second == ev.impl''
            (Inr (std_map_erase m_list (ev_key ev))))"

definition MapScheduler :: "event_map scheduler_ops" where
  "MapScheduler = \<lparr>op_Insert = MapScheduler_Insert,
     op_IsEmpty = MapScheduler_IsEmpty, op_PeekNext = MapScheduler_PeekNext,
     op_RemoveNext = MapScheduler_RemoveNext, op_Remove = MapScheduler_Remove\<rparr>"

section \<open>The order of keys\<close>

text \<open>The rank of a key as one number: \<open>operator<\<close> compares ranks.\<close>

definition key_num :: "EventKey \<Rightarrow> nat" where
  "key_num k = unat (key_ts k) * 2 ^ 32 + unat (key_uid k)"

abbreviation ev_num :: "Event \<Rightarrow> nat" where
  "ev_num e \<equiv> key_num (ev_key e)"

lemma lex_pair_less:
  fixes a b c d n :: nat
  assumes "c < n" and "d < n"
  shows "a * n + c < b * n + d \<longleftrightarrow> a < b \<or> (a = b \<and> c < d)"
proof -
  have *: "a * n + c < b * n + d" if "a < b" "c < n" for a b c d
  proof -
    from that(1) have "(a + 1) * n \<le> b * n" by (intro mult_right_mono) auto
    with that(2) show ?thesis by (simp add: algebra_simps)
  qed
  show ?thesis
  proof (cases a b rule: linorder_cases)
    case less
    then show ?thesis using *[of a b c d] assms by simp
  next
    case equal
    then show ?thesis by simp
  next
    case greater
    then show ?thesis using *[of b a d c] assms by simp
  qed
qed

lemma unat_u32_less: "unat (x :: u32) < 2 ^ 32"
  using unsigned_less [of x, where 'a = nat] by simp

lemma key_less_num: "key_less a b \<longleftrightarrow> key_num a < key_num b"
  unfolding key_num_def lex_pair_less [OF unat_u32_less unat_u32_less]
  by (auto simp: key_less_def word_less_nat_alt word_unat_eq_iff)

lemma key_num_eq: "key_num a = key_num b \<longleftrightarrow> key_ts a = key_ts b \<and> key_uid a = key_uid b"
proof
  assume "key_num a = key_num b"
  then have "\<not> key_less a b" "\<not> key_less b a" by (simp_all add: key_less_num)
  then show "key_ts a = key_ts b \<and> key_uid a = key_uid b"
    unfolding key_less_def by (metis linorder_neqE)
qed (simp add: key_num_def)

lemma ev_less_num: "ev_less a b \<longleftrightarrow> ev_num a < ev_num b"
  by (simp add: ev_less_def key_less_num)

lemma ts_mono_num: "ev_num a \<le> ev_num b \<Longrightarrow> ev_ts a \<le> ev_ts b"
  unfolding linorder_not_less [symmetric] key_less_num [symmetric] key_less_def by simp

text \<open>
  \<open>EventKey\<close> as a linear order: \<open>operator<\<close> refined by the context where time stamp and uid
  agree, which lets the library's sorting apply to events.
\<close>

instantiation EventKey :: linorder
begin

definition less_eq_EventKey :: "EventKey \<Rightarrow> EventKey \<Rightarrow> bool" where
  "less_eq_EventKey a b =
     (key_less a b \<or> (key_num a = key_num b \<and> key_context a \<le> key_context b))"

definition less_EventKey :: "EventKey \<Rightarrow> EventKey \<Rightarrow> bool" where
  "less_EventKey a b =
     (key_less a b \<or> (key_num a = key_num b \<and> key_context a < key_context b))"

instance
proof
  fix x y z :: EventKey
  show "x < y \<longleftrightarrow> x \<le> y \<and> \<not> y \<le> x"
    by (auto simp: less_eq_EventKey_def less_EventKey_def key_less_num)
  show "x \<le> x" by (simp add: less_eq_EventKey_def)
  show "x \<le> y \<Longrightarrow> y \<le> z \<Longrightarrow> x \<le> z"
    by (auto simp: less_eq_EventKey_def key_less_num)
  show "x = y" if "x \<le> y" "y \<le> x"
  proof -
    from that have "key_num x = key_num y \<and> key_context x = key_context y"
      by (auto simp: less_eq_EventKey_def key_less_num)
    then show ?thesis by (simp add: key_num_eq EventKey.expand)
  qed
  show "x \<le> y \<or> y \<le> x"
    by (auto simp: less_eq_EventKey_def key_less_num)
qed

end

lemma key_le_num: "a \<le> b \<Longrightarrow> key_num a \<le> key_num (b :: EventKey)"
  by (auto simp: less_eq_EventKey_def key_less_num)

lemma num_le_key: "key_uid a \<noteq> key_uid b \<Longrightarrow> key_num a \<le> key_num b \<Longrightarrow> a \<le> (b :: EventKey)"
  by (auto simp: less_eq_EventKey_def key_less_num key_num_eq le_less)

section \<open>The contract of an event list\<close>

definition fresh :: "Event \<Rightarrow> Event multiset \<Rightarrow> bool" where
  "fresh e M = (\<forall>f \<in># M. ev_uid f \<noteq> ev_uid e)"

definition unique_uids :: "Event multiset \<Rightarrow> bool" where
  "unique_uids M = (\<forall>u. size (filter_mset (\<lambda>e. ev_uid e = u) M) \<le> 1)"

lemma unique_uids_empty [simp]: "unique_uids {#}"
  by (simp add: unique_uids_def)

lemma fresh_filter: "fresh e M \<longleftrightarrow> filter_mset (\<lambda>f. ev_uid f = ev_uid e) M = {#}"
  by (auto simp: fresh_def filter_mset_eq_conv multiset_eq_iff count_eq_zero_iff)

lemma unique_uids_add: "unique_uids (add_mset e M) \<longleftrightarrow> fresh e M \<and> unique_uids M"
proof
  assume u: "unique_uids (add_mset e M)"
  have "fresh e M" using spec [OF u [unfolded unique_uids_def], of "ev_uid e"]
    by (simp add: fresh_filter)
  moreover have "unique_uids M"
    unfolding unique_uids_def
  proof
    fix x
    have "size {#f \<in># M. ev_uid f = x#} \<le> size {#f \<in># add_mset e M. ev_uid f = x#}"
      by (intro size_mset_mono multiset_filter_mono) simp
    with u show "size {#f \<in># M. ev_uid f = x#} \<le> 1"
      unfolding unique_uids_def by (meson le_trans)
  qed
  ultimately show "fresh e M \<and> unique_uids M" ..
next
  assume "fresh e M \<and> unique_uids M"
  then show "unique_uids (add_mset e M)" by (auto simp: unique_uids_def fresh_filter)
qed

text \<open>Insert a sequence of events; take the next event \<open>n\<close> times.\<close>

definition insert_all :: "'s scheduler_ops \<Rightarrow> Event list \<Rightarrow> 's \<Rightarrow> 's res" where
  "insert_all ops es s = for_each (op_Insert ops) es s"

fun remove_n :: "'s scheduler_ops \<Rightarrow> nat \<Rightarrow> 's \<Rightarrow> Event list res" where
  "remove_n ops 0 s = Inr []"
| "remove_n ops (Suc n) s =
     res_bind (op_RemoveNext ops s)
       (\<lambda>(e, s'). res_bind (remove_n ops n s') (\<lambda>es. Inr (e # es)))"

lemma sorted_num_sort_key:
  assumes "distinct (map ev_uid es)" and "mset xs = mset es" and "sorted (map ev_num xs)"
  shows "sort_key ev_key es = xs"
proof -
  have uid: "distinct (map ev_uid xs)" using assms
    by (metis mset_map mset_eq_imp_distinct_iff)
  have "sorted_wrt (\<lambda>a b. ev_key a \<le> ev_key b) xs"
    using assms(3) uid by (induction xs) (auto simp: image_iff intro!: num_le_key)
  then have "sorted (map ev_key xs)" by (simp add: sorted_wrt_map)
  moreover have "inj_on ev_key (set es)"
    using assms(1) by (auto simp: distinct_map inj_on_def)
  ultimately show ?thesis
    using assms(2) by (metis sort_key_inj_key_eq)
qed

lemma unique_uids_mset: "unique_uids (mset es) \<longleftrightarrow> distinct (map ev_uid es)"
  by (induction es) (auto simp: unique_uids_add fresh_def image_iff)

text \<open>
  \<open>lo s\<close> and \<open>hi\<close> bound the time stamps that the event list takes: the list, the map and the heap
  take all, a calendar queue none before the last event it delivered. \<open>RemoveNext\<close> never raises
  the lower bound above the event it returns, so a client whose clock follows the events, as the
  simulator does, may always insert at the current time or later.
\<close>

locale event_list =
  fixes ops :: "'s scheduler_ops"
    and empty :: 's
    and invar :: "'s \<Rightarrow> bool"
    and evs :: "'s \<Rightarrow> Event multiset"
    and lo :: "'s \<Rightarrow> u64"
    and hi :: u64
  assumes invar_empty: "invar empty"
    and evs_empty: "evs empty = {#}"
    and lo_empty: "lo empty = 0"
    and hi_bound: "- 2 \<le> hi"
    and IsEmpty: "invar s \<Longrightarrow> op_IsEmpty ops s \<longleftrightarrow> evs s = {#}"
    and Insert: "invar s \<Longrightarrow> fresh e (evs s) \<Longrightarrow> lo s \<le> ev_ts e \<Longrightarrow> ev_ts e \<le> hi \<Longrightarrow>
      size (evs s) + 1 < 2 ^ 32 \<Longrightarrow>
      \<exists>s'. op_Insert ops s e = Inr s' \<and> invar s' \<and> evs s' = add_mset e (evs s) \<and> lo s' = lo s"
    and PeekNext: "invar s \<Longrightarrow> evs s \<noteq> {#} \<Longrightarrow>
      \<exists>e. op_PeekNext ops s = Inr e \<and> e \<in># evs s \<and> (\<forall>f \<in># evs s. \<not> ev_less f e)"
    and RemoveNext: "invar s \<Longrightarrow> op_PeekNext ops s = Inr e \<Longrightarrow> evs s \<noteq> {#} \<Longrightarrow>
      \<exists>s'. op_RemoveNext ops s = Inr (e, s') \<and> invar s' \<and> evs s = add_mset e (evs s') \<and> lo s' \<le> ev_ts e"
begin

lemma remove_next:
  assumes "invar s" and "evs s \<noteq> {#}"
  obtains e s' where "op_RemoveNext ops s = Inr (e, s')" and "invar s'" and "lo s' \<le> ev_ts e"
    and "evs s = add_mset e (evs s')" and "\<forall>f \<in># evs s. ev_num e \<le> ev_num f"
proof -
  from PeekNext [OF assms] obtain e where e: "op_PeekNext ops s = Inr e"
    "\<forall>f \<in># evs s. \<not> ev_less f e" by blast
  from RemoveNext [OF assms(1) e(1) assms(2)] obtain s' where
    "op_RemoveNext ops s = Inr (e, s')" "invar s'" "evs s = add_mset e (evs s')" "lo s' \<le> ev_ts e" by blast
  with e(2) show thesis by (intro that) (auto simp: ev_less_num not_less)
qed

lemma insert_all_evs:
  assumes "invar s" and "distinct (map ev_uid es)" and "\<forall>e \<in> set es. fresh e (evs s)"
    and "\<forall>e \<in> set es. lo s \<le> ev_ts e \<and> ev_ts e \<le> hi" and "size (evs s) + length es < 2 ^ 32"
  shows "\<exists>s'. insert_all ops es s = Inr s' \<and> invar s' \<and> evs s' = evs s + mset es"
  using assms
proof (induction es arbitrary: s)
  case Nil
  then show ?case by (simp add: insert_all_def)
next
  case (Cons e es)
  then have "fresh e (evs s)" "lo s \<le> ev_ts e" "ev_ts e \<le> hi" "size (evs s) + 1 < 2 ^ 32" by auto
  from Insert [OF Cons.prems(1) this] obtain u where u: "op_Insert ops s e = Inr u"
    "invar u" "evs u = add_mset e (evs s)" "lo u = lo s" by blast
  have "\<forall>f \<in> set es. fresh f (evs u)"
    using Cons.prems(2,3) unfolding u(3) fresh_def by (auto simp: image_iff)
  with Cons.IH [OF u(2)] Cons.prems(2,4,5) show ?case
    by (auto simp: insert_all_def u)
qed

lemma remove_n_sorted:
  assumes "invar s" and "size (evs s) = n"
  shows "\<exists>es. remove_n ops n s = Inr es \<and> mset es = evs s \<and> sorted (map ev_num es)"
  using assms
proof (induction n arbitrary: s)
  case 0
  then show ?case by simp
next
  case (Suc n)
  then have "evs s \<noteq> {#}" by auto
  from remove_next [OF Suc.prems(1) this] obtain e s' where r:
    "op_RemoveNext ops s = Inr (e, s')" "invar s'" "evs s = add_mset e (evs s')"
    "\<forall>f \<in># evs s. ev_num e \<le> ev_num f" by metis
  with Suc.prems(2) have "size (evs s') = n" by simp
  from Suc.IH [OF r(2) this] obtain es where es:
    "remove_n ops n s' = Inr es" "mset es = evs s'" "sorted (map ev_num es)" by blast
  have "\<forall>f \<in> set es. ev_num e \<le> ev_num f"
    using r(3,4) es(2) by (metis set_mset_mset union_iff add_mset_add_single)
  with r es show ?case by simp
qed

text \<open>An event list sorts: what goes in comes out in the order of the keys.\<close>

lemma insert_remove_sorts:
  assumes "distinct (map ev_uid es)" and "\<forall>e \<in> set es. ev_ts e \<le> hi" and "length es < 2 ^ 32"
  shows "res_bind (insert_all ops es empty) (remove_n ops (length es)) = Inr (sort_key ev_key es)"
proof -
  have "\<exists>s. insert_all ops es empty = Inr s \<and> invar s \<and> evs s = evs empty + mset es"
    using assms by (intro insert_all_evs) (auto simp: invar_empty evs_empty lo_empty fresh_def)
  then obtain s where s: "insert_all ops es empty = Inr s" "invar s" "evs s = mset es"
    by (auto simp: evs_empty)
  from remove_n_sorted [OF s(2), of "length es"] s(3) obtain xs where xs:
    "remove_n ops (length es) s = Inr xs" "mset xs = mset es" "sorted (map ev_num xs)" by auto
  from sorted_num_sort_key [OF assms(1) this(2,3)] have "sort_key ev_key es = xs" .
  with s xs show ?thesis by simp
qed

end


locale event_list_remove = event_list ops empty invar evs lo hi
  for ops :: "'s scheduler_ops" and empty and invar and evs and lo and hi +
  assumes Remove: "invar s \<Longrightarrow> op_Remove ops s e = Inr s' \<Longrightarrow>
      \<exists>f. ev_uid f = ev_uid e \<and> ev_impl f = ev_impl e \<and> invar s' \<and> evs s = add_mset f (evs s') \<and>
        lo s' = lo s"
    and Remove_present: "invar s \<Longrightarrow> e \<in># evs s \<Longrightarrow>
      \<exists>s'. op_Remove ops s e = Inr s' \<and> invar s' \<and> evs s = add_mset e (evs s') \<and> lo s' = lo s"

text \<open>The bounds of an event list that takes every time stamp.\<close>

abbreviation any_time :: "'s \<Rightarrow> u64" where
  "any_time s \<equiv> 0"

section \<open>The list and the map keep the contract\<close>

definition list_sorted :: "Event list \<Rightarrow> bool" where
  "list_sorted es = (sorted (map ev_num es) \<and> distinct (map ev_uid es))"

lemma set_ListScheduler_Insert [simp]: "set (ListScheduler_Insert es e) = insert e (set es)"
  by (induction es) auto

lemma mset_ListScheduler_Insert [simp]:
  "mset (ListScheduler_Insert es e) = add_mset e (mset es)"
  by (induction es) auto

lemma ListScheduler_Insert_sorted:
  assumes "list_sorted es" and "ev_uid e \<notin> ev_uid ` set es"
  shows "list_sorted (ListScheduler_Insert es e)"
  using assms unfolding list_sorted_def
  by (induction es) (auto simp: key_less_num)

lemma ListScheduler_Remove_present:
  assumes "distinct (map ev_uid es)" and "e \<in> set es"
  shows "ListScheduler_Remove es e = Inr (remove1 e es)"
  using assms
proof (induction es)
  case (Cons f es)
  then show ?case by (cases "f = e") (auto simp: image_iff)
qed simp

interpretation list_events: event_list ListScheduler "[]" list_sorted mset any_time "- 1"
proof (standard, goal_cases)
  case (6 s e)
  then show ?case
    by (auto simp: ListScheduler_def fresh_def intro!: ListScheduler_Insert_sorted)
next
  case (7 s)
  then show ?case
    by (cases s) (auto simp: ListScheduler_def ListScheduler_PeekNext_def list_sorted_def
        ev_less_num not_less)
next
  case (8 s e)
  then show ?case
    by (cases s) (auto simp: ListScheduler_def ListScheduler_PeekNext_def
        ListScheduler_RemoveNext_def list_sorted_def)
qed (auto simp: list_sorted_def ListScheduler_def ListScheduler_IsEmpty_def)

text \<open>A map entry as the event it stands for; the map scheduler is then a sorted list.\<close>

definition map_events :: "event_map \<Rightarrow> Event list" where
  "map_events m = map (\<lambda>(k, v). Event v k) m"

lemma map_events_simps [simp]:
  "map_events [] = []" "map_events ((k, v) # m) = Event v k # map_events m"
  by (simp_all add: map_events_def)

lemma std_map_insert_fresh:
  assumes "list_sorted (map_events m)" and "key_uid k \<notin> ev_uid ` set (map_events m)"
  shows "\<exists>m'. std_map_insert m k v = (m', True) \<and>
    map_events m' = ListScheduler_Insert (map_events m) (Event v k)"
  using assms
proof (induction m)
  case (Cons kv m)
  obtain k' v' where kv: "kv = (k', v')" by (cases kv)
  from Cons.prems have "list_sorted (map_events m)" and "key_uid k \<notin> ev_uid ` set (map_events m)"
    by (auto simp: kv list_sorted_def)
  with Cons.IH obtain m' where m': "std_map_insert m k v = (m', True)"
    "map_events m' = ListScheduler_Insert (map_events m) (Event v k)" by blast
  have "key_num k \<noteq> key_num k'" using Cons.prems by (auto simp: kv key_num_eq)
  then show ?case using m' by (auto simp: kv key_less_num)
qed simp

lemma std_map_find_present:
  assumes "distinct (map ev_uid (map_events m))" and "e \<in> set (map_events m)"
  shows "std_map_find m (ev_key e) = Some (ev_key e, ev_impl e)"
    and "map_events (std_map_erase m (ev_key e)) = remove1 e (map_events m)"
proof -
  have "std_map_find m (ev_key e) = Some (ev_key e, ev_impl e) \<and>
      map_events (std_map_erase m (ev_key e)) = remove1 e (map_events m)"
    using assms
  proof (induction m)
    case (Cons kv m)
    obtain k' v' where kv: "kv = (k', v')" by (cases kv)
    show ?case
    proof (cases "e = Event v' k'")
      case True
      then show ?thesis by (auto simp: kv key_less_num)
    next
      case False
      then have e: "e \<in> set (map_events m)" using Cons.prems(2) by (auto simp: kv)
      with Cons.prems(1) have "key_uid k' \<noteq> ev_uid e" by (auto simp: kv image_iff)
      then have "key_num (ev_key e) \<noteq> key_num k'" by (auto simp: key_num_eq)
      with Cons.IH Cons.prems(1) e False show ?thesis
        by (auto simp: kv key_less_num)
    qed
  qed simp
  then show "std_map_find m (ev_key e) = Some (ev_key e, ev_impl e)"
    and "map_events (std_map_erase m (ev_key e)) = remove1 e (map_events m)" by auto
qed

interpretation map_evlist: event_list MapScheduler "[]" "\<lambda>m. list_sorted (map_events m)"
  "\<lambda>m. mset (map_events m)" any_time "- 1"
proof (standard, goal_cases)
  case (6 m e)
  then have "key_uid (ev_key e) \<notin> ev_uid ` set (map_events m)" by (auto simp: fresh_def)
  from std_map_insert_fresh [OF 6(1) this, of "ev_impl e"] ListScheduler_Insert_sorted [OF 6(1) this]
  show ?case by (auto simp: MapScheduler_def MapScheduler_Insert_def)
next
  case (7 m)
  then show ?case
    by (cases m) (auto simp: MapScheduler_def MapScheduler_PeekNext_def list_sorted_def
        ev_less_num not_less)
next
  case (8 m e)
  then show ?case
    by (cases m) (auto simp: MapScheduler_def MapScheduler_PeekNext_def
        MapScheduler_RemoveNext_def list_sorted_def)
qed (auto simp: list_sorted_def MapScheduler_def MapScheduler_IsEmpty_def map_events_def)

lemma std_map_find_Some:
  "std_map_find m k = Some (k', v) \<Longrightarrow> Event v k' \<in> set (map_events m) \<and> key_num k' = key_num k"
  by (induction m k rule: std_map_find.induct) (auto simp: key_less_num split: if_splits)

lemma std_map_erase_num: "key_num k = key_num k' \<Longrightarrow> std_map_erase m k = std_map_erase m k'"
  by (induction m) (auto simp: key_less_num)

lemma list_sorted_remove1: "list_sorted es \<Longrightarrow> list_sorted (remove1 e es)"
  unfolding list_sorted_def
  by (induction es) (auto simp: image_iff dest: notin_set_remove1)

lemma mset_remove1_present: "e \<in> set es \<Longrightarrow> mset es = add_mset e (mset (remove1 e es))"
  by simp

lemma ListScheduler_Remove_some:
  "ListScheduler_Remove es e = Inr es' \<Longrightarrow>
    \<exists>f \<in> set es. ev_uid f = ev_uid e \<and> ev_impl f = ev_impl e"
  by (induction es arbitrary: es') (auto simp: res_simps split: if_splits)

lemma ListScheduler_Remove_Inr:
  assumes "distinct (map ev_uid es)" and "ListScheduler_Remove es e = Inr es'"
  obtains f where "f \<in> set es" and "ev_uid f = ev_uid e" and "ev_impl f = ev_impl e" and "es' = remove1 f es"
proof -
  from ListScheduler_Remove_some [OF assms(2)] obtain f where
    f: "f \<in> set es" "ev_uid f = ev_uid e" "ev_impl f = ev_impl e" by blast
  have "ListScheduler_Remove es f = ListScheduler_Remove es e"
    using f(2,3) by (induction es) auto
  with assms(2) ListScheduler_Remove_present [OF assms(1) f(1)] have "es' = remove1 f es" by simp
  with f show thesis by (rule that)
qed

text \<open>Both remove the one event with the given uid.\<close>

interpretation list_removal: event_list_remove ListScheduler "[]" list_sorted mset any_time "- 1"
proof (standard, goal_cases)
  case (1 s e s')
  then have "ListScheduler_Remove s e = Inr s'" "distinct (map ev_uid s)"
    by (auto simp: ListScheduler_def list_sorted_def)
  then obtain f where "f \<in> set s" "ev_uid f = ev_uid e" "ev_impl f = ev_impl e" "s' = remove1 f s"
    by (metis ListScheduler_Remove_Inr)
  then show ?case using 1 by (intro exI [of _ f]) (auto intro: list_sorted_remove1)
next
  case (2 s e)
  then show ?case
    by (auto simp: ListScheduler_def ListScheduler_Remove_present list_sorted_remove1 list_sorted_def [of s])
qed

interpretation map_removal: event_list_remove MapScheduler "[]"
  "\<lambda>m. list_sorted (map_events m)" "\<lambda>m. mset (map_events m)" any_time "- 1"
proof (standard, goal_cases)
  case (1 m e m')
  from 1(2) obtain k where k: "std_map_find m (ev_key e) = Some (k, ev_impl e)"
    and m': "m' = std_map_erase m (ev_key e)"
    by (auto simp: MapScheduler_def MapScheduler_Remove_def res_simps split: option.splits)
  let ?f = "Event (ev_impl e) k"
  from std_map_find_Some [OF k] have f: "?f \<in> set (map_events m)"
    and num: "key_num k = key_num (ev_key e)" by auto
  have "map_events m' = remove1 ?f (map_events m)"
    using std_map_find_present(2) [OF _ f] 1(1) std_map_erase_num [OF num]
    by (simp add: m' list_sorted_def)
  with f num 1(1) show ?case
    by (intro exI [of _ ?f]) (auto simp: key_num_eq list_sorted_remove1)
next
  case (2 m e)
  then have e: "e \<in> set (map_events m)" and d: "distinct (map ev_uid (map_events m))"
    by (auto simp: list_sorted_def)
  show ?case using std_map_find_present [OF d e] 2(1) e
    by (auto simp: MapScheduler_def MapScheduler_Remove_def list_sorted_remove1)
qed

end
