(* ===== verification/NsHeapScheduler.thy ===== *)
theory NsHeapScheduler
  imports NsScheduler
begin

text \<open>
  The binary heap event list of the ns-3 core (\<open>src/core/model/heap-scheduler.cc\<close>): the array
  operations, \<open>BottomUp\<close> and \<open>TopDown\<close>, the heap order they restore, and the interpretation of the
  event list contract. \<open>Remove\<close> only sifts the moved element down; a theorem gives the heaps on
  which it is right and another a heap on which it is not.
\<close>

section \<open>HeapScheduler\<close>

text \<open>
  \<open>m_heap\<close> is an array whose entry 0 is a dummy, so that the root has index 1.
\<close>

type_synonym event_heap = "Event list"

definition HeapScheduler_new :: event_heap where
  "HeapScheduler_new = [Event 0 (EventKey 0 0 0)]"

definition Parent :: "nat \<Rightarrow> nat" where
  "Parent i = i div 2"

definition LeftChild :: "nat \<Rightarrow> nat" where
  "LeftChild i = i * 2"

definition RightChild :: "nat \<Rightarrow> nat" where
  "RightChild i = i * 2 + 1"

definition Root :: nat where
  "Root = 1"

definition IsRoot :: "nat \<Rightarrow> bool" where
  "IsRoot i = (i = Root)"

definition Last :: "event_heap \<Rightarrow> nat" where
  "Last h = length h - 1"

definition IsBottom :: "event_heap \<Rightarrow> nat \<Rightarrow> bool" where
  "IsBottom h i = (length h \<le> i)"

definition Exch :: "event_heap \<Rightarrow> nat \<Rightarrow> nat \<Rightarrow> event_heap" where
  "Exch h a b = h[a := h ! b, b := h ! a]"

definition IsLessStrictly :: "event_heap \<Rightarrow> nat \<Rightarrow> nat \<Rightarrow> bool" where
  "IsLessStrictly h a b = ev_less (h ! a) (h ! b)"

definition Smallest :: "event_heap \<Rightarrow> nat \<Rightarrow> nat \<Rightarrow> nat" where
  "Smallest h a b = (if IsLessStrictly h a b then a else b)"

definition HeapScheduler_IsEmpty :: "event_heap \<Rightarrow> bool" where
  "HeapScheduler_IsEmpty h = (length h = 1)"

function BottomUp_loop :: "event_heap \<Rightarrow> nat \<Rightarrow> event_heap" where
  "BottomUp_loop h index =
     (if \<not> IsRoot index \<and> IsLessStrictly h index (Parent index)
      then BottomUp_loop (Exch h index (Parent index)) (Parent index) else h)"
  by pat_completeness auto
termination
proof (relation "measure snd", goal_cases)
  case 1
  then show ?case by simp
next
  case (2 h index)
  have "index \<noteq> 0"
  proof
    assume "index = 0"
    with 2 show False by (simp add: IsLessStrictly_def ev_less_def key_less_def Parent_def)
  qed
  then show ?case by (simp add: Parent_def)
qed

definition BottomUp :: "event_heap \<Rightarrow> event_heap" where
  "BottomUp h = BottomUp_loop h (Last h)"

text \<open>
  The \<open>while\<close> loop of \<open>TopDown\<close> and the code after it. The loop advances because a child's index
  is larger than its parent's, which needs \<open>index \<noteq> 0\<close>: the callers pass \<open>Root()\<close> or an index
  that starts counting at 1, and the guard keeps the model total on index 0.
\<close>

definition TopDown_tail :: "event_heap \<Rightarrow> nat \<Rightarrow> event_heap" where
  "TopDown_tail h index =
     (if IsBottom h index then h
      else (let left = LeftChild index in
        if IsBottom h left then h
        else if IsLessStrictly h index left then h
        else Exch h index left))"

function TopDown :: "event_heap \<Rightarrow> nat \<Rightarrow> event_heap" where
  "TopDown h index =
     (if index \<noteq> 0 \<and> \<not> IsBottom h (RightChild index)
      then (let left = LeftChild index; tmp = Smallest h left (RightChild index) in
        if IsLessStrictly h index tmp then h
        else TopDown (Exch h index tmp) tmp)
      else TopDown_tail h index)"
  by pat_completeness auto
termination
  by (relation "measure (\<lambda>(h, index). length h - index)")
    (auto simp: Smallest_def LeftChild_def RightChild_def IsBottom_def Exch_def)

definition HeapScheduler_Insert :: "event_heap \<Rightarrow> Event \<Rightarrow> event_heap" where
  "HeapScheduler_Insert h ev = BottomUp (h @ [ev])"

definition HeapScheduler_PeekNext :: "event_heap \<Rightarrow> Event res" where
  "HeapScheduler_PeekNext h =
     (if Root < length h then Inr (h ! Root) else Inl (UB ''m_heap[Root()]''))"

definition HeapScheduler_RemoveNext :: "event_heap \<Rightarrow> (Event \<times> event_heap) res" where
  "HeapScheduler_RemoveNext h =
     (if Root < length h
      then Inr (h ! Root, TopDown (butlast (Exch h Root (Last h))) Root)
      else Inl (UB ''m_heap[Root()]''))"

text \<open>The linear search of \<open>Remove\<close>, from index \<open>i\<close> on.\<close>

function HeapScheduler_Remove_from :: "event_heap \<Rightarrow> Event \<Rightarrow> nat \<Rightarrow> event_heap res" where
  "HeapScheduler_Remove_from h ev i =
     (if i < length h
      then if ev_uid ev = ev_uid (h ! i)
           then ns_assert (ev_impl (h ! i) = ev_impl ev) ''m_heap[i].impl == ev.impl''
                  (Inr (TopDown (butlast (Exch h i (Last h))) i))
           else HeapScheduler_Remove_from h ev (i + 1)
      else Inl (NS_ASSERT ''false''))"
  by pat_completeness auto
termination
  by (relation "measure (\<lambda>(h, ev, i). length h - i)") auto

definition HeapScheduler_Remove :: "event_heap \<Rightarrow> Event \<Rightarrow> event_heap res" where
  "HeapScheduler_Remove h ev = HeapScheduler_Remove_from h ev 1"

definition HeapScheduler :: "event_heap scheduler_ops" where
  "HeapScheduler = \<lparr>op_Insert = (\<lambda>s e. Inr (HeapScheduler_Insert s e)),
     op_IsEmpty = HeapScheduler_IsEmpty, op_PeekNext = HeapScheduler_PeekNext,
     op_RemoveNext = HeapScheduler_RemoveNext, op_Remove = HeapScheduler_Remove\<rparr>"

declare BottomUp_loop.simps [simp del] TopDown.simps [simp del]
  HeapScheduler_Remove_from.simps [simp del]



section \<open>The heap order\<close>

definition heap_num :: "event_heap \<Rightarrow> nat \<Rightarrow> nat" where
  "heap_num h i = ev_num (h ! i)"

definition heap_ok :: "event_heap \<Rightarrow> bool" where
  "heap_ok h = (\<forall>i. 2 \<le> i \<and> i < length h \<longrightarrow> heap_num h (i div 2) \<le> heap_num h i)"

text \<open>The order everywhere but between index \<open>k\<close> and its parent, or its children.\<close>

definition heap_except_up :: "event_heap \<Rightarrow> nat \<Rightarrow> bool" where
  "heap_except_up h k =
     ((\<forall>i. 2 \<le> i \<and> i < length h \<and> i \<noteq> k \<longrightarrow> heap_num h (i div 2) \<le> heap_num h i) \<and>
      (\<forall>i. 2 \<le> i \<and> i < length h \<and> i div 2 = k \<and> 2 \<le> k \<longrightarrow> heap_num h (k div 2) \<le> heap_num h i))"

definition heap_except_down :: "event_heap \<Rightarrow> nat \<Rightarrow> bool" where
  "heap_except_down h k =
     ((\<forall>i. 2 \<le> i \<and> i < length h \<and> i div 2 \<noteq> k \<longrightarrow> heap_num h (i div 2) \<le> heap_num h i) \<and>
      (\<forall>i. 2 \<le> i \<and> i < length h \<and> i div 2 = k \<and> 2 \<le> k \<longrightarrow> heap_num h (k div 2) \<le> heap_num h i))"

definition heap_events :: "event_heap \<Rightarrow> Event multiset" where
  "heap_events h = mset (tl h)"

text \<open>An event with time stamp \<open>t\<close> and uid \<open>u\<close>, for concrete schedules.\<close>

definition ev_at :: "u64 \<Rightarrow> u32 \<Rightarrow> Event" where
  "ev_at t u = Event (unat u) (EventKey t u 0)"

definition heap_invar :: "event_heap \<Rightarrow> bool" where
  "heap_invar h = (h \<noteq> [] \<and> heap_ok h \<and> distinct (map ev_uid (tl h)))"

lemma length_Exch [simp]: "length (Exch h a b) = length h"
  by (simp add: Exch_def)

lemma heap_num_Exch:
  "a < length h \<Longrightarrow> b < length h \<Longrightarrow>
   heap_num (Exch h a b) i = (if i = b then heap_num h a else if i = a then heap_num h b else heap_num h i)"
  by (auto simp: Exch_def heap_num_def nth_list_update)

lemma mset_tl_Exch:
  assumes "1 \<le> a" "1 \<le> b" "a < length h" "b < length h"
  shows "mset (tl (Exch h a b)) = mset (tl h)"
proof -
  have "mset (Exch h a b) = mset h"
    unfolding Exch_def using mset_swap [OF assms(4,3)] by simp
  moreover have "hd (Exch h a b) = hd h"
    using assms by (cases h) (auto simp: Exch_def list_update_def split: nat.splits)
  moreover have "h \<noteq> []" "Exch h a b \<noteq> []" using assms by (auto simp: Exch_def)
  ultimately show ?thesis by (metis add_mset_remove_trivial mset.simps(2) list.collapse)
qed

lemma IsLessStrictly_num: "IsLessStrictly h a b \<longleftrightarrow> heap_num h a < heap_num h b"
  by (simp add: IsLessStrictly_def ev_less_num heap_num_def)

lemma heap_root_le:
  assumes "heap_ok h" and "1 \<le> i" and "i < length h"
  shows "heap_num h 1 \<le> heap_num h i"
  using assms(2,3)
proof (induction i rule: less_induct)
  case (less i)
  show ?case
  proof (cases "i = 1")
    case False
    with less.prems have "2 \<le> i" by simp
    then have "heap_num h (i div 2) \<le> heap_num h i"
      using assms(1) less.prems by (simp add: heap_ok_def)
    moreover have "heap_num h 1 \<le> heap_num h (i div 2)"
      using less.IH [of "i div 2"] less.prems \<open>2 \<le> i\<close> by simp
    ultimately show ?thesis by simp
  qed simp
qed

section \<open>BottomUp\<close>

lemma BottomUp_loop_step:
  assumes "heap_except_up h k" and "2 \<le> k" "k < length h"
    and "heap_num h k < heap_num h (k div 2)"
  shows "heap_except_up (Exch h k (k div 2)) (k div 2)"
proof -
  let ?p = "k div 2"
  have p: "?p < length h" "?p \<noteq> k" "1 \<le> ?p" using assms by auto
  note num = heap_num_Exch [OF assms(3) p(1)]
  have up: "heap_num h (i div 2) \<le> heap_num h i" if "2 \<le> i" "i < length h" "i \<noteq> k" for i
    using assms(1) that by (simp add: heap_except_up_def)
  have skip: "heap_num h ?p \<le> heap_num h i" if "2 \<le> i" "i < length h" "i div 2 = k" for i
    using assms(1,2) that by (simp add: heap_except_up_def)
  have 1: "heap_num (Exch h k ?p) (i div 2) \<le> heap_num (Exch h k ?p) i"
    if i: "2 \<le> i" "i < length h" "i \<noteq> ?p" for i
  proof (cases "i = k")
    case True
    then show ?thesis using assms(4) p by (simp add: num)
  next
    case False
    then show ?thesis using up [OF i(1,2) False] skip [OF i(1,2)] i(3) assms(4) p(2)
      by (auto simp: num)
  qed
  have 2: "heap_num (Exch h k ?p) (?p div 2) \<le> heap_num (Exch h k ?p) i"
    if i: "2 \<le> i" "i < length h" "i div 2 = ?p" "2 \<le> ?p" for i
  proof -
    have "?p div 2 \<noteq> k" "?p div 2 \<noteq> ?p" using i(4) by auto
    moreover have "heap_num h (?p div 2) \<le> heap_num h ?p"
      using up [of ?p] i(4) p by simp
    moreover have "i \<noteq> ?p" using i by auto
    ultimately show ?thesis using up [OF i(1,2)] i(3) p(2) by (auto simp: num)
  qed
  show ?thesis unfolding heap_except_up_def using 1 2 by simp
qed

lemma BottomUp_loop_ok:
  assumes "heap_except_up h k" and "1 \<le> k" "k < length h"
  shows "heap_ok (BottomUp_loop h k) \<and> length (BottomUp_loop h k) = length h \<and>
    mset (tl (BottomUp_loop h k)) = mset (tl h)"
  using assms
proof (induction h k rule: BottomUp_loop.induct)
  case (1 h k)
  show ?case
  proof (cases "\<not> IsRoot k \<and> IsLessStrictly h k (Parent k)")
    case True
    then have k: "2 \<le> k" "heap_num h k < heap_num h (k div 2)"
      using 1(3) by (auto simp: IsRoot_def Root_def IsLessStrictly_num Parent_def)
    have "heap_except_up (Exch h k (k div 2)) (k div 2)"
      using BottomUp_loop_step [OF 1(2) k(1) 1(4) k(2)] .
    then show ?thesis using 1(1) [OF True] k(1) 1(4) True
      by (simp add: BottomUp_loop.simps [of h k] Parent_def mset_tl_Exch)
  next
    case False
    then have "k = 1 \<or> heap_num h (k div 2) \<le> heap_num h k"
      by (auto simp: IsRoot_def Root_def IsLessStrictly_num Parent_def)
    with 1(2) have "heap_ok h" by (auto simp: heap_ok_def heap_except_up_def)
    with False show ?thesis by (auto simp: BottomUp_loop.simps [of h k])
  qed
qed

lemma heap_append_except_up:
  assumes "heap_ok h"
  shows "heap_except_up (h @ [e]) (length h)"
  using assms by (auto simp: heap_except_up_def heap_ok_def heap_num_def nth_append less_Suc_eq)

lemma HeapScheduler_Insert_ok:
  assumes "heap_ok h" and "h \<noteq> []"
  shows "heap_ok (HeapScheduler_Insert h e)"
    and "mset (tl (HeapScheduler_Insert h e)) = add_mset e (mset (tl h))"
    and "length (HeapScheduler_Insert h e) = Suc (length h)"
proof -
  from assms(2) have n: "1 \<le> length h" by (simp add: Suc_leI)
  have "mset (tl (h @ [e])) = add_mset e (mset (tl h))" using assms(2) by simp
  with BottomUp_loop_ok [OF heap_append_except_up [OF assms(1), of e] n]
  show "heap_ok (HeapScheduler_Insert h e)"
    and "mset (tl (HeapScheduler_Insert h e)) = add_mset e (mset (tl h))"
    and "length (HeapScheduler_Insert h e) = Suc (length h)"
    by (simp_all add: HeapScheduler_Insert_def BottomUp_def Last_def)
qed

section \<open>TopDown\<close>

lemma child_cases: "i div 2 = k \<longleftrightarrow> i = k * 2 \<or> i = k * 2 + (1 :: nat)"
  by auto

lemma heap_except_down_ok:
  assumes "heap_except_down h k"
    and "\<And>i. i < length h \<Longrightarrow> 2 \<le> i \<Longrightarrow> i div 2 = k \<Longrightarrow> heap_num h k \<le> heap_num h i"
  shows "heap_ok h"
  using assms by (auto simp: heap_ok_def heap_except_down_def)

text \<open>
  Exchanging \<open>k\<close> with a child \<open>c\<close> that is no larger than \<open>k\<close> and its sibling moves the exception
  to \<open>c\<close>.
\<close>

lemma TopDown_step:
  assumes ex: "heap_except_down h k" and k: "1 \<le> k"
    and c: "c div 2 = k" "2 \<le> c" "c < length h" "heap_num h c \<le> heap_num h k"
    and sib: "\<And>i. i < length h \<Longrightarrow> i div 2 = k \<Longrightarrow> 2 \<le> i \<Longrightarrow> heap_num h c \<le> heap_num h i"
  shows "heap_except_down (Exch h k c) c"
proof -
  have kc: "k < c" "k < length h" using c k by auto
  note num = heap_num_Exch [OF kc(2) c(3)]
  have ord: "heap_num h (i div 2) \<le> heap_num h i" if "2 \<le> i" "i < length h" "i div 2 \<noteq> k" for i
    using ex that by (simp add: heap_except_down_def)
  have skip: "heap_num h (k div 2) \<le> heap_num h i"
    if "2 \<le> i" "i < length h" "i div 2 = k" "2 \<le> k" for i
    using ex that by (auto simp: heap_except_down_def)
  have 1: "heap_num (Exch h k c) (i div 2) \<le> heap_num (Exch h k c) i"
    if i: "2 \<le> i" "i < length h" "i div 2 \<noteq> c" for i
  proof (cases "i div 2 = k")
    case True
    then show ?thesis using sib [OF i(2) True i(1)] c(4) i kc k by (auto simp: num)
  next
    case False
    moreover from this have "i \<noteq> c" using c(1) by auto
    moreover have "heap_num h (k div 2) \<le> heap_num h c" if "i = k"
      using skip [OF c(2,3,1)] i(1) that by simp
    moreover have "i div 2 \<noteq> i" using i(1) by simp
    ultimately show ?thesis using ord [OF i(1,2) False] i(3) by (auto simp: num)
  qed
  have 2: "heap_num (Exch h k c) (c div 2) \<le> heap_num (Exch h k c) i"
    if i: "2 \<le> i" "i < length h" "i div 2 = c" for i
  proof -
    have "i \<noteq> c" "i \<noteq> k" "c \<noteq> k" using i kc by auto
    then show ?thesis using ord [OF i(1,2)] i(3) c(1) by (simp add: num)
  qed
  show ?thesis unfolding heap_except_down_def using 1 2 by simp
qed

lemma TopDown_tail_ok:
  assumes "heap_except_down h k" and "1 \<le> k" and "length h \<le> k * 2 + 1"
  shows "heap_ok (TopDown_tail h k) \<and> length (TopDown_tail h k) = length h \<and>
    mset (tl (TopDown_tail h k)) = mset (tl h)"
proof (cases "k * 2 < length h \<and> heap_num h (k * 2) \<le> heap_num h k")
  case True
  have "heap_except_down (Exch h k (k * 2)) (k * 2)"
    using True assms by (intro TopDown_step) (auto simp: child_cases)
  then have "heap_ok (Exch h k (k * 2))"
    using assms(2,3) by (rule_tac heap_except_down_ok) auto
  with True assms(2) show ?thesis
    by (simp add: TopDown_tail_def IsBottom_def LeftChild_def IsLessStrictly_num mset_tl_Exch)
next
  case False
  have "heap_ok h"
    using assms(1,3) False by (rule_tac heap_except_down_ok) (auto simp: child_cases)
  with False show ?thesis
    by (auto simp: TopDown_tail_def IsBottom_def LeftChild_def IsLessStrictly_num Let_def)
qed

lemma TopDown_ok:
  assumes "heap_except_down h k" and "1 \<le> k"
  shows "heap_ok (TopDown h k) \<and> length (TopDown h k) = length h \<and>
    mset (tl (TopDown h k)) = mset (tl h)"
  using assms
proof (induction h k rule: TopDown.induct)
  case (1 h k)
  let ?c = "Smallest h (LeftChild k) (RightChild k)"
  show ?case
  proof (cases "IsBottom h (RightChild k)")
    case True
    then show ?thesis using TopDown_tail_ok [OF 1(2,3)]
      by (simp add: TopDown.simps [of h k] IsBottom_def RightChild_def)
  next
    case False
    then have c: "?c div 2 = k" "2 \<le> ?c" "?c < length h"
      and sib: "\<And>i. i div 2 = k \<Longrightarrow> heap_num h ?c \<le> heap_num h i"
      using 1(3) unfolding child_cases
      by (auto simp: Smallest_def IsLessStrictly_num IsBottom_def LeftChild_def RightChild_def)
    show ?thesis
    proof (cases "IsLessStrictly h k ?c")
      case True
      have "heap_ok h"
        using 1(2) by (rule heap_except_down_ok)
          (use True sib in \<open>auto simp: IsLessStrictly_num intro: order.trans less_imp_le\<close>)
      with True False 1(3) show ?thesis by (simp add: TopDown.simps [of h k])
    next
      case le: False
      have "heap_except_down (Exch h k ?c) ?c"
        using 1(2,3) c sib le by (intro TopDown_step) (auto simp: IsLessStrictly_num)
      then show ?thesis
        using 1(1) [of "LeftChild k" ?c] False le 1(3) c
        by (auto simp: TopDown.simps [of h k] mset_tl_Exch Let_def)
    qed
  qed
qed

section \<open>Removing the entry at an index\<close>

definition drop_entry :: "event_heap \<Rightarrow> nat \<Rightarrow> event_heap" where
  "drop_entry h i = butlast (Exch h i (Last h))"

lemma heap_num_drop_entry:
  assumes "1 \<le> i" "i < length h" "j < length h - 1"
  shows "heap_num (drop_entry h i) j = (if j = i then heap_num h (Last h) else heap_num h j)"
proof -
  have "heap_num (drop_entry h i) j = heap_num (Exch h i (Last h)) j"
    using assms by (simp add: drop_entry_def heap_num_def nth_butlast)
  then show ?thesis using assms by (simp add: heap_num_Exch Last_def)
qed

lemma mset_drop_entry:
  assumes "1 \<le> i" "i < length h"
  shows "mset (tl h) = add_mset (h ! i) (mset (tl (drop_entry h i)))"
    and "length (drop_entry h i) = length h - 1"
proof -
  let ?g = "Exch h i (Last h)"
  have len: "2 \<le> length h" using assms by simp
  then have "0 < length (tl ?g)" by simp
  then have ne: "tl ?g \<noteq> []" by (rule length_greater_0_conv [THEN iffD1])
  have "last (tl ?g) = h ! i"
  proof -
    have "last (tl ?g) = last ?g" using ne by (cases ?g) auto
    also have "\<dots> = ?g ! Last h" using len by (simp add: last_conv_nth Last_def flip: length_0_conv)
    also have "\<dots> = h ! i" using assms by (simp add: Exch_def Last_def)
    finally show ?thesis .
  qed
  moreover note mset_butlast [OF ne]
  moreover have "butlast (tl ?g) = tl (drop_entry h i)"
    by (simp add: drop_entry_def butlast_tl)
  moreover have "mset (tl ?g) = mset (tl h)"
    using assms len by (intro mset_tl_Exch) (auto simp: Last_def)
  ultimately show "mset (tl h) = add_mset (h ! i) (mset (tl (drop_entry h i)))" by simp
  show "length (drop_entry h i) = length h - 1" by (simp add: drop_entry_def)
qed

lemma drop_entry_except_down:
  assumes ok: "heap_ok h" and i: "1 \<le> i" "i < length h"
    and last: "i = 1 \<or> heap_num h (i div 2) \<le> heap_num h (Last h)"
  shows "heap_except_down (drop_entry h i) i"
proof -
  have len: "length (drop_entry h i) = length h - 1" using mset_drop_entry [OF i] by simp
  have ord: "heap_num h (j div 2) \<le> heap_num h j" if "2 \<le> j" "j < length h" for j
    using ok that by (simp add: heap_ok_def)
  have 1: "heap_num (drop_entry h i) (j div 2) \<le> heap_num (drop_entry h i) j"
    if j: "2 \<le> j" "j < length h - 1" "j div 2 \<noteq> i" for j
  proof -
    have "j div 2 < length h - 1" using j by simp
    then show ?thesis using j last ord [of j] by (auto simp: heap_num_drop_entry [OF i])
  qed
  have 2: "heap_num (drop_entry h i) (i div 2) \<le> heap_num (drop_entry h i) j"
    if j: "2 \<le> j" "j < length h - 1" "j div 2 = i" "2 \<le> i" for j
  proof -
    have "i div 2 < length h - 1" "i div 2 \<noteq> i" "j \<noteq> i" using j by auto
    moreover have "heap_num h (i div 2) \<le> heap_num h j"
      using ord [of i] ord [of j] i j by fastforce
    ultimately show ?thesis using j by (simp add: heap_num_drop_entry [OF i])
  qed
  show ?thesis unfolding heap_except_down_def len using 1 2 by blast
qed

lemma TopDown_drop_entry:
  assumes "heap_ok h" and i: "1 \<le> i" "i < length h"
    and "i = 1 \<or> heap_num h (i div 2) \<le> heap_num h (Last h)"
  shows "heap_ok (TopDown (drop_entry h i) i)"
    and "length (TopDown (drop_entry h i) i) = length h - 1"
    and "mset (tl h) = add_mset (h ! i) (mset (tl (TopDown (drop_entry h i) i)))"
  using TopDown_ok [OF drop_entry_except_down [OF assms] i(1)] mset_drop_entry [OF i] by simp_all

lemma heap_invar_mset:
  assumes "heap_ok h" and "length h \<noteq> 0" and "distinct (map ev_uid xs)" and "mset (tl h) = mset xs"
  shows "heap_invar h"
  using assms mset_eq_imp_distinct_iff [of "map ev_uid (tl h)" "map ev_uid xs"]
  by (simp add: heap_invar_def)

lemma heap_Insert_keeps:
  assumes "heap_invar h" and "fresh e (heap_events h)"
  shows "heap_invar (HeapScheduler_Insert h e) \<and>
    heap_events (HeapScheduler_Insert h e) = add_mset e (heap_events h)"
proof -
  have h: "heap_ok h" "h \<noteq> []" "distinct (map ev_uid (e # tl h))"
    using assms by (auto simp: heap_invar_def fresh_def heap_events_def)
  then show ?thesis
    using HeapScheduler_Insert_ok [OF h(1,2), of e]
    by (auto simp: heap_events_def intro!: heap_invar_mset [of _ "e # tl h"])
qed

interpretation heap_evlist: event_list HeapScheduler HeapScheduler_new heap_invar heap_events any_time "- 1"
proof (standard, goal_cases)
  case 1
  show ?case by (simp add: heap_invar_def HeapScheduler_new_def heap_ok_def)
next
  case 2
  show ?case by (simp add: HeapScheduler_new_def heap_events_def)
next
  case (5 h)
  then show ?case
    by (cases h) (auto simp: heap_invar_def HeapScheduler_def HeapScheduler_IsEmpty_def heap_events_def)
next
  case (6 h e)
  then show ?case using heap_Insert_keeps [of h e] by (simp add: HeapScheduler_def)
next
  case (7 h)
  then have len: "1 < length h" by (cases h; cases "tl h") (auto simp: heap_events_def heap_invar_def)
  have "h ! 1 \<in> set (tl h)" using len by (cases h) (auto simp: nth_Cons')
  moreover have "heap_num h 1 \<le> ev_num f" if f: "f \<in> set (tl h)" for f
  proof -
    from f obtain i where i: "i < length (tl h)" "f = tl h ! i" by (auto simp: in_set_conv_nth)
    then have "f = h ! Suc i" by (simp add: nth_tl)
    with i 7(1) show ?thesis
      using heap_root_le [of h "Suc i"] by (simp add: heap_invar_def heap_num_def)
  qed
  ultimately show ?case using len
    by (auto simp: HeapScheduler_def HeapScheduler_PeekNext_def Root_def heap_events_def
        ev_less_num not_less heap_num_def)
next
  case (8 h e)
  then have len: "1 < length h" and e: "e = h ! 1" and ok: "heap_ok h"
    by (auto simp: HeapScheduler_def HeapScheduler_PeekNext_def Root_def heap_invar_def split: if_splits)
  let ?t = "TopDown (drop_entry h 1) 1"
  have t: "heap_ok ?t" "length ?t = length h - 1" "mset (tl h) = add_mset (h ! 1) (mset (tl ?t))"
    using TopDown_drop_entry [OF ok, of 1] len by simp_all
  have "heap_invar ?t"
  proof (rule heap_invar_mset [of _ "tl ?t"])
    have "distinct (map ev_uid (h ! 1 # tl ?t))"
      using 8(1) t(3) mset_eq_imp_distinct_iff [of "map ev_uid (h ! 1 # tl ?t)" "map ev_uid (tl h)"]
      by (simp add: heap_invar_def)
    then show "distinct (map ev_uid (tl ?t))" by simp
  qed (use t len in auto)
  then show ?case using t e len
    by (simp add: HeapScheduler_def HeapScheduler_RemoveNext_def drop_entry_def Root_def heap_events_def)
qed simp_all

section \<open>Properties\<close>

lemma heap_ok_code: "heap_ok h = list_all (\<lambda>i. heap_num h (i div 2) \<le> heap_num h i) [2..<length h]"
  by (auto simp: heap_ok_def list_all_iff)

lemma HeapScheduler_Remove_from_found:
  assumes "distinct (map ev_uid (tl h))" and "1 \<le> k" "k \<le> i" "i < length h"
  shows "HeapScheduler_Remove_from h (h ! i) k = Inr (TopDown (drop_entry h i) i)"
  using assms
proof (induction h "h ! i" k rule: HeapScheduler_Remove_from.induct)
  case (1 h k)
  show ?case
  proof (cases "k = i")
    case True
    then show ?thesis using 1(5)
      by (simp add: HeapScheduler_Remove_from.simps [of h "h ! i" i] drop_entry_def)
  next
    case False
    have nth: "h ! j = tl h ! (j - 1)" if "1 \<le> j" "j < length h" for j
      using that by (cases h) auto
    have "ev_uid (h ! i) \<noteq> ev_uid (h ! k)"
      using 1(2-) False nth_eq_iff_index_eq [of "map ev_uid (tl h)" "i - 1" "k - 1"]
      by (auto simp: nth)
    then show ?thesis using 1 False by (simp add: HeapScheduler_Remove_from.simps [of h _ k])
  qed
qed

text \<open>
  \<open>HeapScheduler::Insert\<close> keeps the heap order and adds exactly the inserted event, and
  \<open>HeapScheduler::RemoveNext\<close> takes out an event that no other event precedes, keeps the heap
  order and loses nothing else.
\<close>

theorem heap_insert_remove:
  assumes "heap_invar h"
  shows "(fresh e (heap_events h) \<longrightarrow> heap_invar (HeapScheduler_Insert h e) \<and>
      heap_events (HeapScheduler_Insert h e) = add_mset e (heap_events h)) \<and>
    (\<not> HeapScheduler_IsEmpty h \<longrightarrow> (\<exists>next h'. HeapScheduler_RemoveNext h = Inr (next, h') \<and>
      heap_invar h' \<and> heap_events h = add_mset next (heap_events h') \<and>
      (\<forall>f \<in># heap_events h'. \<not> ev_less f next)))"
proof (intro conjI impI)
  assume "\<not> HeapScheduler_IsEmpty h"
  then have "heap_events h \<noteq> {#}"
    using heap_evlist.IsEmpty [OF assms] by (simp add: HeapScheduler_def)
  from heap_evlist.remove_next [OF assms this] obtain e h' where
    "HeapScheduler_RemoveNext h = Inr (e, h')" "heap_invar h'"
    "heap_events h = add_mset e (heap_events h')" "\<forall>f \<in># heap_events h. ev_num e \<le> ev_num f"
    by (metis HeapScheduler_def scheduler_ops.select_convs(4))
  then show "\<exists>next h'. HeapScheduler_RemoveNext h = Inr (next, h') \<and>
      heap_invar h' \<and> heap_events h = add_mset next (heap_events h') \<and>
      (\<forall>f \<in># heap_events h'. \<not> ev_less f next)"
    by (auto simp: ev_less_num not_less)
qed (use heap_Insert_keeps [OF assms] in simp_all)

theorem heap_insert_remove_witness:
  "heap_invar (HeapScheduler_Insert [Event 0 (EventKey 0 0 0), Event 5 (EventKey 8 4 0)]
     (Event 6 (EventKey 2 5 0)))"
proof -
  let ?h = "[Event 0 (EventKey 0 0 0), Event 5 (EventKey 8 4 0)]"
  have "heap_invar ?h" by (simp add: heap_invar_def heap_ok_code)
  moreover have "fresh (Event 6 (EventKey 2 5 0)) (heap_events ?h)"
    by (simp add: fresh_def heap_events_def)
  ultimately show ?thesis using heap_insert_remove by blast
qed

text \<open>
  \<open>HeapScheduler::Remove\<close> of the event at index \<open>i\<close> is right when the last array entry, which
  takes its place, does not precede the parent of \<open>i\<close>: then exactly that event is gone and the
  heap order holds.
\<close>

theorem heap_remove_ok:
  assumes "heap_invar h" and "1 \<le> i" "i < length h"
    and "i = 1 \<or> heap_num h (Parent i) \<le> heap_num h (Last h)"
  shows "\<exists>h'. HeapScheduler_Remove h (h ! i) = Inr h' \<and> heap_invar h' \<and>
    heap_events h = add_mset (h ! i) (heap_events h')"
proof -
  let ?t = "TopDown (drop_entry h i) i"
  have h: "heap_ok h" "distinct (map ev_uid (tl h))" using assms(1) by (auto simp: heap_invar_def)
  have t: "heap_ok ?t" "length ?t = length h - 1" "mset (tl h) = add_mset (h ! i) (mset (tl ?t))"
    using TopDown_drop_entry [OF h(1) assms(2,3)] assms(4) by (simp_all add: Parent_def)
  have "distinct (map ev_uid (h ! i # tl ?t))"
    using h(2) t(3) mset_eq_imp_distinct_iff [of "map ev_uid (h ! i # tl ?t)" "map ev_uid (tl h)"] by simp
  then have "heap_invar ?t" using t assms(2,3) by (intro heap_invar_mset [of _ "tl ?t"]) auto
  moreover have "HeapScheduler_Remove h (h ! i) = Inr ?t"
    unfolding HeapScheduler_Remove_def
    using HeapScheduler_Remove_from_found [OF h(2) order_refl assms(2,3)] .
  ultimately show ?thesis using t(3) by (auto simp: heap_events_def)
qed

theorem heap_remove_ok_witness:
  "\<exists>h'. HeapScheduler_Remove [Event 0 (EventKey 0 0 0), Event 5 (EventKey 1 4 0),
       Event 6 (EventKey 2 5 0), Event 7 (EventKey 3 6 0)] (Event 6 (EventKey 2 5 0)) = Inr h' \<and>
     heap_invar h'"
proof -
  let ?h = "[Event 0 (EventKey 0 0 0), Event 5 (EventKey 1 4 0),
       Event 6 (EventKey 2 5 0), Event 7 (EventKey 3 6 0)]"
  have "heap_invar ?h"
    by (simp add: heap_invar_def heap_ok_code heap_num_def key_num_def upt_rec)
  moreover have "heap_num ?h (Parent 2) \<le> heap_num ?h (Last ?h)"
    by (simp add: Parent_def Last_def heap_num_def key_num_def)
  ultimately show ?thesis using heap_remove_ok [of ?h 2] by auto
qed

text \<open>
  \<open>HeapScheduler::Remove\<close> is wrong on other heaps, because it never sifts the moved entry up.
  After events with time stamps 1, 4, 2, 5, 6, 7, 3 are inserted and the one at 5 is removed,
  \<open>RemoveNext\<close> delivers the event at time 4 before the event at time 3.
\<close>

theorem heap_remove_breaks_order:
  "map_sum id (map ev_ts)
     (res_bind (insert_all HeapScheduler
        [ev_at 1 4, ev_at 4 5, ev_at 2 6, ev_at 5 7, ev_at 6 8, ev_at 7 9, ev_at 3 10] HeapScheduler_new)
      (\<lambda>s. res_bind (op_Remove HeapScheduler s (ev_at 5 7))
      (\<lambda>s. remove_n HeapScheduler 6 s))) = Inr [1, 2, 4, 3, 6, 7]"
  by code_simp

end
