(* ===== verification/NsCalendarScheduler.thy ===== *)
theory NsCalendarScheduler
  imports NsScheduler
begin

text \<open>
  The calendar queue of the ns-3 core (\<open>src/core/model/calendar-scheduler.cc\<close>): an array of buckets,
  each a sorted list of the events of every \<open>m_nBuckets\<close>-th interval of \<open>m_width\<close> time steps, a
  cursor on the bucket of the last event, and an array that is rebuilt when it has become too small
  or too large. The search for the next event walks over the buckets once; all its arithmetic is
  done on machine words, as in the code, and may wrap around. The theory shows that it still finds
  the earliest event, and interprets the contract of an event list.
\<close>

section \<open>The data structure\<close>

type_synonym bucket = "Event list"

record calendar =
  m_buckets :: "bucket list"
  m_nBuckets :: u32
  m_width :: u64
  m_lastBucket :: u32
  m_bucketTop :: u64
  m_lastPrio :: u64
  m_qSize :: u32
  m_reverse :: bool

text \<open>The three function pointers that \<open>SetReverse\<close> installs, as functions of \<open>m_reverse\<close>.\<close>

definition NextEvent :: "bool \<Rightarrow> bucket \<Rightarrow> Event" where
  "NextEvent reverse b = (if reverse then last b else hd b)"

definition Order :: "bool \<Rightarrow> EventKey \<Rightarrow> EventKey \<Rightarrow> bool" where
  "Order reverse a b = (if reverse then key_less b a else key_less a b)"

definition Pop :: "bool \<Rightarrow> bucket \<Rightarrow> bucket" where
  "Pop reverse b = (if reverse then butlast b else tl b)"

definition SetReverse :: "bool \<Rightarrow> calendar \<Rightarrow> calendar" where
  "SetReverse reverse c = c\<lparr>m_reverse := reverse\<rparr>"

text \<open>The divisors are positive in every calendar (\<open>buckets_ok\<close> below).\<close>

definition Hash :: "calendar \<Rightarrow> u64 \<Rightarrow> u32" where
  "Hash c ts = ucast ((ts div m_width c) mod ucast (m_nBuckets c))"

definition Init :: "calendar \<Rightarrow> u32 \<Rightarrow> u64 \<Rightarrow> u64 \<Rightarrow> calendar" where
  "Init c nBuckets width startPrio =
     (let c = c\<lparr>m_buckets := replicate (unat nBuckets) [], m_nBuckets := nBuckets, m_width := width,
                m_lastPrio := startPrio\<rparr>
      in c\<lparr>m_lastBucket := Hash c startPrio, m_bucketTop := (startPrio div width + 1) * width\<rparr>)"

definition CalendarScheduler_new :: "bool \<Rightarrow> calendar" where
  "CalendarScheduler_new reverse =
     SetReverse reverse ((Init \<lparr>m_buckets = [], m_nBuckets = 0, m_width = 0, m_lastBucket = 0,
       m_bucketTop = 0, m_lastPrio = 0, m_qSize = 0, m_reverse = False\<rparr> 2 1 0)\<lparr>m_qSize := 0\<rparr>)"

fun bucket_insert :: "bool \<Rightarrow> Event \<Rightarrow> bucket \<Rightarrow> bucket" where
  "bucket_insert reverse ev [] = [ev]"
| "bucket_insert reverse ev (i # is) =
     (if Order reverse (ev_key ev) (ev_key i) then ev # i # is else i # bucket_insert reverse ev is)"

definition DoInsert :: "calendar \<Rightarrow> Event \<Rightarrow> calendar" where
  "DoInsert c ev =
     (let bucket = unat (Hash c (ev_ts ev))
      in c\<lparr>m_buckets := (m_buckets c)[bucket := bucket_insert (m_reverse c) ev (m_buckets c ! bucket)]\<rparr>)"

definition Calendar_IsEmpty :: "calendar \<Rightarrow> bool" where
  "Calendar_IsEmpty c = (m_qSize c = 0)"

text \<open>
  The \<open>do\<close> loop of \<open>PeekNext\<close>. The first argument bounds the turns: the loop visits each bucket
  once, so \<open>m_nBuckets\<close> turns are enough (\<open>peek_search_min\<close>); a loop that does not end is
  undefined behaviour.
\<close>

fun peek_search :: "nat \<Rightarrow> calendar \<Rightarrow> u32 \<Rightarrow> u64 \<Rightarrow> Event \<Rightarrow> Event res" where
  "peek_search 0 c i bucketTop minEvent = Inl (UB ''PeekNext: endless loop'')"
| "peek_search (Suc n) c i bucketTop minEvent =
     (let b = m_buckets c ! unat i; rest = (\<lambda>minEvent.
        let i = (i + 1) mod m_nBuckets c; bucketTop = bucketTop + m_width c
        in if i \<noteq> m_lastBucket c then peek_search n c i bucketTop minEvent else Inr minEvent)
      in if b \<noteq> []
         then let next = NextEvent (m_reverse c) b
           in if ev_ts next < bucketTop then Inr next
              else rest (if key_less (ev_key next) (ev_key minEvent) then next else minEvent)
         else rest minEvent)"

definition Calendar_PeekNext :: "calendar \<Rightarrow> Event res" where
  "Calendar_PeekNext c =
     ns_assert (\<not> Calendar_IsEmpty c) ''!IsEmpty()''
       (peek_search (unat (m_nBuckets c)) c (m_lastBucket c) (m_bucketTop c)
          (Event 0 (EventKey (- 1) (- 1) 0)))"

text \<open>
  The loop of \<open>DoRemoveNext\<close> and what follows it when no bucket had an event below its top;
  \<open>minBucket\<close> is \<^const>\<open>None\<close> for the code's \<open>-1\<close>.
\<close>

definition remove_min :: "calendar \<Rightarrow> EventKey \<Rightarrow> u32 option \<Rightarrow> (Event \<times> calendar) res" where
  "remove_min c minKey minBucket =
     (case minBucket of
        None \<Rightarrow> Inl (UB ''m_buckets[-1]'')
      | Some m \<Rightarrow>
          let b = m_buckets c ! unat m
          in Inr (NextEvent (m_reverse c) b,
               c\<lparr>m_lastPrio := key_ts minKey, m_lastBucket := Hash c (key_ts minKey),
                 m_bucketTop := (key_ts minKey div m_width c + 1) * m_width c,
                 m_buckets := (m_buckets c)[unat m := Pop (m_reverse c) b]\<rparr>))"

fun remove_search ::
  "nat \<Rightarrow> calendar \<Rightarrow> u32 \<Rightarrow> u64 \<Rightarrow> EventKey \<Rightarrow> u32 option \<Rightarrow> (Event \<times> calendar) res" where
  "remove_search 0 c i bucketTop minKey minBucket = Inl (UB ''DoRemoveNext: endless loop'')"
| "remove_search (Suc n) c i bucketTop minKey minBucket =
     (let b = m_buckets c ! unat i; rest = (\<lambda>minKey minBucket.
        let i = (i + 1) mod m_nBuckets c; bucketTop = bucketTop + m_width c
        in if i \<noteq> m_lastBucket c then remove_search n c i bucketTop minKey minBucket
           else remove_min c minKey minBucket)
      in if b \<noteq> []
         then let next = NextEvent (m_reverse c) b
           in if ev_ts next < bucketTop
              then Inr (next, c\<lparr>m_lastBucket := i, m_lastPrio := ev_ts next, m_bucketTop := bucketTop,
                                m_buckets := (m_buckets c)[unat i := Pop (m_reverse c) b]\<rparr>)
              else if key_less (ev_key next) minKey then rest (ev_key next) (Some i)
              else rest minKey minBucket
         else rest minKey minBucket)"

definition DoRemoveNext :: "calendar \<Rightarrow> (Event \<times> calendar) res" where
  "DoRemoveNext c =
     ns_assert (\<not> Calendar_IsEmpty c) ''!IsEmpty()''
       (remove_search (unat (m_nBuckets c)) c (m_lastBucket c) (m_bucketTop c)
          (EventKey (- 1) 0 0xffffffff) None)"

section \<open>Resizing\<close>

text \<open>Take the first \<open>n\<close> events out.\<close>

fun take_samples :: "nat \<Rightarrow> calendar \<Rightarrow> (Event list \<times> calendar) res" where
  "take_samples 0 c = Inr ([], c)"
| "take_samples (Suc n) c =
     res_bind (DoRemoveNext c) (\<lambda>(e, c). res_bind (take_samples n c) (\<lambda>(es, c). Inr (e # es, c)))"

definition insert_events :: "Event list \<Rightarrow> calendar \<Rightarrow> calendar" where
  "insert_events es c = fold (\<lambda>e c. DoInsert c e) es c"

text \<open>The differences of the time stamps of consecutive samples.\<close>

fun separations :: "Event list \<Rightarrow> u64 list" where
  "separations (a # b # es) = (ev_ts b - ev_ts a) # separations (b # es)"
| "separations es = []"

definition nSamples :: "u32 \<Rightarrow> u32" where
  "nSamples qSize =
     (let n = (if qSize \<le> 5 then qSize else 5 + qSize div 10) in if n > 25 then 25 else n)"

definition sample_width :: "u32 \<Rightarrow> Event list \<Rightarrow> u64" where
  "sample_width n samples =
     (let totalSeparation = sum_list (separations samples);
          twiceAvg = totalSeparation div ucast (n - 1) * 2;
          totalSeparation = sum_list (filter (\<lambda>diff. diff \<le> twiceAvg) (separations samples))
      in max (totalSeparation * 3) 1)"

definition CalculateNewWidth :: "calendar \<Rightarrow> (u64 \<times> calendar) res" where
  "CalculateNewWidth c =
     (if m_qSize c < 2 then Inr (1, c)
      else let n = nSamples (m_qSize c)
        in res_bind (take_samples (unat n) c) (\<lambda>(samples, d).
           Inr (sample_width n samples,
             (insert_events samples d)\<lparr>m_lastBucket := m_lastBucket c, m_bucketTop := m_bucketTop c,
               m_lastPrio := m_lastPrio c\<rparr>)))"

definition DoResize :: "calendar \<Rightarrow> u32 \<Rightarrow> u64 \<Rightarrow> calendar" where
  "DoResize c newSize newWidth =
     insert_events (concat (m_buckets c)) (Init c newSize newWidth (m_lastPrio c))"

definition Resize :: "calendar \<Rightarrow> u32 \<Rightarrow> calendar res" where
  "Resize c newSize =
     res_bind (CalculateNewWidth c) (\<lambda>(newWidth, c). Inr (DoResize c newSize newWidth))"

definition ResizeUp :: "calendar \<Rightarrow> calendar res" where
  "ResizeUp c =
     (if m_qSize c > m_nBuckets c * 2 \<and> m_nBuckets c < 32768 then Resize c (m_nBuckets c * 2) else Inr c)"

definition ResizeDown :: "calendar \<Rightarrow> calendar res" where
  "ResizeDown c =
     (if m_qSize c < m_nBuckets c div 2 then Resize c (m_nBuckets c div 2) else Inr c)"

section \<open>The operations of the event list\<close>

definition Calendar_Insert :: "calendar \<Rightarrow> Event \<Rightarrow> calendar res" where
  "Calendar_Insert c ev = (let c = DoInsert c ev in ResizeUp (c\<lparr>m_qSize := m_qSize c + 1\<rparr>))"

definition Calendar_RemoveNext :: "calendar \<Rightarrow> (Event \<times> calendar) res" where
  "Calendar_RemoveNext c =
     ns_assert (\<not> Calendar_IsEmpty c) ''!IsEmpty()''
       (res_bind (DoRemoveNext c) (\<lambda>(ev, c).
        res_bind (ResizeDown (c\<lparr>m_qSize := m_qSize c - 1\<rparr>)) (\<lambda>c. Inr (ev, c))))"

text \<open>The loop of \<open>Remove\<close> over the bucket is the loop of \<open>ListScheduler::Remove\<close>.\<close>

definition Calendar_Remove :: "calendar \<Rightarrow> Event \<Rightarrow> calendar res" where
  "Calendar_Remove c ev =
     ns_assert (\<not> Calendar_IsEmpty c) ''!IsEmpty()''
       (let bucket = unat (Hash c (ev_ts ev))
        in res_bind (ListScheduler_Remove (m_buckets c ! bucket) ev) (\<lambda>b.
           ResizeDown (c\<lparr>m_buckets := (m_buckets c)[bucket := b], m_qSize := m_qSize c - 1\<rparr>)))"

definition CalendarScheduler :: "calendar scheduler_ops" where
  "CalendarScheduler = \<lparr>op_Insert = Calendar_Insert, op_IsEmpty = Calendar_IsEmpty,
     op_PeekNext = Calendar_PeekNext, op_RemoveNext = Calendar_RemoveNext, op_Remove = Calendar_Remove\<rparr>"

section \<open>Buckets\<close>

definition bucket_ok :: "bool \<Rightarrow> bucket \<Rightarrow> bool" where
  "bucket_ok reverse b = sorted_wrt (\<lambda>x y. Order reverse (ev_key x) (ev_key y)) b"

lemma Order_num: "Order reverse a b \<longleftrightarrow> (if reverse then key_num b < key_num a else key_num a < key_num b)"
  by (simp add: Order_def key_less_num)

lemma set_bucket_insert [simp]: "set (bucket_insert reverse e b) = insert e (set b)"
  by (induction b) auto

lemma mset_bucket_insert [simp]: "mset (bucket_insert reverse e b) = add_mset e (mset b)"
  by (induction b) auto

lemma bucket_insert_ok:
  assumes "bucket_ok reverse b" and "ev_uid e \<notin> ev_uid ` set b"
  shows "bucket_ok reverse (bucket_insert reverse e b)"
  using assms unfolding bucket_ok_def
proof (induction b)
  case (Cons f b)
  then have "ev_num e \<noteq> ev_num f" by (auto simp: key_num_eq)
  with Cons show ?case by (auto simp: Order_num split: if_splits)
qed simp

lemma NextEvent_in [simp]: "b \<noteq> [] \<Longrightarrow> NextEvent reverse b \<in> set b"
  by (simp add: NextEvent_def)

lemma NextEvent_least:
  assumes "bucket_ok reverse b" and "f \<in> set b"
  shows "ev_num (NextEvent reverse b) \<le> ev_num f"
proof (cases reverse)
  case True
  with assms show ?thesis
    by (cases b rule: rev_cases) (auto simp: bucket_ok_def NextEvent_def Order_num sorted_wrt_append)
next
  case False
  with assms show ?thesis
    by (cases b) (auto simp: bucket_ok_def NextEvent_def Order_num)
qed

lemma Pop_mset: "b \<noteq> [] \<Longrightarrow> mset b = add_mset (NextEvent reverse b) (mset (Pop reverse b))"
  using mset_butlast [of b] by (cases b) (auto simp: NextEvent_def Pop_def)

lemma Pop_ok: "bucket_ok reverse b \<Longrightarrow> bucket_ok reverse (Pop reverse b)"
proof (cases reverse)
  case True
  assume "bucket_ok reverse b"
  with True show ?thesis by (cases b rule: rev_cases) (auto simp: Pop_def bucket_ok_def sorted_wrt_append)
next
  case False
  assume "bucket_ok reverse b"
  with False show ?thesis by (cases b) (auto simp: Pop_def bucket_ok_def)
qed

lemma bucket_ok_remove1: "bucket_ok reverse b \<Longrightarrow> bucket_ok reverse (remove1 e b)"
  unfolding bucket_ok_def
  by (induction b) (auto dest: notin_set_remove1)

section \<open>The invariant\<close>

abbreviation nb :: "calendar \<Rightarrow> nat" where
  "nb c \<equiv> unat (m_nBuckets c)"

abbreviation wd :: "calendar \<Rightarrow> nat" where
  "wd c \<equiv> unat (m_width c)"

text \<open>The interval of an event, counted in widths, and its bucket.\<close>

abbreviation slot :: "calendar \<Rightarrow> u64 \<Rightarrow> nat" where
  "slot c ts \<equiv> unat ts div wd c"

definition calendar_events :: "calendar \<Rightarrow> Event multiset" where
  "calendar_events c = mset (concat (m_buckets c))"

text \<open>
  Every event is in the bucket of its time stamp and every bucket is sorted, and no division has a
  zero divisor.
\<close>

definition buckets_ok :: "calendar \<Rightarrow> bool" where
  "buckets_ok c =
     (0 < nb c \<and> 0 < wd c \<and> length (m_buckets c) = nb c \<and> unique_uids (calendar_events c) \<and>
      (\<forall>i < nb c. bucket_ok (m_reverse c) (m_buckets c ! i) \<and>
         (\<forall>e \<in> set (m_buckets c ! i). slot c (ev_ts e) mod nb c = i)))"

text \<open>The cursor is on the last event delivered, and no event is before it.\<close>

definition cursor_ok :: "calendar \<Rightarrow> bool" where
  "cursor_ok c =
     (m_lastBucket c = Hash c (m_lastPrio c) \<and>
      m_bucketTop c = (m_lastPrio c div m_width c + 1) * m_width c \<and>
      (\<forall>e \<in># calendar_events c. m_lastPrio c \<le> ev_ts e \<and> ev_ts e \<le> - 2))"

lemma unat_u64_less: "unat (x :: u64) < 2 ^ 64"
  using unsigned_less [of x, where 'a = nat] by simp

lemma unat_Hash: "0 < nb c \<Longrightarrow> unat (Hash c ts) = slot c ts mod nb c"
proof -
  assume n: "0 < nb c"
  have u: "unat (ucast (m_nBuckets c) :: u64) = nb c"
    using unat_u32_less [of "m_nBuckets c"] by (simp add: unsigned_ucast_eq take_bit_eq_mod)
  have "unat ((ts div m_width c) mod ucast (m_nBuckets c)) = slot c ts mod nb c"
    by (simp add: unat_div unat_mod u)
  moreover have "slot c ts mod nb c < 2 ^ 32"
    using n unat_u32_less [of "m_nBuckets c"] by (meson less_trans mod_less_divisor)
  ultimately show ?thesis by (simp add: Hash_def unsigned_ucast_eq take_bit_eq_mod)
qed

lemma mset_concat_update:
  "i < length xs \<Longrightarrow> mset (concat (xs[i := b])) + mset (xs ! i) = mset (concat xs) + mset b"
proof (induction xs arbitrary: i)
  case (Cons x xs)
  then show ?case by (cases i) (auto simp: algebra_simps)
qed simp

lemma calendar_events_bucket:
  "e \<in># calendar_events c \<longleftrightarrow> (\<exists>i < length (m_buckets c). e \<in> set (m_buckets c ! i))"
  by (simp add: calendar_events_def in_set_conv_nth [of _ "m_buckets c"]) (metis in_set_conv_nth)

lemma buckets_okE:
  assumes "buckets_ok c" and "e \<in># calendar_events c"
  shows "slot c (ev_ts e) mod nb c < length (m_buckets c)"
    and "e \<in> set (m_buckets c ! (slot c (ev_ts e) mod nb c))"
  using assms by (auto simp: buckets_ok_def calendar_events_bucket)

lemma calendar_events_frame [simp]:
  "calendar_events (c\<lparr>m_lastPrio := p\<rparr>) = calendar_events c"
  "calendar_events (c\<lparr>m_lastBucket := i\<rparr>) = calendar_events c"
  "calendar_events (c\<lparr>m_bucketTop := t\<rparr>) = calendar_events c"
  "calendar_events (c\<lparr>m_qSize := q\<rparr>) = calendar_events c"
  by (simp_all add: calendar_events_def)

lemma buckets_ok_frame [simp]:
  "buckets_ok (c\<lparr>m_lastPrio := p\<rparr>) = buckets_ok c"
  "buckets_ok (c\<lparr>m_lastBucket := i\<rparr>) = buckets_ok c"
  "buckets_ok (c\<lparr>m_bucketTop := t\<rparr>) = buckets_ok c"
  "buckets_ok (c\<lparr>m_qSize := q\<rparr>) = buckets_ok c"
  by (simp_all add: buckets_ok_def)

lemma distinct_bucket:
  assumes "buckets_ok c" and "i < nb c"
  shows "distinct (map ev_uid (m_buckets c ! i))"
proof -
  have "m_buckets c ! i \<in> set (m_buckets c)" "distinct (map ev_uid (concat (m_buckets c)))"
    using assms by (auto simp: buckets_ok_def calendar_events_def unique_uids_mset)
  then show ?thesis by (auto simp: map_concat distinct_concat_iff)
qed

text \<open>Replacing one bucket by another that holds the right events.\<close>

lemma buckets_ok_update:
  assumes "buckets_ok c" and "i < nb c" and "bucket_ok (m_reverse c) b"
    and "\<forall>e \<in> set b. slot c (ev_ts e) mod nb c = i"
    and "unique_uids (mset (concat ((m_buckets c)[i := b])))"
  shows "buckets_ok (c\<lparr>m_buckets := (m_buckets c)[i := b]\<rparr>)"
  using assms by (auto simp: buckets_ok_def calendar_events_def nth_list_update)

lemma DoInsert_ok:
  assumes "buckets_ok c" and "fresh e (calendar_events c)"
  shows "\<exists>bs. DoInsert c e = c\<lparr>m_buckets := bs\<rparr> \<and> buckets_ok (DoInsert c e) \<and>
    calendar_events (DoInsert c e) = add_mset e (calendar_events c)"
proof -
  let ?i = "slot c (ev_ts e) mod nb c" and ?b = "bucket_insert (m_reverse c) e (m_buckets c ! (slot c (ev_ts e) mod nb c))"
  have n: "0 < nb c" and i: "?i < nb c" "?i < length (m_buckets c)" using assms(1) by (auto simp: buckets_ok_def)
  have D: "DoInsert c e = c\<lparr>m_buckets := (m_buckets c)[?i := ?b]\<rparr>"
    by (simp add: DoInsert_def unat_Hash [OF n] Let_def)
  have ev: "calendar_events (DoInsert c e) = add_mset e (calendar_events c)"
    using mset_concat_update [OF i(2), of ?b] by (simp add: D calendar_events_def)
  have "ev_uid e \<notin> ev_uid ` set (m_buckets c ! ?i)"
    using assms(2) i(2) by (auto simp: fresh_def calendar_events_bucket)
  then have "bucket_ok (m_reverse c) ?b"
    using assms(1) i(1) by (intro bucket_insert_ok) (auto simp: buckets_ok_def)
  moreover have "unique_uids (calendar_events (DoInsert c e))"
    using assms by (simp add: ev unique_uids_add buckets_ok_def)
  ultimately have "buckets_ok (DoInsert c e)" unfolding D
    using assms(1) i by (intro buckets_ok_update) (auto simp: calendar_events_def buckets_ok_def D)
  with ev D show ?thesis by blast
qed

lemma insert_events_ok:
  assumes "buckets_ok c" and "unique_uids (mset es + calendar_events c)"
  shows "\<exists>bs. insert_events es c = c\<lparr>m_buckets := bs\<rparr> \<and> buckets_ok (c\<lparr>m_buckets := bs\<rparr>) \<and>
    calendar_events (c\<lparr>m_buckets := bs\<rparr>) = mset es + calendar_events c"
  using assms
proof (induction es arbitrary: c)
  case Nil
  then show ?case by (intro exI [of _ "m_buckets c"]) (simp add: insert_events_def)
next
  case (Cons e es)
  then have "fresh e (calendar_events c)" by (auto simp: unique_uids_add fresh_def)
  from DoInsert_ok [OF Cons.prems(1) this] obtain bs where bs: "DoInsert c e = c\<lparr>m_buckets := bs\<rparr>"
    "buckets_ok (DoInsert c e)" "calendar_events (DoInsert c e) = add_mset e (calendar_events c)" by blast
  from Cons.IH [OF bs(2)] Cons.prems(2) show ?case
    unfolding bs(3) by (auto simp: insert_events_def bs(1))
qed

section \<open>The search\<close>

text \<open>
  The arithmetic of the search. \<open>p\<close> is the last time stamp delivered, \<open>t\<close> the time stamp of an
  event in the bucket that is visited in turn \<open>k\<close>, and \<open>m\<close> the range of the words: the test of the
  code against the top of the bucket, which may have wrapped around, is true exactly for the events
  of the interval \<open>p div w + k\<close>, unless the top of that interval is out of range.
\<close>

lemma turn_le:
  fixes q t w n k :: nat
  assumes "q \<le> t" and "t mod n = (q + k) mod n" and "k < n"
  shows "q + k \<le> t"
proof -
  obtain d where t: "t = q + d" using assms(1) by (auto simp: le_iff_add)
  with assms(2) obtain a b where "q + d + n * a = q + k + n * b" by (auto simp: nat_mod_eq_iff)
  then have "d mod n = k mod n" unfolding nat_mod_eq_iff by (metis add.assoc add_left_imp_eq)
  then have "k \<le> d" using assms(3) by (metis mod_less mod_less_eq_dividend)
  with t show ?thesis by simp
qed

lemma below_top_iff:
  fixes p t w n k m :: nat
  assumes "0 < w" and "p \<le> t" and "t < m" and "t div w mod n = (p div w + k) mod n" and "k < n"
    and "w < m"
  shows "t < ((p div w + k + 1) * w) mod m \<longleftrightarrow>
    t div w = p div w + k \<and> (p div w + k + 1) * w < m"
proof -
  let ?q = "p div w + k"
  have q: "?q \<le> t div w" using turn_le [OF div_le_mono [OF assms(2)] assms(4,5)] .
  have lt: "t < (?q + 1) * w \<longleftrightarrow> t div w < ?q + 1"
    using assms(1) by (simp add: div_less_iff_less_mult)
  show ?thesis
  proof (cases "(?q + 1) * w < m")
    case True
    with q lt show ?thesis by auto
  next
    case False
    have "?q * w \<le> t" using q assms(1) by (metis div_times_less_eq_dividend le_trans mult_le_mono1)
    then have "(?q + 1) * w < m + w" using assms(3) by simp
    then have "((?q + 1) * w) mod m < w"
      using False assms(6) by (simp add: le_mod_geq)
    moreover have "\<not> t < w" if "\<not> (?q + 1) * w < m"
    proof
      assume "t < w"
      then have "?q = 0" using q by simp
      with that assms(6) show False by simp
    qed
    ultimately show ?thesis using False by (meson less_trans)
  qed
qed

text \<open>Turn \<open>k\<close> of the search: its bucket and its top.\<close>

definition turn_bucket :: "calendar \<Rightarrow> nat \<Rightarrow> nat" where
  "turn_bucket c k = (slot c (m_lastPrio c) + k) mod nb c"

definition turn_top :: "calendar \<Rightarrow> nat \<Rightarrow> u64" where
  "turn_top c k = of_nat ((slot c (m_lastPrio c) + k + 1) * wd c)"

abbreviation bucket_at :: "calendar \<Rightarrow> nat \<Rightarrow> bucket" where
  "bucket_at c k \<equiv> m_buckets c ! turn_bucket c k"

abbreviation next_at :: "calendar \<Rightarrow> nat \<Rightarrow> Event" where
  "next_at c k \<equiv> NextEvent (m_reverse c) (bucket_at c k)"

definition hit :: "calendar \<Rightarrow> nat \<Rightarrow> bool" where
  "hit c k = (bucket_at c k \<noteq> [] \<and> ev_ts (next_at c k) < turn_top c k)"

definition least_event :: "calendar \<Rightarrow> Event \<Rightarrow> bool" where
  "least_event c e = (e \<in># calendar_events c \<and> (\<forall>f \<in># calendar_events c. ev_num e \<le> ev_num f))"

lemma turn_bucket_less: "0 < nb c \<Longrightarrow> turn_bucket c k < nb c"
  by (simp add: turn_bucket_def)

lemma unat_turn_bucket: "0 < nb c \<Longrightarrow> unat (of_nat (turn_bucket c k) :: u32) = turn_bucket c k"
  using turn_bucket_less [of c k] unat_u32_less [of "m_nBuckets c"]
  by (simp add: unat_of_nat)

lemma turn_start:
  assumes "buckets_ok c" and "cursor_ok c"
  shows "m_lastBucket c = of_nat (turn_bucket c 0)" and "m_bucketTop c = turn_top c 0"
proof -
  have n: "0 < nb c" using assms(1) by (simp add: buckets_ok_def)
  have "unat (m_lastBucket c) = turn_bucket c 0"
    using assms(2) by (simp add: cursor_ok_def unat_Hash [OF n] turn_bucket_def)
  then show "m_lastBucket c = of_nat (turn_bucket c 0)"
    by (simp add: word_unat_eq_iff unat_turn_bucket [OF n])
  have "slot c (m_lastPrio c) < 2 ^ 64"
    using div_le_dividend unat_u64_less by (rule le_less_trans)
  then have "m_lastPrio c div m_width c = of_nat (slot c (m_lastPrio c))"
    by (simp add: word_unat_eq_iff unat_div unat_of_nat)
  then show "m_bucketTop c = turn_top c 0"
    using assms(2) by (simp add: cursor_ok_def turn_top_def algebra_simps)
qed

lemma turn_next:
  assumes "0 < nb c"
  shows "(of_nat (turn_bucket c k) + 1) mod m_nBuckets c = (of_nat (turn_bucket c (Suc k)) :: u32)"
    and "turn_top c k + m_width c = turn_top c (Suc k)"
proof -
  have l: "turn_bucket c k + 1 < 2 ^ 32"
    using turn_bucket_less [OF assms, of k] unat_u32_less [of "m_nBuckets c"] by simp
  have "unat ((of_nat (turn_bucket c k) + 1) mod m_nBuckets c :: u32) = turn_bucket c (Suc k)"
    using l unat_turn_bucket [OF assms, of k]
    by (simp add: unat_mod unat_word_ariths) (simp add: turn_bucket_def mod_Suc_eq)
  then show "(of_nat (turn_bucket c k) + 1) mod m_nBuckets c = (of_nat (turn_bucket c (Suc k)) :: u32)"
    by (simp add: word_unat_eq_iff unat_turn_bucket [OF assms])
  show "turn_top c k + m_width c = turn_top c (Suc k)"
    by (simp add: turn_top_def algebra_simps)
qed

lemma turn_last:
  assumes "buckets_ok c" and "cursor_ok c" and "k < nb c"
  shows "(of_nat (turn_bucket c (Suc k)) :: u32) = m_lastBucket c \<longleftrightarrow> Suc k = nb c"
proof -
  have n: "0 < nb c" using assms(3) by simp
  have "(of_nat (turn_bucket c (Suc k)) :: u32) = m_lastBucket c \<longleftrightarrow> turn_bucket c (Suc k) = turn_bucket c 0"
    unfolding turn_start [OF assms(1,2)] by (metis unat_turn_bucket [OF n])
  also have "\<dots> \<longleftrightarrow> Suc k = nb c"
  proof
    assume eq: "turn_bucket c (Suc k) = turn_bucket c 0"
    show "Suc k = nb c"
    proof (rule ccontr)
      assume "Suc k \<noteq> nb c"
      then have "Suc k < nb c" using assms(3) by simp
      from turn_le [OF order_refl _ this, of "slot c (m_lastPrio c)"] eq
      show False by (simp add: turn_bucket_def)
    qed
  next
    assume "Suc k = nb c"
    then show "turn_bucket c (Suc k) = turn_bucket c 0" by (simp add: turn_bucket_def)
  qed
  finally show ?thesis .
qed

lemma turn_event:
  assumes "buckets_ok c" and "cursor_ok c" and "k < nb c" and "e \<in> set (bucket_at c k)"
  shows "ev_ts e < turn_top c k \<longleftrightarrow> slot c (ev_ts e) = slot c (m_lastPrio c) + k \<and>
      (slot c (m_lastPrio c) + k + 1) * wd c < 2 ^ 64"
    and "slot c (m_lastPrio c) + k \<le> slot c (ev_ts e)"
proof -
  have w: "0 < wd c" and i: "turn_bucket c k < nb c" using assms(1) turn_bucket_less [of c k]
    by (auto simp: buckets_ok_def)
  have s: "slot c (ev_ts e) mod nb c = (slot c (m_lastPrio c) + k) mod nb c"
    using assms(1,4) i by (auto simp: buckets_ok_def turn_bucket_def)
  have "e \<in># calendar_events c" using assms(1,4) i
    by (auto simp: calendar_events_bucket buckets_ok_def)
  then have p: "unat (m_lastPrio c) \<le> unat (ev_ts e)"
    using assms(2) by (simp add: cursor_ok_def word_le_nat_alt)
  have top: "unat (turn_top c k) = ((slot c (m_lastPrio c) + k + 1) * wd c) mod 2 ^ 64"
    unfolding turn_top_def by (simp only: unat_of_nat len_num1 len_bit0) simp
  show "ev_ts e < turn_top c k \<longleftrightarrow> slot c (ev_ts e) = slot c (m_lastPrio c) + k \<and>
      (slot c (m_lastPrio c) + k + 1) * wd c < 2 ^ 64"
    unfolding word_less_nat_alt top
    by (rule below_top_iff [OF w p unat_u64_less s assms(3) unat_u64_less])
  show "slot c (m_lastPrio c) + k \<le> slot c (ev_ts e)"
    by (rule turn_le [OF div_le_mono [OF p] s assms(3)])
qed

lemma event_turn:
  assumes "buckets_ok c" and "cursor_ok c" and "f \<in># calendar_events c"
  shows "\<exists>j < nb c. f \<in> set (bucket_at c j)"
proof -
  let ?q = "slot c (m_lastPrio c)"
  have q: "?q \<le> slot c (ev_ts f)"
    using assms(2,3) by (auto simp: cursor_ok_def word_le_nat_alt intro: div_le_mono)
  let ?j = "(slot c (ev_ts f) - ?q) mod nb c"
  have "turn_bucket c ?j = slot c (ev_ts f) mod nb c"
    using q by (simp add: turn_bucket_def mod_add_right_eq)
  then show ?thesis using buckets_okE(2) [OF assms(1,3)] assms(1)
    by (intro exI [of _ ?j]) (auto simp: buckets_ok_def)
qed

lemma next_at_least:
  assumes "buckets_ok c" and "f \<in> set (bucket_at c k)"
  shows "ev_num (next_at c k) \<le> ev_num f" and "next_at c k \<in> set (bucket_at c k)"
proof -
  have "turn_bucket c k < nb c" using assms(1) by (intro turn_bucket_less) (simp add: buckets_ok_def)
  then have "bucket_ok (m_reverse c) (bucket_at c k)" using assms(1) by (simp add: buckets_ok_def)
  then show "ev_num (next_at c k) \<le> ev_num f" using assms(2) by (rule NextEvent_least)
  show "next_at c k \<in> set (bucket_at c k)" using assms(2) by (intro NextEvent_in) auto
qed

lemma next_at_event:
  assumes "buckets_ok c" and "bucket_at c k \<noteq> []"
  shows "next_at c k \<in># calendar_events c"
proof -
  have "turn_bucket c k < length (m_buckets c)" using assms(1) turn_bucket_less [of c k]
    by (simp add: buckets_ok_def)
  then show ?thesis using NextEvent_in [OF assms(2)] unfolding calendar_events_bucket by blast
qed

text \<open>The first bucket with an event below its top has the earliest event.\<close>

lemma first_hit_least:
  assumes ok: "buckets_ok c" "cursor_ok c" and "k < nb c" and "hit c k" and "\<forall>j < k. \<not> hit c j"
  shows "least_event c (next_at c k)"
proof -
  let ?q = "slot c (m_lastPrio c)" and ?e = "next_at c k"
  have b: "bucket_at c k \<noteq> []" using assms(4) by (simp add: hit_def)
  have e: "slot c (ev_ts ?e) = ?q + k" "(?q + k + 1) * wd c < 2 ^ 64"
    using assms(4) turn_event(1) [OF ok assms(3) NextEvent_in [OF b]] by (auto simp: hit_def)
  have "ev_num ?e \<le> ev_num f" if f: "f \<in># calendar_events c" for f
  proof (cases "slot c (ev_ts f) \<le> ?q + k")
    case False
    then have "\<not> ev_ts f \<le> ev_ts ?e"
      using e(1) by (metis div_le_mono word_le_nat_alt)
    then have "ev_less ?e f" by (simp add: ev_less_def key_less_def not_le)
    then show ?thesis by (simp add: ev_less_num)
  next
    case True
    have q: "?q \<le> slot c (ev_ts f)"
      using ok(2) f by (auto simp: cursor_ok_def word_le_nat_alt intro: div_le_mono)
    define j where "j = slot c (ev_ts f) - ?q"
    have j: "slot c (ev_ts f) = ?q + j" "j \<le> k" using q True by (auto simp: j_def)
    have fb: "f \<in> set (bucket_at c j)"
      using buckets_okE(2) [OF ok(1) f] by (simp add: turn_bucket_def j(1))
    note nx = next_at_least [OF ok(1) fb]
    show ?thesis
    proof (cases "j = k")
      case True
      then show ?thesis using nx(1) by simp
    next
      case False
      have jn: "j < nb c" using j(2) assms(3) by simp
      have "slot c (ev_ts (next_at c j)) \<le> ?q + j"
        using ts_mono_num [OF nx(1)] j(1) by (metis div_le_mono word_le_nat_alt)
      with turn_event(2) [OF ok jn nx(2)] have "slot c (ev_ts (next_at c j)) = ?q + j" by simp
      moreover have "(?q + j + 1) * wd c < 2 ^ 64"
        using e(2) j(2) by (meson add_le_mono le_refl le_less_trans mult_le_mono1)
      ultimately have "hit c j" using turn_event(1) [OF ok jn nx(2)] fb by (auto simp: hit_def)
      then show ?thesis using assms(5) j(2) False by simp
    qed
  qed
  with next_at_event [OF ok(1) b] show ?thesis by (simp add: least_event_def)
qed

text \<open>Without such a bucket, an event that is not after the next event of any bucket is the earliest.\<close>

lemma all_turns_least:
  assumes ok: "buckets_ok c" "cursor_ok c"
    and "\<forall>j < nb c. bucket_at c j \<noteq> [] \<longrightarrow> key_num m \<le> ev_num (next_at c j)"
    and "f \<in># calendar_events c"
  shows "key_num m \<le> ev_num f"
proof -
  from event_turn [OF ok assms(4)] obtain j where j: "j < nb c" "f \<in> set (bucket_at c j)" by blast
  have "key_num m \<le> ev_num (next_at c j)" using assms(3) j by auto
  also have "\<dots> \<le> ev_num f" by (rule next_at_least(1) [OF ok(1) j(2)])
  finally show ?thesis .
qed

lemma peek_search_turn:
  assumes "buckets_ok c" and "cursor_ok c" and "k < nb c"
  shows "peek_search (Suc n) c (of_nat (turn_bucket c k)) (turn_top c k) m =
    (if hit c k then Inr (next_at c k)
     else let m = (if bucket_at c k \<noteq> [] \<and> key_less (ev_key (next_at c k)) (ev_key m) then next_at c k else m)
       in if Suc k = nb c then Inr m
          else peek_search n c (of_nat (turn_bucket c (Suc k))) (turn_top c (Suc k)) m)"
proof -
  have n: "0 < nb c" using assms(3) by simp
  show ?thesis
    unfolding peek_search.simps unat_turn_bucket [OF n] turn_next [OF n] Let_def
    using turn_last [OF assms] by (auto simp: hit_def)
qed

lemma peek_search_min:
  assumes ok: "buckets_ok c" "cursor_ok c" and "calendar_events c \<noteq> {#}" and "k < nb c"
    and "\<forall>j < k. \<not> hit c j" and "\<forall>j < k. bucket_at c j \<noteq> [] \<longrightarrow> ev_num m \<le> ev_num (next_at c j)"
    and "m \<in># calendar_events c \<or> (\<forall>f \<in># calendar_events c. ev_num f < ev_num m)"
  shows "\<exists>e. peek_search (nb c - k) c (of_nat (turn_bucket c k)) (turn_top c k) m = Inr e \<and> least_event c e"
  using assms(4-)
proof (induction "nb c - k" arbitrary: k m)
  case (Suc n)
  let ?m = "if bucket_at c k \<noteq> [] \<and> key_less (ev_key (next_at c k)) (ev_key m) then next_at c k else m"
  have nk: "nb c - k = Suc n" "nb c - Suc k = n" using Suc.hyps(2) by simp_all
  have turn: "peek_search (nb c - k) c (of_nat (turn_bucket c k)) (turn_top c k) m =
    (if hit c k then Inr (next_at c k) else if Suc k = nb c then Inr ?m
     else peek_search (nb c - Suc k) c (of_nat (turn_bucket c (Suc k))) (turn_top c (Suc k)) ?m)"
    unfolding nk peek_search_turn [OF ok Suc.prems(1)] Let_def ..
  have le: "\<forall>j < Suc k. bucket_at c j \<noteq> [] \<longrightarrow> ev_num ?m \<le> ev_num (next_at c j)"
    using Suc.prems(3) by (auto simp: less_Suc_eq key_less_num)
  have ev: "?m \<in># calendar_events c \<or> (\<forall>f \<in># calendar_events c. ev_num f < ev_num ?m)"
    using Suc.prems(4) next_at_event [OF ok(1)] by auto
  show ?case
  proof (cases "hit c k")
    case True
    with turn first_hit_least [OF ok Suc.prems(1) True Suc.prems(2)] show ?thesis by auto
  next
    case False
    show ?thesis
    proof (cases "Suc k = nb c")
      case True
      have l: "\<forall>f \<in># calendar_events c. ev_num ?m \<le> ev_num f"
        using all_turns_least [OF ok, of "ev_key ?m"] le True by simp
      with ev assms(3) have "?m \<in># calendar_events c" by (metis leD multiset_nonemptyE)
      with l have "least_event c ?m" by (simp add: least_event_def)
      with turn False True show ?thesis by auto
    next
      case kn: False
      have "\<forall>j < Suc k. \<not> hit c j" using Suc.prems(2) False by (auto simp: less_Suc_eq)
      with Suc.hyps(1) [of "Suc k" ?m] Suc.hyps(2) Suc.prems(1) kn le ev turn False show ?thesis by auto
    qed
  qed
qed simp

text \<open>The calendar without its next event \<open>e\<close>, the cursor on \<open>e\<close>.\<close>

definition take_out :: "calendar \<Rightarrow> Event \<Rightarrow> calendar" where
  "take_out c e = c\<lparr>m_lastPrio := ev_ts e, m_lastBucket := Hash c (ev_ts e),
     m_bucketTop := (ev_ts e div m_width c + 1) * m_width c,
     m_buckets := (m_buckets c)[unat (Hash c (ev_ts e)) :=
       Pop (m_reverse c) (m_buckets c ! unat (Hash c (ev_ts e)))]\<rparr>"

lemma Hash_next_at:
  assumes "buckets_ok c" and "bucket_at c k \<noteq> []"
  shows "Hash c (ev_ts (next_at c k)) = of_nat (turn_bucket c k)"
proof -
  have n: "0 < nb c" and t: "turn_bucket c k < nb c"
    using assms(1) turn_bucket_less [of c k] by (auto simp: buckets_ok_def)
  have "slot c (ev_ts (next_at c k)) mod nb c = turn_bucket c k"
    using assms(1) t NextEvent_in [OF assms(2)] by (simp add: buckets_ok_def)
  then show ?thesis by (simp add: word_unat_eq_iff unat_Hash [OF n] unat_turn_bucket [OF n])
qed

lemma turn_top_hit:
  assumes "buckets_ok c" and "cursor_ok c" and "k < nb c" and "hit c k"
  shows "turn_top c k = (ev_ts (next_at c k) div m_width c + 1) * m_width c"
proof -
  let ?t = "ev_ts (next_at c k)"
  have "slot c ?t = slot c (m_lastPrio c) + k"
    using assms turn_event(1) [OF assms(1-3) NextEvent_in] by (simp add: hit_def)
  then have t: "turn_top c k = of_nat ((slot c ?t + 1) * wd c)" by (simp add: turn_top_def)
  have "slot c ?t < 2 ^ 64" using div_le_dividend unat_u64_less by (rule le_less_trans)
  then have "?t div m_width c = of_nat (slot c ?t)"
    by (simp add: word_unat_eq_iff unat_div unat_of_nat)
  then show ?thesis by (simp add: t algebra_simps)
qed

lemma remove_search_turn:
  assumes "buckets_ok c" and "cursor_ok c" and "k < nb c"
  shows "remove_search (Suc n) c (of_nat (turn_bucket c k)) (turn_top c k) mk mb =
    (if hit c k then Inr (next_at c k, take_out c (next_at c k))
     else let (mk, mb) = (if bucket_at c k \<noteq> [] \<and> key_less (ev_key (next_at c k)) mk
            then (ev_key (next_at c k), Some (of_nat (turn_bucket c k))) else (mk, mb))
       in if Suc k = nb c then remove_min c mk mb
          else remove_search n c (of_nat (turn_bucket c (Suc k))) (turn_top c (Suc k)) mk mb)"
proof (cases "hit c k")
  case True
  then have b: "bucket_at c k \<noteq> []" by (simp add: hit_def)
  have n: "0 < nb c" using assms(3) by simp
  have "c\<lparr>m_lastBucket := of_nat (turn_bucket c k), m_lastPrio := ev_ts (next_at c k), m_bucketTop := turn_top c k,
      m_buckets := (m_buckets c)[turn_bucket c k := Pop (m_reverse c) (bucket_at c k)]\<rparr> = take_out c (next_at c k)"
    by (simp add: take_out_def Hash_next_at [OF assms(1) b] turn_top_hit [OF assms True] unat_turn_bucket [OF n])
  then show ?thesis using True b
    by (simp add: hit_def Let_def unat_turn_bucket [OF n])
next
  case False
  have n: "0 < nb c" using assms(3) by simp
  show ?thesis
    unfolding remove_search.simps unat_turn_bucket [OF n] turn_next [OF n] Let_def
    using turn_last [OF assms] False by (auto simp: hit_def)
qed

text \<open>
  \<open>DoRemoveNext\<close> finds what \<open>PeekNext\<close> finds, although the two start from different sentinels and
  one remembers an event and the other a key and a bucket.
\<close>

definition same_min :: "calendar \<Rightarrow> Event \<Rightarrow> EventKey \<Rightarrow> u32 option \<Rightarrow> bool" where
  "same_min c m mk mb =
     ((mb = None \<and> (\<forall>f \<in># calendar_events c. ev_num f < ev_num m \<and> ev_num f < key_num mk)) \<or>
      (\<exists>j. bucket_at c j \<noteq> [] \<and> m = next_at c j \<and> mk = ev_key m \<and> mb = Some (of_nat (turn_bucket c j))))"

lemma remove_min_same:
  assumes "buckets_ok c" and "same_min c m mk mb" and "m \<in># calendar_events c"
  shows "remove_min c mk mb = Inr (m, take_out c m)"
proof -
  from assms(2,3) obtain j where j: "bucket_at c j \<noteq> []" "m = next_at c j" "mk = ev_key m"
    "mb = Some (of_nat (turn_bucket c j))" by (auto simp: same_min_def)
  have n: "0 < nb c" using assms(1) by (simp add: buckets_ok_def)
  show ?thesis
    by (simp add: remove_min_def j take_out_def Hash_next_at [OF assms(1) j(1)] unat_turn_bucket [OF n] Let_def)
qed

lemma remove_search_peek:
  assumes ok: "buckets_ok c" "cursor_ok c" and "k < nb c" and "same_min c m mk mb"
    and "peek_search (nb c - k) c (of_nat (turn_bucket c k)) (turn_top c k) m = Inr e"
    and "e \<in># calendar_events c"
  shows "remove_search (nb c - k) c (of_nat (turn_bucket c k)) (turn_top c k) mk mb = Inr (e, take_out c e)"
  using assms(3-5)
proof (induction "nb c - k" arbitrary: k m mk mb)
  case (Suc n)
  have nk: "nb c - k = Suc n" "nb c - Suc k = n" using Suc.hyps(2) by simp_all
  define b where "b \<longleftrightarrow> bucket_at c k \<noteq> [] \<and> key_less (ev_key (next_at c k)) (ev_key m)"
  have b': "bucket_at c k \<noteq> [] \<and> key_less (ev_key (next_at c k)) mk \<longleftrightarrow> b"
    using Suc.prems(2) next_at_event [OF ok(1), of k] by (auto simp: same_min_def b_def key_less_num)
  let ?m = "if b then next_at c k else m" and ?mk = "if b then ev_key (next_at c k) else mk"
    and ?mb = "if b then Some (of_nat (turn_bucket c k)) else mb"
  have s: "same_min c ?m ?mk ?mb" using Suc.prems(2) by (auto simp: same_min_def b_def)
  have p: "(if hit c k then Inr (next_at c k) else if Suc k = nb c then Inr ?m
     else peek_search n c (of_nat (turn_bucket c (Suc k))) (turn_top c (Suc k)) ?m) = Inr e"
    using Suc.prems(3) unfolding nk peek_search_turn [OF ok Suc.prems(1)] Let_def b_def .
  have "remove_search (nb c - k) c (of_nat (turn_bucket c k)) (turn_top c k) mk mb =
    (if hit c k then Inr (next_at c k, take_out c (next_at c k)) else if Suc k = nb c then remove_min c ?mk ?mb
     else remove_search n c (of_nat (turn_bucket c (Suc k))) (turn_top c (Suc k)) ?mk ?mb)"
    unfolding nk remove_search_turn [OF ok Suc.prems(1)] Let_def b' by simp
  moreover have "remove_min c ?mk ?mb = Inr (e, take_out c e)" if "\<not> hit c k" "Suc k = nb c"
    using p that remove_min_same [OF ok(1) s] assms(6) by simp
  moreover have "remove_search n c (of_nat (turn_bucket c (Suc k))) (turn_top c (Suc k)) ?mk ?mb = Inr (e, take_out c e)"
    if "\<not> hit c k" "Suc k \<noteq> nb c"
    using p that Suc.hyps(1) [of "Suc k" ?m ?mk ?mb] nk s Suc.prems(1) by simp
  ultimately show ?case using p by (auto split: if_splits)
qed simp

lemma DoRemoveNext_least:
  assumes ok: "buckets_ok c" "cursor_ok c" and "calendar_events c \<noteq> {#}" and "m_qSize c \<noteq> 0"
  obtains e where "Calendar_PeekNext c = Inr e" and "DoRemoveNext c = Inr (e, take_out c e)"
    and "least_event c e"
proof -
  let ?m = "Event 0 (EventKey (- 1) (- 1) 0)" and ?mk = "EventKey (- 1) 0 0xffffffff"
  have n: "0 < nb c" using ok(1) by (simp add: buckets_ok_def)
  have late: "ev_ts f < - 1" if "f \<in># calendar_events c" for f
  proof -
    have "ev_ts f \<le> - 2" using ok(2) that by (simp add: cursor_ok_def)
    also have "(- 2 :: u64) < - 1" by simp
    finally show ?thesis .
  qed
  then have big: "ev_num f < ev_num ?m \<and> ev_num f < key_num ?mk" if "f \<in># calendar_events c" for f
    using that by (simp flip: key_less_num add: key_less_def)
  from peek_search_min [OF ok assms(3) n, of ?m] big obtain e where
    e: "peek_search (nb c) c (of_nat (turn_bucket c 0)) (turn_top c 0) ?m = Inr e" "least_event c e" by auto
  have "same_min c ?m ?mk None" using big by (simp add: same_min_def)
  from remove_search_peek [OF ok n this] e have
    "remove_search (nb c) c (of_nat (turn_bucket c 0)) (turn_top c 0) ?mk None = Inr (e, take_out c e)"
    by (simp add: least_event_def)
  then show thesis using e assms(4) turn_start [OF ok]
    by (intro that [of e]) (simp_all add: Calendar_PeekNext_def DoRemoveNext_def Calendar_IsEmpty_def)
qed

lemma take_out_ok:
  assumes ok: "buckets_ok c" "cursor_ok c" and "least_event c e"
  shows "buckets_ok (take_out c e)" and "cursor_ok (take_out c e)"
    and "calendar_events c = add_mset e (calendar_events (take_out c e))"
proof -
  let ?i = "slot c (ev_ts e) mod nb c"
  let ?b = "m_buckets c ! ?i" and ?r = "m_reverse c"
  have n: "0 < nb c" and i: "?i < length (m_buckets c)" "?i < nb c" and u: "unique_uids (calendar_events c)"
    using ok(1) by (auto simp: buckets_ok_def)
  have e: "e \<in># calendar_events c" and eb: "e \<in> set ?b"
    using assms(3) buckets_okE(2) [OF ok(1)] by (auto simp: least_event_def)
  have b: "bucket_ok ?r ?b" using ok(1) i(2) unfolding buckets_ok_def by blast
  have b2: "?b \<noteq> []" using eb by (metis empty_iff empty_set)
  have nx: "NextEvent ?r ?b \<in># calendar_events c"
    using i(1) NextEvent_in [OF b2] unfolding calendar_events_bucket by blast
  have "ev_num (NextEvent ?r ?b) = ev_num e"
    using NextEvent_least [OF b eb] assms(3) nx by (auto simp: least_event_def intro: antisym)
  then have "ev_uid (NextEvent ?r ?b) = ev_uid e" by (simp add: key_num_eq)
  then have ne: "NextEvent ?r ?b = e"
    using u e nx by (metis unique_uids_add fresh_def insert_DiffM insert_noteq_member)
  let ?p = "Pop ?r ?b"
  have t: "take_out c e = (c\<lparr>m_buckets := (m_buckets c)[?i := ?p]\<rparr>)\<lparr>m_lastPrio := ev_ts e,
      m_lastBucket := Hash c (ev_ts e), m_bucketTop := (ev_ts e div m_width c + 1) * m_width c\<rparr>"
    by (simp add: take_out_def unat_Hash [OF n])
  have pm: "mset ?b = add_mset e (mset ?p)" using Pop_mset [OF b2, of ?r] by (simp add: ne)
  have "mset (concat ((m_buckets c)[?i := ?p])) + mset ?b = mset (concat (m_buckets c)) + mset ?p"
    by (rule mset_concat_update [OF i(1)])
  then show ev: "calendar_events c = add_mset e (calendar_events (take_out c e))"
    by (simp add: pm t calendar_events_def)
  have "set ?p \<subseteq> set ?b" using pm by (metis set_mset_mset set_mset_add_mset_insert subset_insertI)
  moreover have "\<forall>f \<in> set ?b. slot c (ev_ts f) mod nb c = ?i"
    using ok(1) i(2) unfolding buckets_ok_def by blast
  ultimately have "\<forall>f \<in> set ?p. slot c (ev_ts f) mod nb c = ?i" by blast
  moreover have "unique_uids (calendar_events (take_out c e))" using u unfolding ev unique_uids_add ..
  then have "unique_uids (mset (concat ((m_buckets c)[?i := ?p])))" unfolding t calendar_events_def by simp
  ultimately have "buckets_ok (c\<lparr>m_buckets := (m_buckets c)[?i := ?p]\<rparr>)"
    by (rule buckets_ok_update [OF ok(1) i(2) Pop_ok [OF b]])
  then show "buckets_ok (take_out c e)" by (simp add: t)
  have "\<forall>f \<in># calendar_events (take_out c e). ev_ts e \<le> ev_ts f \<and> ev_ts f \<le> - 2"
    using ok(2) assms(3) by (auto simp: ev cursor_ok_def least_event_def intro: ts_mono_num)
  then show "cursor_ok (take_out c e)"
    by (simp add: cursor_ok_def t Hash_def)
qed

section \<open>Resizing keeps the events\<close>

text \<open>Two calendars that differ at most in their buckets and in the cursor.\<close>

definition same_shape :: "calendar \<Rightarrow> calendar \<Rightarrow> bool" where
  "same_shape c d = (m_nBuckets d = m_nBuckets c \<and> m_width d = m_width c \<and> m_qSize d = m_qSize c \<and>
     m_reverse d = m_reverse c)"

lemma same_shape_restore:
  "same_shape c d \<Longrightarrow> d\<lparr>m_lastBucket := m_lastBucket c, m_bucketTop := m_bucketTop c, m_lastPrio := m_lastPrio c\<rparr> =
    c\<lparr>m_buckets := m_buckets d\<rparr>"
  by (rule calendar.equality) (auto simp: same_shape_def)

lemma same_shape_buckets:
  assumes "same_shape c d"
  shows "buckets_ok (c\<lparr>m_buckets := m_buckets d\<rparr>) = buckets_ok d"
    and "calendar_events (c\<lparr>m_buckets := m_buckets d\<rparr>) = calendar_events d"
  using assms by (simp_all add: buckets_ok_def calendar_events_def same_shape_def)

lemma take_samples_ok:
  assumes "buckets_ok c" and "cursor_ok c" and "n \<le> size (calendar_events c)" and "m_qSize c \<noteq> 0"
  shows "\<exists>es d. take_samples n c = Inr (es, d) \<and> same_shape c d \<and> buckets_ok d \<and>
    calendar_events c = mset es + calendar_events d"
  using assms
proof (induction n arbitrary: c)
  case 0
  then show ?case by (simp add: same_shape_def)
next
  case (Suc n)
  have "calendar_events c \<noteq> {#}" using Suc.prems(3) by auto
  from DoRemoveNext_least [OF Suc.prems(1,2) this Suc.prems(4)] obtain e where
    e: "DoRemoveNext c = Inr (e, take_out c e)" "least_event c e" by blast
  note t = take_out_ok [OF Suc.prems(1,2) e(2)]
  have "n \<le> size (calendar_events (take_out c e))" using Suc.prems(3) by (simp add: t(3))
  moreover have sh: "same_shape c (take_out c e)" by (simp add: take_out_def same_shape_def)
  moreover have "m_qSize (take_out c e) \<noteq> 0" using Suc.prems(4) by (simp add: take_out_def)
  ultimately obtain es d where d: "take_samples n (take_out c e) = Inr (es, d)"
    "same_shape (take_out c e) d" "buckets_ok d" "calendar_events (take_out c e) = mset es + calendar_events d"
    using Suc.IH [OF t(1,2)] by blast
  then show ?case using sh
    by (intro exI [of _ "e # es"] exI [of _ d]) (simp add: e(1) t(3) same_shape_def)
qed

lemma nSamples_le: "2 \<le> q \<Longrightarrow> unat (nSamples q) \<le> unat q"
  unfolding nSamples_def Let_def
  by (auto simp: word_le_nat_alt word_less_nat_alt unat_div unat_word_ariths)

lemma sample_width_pos: "0 < unat (sample_width n es)"
  by (simp add: sample_width_def Let_def max_def word_le_nat_alt)

lemma CalculateNewWidth_ok:
  assumes "buckets_ok c" and "cursor_ok c" and "unat (m_qSize c) = size (calendar_events c)"
  shows "\<exists>w bs. CalculateNewWidth c = Inr (w, c\<lparr>m_buckets := bs\<rparr>) \<and> 0 < unat w \<and>
    buckets_ok (c\<lparr>m_buckets := bs\<rparr>) \<and> calendar_events (c\<lparr>m_buckets := bs\<rparr>) = calendar_events c"
proof (cases "m_qSize c < 2")
  case True
  then show ?thesis using assms(1)
    by (intro exI [of _ 1] exI [of _ "m_buckets c"]) (simp add: CalculateNewWidth_def)
next
  case False
  let ?n = "nSamples (m_qSize c)"
  have "unat ?n \<le> size (calendar_events c)" using nSamples_le [of "m_qSize c"] False
    by (simp add: assms(3) not_less)
  moreover have "m_qSize c \<noteq> 0" using False by auto
  ultimately obtain es d where d: "take_samples (unat ?n) c = Inr (es, d)" "same_shape c d"
    "buckets_ok d" "calendar_events c = mset es + calendar_events d"
    using take_samples_ok [OF assms(1,2), of "unat ?n"] by blast
  have "unique_uids (calendar_events c)" using assms(1) by (simp add: buckets_ok_def)
  with insert_events_ok [OF d(3), of es] obtain bs where bs: "insert_events es d = d\<lparr>m_buckets := bs\<rparr>"
    "buckets_ok (d\<lparr>m_buckets := bs\<rparr>)" "calendar_events (d\<lparr>m_buckets := bs\<rparr>) = calendar_events c"
    by (auto simp: d(4))
  have sh: "same_shape c (d\<lparr>m_buckets := bs\<rparr>)" using d(2) by (simp add: same_shape_def)
  have "CalculateNewWidth c = Inr (sample_width ?n es, c\<lparr>m_buckets := bs\<rparr>)"
    using False same_shape_restore [OF sh] by (simp add: CalculateNewWidth_def Let_def d(1) bs(1))
  moreover have "buckets_ok (c\<lparr>m_buckets := bs\<rparr>)" "calendar_events (c\<lparr>m_buckets := bs\<rparr>) = calendar_events c"
    using same_shape_buckets [OF sh] bs(2,3) by simp_all
  ultimately show ?thesis using sample_width_pos by blast
qed

text \<open>The calendar between two operations, and the number of buckets.\<close>

definition calendar_core :: "calendar \<Rightarrow> bool" where
  "calendar_core c = (buckets_ok c \<and> cursor_ok c \<and> unat (m_qSize c) = size (calendar_events c))"

lemma Init_ok:
  assumes "0 < unat n" and "0 < unat w"
  shows "buckets_ok (Init c n w p)" and "calendar_events (Init c n w p) = {#}"
    and "m_lastBucket (Init c n w p) = Hash (Init c n w p) p"
    and "m_bucketTop (Init c n w p) = (p div w + 1) * w"
    and "m_nBuckets (Init c n w p) = n" and "m_width (Init c n w p) = w" and "m_lastPrio (Init c n w p) = p"
    and "m_qSize (Init c n w p) = m_qSize c"
  using assms by (auto simp: Init_def Let_def buckets_ok_def calendar_events_def bucket_ok_def Hash_def)

lemma Resize_ok:
  assumes "calendar_core c" and "0 < unat n"
  shows "\<exists>d. Resize c n = Inr d \<and> calendar_core d \<and> calendar_events d = calendar_events c \<and>
    m_lastPrio d = m_lastPrio c \<and> m_nBuckets d = n"
proof -
  have c: "buckets_ok c" "cursor_ok c" "unat (m_qSize c) = size (calendar_events c)"
    using assms(1) by (auto simp: calendar_core_def)
  from CalculateNewWidth_ok [OF this] obtain w bs where w: "CalculateNewWidth c = Inr (w, c\<lparr>m_buckets := bs\<rparr>)"
    "0 < unat w" "calendar_events (c\<lparr>m_buckets := bs\<rparr>) = calendar_events c" by blast
  let ?i = "Init (c\<lparr>m_buckets := bs\<rparr>) n w (m_lastPrio c)"
  note i = Init_ok [OF assms(2) w(2), of "c\<lparr>m_buckets := bs\<rparr>" "m_lastPrio c"]
  have m: "mset (concat bs) = calendar_events c" using w(3) by (simp add: calendar_events_def)
  have "unique_uids (mset (concat bs) + calendar_events ?i)"
    using c(1) unfolding m i(2) by (simp add: buckets_ok_def)
  from insert_events_ok [OF i(1) this] obtain bs' where bs':
    "insert_events (concat bs) ?i = ?i\<lparr>m_buckets := bs'\<rparr>" "buckets_ok (?i\<lparr>m_buckets := bs'\<rparr>)"
    "calendar_events (?i\<lparr>m_buckets := bs'\<rparr>) = calendar_events c" unfolding m i(2) by auto
  have "cursor_ok (?i\<lparr>m_buckets := bs'\<rparr>)"
    using c(2) unfolding cursor_ok_def bs'(3) by (simp add: i(3-7) Hash_def)
  then have "calendar_core (?i\<lparr>m_buckets := bs'\<rparr>)"
    using bs'(2) c(3) unfolding calendar_core_def bs'(3) by (simp add: i(8))
  then show ?thesis using bs' w(1) by (simp add: Resize_def DoResize_def i(5,7))
qed

definition size_ok :: "calendar \<Rightarrow> bool" where
  "size_ok c = (\<exists>k \<le> 15. nb c = 2 ^ k)"

definition calendar_ok :: "calendar \<Rightarrow> bool" where
  "calendar_ok c = (calendar_core c \<and> size_ok c)"

lemma ResizeUp_ok:
  assumes "calendar_core c" and "size_ok c"
  shows "\<exists>d. ResizeUp c = Inr d \<and> calendar_ok d \<and> calendar_events d = calendar_events c \<and>
    m_lastPrio d = m_lastPrio c"
proof (cases "m_qSize c > m_nBuckets c * 2 \<and> m_nBuckets c < 32768")
  case True
  from assms(2) obtain k where k: "nb c = 2 ^ k" "k \<le> 15" by (auto simp: size_ok_def)
  have "(2 :: nat) ^ k < 2 ^ 15" using True k(1) by (simp add: word_less_nat_alt)
  then have "k < 15" by (rule power_less_imp_less_exp [rotated]) simp
  moreover have "(2 :: nat) ^ Suc k < 2 ^ 32" using k(2) by (intro power_strict_increasing) auto
  then have n: "unat (m_nBuckets c * 2) = 2 ^ Suc k" by (simp add: unat_word_ariths k(1) mult.commute)
  ultimately show ?thesis using Resize_ok [OF assms(1), of "m_nBuckets c * 2"] True
    by (auto simp: ResizeUp_def calendar_ok_def size_ok_def n intro!: exI [of _ "Suc k"])
qed (use assms in \<open>auto simp: ResizeUp_def calendar_ok_def\<close>)

lemma ResizeDown_ok:
  assumes "calendar_core c" and "size_ok c"
  shows "\<exists>d. ResizeDown c = Inr d \<and> calendar_ok d \<and> calendar_events d = calendar_events c \<and>
    m_lastPrio d = m_lastPrio c"
proof (cases "m_qSize c < m_nBuckets c div 2")
  case True
  from assms(2) obtain k where k: "nb c = 2 ^ k" "k \<le> 15" by (auto simp: size_ok_def)
  have "0 < unat (m_nBuckets c div 2)" using True by (simp add: word_less_nat_alt)
  then obtain l where l: "k = Suc l" by (cases k) (auto simp: unat_div k(1))
  have n: "unat (m_nBuckets c div 2) = 2 ^ l" by (simp add: unat_div k(1) l)
  then show ?thesis using Resize_ok [OF assms(1), of "m_nBuckets c div 2"] True k(2)
    by (auto simp: ResizeDown_def calendar_ok_def size_ok_def n l intro: exI [of _ l])
qed (use assms in \<open>auto simp: ResizeDown_def calendar_ok_def\<close>)

section \<open>The calendar queue keeps the contract\<close>

lemma calendar_ok_new: "calendar_ok (CalendarScheduler_new r)" "calendar_events (CalendarScheduler_new r) = {#}"
  "m_lastPrio (CalendarScheduler_new r) = 0"
proof -
  have r: "replicate 2 [] = [[], [] :: bucket]" by (simp add: numeral_2_eq_2)
  have s: "(i :: nat) < 2 \<longleftrightarrow> i = 0 \<or> i = 1" for i by auto
  show ev: "calendar_events (CalendarScheduler_new r) = {#}" "m_lastPrio (CalendarScheduler_new r) = 0" for r
    by (simp_all add: CalendarScheduler_new_def SetReverse_def Init_def Let_def calendar_events_def r)
  have "size_ok (CalendarScheduler_new r)"
    by (auto simp: size_ok_def CalendarScheduler_new_def SetReverse_def Init_def Let_def intro!: exI [of _ 1])
  moreover have "calendar_core (CalendarScheduler_new r)"
    unfolding calendar_core_def cursor_ok_def buckets_ok_def ev
    by (auto simp: CalendarScheduler_new_def SetReverse_def Init_def Let_def r s bucket_ok_def Hash_def)
  ultimately show "calendar_ok (CalendarScheduler_new r)" by (simp add: calendar_ok_def)
qed

lemma cursor_ok_frame: "cursor_ok (c\<lparr>m_qSize := q\<rparr>) = cursor_ok c"
  by (simp add: cursor_ok_def Hash_def)

lemma Calendar_Insert_ok:
  assumes "calendar_ok c" and "fresh e (calendar_events c)" and "m_lastPrio c \<le> ev_ts e" and "ev_ts e \<le> - 2"
    and "size (calendar_events c) + 1 < 2 ^ 32"
  shows "\<exists>d. Calendar_Insert c e = Inr d \<and> calendar_ok d \<and>
    calendar_events d = add_mset e (calendar_events c) \<and> m_lastPrio d = m_lastPrio c"
proof -
  have c: "buckets_ok c" "cursor_ok c" "unat (m_qSize c) = size (calendar_events c)"
    using assms(1) by (auto simp: calendar_ok_def calendar_core_def)
  from DoInsert_ok [OF c(1) assms(2)] obtain bs where bs: "DoInsert c e = c\<lparr>m_buckets := bs\<rparr>"
    "buckets_ok (c\<lparr>m_buckets := bs\<rparr>)" "calendar_events (c\<lparr>m_buckets := bs\<rparr>) = add_mset e (calendar_events c)" by auto
  have "cursor_ok (c\<lparr>m_buckets := bs\<rparr>)"
    using c(2) assms(3,4) unfolding cursor_ok_def bs(3) by (auto simp: Hash_def)
  moreover have "unat (m_qSize c + 1) = size (calendar_events c) + 1"
    using assms(5) c(3) by (simp add: unat_word_ariths)
  ultimately have "calendar_core ((DoInsert c e)\<lparr>m_qSize := m_qSize c + 1\<rparr>)"
    using bs by (simp add: calendar_core_def cursor_ok_frame)
  moreover have "size_ok ((DoInsert c e)\<lparr>m_qSize := m_qSize c + 1\<rparr>)"
    using assms(1) by (simp add: bs(1) calendar_ok_def size_ok_def)
  ultimately show ?thesis using ResizeUp_ok bs by (fastforce simp: Calendar_Insert_def Let_def)
qed

lemma Calendar_IsEmpty_ok: "calendar_ok c \<Longrightarrow> Calendar_IsEmpty c \<longleftrightarrow> calendar_events c = {#}"
  by (auto simp: calendar_ok_def calendar_core_def Calendar_IsEmpty_def word_unat_eq_iff)

lemma shrink_ok:
  assumes "calendar_ok c" and "same_shape c d" and "buckets_ok d" and "cursor_ok d"
    and "calendar_events c = add_mset e (calendar_events d)"
  shows "\<exists>d'. ResizeDown (d\<lparr>m_qSize := m_qSize d - 1\<rparr>) = Inr d' \<and> calendar_ok d' \<and>
    calendar_events d' = calendar_events d \<and> m_lastPrio d' = m_lastPrio d"
proof -
  let ?d = "d\<lparr>m_qSize := m_qSize d - 1\<rparr>"
  have q: "unat (m_qSize d) = size (calendar_events d) + 1"
    using assms(1,2,5) by (simp add: calendar_ok_def calendar_core_def same_shape_def)
  then have "m_qSize d \<noteq> 0" by auto
  then have "unat (m_qSize d - 1) = size (calendar_events d)" using q by (simp add: unat_minus_one)
  then have "calendar_core ?d" using assms(3,4) by (simp add: calendar_core_def cursor_ok_frame)
  moreover have "size_ok ?d" using assms(1,2) by (simp add: calendar_ok_def size_ok_def same_shape_def)
  ultimately show ?thesis using ResizeDown_ok [of ?d] by simp
qed

lemma Calendar_RemoveNext_ok:
  assumes "calendar_ok c" and "calendar_events c \<noteq> {#}"
  obtains e d where "Calendar_PeekNext c = Inr e" and "Calendar_RemoveNext c = Inr (e, d)"
    and "least_event c e" and "calendar_ok d" and "calendar_events c = add_mset e (calendar_events d)"
    and "m_lastPrio d = ev_ts e"
proof -
  have c: "buckets_ok c" "cursor_ok c" and ne: "\<not> Calendar_IsEmpty c"
    using assms Calendar_IsEmpty_ok [OF assms(1)] by (auto simp: calendar_ok_def calendar_core_def)
  then have "m_qSize c \<noteq> 0" by (simp add: Calendar_IsEmpty_def)
  from DoRemoveNext_least [OF c assms(2) this] obtain e where e: "Calendar_PeekNext c = Inr e"
    "DoRemoveNext c = Inr (e, take_out c e)" "least_event c e" by blast
  note t = take_out_ok [OF c e(3)]
  have "same_shape c (take_out c e)" "m_lastPrio (take_out c e) = ev_ts e"
    by (simp_all add: take_out_def same_shape_def)
  with shrink_ok [OF assms(1) _ t] obtain d where d:
    "ResizeDown ((take_out c e)\<lparr>m_qSize := m_qSize (take_out c e) - 1\<rparr>) = Inr d" "calendar_ok d"
    "calendar_events d = calendar_events (take_out c e)" "m_lastPrio d = ev_ts e" by auto
  show thesis using e d t(3) ne by (intro that [of e d]) (simp_all add: Calendar_RemoveNext_def)
qed

lemma Calendar_Remove_bucket:
  assumes "calendar_ok c" and "i < nb c" and "f \<in> set (m_buckets c ! i)" and "m_qSize c \<noteq> 0"
  shows "\<exists>d. ResizeDown (c\<lparr>m_buckets := (m_buckets c)[i := remove1 f (m_buckets c ! i)], m_qSize := m_qSize c - 1\<rparr>) = Inr d \<and>
    calendar_ok d \<and> calendar_events c = add_mset f (calendar_events d) \<and> m_lastPrio d = m_lastPrio c"
proof -
  let ?b = "m_buckets c ! i"
  let ?d = "c\<lparr>m_buckets := (m_buckets c)[i := remove1 f ?b]\<rparr>"
  have c: "buckets_ok c" "cursor_ok c" using assms(1) by (auto simp: calendar_ok_def calendar_core_def)
  have i: "i < length (m_buckets c)" using c(1) assms(2) by (simp add: buckets_ok_def)
  define p where p: "p = remove1 f ?b"
  have pm: "mset ?b = add_mset f (mset p)" using assms(3) by (simp add: p)
  have "mset (concat ((m_buckets c)[i := p])) + mset ?b = mset (concat (m_buckets c)) + mset p"
    by (rule mset_concat_update [OF i])
  then have ev: "calendar_events c = add_mset f (calendar_events ?d)"
    unfolding pm calendar_events_def p by simp
  have "unique_uids (calendar_events c)" using c(1) by (simp add: buckets_ok_def)
  then have "unique_uids (calendar_events ?d)" unfolding ev unique_uids_add ..
  then have "unique_uids (mset (concat ((m_buckets c)[i := remove1 f ?b])))" by (simp add: calendar_events_def)
  moreover have "\<forall>g \<in> set (remove1 f ?b). slot c (ev_ts g) mod nb c = i"
    using c(1) assms(2) unfolding buckets_ok_def by (meson notin_set_remove1)
  moreover have "bucket_ok (m_reverse c) (remove1 f ?b)"
    using c(1) assms(2) unfolding buckets_ok_def by (blast intro: bucket_ok_remove1)
  ultimately have "buckets_ok ?d" using buckets_ok_update [OF c(1) assms(2)] by blast
  moreover have "cursor_ok ?d" using c(2) unfolding cursor_ok_def ev by (simp add: Hash_def)
  moreover have "same_shape c ?d" by (simp add: same_shape_def)
  ultimately show ?thesis using shrink_ok [OF assms(1) _ _ _ ev] by (auto simp: ev)
qed

lemma Calendar_Remove_Inr:
  assumes "calendar_ok c" and "Calendar_Remove c e = Inr d"
  shows "\<exists>f. ev_uid f = ev_uid e \<and> ev_impl f = ev_impl e \<and> calendar_ok d \<and>
    calendar_events c = add_mset f (calendar_events d) \<and> m_lastPrio d = m_lastPrio c"
proof -
  let ?i = "unat (Hash c (ev_ts e))"
  have b: "buckets_ok c" using assms(1) by (simp add: calendar_ok_def calendar_core_def)
  then have i: "?i < nb c" by (simp add: unat_Hash buckets_ok_def)
  from assms(2) obtain b' where r: "ListScheduler_Remove (m_buckets c ! ?i) e = Inr b'" "m_qSize c \<noteq> 0"
    "ResizeDown (c\<lparr>m_buckets := (m_buckets c)[?i := b'], m_qSize := m_qSize c - 1\<rparr>) = Inr d"
    by (auto simp: Calendar_Remove_def Calendar_IsEmpty_def res_simps Let_def)
  have "distinct (map ev_uid (m_buckets c ! ?i))" by (rule distinct_bucket [OF b i])
  from ListScheduler_Remove_Inr [OF this r(1)] obtain f where
    f: "f \<in> set (m_buckets c ! ?i)" "ev_uid f = ev_uid e" "ev_impl f = ev_impl e"
    "b' = remove1 f (m_buckets c ! ?i)" .
  with Calendar_Remove_bucket [OF assms(1) i f(1) r(2)] r(3) show ?thesis by auto
qed

lemma Calendar_Remove_present:
  assumes "calendar_ok c" and "e \<in># calendar_events c"
  shows "\<exists>d. Calendar_Remove c e = Inr d \<and> calendar_ok d \<and> calendar_events c = add_mset e (calendar_events d) \<and>
    m_lastPrio d = m_lastPrio c"
proof -
  let ?i = "unat (Hash c (ev_ts e))"
  have b: "buckets_ok c" using assms(1) by (simp add: calendar_ok_def calendar_core_def)
  then have n: "0 < nb c" and i: "?i < nb c" by (simp_all add: unat_Hash buckets_ok_def)
  have e: "e \<in> set (m_buckets c ! ?i)" using buckets_okE(2) [OF b assms(2)] by (simp add: unat_Hash [OF n])
  have "ListScheduler_Remove (m_buckets c ! ?i) e = Inr (remove1 e (m_buckets c ! ?i))"
    by (rule ListScheduler_Remove_present [OF distinct_bucket [OF b i] e])
  moreover have q: "m_qSize c \<noteq> 0"
    using Calendar_IsEmpty_ok [OF assms(1)] assms(2) by (auto simp: Calendar_IsEmpty_def)
  ultimately show ?thesis using Calendar_Remove_bucket [OF assms(1) i e q]
    by (simp add: Calendar_Remove_def Calendar_IsEmpty_def Let_def)
qed

text \<open>The calendar takes no event before the last one delivered, and none at the last instant.\<close>

interpretation calendar: event_list_remove CalendarScheduler "CalendarScheduler_new reverse" calendar_ok
  calendar_events m_lastPrio "- 2"
  for reverse
proof (standard, goal_cases)
  case (6 c e)
  then show ?case using Calendar_Insert_ok [of c e] by (simp add: CalendarScheduler_def)
next
  case (7 c)
  then show ?case by (rule Calendar_RemoveNext_ok) (auto simp: CalendarScheduler_def least_event_def ev_less_num not_less)
next
  case (8 c e)
  from 8(1,3) show ?case by (rule Calendar_RemoveNext_ok) (use 8(2) in \<open>simp add: CalendarScheduler_def\<close>)
next
  case (9 c e d)
  then show ?case using Calendar_Remove_Inr by (simp add: CalendarScheduler_def)
next
  case (10 c e)
  then show ?case using Calendar_Remove_present by (simp add: CalendarScheduler_def)
qed (simp_all add: calendar_ok_new Calendar_IsEmpty_ok CalendarScheduler_def)

section \<open>Properties of the calendar queue\<close>

text \<open>
  C16: the calendar queue is right although its search computes with 64-bit words that may wrap
  around. In every calendar that its operations build, \<open>Insert\<close> of an event not before the last one
  delivered succeeds, whatever resizing it triggers, keeps the structure (every event in the bucket
  of its time stamp, the buckets sorted, their number a power of two up to 32768) and adds exactly
  that event; and \<open>RemoveNext\<close> of a calendar with events returns the event that \<open>PeekNext\<close> shows,
  which no other event precedes, keeps the structure and loses nothing else.
\<close>

theorem calendar_insert_remove:
  assumes "calendar_ok c"
  shows "(fresh e (calendar_events c) \<and> m_lastPrio c \<le> ev_ts e \<and> ev_ts e \<le> - 2 \<and>
       size (calendar_events c) + 1 < 2 ^ 32 \<longrightarrow>
      (\<exists>d. Calendar_Insert c e = Inr d \<and> calendar_ok d \<and> calendar_events d = add_mset e (calendar_events c))) \<and>
    (\<not> Calendar_IsEmpty c \<longrightarrow> (\<exists>next d. Calendar_PeekNext c = Inr next \<and> Calendar_RemoveNext c = Inr (next, d) \<and>
      calendar_ok d \<and> calendar_events c = add_mset next (calendar_events d) \<and>
      (\<forall>f \<in># calendar_events d. \<not> ev_less f next)))"
proof (intro conjI impI)
  assume "\<not> Calendar_IsEmpty c"
  then have "calendar_events c \<noteq> {#}" using Calendar_IsEmpty_ok [OF assms] by simp
  with assms show "\<exists>next d. Calendar_PeekNext c = Inr next \<and> Calendar_RemoveNext c = Inr (next, d) \<and>
      calendar_ok d \<and> calendar_events c = add_mset next (calendar_events d) \<and>
      (\<forall>f \<in># calendar_events d. \<not> ev_less f next)"
    by (rule Calendar_RemoveNext_ok) (auto simp: least_event_def ev_less_num not_less)
qed (use Calendar_Insert_ok [OF assms, of e] in blast)

theorem calendar_insert_remove_witness:
  "\<exists>d. Calendar_Insert (CalendarScheduler_new True) (Event 5 (EventKey 8 4 0)) = Inr d \<and> calendar_ok d \<and>
    calendar_events d = {#Event 5 (EventKey 8 4 0)#}"
  using calendar_insert_remove [OF calendar_ok_new(1) [of True], of "Event 5 (EventKey 8 4 0)"]
  by (simp add: calendar_ok_new fresh_def)

text \<open>
  Outside these conditions the calendar queue fails. An event at the last instant, \<open>UINT64_MAX\<close>,
  is not below the sentinel of \<open>DoRemoveNext\<close>, so that \<open>RemoveNext\<close> reads \<open>m_buckets[-1]\<close>, although
  \<open>PeekNext\<close> returns the event. And an event inserted before the last one delivered comes out after
  later ones: after the first of two events at 10 is delivered, an event inserted at 3 comes out
  after the second.
\<close>

theorem calendar_sentinel:
  "res_bind (Calendar_Insert (CalendarScheduler_new False) (Event 1 (EventKey (- 1) 4 0))) Calendar_PeekNext =
      Inr (Event 1 (EventKey (- 1) 4 0)) \<and>
   res_bind (Calendar_Insert (CalendarScheduler_new False) (Event 1 (EventKey (- 1) 4 0))) Calendar_RemoveNext =
      Inl (UB ''m_buckets[-1]'') \<and>
   map_sum id (map ev_ts)
     (res_bind (insert_all CalendarScheduler [Event 1 (EventKey 10 4 0), Event 2 (EventKey 10 5 0)]
        (CalendarScheduler_new False))
      (\<lambda>c. res_bind (Calendar_RemoveNext c)
      (\<lambda>(e, c). res_bind (Calendar_Insert c (Event 3 (EventKey 3 6 0)))
        (remove_n CalendarScheduler 2)))) = Inr [10, 3]"
  by (intro conjI) code_simp+

end
