(* ===== verification/NsPriorityQueueScheduler.thy ===== *)
theory NsPriorityQueueScheduler
  imports NsHeapScheduler NsCalendarScheduler
begin

text \<open>
  The event list on top of \<open>std::priority_queue\<close> (\<open>src/core/model/priority-queue-scheduler.cc\<close>), and
  what holds of all five event lists. The C++ standard fixes what \<open>push\<close>, \<open>top\<close>, \<open>pop\<close> and
  \<open>std::make_heap\<close> promise of the underlying vector, not its arrangement; the model keeps the vector
  sorted, which is one of the arrangements the standard allows. No operation shows the arrangement:
  \<open>top\<close> is the first event in every one, and \<open>remove\<close> looks an event up by its uid.
\<close>

section \<open>PriorityQueueScheduler\<close>

text \<open>\<open>std::make_heap\<close> and \<open>std::push_heap\<close> with \<open>std::greater\<close>: the least event at the front.\<close>

definition std_push :: "Event list \<Rightarrow> Event \<Rightarrow> Event list" where
  "std_push c ev = insort_key ev_key ev c"

definition std_make_heap :: "Event list \<Rightarrow> Event list" where
  "std_make_heap c = sort_key ev_key c"

definition PriorityQueue_Insert :: "Event list \<Rightarrow> Event \<Rightarrow> Event list res" where
  "PriorityQueue_Insert m_queue ev = Inr (std_push m_queue ev)"

definition PriorityQueue_IsEmpty :: "Event list \<Rightarrow> bool" where
  "PriorityQueue_IsEmpty m_queue = (m_queue = [])"

definition PriorityQueue_PeekNext :: "Event list \<Rightarrow> Event res" where
  "PriorityQueue_PeekNext m_queue = (case m_queue of [] \<Rightarrow> Inl (UB ''m_queue.top()'') | e # _ \<Rightarrow> Inr e)"

definition PriorityQueue_RemoveNext :: "Event list \<Rightarrow> (Event \<times> Event list) res" where
  "PriorityQueue_RemoveNext m_queue =
     (case m_queue of [] \<Rightarrow> Inl (UB ''m_queue.top()'') | e # c \<Rightarrow> Inr (e, c))"

text \<open>\<open>std::find\<close> compares with \<open>operator==\<close>, which compares the uids; \<open>erase\<close> drops what it found.\<close>

fun std_find_erase :: "Event list \<Rightarrow> Event \<Rightarrow> Event list option" where
  "std_find_erase [] ev = None"
| "std_find_erase (e # c) ev =
     (if key_eq (ev_key e) (ev_key ev) then Some c else map_option ((#) e) (std_find_erase c ev))"

definition EventPriorityQueue_remove :: "Event list \<Rightarrow> Event \<Rightarrow> Event list \<times> bool" where
  "EventPriorityQueue_remove c ev =
     (case std_find_erase c ev of Some c \<Rightarrow> (std_make_heap c, True) | None \<Rightarrow> (c, False))"

definition PriorityQueue_Remove :: "Event list \<Rightarrow> Event \<Rightarrow> Event list res" where
  "PriorityQueue_Remove m_queue ev = Inr (fst (EventPriorityQueue_remove m_queue ev))"

definition PriorityQueueScheduler :: "Event list scheduler_ops" where
  "PriorityQueueScheduler = \<lparr>op_Insert = PriorityQueue_Insert, op_IsEmpty = PriorityQueue_IsEmpty,
     op_PeekNext = PriorityQueue_PeekNext, op_RemoveNext = PriorityQueue_RemoveNext,
     op_Remove = PriorityQueue_Remove\<rparr>"

section \<open>The priority queue keeps the contract\<close>

definition pq_sorted :: "Event list \<Rightarrow> bool" where
  "pq_sorted c = (sorted (map ev_key c) \<and> distinct (map ev_uid c))"

lemma std_find_erase_present:
  "distinct (map ev_uid c) \<Longrightarrow> e \<in> set c \<Longrightarrow> std_find_erase c e = Some (remove1 e c)"
  by (induction c) (auto simp: key_eq_def image_iff)

lemma std_find_erase_absent: "ev_uid e \<notin> ev_uid ` set c \<Longrightarrow> std_find_erase c e = None"
  by (induction c) (auto simp: key_eq_def)

interpretation pq: event_list PriorityQueueScheduler "[]" pq_sorted mset any_time "- 1"
proof (standard, goal_cases)
  case (6 c e)
  then show ?case
    by (auto simp: PriorityQueueScheduler_def PriorityQueue_Insert_def std_push_def pq_sorted_def fresh_def
        sorted_insort_key distinct_map inj_on_def set_insort_key distinct_insort)
next
  case (7 c)
  then show ?case
    by (cases c) (auto simp: PriorityQueueScheduler_def PriorityQueue_PeekNext_def pq_sorted_def
        ev_less_num not_less intro: key_le_num)
next
  case (8 c e)
  then show ?case
    by (cases c) (auto simp: PriorityQueueScheduler_def PriorityQueue_PeekNext_def
        PriorityQueue_RemoveNext_def pq_sorted_def)
qed (auto simp: pq_sorted_def PriorityQueueScheduler_def PriorityQueue_IsEmpty_def)

text \<open>\<open>Remove\<close> of a queued event takes out that event; of an event that is not queued, nothing.\<close>

lemma pq_Remove:
  assumes "pq_sorted c"
  shows "e \<in> set c \<Longrightarrow> \<exists>d. PriorityQueue_Remove c e = Inr d \<and> pq_sorted d \<and> mset c = add_mset e (mset d)"
    and "ev_uid e \<notin> ev_uid ` set c \<Longrightarrow> PriorityQueue_Remove c e = Inr c"
proof -
  assume e: "e \<in> set c"
  have "std_find_erase c e = Some (remove1 e c)"
    using assms e by (intro std_find_erase_present) (auto simp: pq_sorted_def)
  then have "PriorityQueue_Remove c e = Inr (sort_key ev_key (remove1 e c))"
    by (simp add: PriorityQueue_Remove_def EventPriorityQueue_remove_def std_make_heap_def)
  moreover have "distinct (map ev_uid (sort_key ev_key (remove1 e c)))"
    using assms mset_eq_imp_distinct_iff [of "map ev_uid (sort_key ev_key (remove1 e c))" "map ev_uid (remove1 e c)"]
    by (auto simp: pq_sorted_def distinct_map inj_on_def dest: notin_set_remove1 intro: distinct_remove1)
  ultimately show "\<exists>d. PriorityQueue_Remove c e = Inr d \<and> pq_sorted d \<and> mset c = add_mset e (mset d)"
    using e by (simp add: pq_sorted_def)
next
  assume "ev_uid e \<notin> ev_uid ` set c"
  then show "PriorityQueue_Remove c e = Inr c"
    by (simp add: PriorityQueue_Remove_def EventPriorityQueue_remove_def std_find_erase_absent)
qed

section \<open>The event lists are interchangeable\<close>

text \<open>
  C2: the five event lists are interchangeable. Events with distinct uids, inserted in any order
  into the empty list, come out of successive \<open>RemoveNext\<close> calls sorted by time stamp and uid, and
  no assertion fails, whichever implementation holds them: the list, the map, the heap, the
  priority queue, or the calendar queue in either bucket order, with all the resizing that the
  insertions and removals trigger. Only the calendar needs that no event is at the last instant.
\<close>

theorem schedulers_sort:
  assumes "distinct (map ev_uid es)" and "length es < 2 ^ 32"
  shows "res_bind (insert_all ListScheduler es []) (remove_n ListScheduler (length es))
           = Inr (sort_key ev_key es) \<and>
     res_bind (insert_all MapScheduler es []) (remove_n MapScheduler (length es))
           = Inr (sort_key ev_key es) \<and>
     res_bind (insert_all HeapScheduler es HeapScheduler_new) (remove_n HeapScheduler (length es))
           = Inr (sort_key ev_key es) \<and>
     res_bind (insert_all PriorityQueueScheduler es []) (remove_n PriorityQueueScheduler (length es))
           = Inr (sort_key ev_key es) \<and>
     ((\<forall>e \<in> set es. ev_ts e \<le> - 2) \<longrightarrow>
       res_bind (insert_all CalendarScheduler es (CalendarScheduler_new reverse)) (remove_n CalendarScheduler (length es))
           = Inr (sort_key ev_key es))"
  using list_events.insert_remove_sorts [OF assms(1) _ assms(2)]
    map_evlist.insert_remove_sorts [OF assms(1) _ assms(2)]
    heap_evlist.insert_remove_sorts [OF assms(1) _ assms(2)]
    pq.insert_remove_sorts [OF assms(1) _ assms(2)]
    calendar.insert_remove_sorts [OF assms(1) _ assms(2)] by simp

theorem schedulers_sort_witness:
  "res_bind (insert_all HeapScheduler
      [Event 7 (EventKey 9 4 0), Event 8 (EventKey 3 5 0), Event 9 (EventKey 9 6 1)] HeapScheduler_new)
      (remove_n HeapScheduler 3)
    = Inr [Event 8 (EventKey 3 5 0), Event 7 (EventKey 9 4 0), Event 9 (EventKey 9 6 1)] \<and>
   res_bind (insert_all CalendarScheduler
      [Event 7 (EventKey 9 4 0), Event 8 (EventKey 3 5 0), Event 9 (EventKey 9 6 1)] (CalendarScheduler_new True))
      (remove_n CalendarScheduler 3)
    = Inr [Event 8 (EventKey 3 5 0), Event 7 (EventKey 9 4 0), Event 9 (EventKey 9 6 1)]"
proof -
  let ?es = "[Event 7 (EventKey 9 4 0), Event 8 (EventKey 3 5 0), Event 9 (EventKey 9 6 1)]"
  have "distinct (map ev_uid ?es)" and "length ?es < 2 ^ 32" by simp_all
  note schedulers_sort [OF this, of True]
  moreover have "\<forall>e \<in> set ?es. ev_ts e \<le> - 2" by simp
  moreover have "sort_key ev_key ?es =
      [Event 8 (EventKey 3 5 0), Event 7 (EventKey 9 4 0), Event 9 (EventKey 9 6 1)]"
    by (simp add: less_eq_EventKey_def key_less_def key_num_def)
  moreover have "length ?es = 3" by simp
  ultimately show ?thesis by (simp only: simp_thms)
qed

end
