(* ===== verification/NsSimulator.thy ===== *)
theory NsSimulator
  imports NsPriorityQueueScheduler
begin

text \<open>
  The discrete event simulator of the ns-3 core (\<open>default-simulator-impl.cc\<close>, \<open>event-id.cc\<close>,
  \<open>event-impl.cc\<close>), over any event list that keeps the contract of \<open>NsScheduler\<close>. The
  \<open>EventImpl\<close> objects live in a store, so that a cancellation through one \<open>EventId\<close> is seen by
  the simulator. Callbacks are payloads of a type \<open>'e\<close>; the function that runs a payload is an
  argument of the definitions that invoke events.
\<close>

section \<open>State\<close>

datatype EventId = EventId (id_impl: nat) (id_ts: u64) (id_context: u32) (id_uid: u32)

definition EventId_default :: EventId where
  "EventId_default = EventId 0 0 0 0"

definition UID_INVALID :: u32 where "UID_INVALID = 0"

definition UID_DESTROY :: u32 where "UID_DESTROY = 2"

definition UID_VALID :: u32 where "UID_VALID = 4"

definition NO_CONTEXT :: u32 where "NO_CONTEXT = 0xffffffff"

text \<open>An \<open>EventImpl\<close>: the payload that \<open>Notify\<close> runs and the flag \<open>m_cancel\<close>.\<close>

datatype 'e EventImpl = EventImpl (impl_notify: 'e) (m_cancel: bool)

record ('e, 's) simulator =
  m_eventsWithContext :: "(u32 \<times> u64 \<times> nat) list"
  m_eventsWithContextEmpty :: bool
  m_destroyEvents :: "EventId list"
  m_stop :: bool
  m_events :: 's
  m_uid :: u32
  m_currentUid :: u32
  m_currentTs :: u64
  m_currentContext :: u32
  m_eventCount :: u64
  m_unscheduledEvents :: int
  impls :: "nat \<rightharpoonup> 'e EventImpl"
  next_impl :: nat

definition DefaultSimulatorImpl_new :: "'s \<Rightarrow> ('e, 's) simulator" where
  "DefaultSimulatorImpl_new events =
     \<lparr>m_eventsWithContext = [], m_eventsWithContextEmpty = True, m_destroyEvents = [],
      m_stop = False, m_events = events, m_uid = UID_VALID, m_currentUid = UID_INVALID,
      m_currentTs = 0, m_currentContext = NO_CONTEXT, m_eventCount = 0,
      m_unscheduledEvents = 0, impls = Map.empty, next_impl = 1\<rparr>"

section \<open>Event implementations (event-impl.cc)\<close>

definition EventImpl_IsCancelled :: "('e, 's) simulator \<Rightarrow> nat \<Rightarrow> bool" where
  "EventImpl_IsCancelled S a = (case impls S a of None \<Rightarrow> False | Some i \<Rightarrow> m_cancel i)"

definition EventImpl_Cancel :: "('e, 's) simulator \<Rightarrow> nat \<Rightarrow> ('e, 's) simulator" where
  "EventImpl_Cancel S a =
     (case impls S a of None \<Rightarrow> S
      | Some i \<Rightarrow> S\<lparr>impls := (impls S)(a \<mapsto> EventImpl (impl_notify i) True)\<rparr>)"

text \<open>\<open>Invoke\<close> runs the payload unless the event was cancelled.\<close>

definition EventImpl_Invoke ::
  "('e \<Rightarrow> 'w \<times> ('e, 's) simulator \<Rightarrow> ('w \<times> ('e, 's) simulator) res) \<Rightarrow> nat \<Rightarrow>
   'w \<times> ('e, 's) simulator \<Rightarrow> ('w \<times> ('e, 's) simulator) res" where
  "EventImpl_Invoke notify a ws =
     (case impls (snd ws) a of
        None \<Rightarrow> Inl (UB ''null EventImpl'')
      | Some i \<Rightarrow> if \<not> m_cancel i then notify (impl_notify i) ws else Inr ws)"

text \<open>\<open>MakeEvent\<close>: a new \<open>EventImpl\<close> for a callback.\<close>

definition MakeEvent :: "'e \<Rightarrow> ('e, 's) simulator \<Rightarrow> nat \<times> ('e, 's) simulator" where
  "MakeEvent f S = (next_impl S,
     S\<lparr>impls := (impls S)(next_impl S \<mapsto> EventImpl f False), next_impl := next_impl S + 1\<rparr>)"

section \<open>Scheduling, cancelling, expiry\<close>

definition Now :: "('e, 's) simulator \<Rightarrow> Time" where
  "Now S = sint (m_currentTs S)"

definition IsExpired :: "('e, 's) simulator \<Rightarrow> EventId \<Rightarrow> bool" where
  "IsExpired S i =
     (if id_uid i = UID_DESTROY
      then if id_impl i = 0 \<or> EventImpl_IsCancelled S (id_impl i) then True
           else i \<notin> set (m_destroyEvents S)
      else id_impl i = 0 \<or> id_ts i < m_currentTs S \<or>
           (id_ts i = m_currentTs S \<and> id_uid i \<le> m_currentUid S) \<or>
           EventImpl_IsCancelled S (id_impl i))"

definition IsPending :: "('e, 's) simulator \<Rightarrow> EventId \<Rightarrow> bool" where
  "IsPending S i = (\<not> IsExpired S i)"

definition Cancel :: "('e, 's) simulator \<Rightarrow> EventId \<Rightarrow> ('e, 's) simulator" where
  "Cancel S i = (if \<not> IsExpired S i then EventImpl_Cancel S (id_impl i) else S)"

text \<open>The steps that \<open>Schedule\<close>, \<open>ScheduleWithContext\<close> and \<open>ProcessEventsWithContext\<close> share.\<close>

definition insert_event ::
  "'s scheduler_ops \<Rightarrow> ('e, 's) simulator \<Rightarrow> u64 \<Rightarrow> u32 \<Rightarrow> nat \<Rightarrow> (EventId \<times> ('e, 's) simulator) res" where
  "insert_event ops S ts ctx event =
     res_bind (op_Insert ops (m_events S) (Event event (EventKey ts (m_uid S) ctx)))
       (\<lambda>evs. Inr (EventId event ts ctx (m_uid S),
          S\<lparr>m_events := evs, m_uid := m_uid S + 1,
            m_unscheduledEvents := m_unscheduledEvents S + 1\<rparr>))"

definition Schedule ::
  "'s scheduler_ops \<Rightarrow> ('e, 's) simulator \<Rightarrow> Time \<Rightarrow> nat \<Rightarrow> (EventId \<times> ('e, 's) simulator) res" where
  "Schedule ops S delay event =
     ns_assert (0 \<le> delay) ''DefaultSimulatorImpl::Schedule(): Negative delay''
       (insert_event ops S (m_currentTs S + word_of_int delay) (m_currentContext S) event)"

definition ScheduleNow ::
  "'s scheduler_ops \<Rightarrow> ('e, 's) simulator \<Rightarrow> nat \<Rightarrow> (EventId \<times> ('e, 's) simulator) res" where
  "ScheduleNow ops S event = Schedule ops S 0 event"

text \<open>\<open>main\<close> says whether the caller is the main thread.\<close>

definition ScheduleWithContext ::
  "'s scheduler_ops \<Rightarrow> ('e, 's) simulator \<Rightarrow> bool \<Rightarrow> u32 \<Rightarrow> Time \<Rightarrow> nat \<Rightarrow> ('e, 's) simulator res" where
  "ScheduleWithContext ops S main ctx delay event =
     (if main
      then res_bind (insert_event ops S (m_currentTs S + word_of_int delay) ctx event) (\<lambda>(i, S'). Inr S')
      else Inr (S\<lparr>m_eventsWithContext := m_eventsWithContext S @ [(ctx, word_of_int delay, event)],
                 m_eventsWithContextEmpty := False\<rparr>))"

definition ScheduleDestroy :: "('e, 's) simulator \<Rightarrow> nat \<Rightarrow> EventId \<times> ('e, 's) simulator" where
  "ScheduleDestroy S event =
     (let i = EventId event (m_currentTs S) 0xffffffff 2
      in (i, S\<lparr>m_destroyEvents := m_destroyEvents S @ [i], m_uid := m_uid S + 1\<rparr>))"

text \<open>\<open>Simulator::Schedule(delay, callback)\<close>, as the models call it.\<close>

definition Simulator_Schedule ::
  "'s scheduler_ops \<Rightarrow> ('e, 's) simulator \<Rightarrow> Time \<Rightarrow> 'e \<Rightarrow> (EventId \<times> ('e, 's) simulator) res" where
  "Simulator_Schedule ops S delay f = (let (a, S') = MakeEvent f S in Schedule ops S' delay a)"

definition GetDelayLeft :: "('e, 's) simulator \<Rightarrow> EventId \<Rightarrow> Time" where
  "GetDelayLeft S i = (if IsExpired S i then 0 else sint (id_ts i - m_currentTs S))"

definition Remove ::
  "'s scheduler_ops \<Rightarrow> ('e, 's) simulator \<Rightarrow> EventId \<Rightarrow> ('e, 's) simulator res" where
  "Remove ops S i =
     (if id_uid i = UID_DESTROY
      then Inr (S\<lparr>m_destroyEvents := remove1 i (m_destroyEvents S)\<rparr>)
      else if IsExpired S i then Inr S
      else res_bind (op_Remove ops (m_events S)
             (Event (id_impl i) (EventKey (id_ts i) (id_uid i) (id_context i))))
        (\<lambda>evs. Inr ((EventImpl_Cancel (S\<lparr>m_events := evs\<rparr>) (id_impl i))
           \<lparr>m_unscheduledEvents := m_unscheduledEvents S - 1\<rparr>)))"

section \<open>Running\<close>

definition IsFinished :: "'s scheduler_ops \<Rightarrow> ('e, 's) simulator \<Rightarrow> bool" where
  "IsFinished ops S = (op_IsEmpty ops (m_events S) \<or> m_stop S)"

definition Stop :: "('e, 's) simulator \<Rightarrow> ('e, 's) simulator" where
  "Stop S = S\<lparr>m_stop := True\<rparr>"

definition ProcessEventsWithContext ::
  "'s scheduler_ops \<Rightarrow> ('e, 's) simulator \<Rightarrow> ('e, 's) simulator res" where
  "ProcessEventsWithContext ops S =
     (if m_eventsWithContextEmpty S then Inr S
      else for_each (\<lambda>S (ctx, ts, event).
             res_bind (insert_event ops S (m_currentTs S + ts) ctx event) (\<lambda>(i, S'). Inr S'))
           (m_eventsWithContext S)
           (S\<lparr>m_eventsWithContext := [], m_eventsWithContextEmpty := True\<rparr>))"

text \<open>\<open>ProcessOneEvent\<close> up to the invocation: the next event becomes the current one.\<close>

definition BeginEvent ::
  "'s scheduler_ops \<Rightarrow> ('e, 's) simulator \<Rightarrow> (nat \<times> ('e, 's) simulator) res" where
  "BeginEvent ops S =
     res_bind (op_RemoveNext ops (m_events S))
       (\<lambda>(next, evs).
          ns_assert (m_currentTs S \<le> ev_ts next) ''next.key.m_ts >= m_currentTs''
            (Inr (ev_impl next,
               S\<lparr>m_events := evs, m_unscheduledEvents := m_unscheduledEvents S - 1,
                 m_eventCount := m_eventCount S + 1, m_currentTs := ev_ts next,
                 m_currentContext := key_context (ev_key next), m_currentUid := ev_uid next\<rparr>)))"

definition ProcessOneEvent ::
  "'s scheduler_ops \<Rightarrow> ('e \<Rightarrow> 'w \<times> ('e, 's) simulator \<Rightarrow> ('w \<times> ('e, 's) simulator) res) \<Rightarrow>
   'w \<times> ('e, 's) simulator \<Rightarrow> ('w \<times> ('e, 's) simulator) res" where
  "ProcessOneEvent ops notify ws =
     res_bind (BeginEvent ops (snd ws)) (\<lambda>(a, S).
     res_bind (EventImpl_Invoke notify a (fst ws, S)) (\<lambda>(w, S).
     res_bind (ProcessEventsWithContext ops S) (\<lambda>S. Inr (w, S))))"

text \<open>The event loop of \<open>Run\<close>; it may never end, so its result is optional.\<close>

partial_function (option) Run_loop ::
  "'s scheduler_ops \<Rightarrow> ('e \<Rightarrow> 'w \<times> ('e, 's) simulator \<Rightarrow> ('w \<times> ('e, 's) simulator) res) \<Rightarrow>
   'w \<times> ('e, 's) simulator \<Rightarrow> ('w \<times> ('e, 's) simulator) res option" where
  "Run_loop ops notify ws =
     (if \<not> op_IsEmpty ops (m_events (snd ws)) \<and> \<not> m_stop (snd ws)
      then (case ProcessOneEvent ops notify ws of
              Inl e \<Rightarrow> Some (Inl e) | Inr ws' \<Rightarrow> Run_loop ops notify ws')
      else Some (Inr ws))"

definition Run ::
  "'s scheduler_ops \<Rightarrow> ('e \<Rightarrow> 'w \<times> ('e, 's) simulator \<Rightarrow> ('w \<times> ('e, 's) simulator) res) \<Rightarrow>
   'w \<times> ('e, 's) simulator \<Rightarrow> ('w \<times> ('e, 's) simulator) res option" where
  "Run ops notify ws =
     (case ProcessEventsWithContext ops (snd ws) of
        Inl e \<Rightarrow> Some (Inl e)
      | Inr S \<Rightarrow>
          (case Run_loop ops notify (fst ws, S\<lparr>m_stop := False\<rparr>) of
             None \<Rightarrow> None
           | Some r \<Rightarrow> Some (res_bind r (\<lambda>ws'.
               ns_assert (\<not> op_IsEmpty ops (m_events (snd ws')) \<or> m_unscheduledEvents (snd ws') = 0)
                 ''!m_events->IsEmpty() || m_unscheduledEvents == 0'' (Inr ws')))))"

text \<open>
  \<open>Destroy\<close> runs the destroy events in the order of their scheduling, those that are added while
  it runs too, so it need not end.
\<close>

partial_function (option) Destroy ::
  "('e \<Rightarrow> 'w \<times> ('e, 's) simulator \<Rightarrow> ('w \<times> ('e, 's) simulator) res) \<Rightarrow>
   'w \<times> ('e, 's) simulator \<Rightarrow> ('w \<times> ('e, 's) simulator) res option" where
  "Destroy notify ws =
     (case m_destroyEvents (snd ws) of
        [] \<Rightarrow> Some (Inr ws)
      | i # is \<Rightarrow>
          let S = (snd ws)\<lparr>m_destroyEvents := is\<rparr>
          in (case (if \<not> EventImpl_IsCancelled S (id_impl i)
                    then EventImpl_Invoke notify (id_impl i) (fst ws, S) else Inr (fst ws, S)) of
                Inl e \<Rightarrow> Some (Inl e)
              | Inr ws' \<Rightarrow> Destroy notify ws'))"

text \<open>
  \<open>SetScheduler\<close> moves every event from the old event list to the new one. The loop ends because
  each turn takes an event out; the argument is the number of turns, and a list of \<open>n\<close> events
  needs \<open>n\<close> turns (\<open>move_events_enough\<close>).
\<close>

fun move_events :: "'s scheduler_ops \<Rightarrow> 't scheduler_ops \<Rightarrow> nat \<Rightarrow> 's \<Rightarrow> 't \<Rightarrow> 't res option" where
  "move_events old new n s t =
     (if op_IsEmpty old s then Some (Inr t)
      else case n of 0 \<Rightarrow> None
           | Suc n \<Rightarrow>
               (case res_bind (op_RemoveNext old s)
                       (\<lambda>(next, s). res_bind (op_Insert new t next) (\<lambda>t. Inr (s, t))) of
                  Inl e \<Rightarrow> Some (Inl e)
                | Inr (s, t) \<Rightarrow> move_events old new n s t))"

section \<open>Steps of a simulation\<close>

text \<open>
  Everything that a callback may do to the simulator, the dispatch of the next event and the
  merge of the events that other threads posted, as one step relation. \<open>room\<close> says that neither
  the 32-bit uid counter nor the 64-bit clock wraps around, and that no event is scheduled for the very last
  instant, which a calendar queue uses as a sentinel.
\<close>

definition room :: "('e, 's) simulator \<Rightarrow> Time \<Rightarrow> bool" where
  "room S delay = (0 \<le> delay \<and> unat (m_uid S) + 1 < 2 ^ 32 \<and> unat (m_currentTs S) + nat delay < 2 ^ 64 - 1)"

definition merge_room :: "('e, 's) simulator \<Rightarrow> bool" where
  "merge_room S = (unat (m_uid S) + length (m_eventsWithContext S) < 2 ^ 32 \<and>
     (\<forall>(ctx, ts, event) \<in> set (m_eventsWithContext S). unat (m_currentTs S) + unat ts < 2 ^ 64 - 1))"

inductive sim_step :: "'s scheduler_ops \<Rightarrow> ('e, 's) simulator \<Rightarrow> ('e, 's) simulator \<Rightarrow> bool"
  for ops where
  schedule: "Simulator_Schedule ops S delay f = Inr (i, S') \<Longrightarrow> room S delay \<Longrightarrow> sim_step ops S S'"
| with_context: "MakeEvent f S = (a, T) \<Longrightarrow> ScheduleWithContext ops T main ctx delay a = Inr S' \<Longrightarrow>
    room S delay \<Longrightarrow> sim_step ops S S'"
| cancel: "sim_step ops S (Cancel S i)"
| remove: "Remove ops S i = Inr S' \<Longrightarrow> sim_step ops S S'"
| stop: "sim_step ops S (Stop S)"
| dispatch: "BeginEvent ops S = Inr (a, S') \<Longrightarrow> \<not> op_IsEmpty ops (m_events S) \<Longrightarrow> sim_step ops S S'"
| merge: "ProcessEventsWithContext ops S = Inr S' \<Longrightarrow> merge_room S \<Longrightarrow> sim_step ops S S'"

abbreviation sim_steps :: "'s scheduler_ops \<Rightarrow> ('e, 's) simulator \<Rightarrow> ('e, 's) simulator \<Rightarrow> bool" where
  "sim_steps ops \<equiv> (sim_step ops)\<^sup>*\<^sup>*"

text \<open>The position of the simulation: the rank of the event that runs now.\<close>

definition sim_now :: "('e, 's) simulator \<Rightarrow> nat" where
  "sim_now S = key_num (EventKey (m_currentTs S) (m_currentUid S) (m_currentContext S))"

section \<open>The invariant of the simulator\<close>

definition queued_ok :: "('e, 's) simulator \<Rightarrow> Event \<Rightarrow> bool" where
  "queued_ok S e = (sim_now S < ev_num e \<and> m_currentTs S \<le> ev_ts e \<and> UID_VALID \<le> ev_uid e \<and>
     ev_uid e < m_uid S \<and> ev_impl e \<in> dom (impls S))"

definition sim_inv ::
  "('s \<Rightarrow> bool) \<Rightarrow> ('s \<Rightarrow> Event multiset) \<Rightarrow> ('s \<Rightarrow> u64) \<Rightarrow> ('e, 's) simulator \<Rightarrow> bool" where
  "sim_inv invar evs lo S =
     (invar (m_events S) \<and> lo (m_events S) \<le> m_currentTs S \<and> unique_uids (evs (m_events S)) \<and>
      (\<forall>e \<in># evs (m_events S). queued_ok S e) \<and>
      m_unscheduledEvents S = int (size (evs (m_events S))) \<and>
      UID_VALID \<le> m_uid S \<and> m_currentUid S < m_uid S \<and>
      0 < next_impl S \<and> dom (impls S) \<subseteq> {0<..<next_impl S} \<and>
      (\<forall>(ctx, ts, event) \<in> set (m_eventsWithContext S). event \<in> dom (impls S)) \<and>
      (m_eventsWithContextEmpty S \<longleftrightarrow> m_eventsWithContext S = []))"

lemma unat_less_Suc: "unat (m :: u32) + 1 < 2 ^ 32 \<Longrightarrow> unat (m + 1) = unat m + 1"
  by (simp add: unat_word_ariths)

lemma u32_less_Suc: "unat (m :: u32) + 1 < 2 ^ 32 \<Longrightarrow> u \<le> m \<Longrightarrow> u < m + 1"
  by (simp add: word_less_nat_alt word_le_nat_alt unat_less_Suc)

lemma u64_le_add: "unat (t :: u64) + unat d < 2 ^ 64 \<Longrightarrow> t \<le> t + d"
  by (simp add: word_le_nat_alt unat_word_ariths)

lemma u64_le_hi: "unat (t :: u64) + unat d < 2 ^ 64 - 1 \<Longrightarrow> - 2 \<le> hi \<Longrightarrow> t + d \<le> hi"
proof -
  assume "unat t + unat d < 2 ^ 64 - 1" and hi: "- 2 \<le> hi"
  then have "t + d \<le> - 2" by (simp add: word_le_nat_alt unat_word_ariths)
  then show "t + d \<le> hi" using hi by (rule order_trans)
qed

lemma unat_delay: "0 \<le> d \<Longrightarrow> nat d < 2 ^ 64 \<Longrightarrow> unat (word_of_int d :: u64) = nat d"
  by (simp add: unat_eq_nat_uint uint_word_of_int)

lemma sim_now_less: "m_currentTs S \<le> ev_ts e \<Longrightarrow> m_currentUid S < ev_uid e \<Longrightarrow> sim_now S < ev_num e"
  unfolding sim_now_def key_less_num [symmetric] key_less_def by auto

lemma dom_MakeEvent: "MakeEvent f S = (a, T) \<Longrightarrow>
    a = next_impl S \<and> impls T = (impls S)(a \<mapsto> EventImpl f False) \<and> next_impl T = next_impl S + 1 \<and>
    T = S\<lparr>impls := impls T, next_impl := next_impl T\<rparr>"
  by (auto simp: MakeEvent_def)

lemma EventImpl_Cancel_frame [simp]:
  "m_events (EventImpl_Cancel S a) = m_events S" "m_uid (EventImpl_Cancel S a) = m_uid S"
  "m_currentTs (EventImpl_Cancel S a) = m_currentTs S"
  "m_currentUid (EventImpl_Cancel S a) = m_currentUid S"
  "m_unscheduledEvents (EventImpl_Cancel S a) = m_unscheduledEvents S"
  "next_impl (EventImpl_Cancel S a) = next_impl S"
  "m_eventsWithContext (EventImpl_Cancel S a) = m_eventsWithContext S"
  "m_eventsWithContextEmpty (EventImpl_Cancel S a) = m_eventsWithContextEmpty S"
  "dom (impls (EventImpl_Cancel S a)) = dom (impls S)"
  "sim_now (EventImpl_Cancel S a) = sim_now S"
  by (auto simp: EventImpl_Cancel_def sim_now_def key_num_def split: option.splits)

lemma sim_now_frame [simp]:
  "sim_now (S\<lparr>m_events := x\<rparr>) = sim_now S" "sim_now (S\<lparr>m_unscheduledEvents := n\<rparr>) = sim_now S"
  "sim_now (S\<lparr>impls := y\<rparr>) = sim_now S" "sim_now (S\<lparr>next_impl := k\<rparr>) = sim_now S"
  "sim_now (S\<lparr>m_uid := u\<rparr>) = sim_now S" "sim_now (S\<lparr>m_stop := b\<rparr>) = sim_now S"
  "sim_now (S\<lparr>m_eventsWithContext := w\<rparr>) = sim_now S"
  "sim_now (S\<lparr>m_eventsWithContextEmpty := b\<rparr>) = sim_now S"
  by (simp_all add: sim_now_def)

text \<open>
  What no step takes back: the position never moves backwards, an \<open>EventImpl\<close> keeps its payload
  and stays cancelled, and a queued event leaves the list only by being reached or by being
  cancelled.
\<close>

definition sim_le ::
  "('s \<Rightarrow> Event multiset) \<Rightarrow> ('e, 's) simulator \<Rightarrow> ('e, 's) simulator \<Rightarrow> bool" where
  "sim_le evs S S' =
     (sim_now S \<le> sim_now S' \<and> m_currentTs S \<le> m_currentTs S' \<and>
      (\<forall>a i. impls S a = Some i \<longrightarrow> (\<exists>i'. impls S' a = Some i' \<and>
         impl_notify i' = impl_notify i \<and> (m_cancel i \<longrightarrow> m_cancel i'))) \<and>
      (\<forall>e \<in># evs (m_events S). e \<in># evs (m_events S') \<or> ev_num e \<le> sim_now S' \<or>
         EventImpl_IsCancelled S' (ev_impl e)))"

lemma sim_le_refl [simp]: "sim_le evs S S"
  by (simp add: sim_le_def)

lemma sim_le_cancelled: "sim_le evs S S' \<Longrightarrow> EventImpl_IsCancelled S a \<Longrightarrow> EventImpl_IsCancelled S' a"
  by (fastforce simp: sim_le_def EventImpl_IsCancelled_def split: option.splits)

lemma sim_le_trans:
  assumes "sim_le evs S T" and "sim_le evs T U"
  shows "sim_le evs S U"
proof -
  have "\<exists>i'. impls U a = Some i' \<and> impl_notify i' = impl_notify i \<and> (m_cancel i \<longrightarrow> m_cancel i')"
    if "impls S a = Some i" for a i
  proof -
    from assms(1) that obtain j where j: "impls T a = Some j" "impl_notify j = impl_notify i"
      "m_cancel i \<longrightarrow> m_cancel j" unfolding sim_le_def by blast
    with assms(2) show ?thesis unfolding sim_le_def by metis
  qed
  moreover have "e \<in># evs (m_events U) \<or> ev_num e \<le> sim_now U \<or> EventImpl_IsCancelled U (ev_impl e)"
    if "e \<in># evs (m_events S)" for e
    using that assms sim_le_cancelled [OF assms(2), of "ev_impl e"]
    unfolding sim_le_def by (meson le_trans)
  moreover have "sim_now S \<le> sim_now U" "m_currentTs S \<le> m_currentTs U"
    using assms by (auto simp: sim_le_def)
  ultimately show ?thesis by (simp add: sim_le_def)
qed

lemma sim_le_EventImpl_Cancel: "sim_le evs S (EventImpl_Cancel S a)"
  by (auto simp: sim_le_def EventImpl_Cancel_def sim_now_def split: option.splits)

text \<open>The effect of one dispatched event on the model, given the effect \<open>g\<close> of payloads.\<close>

definition run_payload :: "('e \<Rightarrow> 'w \<Rightarrow> 'w) \<Rightarrow> (nat \<rightharpoonup> 'e EventImpl) \<Rightarrow> Event \<Rightarrow> 'w \<Rightarrow> 'w" where
  "run_payload g store e w =
     (case store (ev_impl e) of None \<Rightarrow> w
      | Some i \<Rightarrow> if m_cancel i then w else g (impl_notify i) w)"

lemma unique_uids_size:
  assumes "unique_uids M" and "\<And>e. e \<in># M \<Longrightarrow> ev_uid e < m"
  shows "size M \<le> unat m"
proof -
  obtain es where M: "M = mset es" by (metis ex_mset)
  have d: "distinct (map ev_uid es)" using assms(1) by (simp add: M unique_uids_mset)
  then have "length es = card (unat ` set (map ev_uid es))"
    by (metis card_image distinct_card inj_on_def length_map word_unat_eq_iff)
  also have "\<dots> \<le> card {..<unat m}"
    using assms(2) by (intro card_mono) (auto simp: M word_less_nat_alt)
  finally show ?thesis by (simp add: M)
qed

context event_list_remove
begin

abbreviation inv :: "('e, 's) simulator \<Rightarrow> bool" where
  "inv \<equiv> sim_inv invar evs lo"

abbreviation queue :: "('e, 's) simulator \<Rightarrow> Event multiset" where
  "queue S \<equiv> evs (m_events S)"

lemma inv_new: "inv (DefaultSimulatorImpl_new empty)"
  by (auto simp: sim_inv_def DefaultSimulatorImpl_new_def invar_empty evs_empty lo_empty UID_VALID_def
      UID_INVALID_def)

text \<open>Every event that enters the list does so through \<open>insert_event\<close>.\<close>

lemma insert_event_inv:
  assumes "inv S" and "unat (m_uid S) + 1 < 2 ^ 32" and "m_currentTs S \<le> ts \<and> ts \<le> hi"
    and "a \<in> dom (impls S)"
  shows "\<exists>S'. insert_event ops S ts ctx a = Inr (EventId a ts ctx (m_uid S), S') \<and> inv S' \<and>
    queue S' = add_mset (Event a (EventKey ts (m_uid S) ctx)) (queue S) \<and>
    S' = S\<lparr>m_events := m_events S', m_uid := m_uid S + 1, m_unscheduledEvents := m_unscheduledEvents S + 1\<rparr>"
proof -
  let ?e = "Event a (EventKey ts (m_uid S) ctx)"
  have fr: "fresh ?e (queue S)"
    using assms(1) by (force simp: sim_inv_def fresh_def queued_ok_def)
  have "size (queue S) \<le> unat (m_uid S)"
    using assms(1) by (intro unique_uids_size) (auto simp: sim_inv_def queued_ok_def)
  moreover have "lo (m_events S) \<le> ts"
    using assms(1,3) by (auto simp: sim_inv_def intro: order_trans)
  ultimately obtain s' where s': "op_Insert ops (m_events S) ?e = Inr s'"
    "invar s'" "evs s' = add_mset ?e (queue S)" "lo s' \<le> m_currentTs S"
    using Insert [OF _ fr] assms(1-3) by (auto simp: sim_inv_def)
  let ?S = "S\<lparr>m_events := s', m_uid := m_uid S + 1, m_unscheduledEvents := m_unscheduledEvents S + 1\<rparr>"
  have up: "u < m_uid S + 1" if "u \<le> m_uid S" for u
    using that by (rule u32_less_Suc [OF assms(2)])
  have "queued_ok ?S ?e"
    using assms sim_now_less [of S ?e] by (auto simp: queued_ok_def sim_inv_def up)
  moreover have "queued_ok ?S f" if "f \<in># queue S" for f
    using assms(1) that by (auto simp: queued_ok_def sim_inv_def intro!: up less_imp_le)
  moreover have "UID_VALID \<le> m_uid S + 1" "m_currentUid S < m_uid S + 1"
    using assms(1) up [of "UID_VALID"] up [of "m_currentUid S"] by (auto simp: sim_inv_def)
  ultimately have "inv ?S"
    using assms(1) s' fr by (simp add: sim_inv_def unique_uids_add)
  with s' show ?thesis
    by (intro exI [of _ ?S]) (simp add: insert_event_def)
qed

lemma insert_event_step:
  assumes "inv S" and "insert_event ops S ts ctx a = Inr (i, S')"
    and "unat (m_uid S) + 1 < 2 ^ 32" and "m_currentTs S \<le> ts \<and> ts \<le> hi" and "a \<in> dom (impls S)"
  shows "inv S' \<and> sim_le evs S S' \<and> i = EventId a ts ctx (m_uid S) \<and>
    queue S' = add_mset (Event a (EventKey ts (m_uid S) ctx)) (queue S) \<and> m_uid S' = m_uid S + 1 \<and>
    impls S' = impls S \<and> m_currentTs S' = m_currentTs S"
proof -
  from insert_event_inv [OF assms(1,3-5), of ctx] assms(2) have q: "inv S'"
    "i = EventId a ts ctx (m_uid S)"
    "queue S' = add_mset (Event a (EventKey ts (m_uid S) ctx)) (queue S)"
    and S': "S' = S\<lparr>m_events := m_events S', m_uid := m_uid S + 1,
      m_unscheduledEvents := m_unscheduledEvents S + 1\<rparr>" by auto
  have f: "sim_now S' = sim_now S" "m_currentTs S' = m_currentTs S" "impls S' = impls S"
    "m_uid S' = m_uid S + 1" by (subst S', simp)+
  then have "sim_le evs S S'" using q(3) by (simp add: sim_le_def)
  with q f show ?thesis by simp
qed

lemma MakeEvent_inv:
  assumes "inv S" and "MakeEvent f S = (a, T)"
  shows "inv T \<and> sim_le evs S T \<and> a \<in> dom (impls T) \<and> a \<noteq> 0 \<and> queue T = queue S \<and>
    m_uid T = m_uid S \<and> m_currentTs T = m_currentTs S"
proof -
  have T: "a = next_impl S"
    "T = S\<lparr>impls := (impls S)(a \<mapsto> EventImpl f False), next_impl := next_impl S + 1\<rparr>"
    using assms(2) by (auto simp: MakeEvent_def)
  have "impls S a = None" using assms(1) by (auto simp: sim_inv_def T(1) dom_def)
  moreover have "sim_now T = sim_now S" by (simp add: T)
  ultimately have "sim_le evs S T" by (auto simp: sim_le_def T)
  moreover have "queued_ok T e" if "queued_ok S e" for e
    using that by (auto simp: queued_ok_def T)
  then have "inv T" using assms(1) by (auto simp: sim_inv_def T)
  ultimately show ?thesis using assms(1) by (simp add: T sim_inv_def)
qed

lemma Simulator_Schedule_inv:
  assumes "inv S" and "room S delay"
  shows "\<exists>i S' e. Simulator_Schedule ops S delay f = Inr (i, S') \<and> inv S' \<and> sim_le evs S S' \<and>
    e = Event (id_impl i) (EventKey (id_ts i) (id_uid i) (id_context i)) \<and>
    queue S' = add_mset e (queue S) \<and> id_ts i = m_currentTs S + word_of_int delay \<and>
    id_impl i \<noteq> 0 \<and> impls S' (id_impl i) = Some (EventImpl f False)"
proof -
  obtain a T where M: "MakeEvent f S = (a, T)" by (cases "MakeEvent f S")
  have nw: "unat (m_uid S) + 1 < 2 ^ 32" "0 \<le> delay" and le: "m_currentTs S \<le> m_currentTs S + word_of_int delay \<and>
      m_currentTs S + word_of_int delay \<le> hi"
    using assms(2) hi_bound by (auto simp: room_def unat_delay intro!: u64_le_add u64_le_hi)
  note T = MakeEvent_inv [OF assms(1) M]
  from insert_event_inv [of T "m_currentTs S + word_of_int delay" a "m_currentContext T"] T nw(1) le
  obtain S' where S': "insert_event ops T (m_currentTs S + word_of_int delay) (m_currentContext T) a =
      Inr (EventId a (m_currentTs S + word_of_int delay) (m_currentContext T) (m_uid T), S')" by auto
  from insert_event_step [OF _ S'] T nw(1) le have "inv S'" "sim_le evs T S'"
    "queue S' = add_mset (Event a (EventKey (m_currentTs S + word_of_int delay) (m_uid T) (m_currentContext T))) (queue S)"
    "impls S' = impls T" by auto
  moreover have "impls T a = Some (EventImpl f False)" using dom_MakeEvent [OF M] by simp
  ultimately show ?thesis using S' M T nw(2) sim_le_trans [of evs S T S']
    by (auto simp: Simulator_Schedule_def Schedule_def)
qed

lemma inv_EventImpl_Cancel: "inv S \<Longrightarrow> inv (EventImpl_Cancel S a)"
  by (simp add: sim_inv_def queued_ok_def)

lemma Cancel_step: "inv S \<Longrightarrow> inv (Cancel S i) \<and> sim_le evs S (Cancel S i)"
  by (simp add: Cancel_def inv_EventImpl_Cancel sim_le_EventImpl_Cancel)

lemma Remove_step:
  assumes "inv S" and "NsSimulator.Remove ops S i = Inr S'"
  shows "inv S' \<and> sim_le evs S S'"
proof (cases "id_uid i = UID_DESTROY \<or> IsExpired S i")
  case True
  then have "S' = S \<or> S' = S\<lparr>m_destroyEvents := m_destroyEvents S'\<rparr>"
    using assms(2) by (auto simp: NsSimulator.Remove_def split: if_splits)
  moreover have "inv (S\<lparr>m_destroyEvents := d\<rparr>) \<and> sim_le evs S (S\<lparr>m_destroyEvents := d\<rparr>)" for d
    using assms(1) by (auto simp: sim_inv_def queued_ok_def sim_le_def sim_now_def)
  ultimately show ?thesis using assms(1) by (metis sim_le_refl)
next
  case False
  let ?e = "Event (id_impl i) (EventKey (id_ts i) (id_uid i) (id_context i))"
  from False assms(2) obtain s' where s': "op_Remove ops (m_events S) ?e = Inr s'"
    "S' = (EventImpl_Cancel (S\<lparr>m_events := s'\<rparr>) (id_impl i))
      \<lparr>m_unscheduledEvents := m_unscheduledEvents S - 1\<rparr>"
    by (auto simp: NsSimulator.Remove_def res_simps)
  from Remove [OF _ s'(1)] assms(1) obtain f where f: "ev_impl f = id_impl i" "invar s'"
    "queue S = add_mset f (evs s')" "lo s' = lo (m_events S)" by (auto simp: sim_inv_def)
  have "queued_ok S' e" if "queued_ok S e" for e
    using that by (simp add: queued_ok_def s')
  with assms(1) f have "inv S'" by (simp add: sim_inv_def s' unique_uids_add)
  moreover have "EventImpl_IsCancelled S' (ev_impl f)"
    using assms(1) f by (auto simp: s' EventImpl_IsCancelled_def EventImpl_Cancel_def sim_inv_def
        queued_ok_def split: option.splits)
  then have "sim_le evs S S'"
    using f(3) by (auto simp: sim_le_def s' EventImpl_Cancel_def sim_now_def split: option.splits)
  ultimately show ?thesis ..
qed

text \<open>The dispatch never fails on a non-empty list, and its time assertion holds.\<close>

lemma BeginEvent_inv:
  assumes "inv S" and "\<not> op_IsEmpty ops (m_events S)"
  shows "\<exists>e S'. BeginEvent ops S = Inr (ev_impl e, S') \<and> inv S' \<and> sim_le evs S S' \<and>
    queue S = add_mset e (queue S') \<and> sim_now S < sim_now S' \<and> sim_now S' = ev_num e \<and>
    m_currentTs S' = ev_ts e \<and> (\<forall>f \<in># queue S. ev_num e \<le> ev_num f) \<and>
    impls S' = impls S"
proof -
  have "invar (m_events S)" "queue S \<noteq> {#}" using assms IsEmpty by (auto simp: sim_inv_def)
  from remove_next [OF this] obtain e s' where r: "op_RemoveNext ops (m_events S) = Inr (e, s')"
    "invar s'" "queue S = add_mset e (evs s')" "\<forall>f \<in># queue S. ev_num e \<le> ev_num f"
    "lo s' \<le> ev_ts e" by metis
  have e: "queued_ok S e" using assms(1) r(3) by (simp add: sim_inv_def)
  let ?S = "S\<lparr>m_events := s', m_unscheduledEvents := m_unscheduledEvents S - 1,
    m_eventCount := m_eventCount S + 1, m_currentTs := ev_ts e,
    m_currentContext := key_context (ev_key e), m_currentUid := ev_uid e\<rparr>"
  have now: "sim_now ?S = ev_num e" by (simp add: sim_now_def key_num_def)
  have ok: "queued_ok ?S f" if f: "f \<in># evs s'" for f
  proof -
    have fe: "queued_ok S f" "ev_num e \<le> ev_num f" using assms(1) r(3,4) f by (auto simp: sim_inv_def)
    have "ev_uid f \<noteq> ev_uid e"
      using assms(1) f by (auto simp: sim_inv_def r(3) unique_uids_add fresh_def)
    with fe(2) have "ev_num e < ev_num f" by (auto simp: le_less key_num_eq)
    then have "ev_ts e \<le> ev_ts f" by (auto simp: key_less_num [symmetric] key_less_def)
    with \<open>ev_num e < ev_num f\<close> fe(1) now show ?thesis by (simp add: queued_ok_def)
  qed
  have "inv ?S" using assms(1) r(2,3,5) e ok
    by (simp add: sim_inv_def unique_uids_add queued_ok_def [of S])
  moreover have "sim_le evs S ?S" using e r(3) now
    by (auto simp: sim_le_def queued_ok_def)
  moreover have "BeginEvent ops S = Inr (ev_impl e, ?S)" using e r(1)
    by (simp add: BeginEvent_def queued_ok_def)
  ultimately show ?thesis using r e now by (intro exI [of _ e] exI [of _ ?S]) (simp add: queued_ok_def)
qed

lemma ProcessEvents_loop:
  assumes "inv S" and "unat (m_uid S) + length ws < 2 ^ 32"
    and "\<forall>(ctx, ts, event) \<in> set ws. unat (m_currentTs S) + unat ts < 2 ^ 64 - 1 \<and> event \<in> dom (impls S)"
  shows "\<exists>S'. for_each (\<lambda>S (ctx, ts, event).
      res_bind (insert_event ops S (m_currentTs S + ts) ctx event) (\<lambda>(i, S'). Inr S')) ws S = Inr S' \<and>
    inv S' \<and> sim_le evs S S' \<and> size (queue S') = size (queue S) + length ws"
  using assms
proof (induction ws arbitrary: S)
  case (Cons w ws)
  obtain ctx ts a where w: "w = (ctx, ts, a)" by (cases w)
  have nw: "unat (m_uid S) + 1 < 2 ^ 32" and le: "m_currentTs S \<le> m_currentTs S + ts \<and> m_currentTs S + ts \<le> hi"
    and a: "a \<in> dom (impls S)"
    using Cons.prems hi_bound by (auto simp: w intro!: u64_le_add u64_le_hi)
  from insert_event_inv [OF Cons.prems(1) nw le a, of ctx] obtain i T where
    T: "insert_event ops S (m_currentTs S + ts) ctx a = Inr (i, T)" by blast
  note T' = insert_event_step [OF Cons.prems(1) T nw le a]
  have "unat (m_uid T) + length ws < 2 ^ 32"
    using T' Cons.prems(2) unat_less_Suc [OF nw] by simp
  with Cons.IH [of T] T' Cons.prems(3) obtain S' where
    "for_each (\<lambda>S (ctx, ts, event).
      res_bind (insert_event ops S (m_currentTs S + ts) ctx event) (\<lambda>(i, S'). Inr S')) ws T = Inr S'"
    "inv S'" "sim_le evs T S'" "size (queue S') = size (queue T) + length ws" by auto
  with T T' sim_le_trans [of evs S T S'] show ?case by (auto simp: w)
qed simp

lemma ProcessEventsWithContext_inv:
  assumes "inv S" and "merge_room S"
  shows "\<exists>S'. ProcessEventsWithContext ops S = Inr S' \<and> inv S' \<and> sim_le evs S S' \<and>
    size (queue S') = size (queue S) + length (m_eventsWithContext S)"
proof (cases "m_eventsWithContextEmpty S")
  case True
  then show ?thesis using assms(1) by (simp add: ProcessEventsWithContext_def sim_inv_def)
next
  case False
  let ?S = "S\<lparr>m_eventsWithContext := [], m_eventsWithContextEmpty := True\<rparr>"
  have "inv ?S" using assms(1) by (simp add: sim_inv_def queued_ok_def)
  moreover have "sim_le evs S ?S" by (simp add: sim_le_def)
  ultimately show ?thesis
    using ProcessEvents_loop [of ?S "m_eventsWithContext S"] assms False sim_le_trans [of evs S ?S]
    by (auto simp: ProcessEventsWithContext_def merge_room_def sim_inv_def split_beta)
qed

lemma with_context_step:
  assumes "inv S" and "MakeEvent f S = (a, T)"
    and "ScheduleWithContext ops T main ctx delay a = Inr S'" and "room S delay"
  shows "inv S' \<and> sim_le evs S S'"
proof -
  note T = MakeEvent_inv [OF assms(1,2)]
  have nw: "unat (m_uid T) + 1 < 2 ^ 32" and le: "m_currentTs T \<le> m_currentTs T + word_of_int delay \<and>
      m_currentTs T + word_of_int delay \<le> hi"
    using assms(4) T hi_bound by (auto simp: room_def unat_delay intro!: u64_le_add u64_le_hi)
  have "inv S' \<and> sim_le evs T S'"
  proof (cases main)
    case True
    with assms(3) obtain i where
      "insert_event ops T (m_currentTs T + word_of_int delay) ctx a = Inr (i, S')"
      by (auto simp: ScheduleWithContext_def res_simps)
    from insert_event_step [OF _ this nw le] T show ?thesis by simp
  next
    case False
    then have "S' = T\<lparr>m_eventsWithContext := m_eventsWithContext T @ [(ctx, word_of_int delay, a)],
      m_eventsWithContextEmpty := False\<rparr>" using assms(3) by (simp add: ScheduleWithContext_def)
    moreover have "inv T" "a \<in> dom (impls T)" using T by simp_all
    ultimately show ?thesis by (simp add: sim_inv_def queued_ok_def sim_le_def)
  qed
  then show ?thesis using T sim_le_trans by blast
qed

lemma sim_step_inv: "sim_step ops S S' \<Longrightarrow> inv S \<Longrightarrow> inv S' \<and> sim_le evs S S'"
proof (induction rule: sim_step.induct)
  case (schedule S delay f i S')
  then show ?case using Simulator_Schedule_inv [of S delay f] by auto
next
  case (stop S)
  then show ?case by (auto simp: Stop_def sim_inv_def queued_ok_def sim_le_def)
next
  case (dispatch S a S')
  then show ?case using BeginEvent_inv [of S] by auto
next
  case (merge S S')
  then show ?case using ProcessEventsWithContext_inv [of S] by auto
next
  case (with_context f S a T main ctx delay S')
  then show ?case by (intro with_context_step)
next
  case (cancel S i)
  then show ?case by (rule Cancel_step)
next
  case (remove S i S')
  then show ?case by (intro Remove_step)
qed

lemma sim_steps_inv: "sim_steps ops S S' \<Longrightarrow> inv S \<Longrightarrow> inv S' \<and> sim_le evs S S'"
proof (induction rule: rtranclp_induct)
  case (step T U)
  then have "inv T" "sim_le evs S T" by auto
  with sim_step_inv [OF step.hyps(2)] show ?case using sim_le_trans by blast
qed simp

lemma reachable_inv: "sim_steps ops (DefaultSimulatorImpl_new empty) S \<Longrightarrow> inv S"
  using sim_steps_inv inv_new by blast

lemma queued_pending:
  assumes "inv S" and "e = Event (id_impl i) (EventKey (id_ts i) (id_uid i) (id_context i))"
    and "e \<in># queue S"
  shows "IsPending S i \<longleftrightarrow> \<not> EventImpl_IsCancelled S (id_impl i)"
proof -
  have q: "queued_ok S e" using assms(1,3) by (simp add: sim_inv_def)
  have "id_uid i \<noteq> UID_DESTROY" "id_impl i \<noteq> 0"
    using q assms(1,2) by (auto simp: queued_ok_def UID_VALID_def UID_DESTROY_def sim_inv_def)
  moreover have "\<not> id_ts i < m_currentTs S" "id_ts i = m_currentTs S \<longrightarrow> m_currentUid S < id_uid i"
    using q assms(2) by (auto simp: queued_ok_def sim_now_def key_less_num [symmetric] key_less_def)
  ultimately show ?thesis by (auto simp: IsPending_def IsExpired_def)
qed

text \<open>An event that was scheduled is pending exactly while it is queued and not cancelled.\<close>

lemma scheduled_pending_iff:
  assumes "inv S" and "room S delay"
    and "Simulator_Schedule ops S delay f = Inr (i, T)" and "sim_steps ops T U"
  shows "IsPending U i \<longleftrightarrow>
    Event (id_impl i) (EventKey (id_ts i) (id_uid i) (id_context i)) \<in># queue U \<and>
    \<not> EventImpl_IsCancelled U (id_impl i)"
proof -
  let ?e = "Event (id_impl i) (EventKey (id_ts i) (id_uid i) (id_context i))"
  from Simulator_Schedule_inv [OF assms(1,2), of f] assms(3) have T: "inv T" "?e \<in># queue T" by auto
  then have q: "queued_ok T ?e" by (simp add: sim_inv_def)
  from sim_steps_inv [OF assms(4) T(1)] have U: "inv U" "sim_le evs T U" by auto
  then have "?e \<in># queue U \<or> ev_num ?e \<le> sim_now U \<or> EventImpl_IsCancelled U (id_impl i)"
    using T(2) by (fastforce simp: sim_le_def)
  moreover have "\<not> IsPending U i" if "ev_num ?e \<le> sim_now U"
  proof -
    have "\<not> key_less (EventKey (m_currentTs U) (m_currentUid U) (m_currentContext U)) (ev_key ?e)"
      using that by (simp add: sim_now_def key_less_num)
    moreover have "id_uid i \<noteq> UID_DESTROY"
      using q by (auto simp: queued_ok_def UID_VALID_def UID_DESTROY_def)
    ultimately show ?thesis by (auto simp: IsPending_def IsExpired_def key_less_def)
  qed
  moreover have "\<not> IsPending U i" if "EventImpl_IsCancelled U (id_impl i)"
    using that by (simp add: IsPending_def IsExpired_def)
  ultimately show ?thesis using queued_pending [OF U(1) refl, of i] by blast
qed

text \<open>Every later dispatch has a strictly larger rank.\<close>

lemma dispatch_later:
  assumes "inv S" and "sim_steps ops S T" and "\<not> op_IsEmpty ops (m_events T)"
  shows "\<exists>a U. BeginEvent ops T = Inr (a, U) \<and> a \<in> dom (impls U) \<and> sim_now S < sim_now U \<and>
    m_currentTs S \<le> m_currentTs U"
proof -
  from sim_steps_inv [OF assms(2,1)] have T: "inv T" "sim_le evs S T" by auto
  from BeginEvent_inv [OF T(1) assms(3)] obtain e U where U: "BeginEvent ops T = Inr (ev_impl e, U)"
    "sim_le evs T U" "sim_now T < sim_now U" "queue T = add_mset e (queue U)" "impls U = impls T" by blast
  have "ev_impl e \<in> dom (impls T)" using T(1) U(4) by (simp add: sim_inv_def queued_ok_def)
  with T U sim_le_trans [OF T(2) U(2)] show ?thesis by (auto simp: sim_le_def)
qed

text \<open>
  When the callbacks do not touch the simulator (\<open>g\<close> is their effect on the model), the loop ends
  after as many turns as there are events and runs the payloads of the live ones in key order.
\<close>

lemma Run_loop_runs:
  fixes S :: "('e, 's) simulator"
  assumes notify: "\<And>f w (S :: ('e, 's) simulator). notify f (w, S) = Inr (g f w, S)"
    and "inv S" and "\<not> m_stop S" and "m_eventsWithContext S = []" and "size (queue S) = n"
  shows "\<exists>es S'. Run_loop ops notify (w, S) = Some (Inr (fold (run_payload g (impls S)) es w, S')) \<and>
    mset es = queue S \<and> sorted (map ev_num es) \<and> queue S' = {#} \<and> inv S'"
  using assms(2-)
proof (induction n arbitrary: S w)
  case 0
  then have "op_IsEmpty ops (m_events S)" using IsEmpty by (simp add: sim_inv_def)
  then show ?case using 0 by (subst Run_loop.simps) auto
next
  case (Suc n)
  then have ne: "\<not> op_IsEmpty ops (m_events S)" using IsEmpty by (auto simp: sim_inv_def)
  from BeginEvent_inv [OF Suc.prems(1) ne] obtain e T where T: "BeginEvent ops S = Inr (ev_impl e, T)"
    "inv T" "queue S = add_mset e (queue T)" "\<forall>f \<in># queue S. ev_num e \<le> ev_num f" "impls T = impls S"
    by blast
  have T': "\<not> m_stop T" "m_eventsWithContext T = []"
    using T(1) Suc.prems(2,3) by (auto simp: BeginEvent_def res_simps)
  obtain i where i: "impls S (ev_impl e) = Some i"
    using Suc.prems(1) T(3) by (auto simp: sim_inv_def queued_ok_def)
  have "m_eventsWithContextEmpty T" using T(2) T'(2) by (simp add: sim_inv_def)
  then have one: "ProcessOneEvent ops notify (w, S) = Inr (run_payload g (impls S) e w, T)"
    using T i notify by (simp add: ProcessOneEvent_def EventImpl_Invoke_def run_payload_def
        ProcessEventsWithContext_def)
  from Suc.IH [OF T(2) T', of "run_payload g (impls S) e w"] Suc.prems(4) T(3,5) obtain es S' where
    "Run_loop ops notify (run_payload g (impls S) e w, T) =
       Some (Inr (fold (run_payload g (impls S)) es (run_payload g (impls S) e w), S'))"
    "mset es = queue T" "sorted (map ev_num es)" "queue S' = {#}" "inv S'" by auto
  moreover from this have "\<forall>f \<in> set es. ev_num e \<le> ev_num f"
    using T(3,4) by (metis set_mset_mset union_iff add_mset_add_single)
  ultimately show ?case using one ne Suc.prems(2) T(3)
    by (subst Run_loop.simps) (auto intro!: exI [of _ "e # es"])
qed

lemma Run_runs:
  fixes S :: "('e, 's) simulator"
  assumes "\<And>f w (S :: ('e, 's) simulator). notify f (w, S) = Inr (g f w, S)"
    and "inv S" and "m_eventsWithContext S = []"
  shows "\<exists>es S'. Run ops notify (w, S) = Some (Inr (fold (run_payload g (impls S)) es w, S')) \<and>
    mset es = queue S \<and> sorted (map ev_num es) \<and> queue S' = {#}"
proof -
  have "ProcessEventsWithContext ops S = Inr S"
    using assms(2,3) by (simp add: ProcessEventsWithContext_def sim_inv_def)
  moreover have "inv (S\<lparr>m_stop := False\<rparr>)" using assms(2) by (simp add: sim_inv_def queued_ok_def)
  moreover have "\<not> op_IsEmpty ops (m_events T) \<or> m_unscheduledEvents T = 0" if "inv T"
    for T :: "('e, 's) simulator" using that IsEmpty by (auto simp: sim_inv_def)
  moreover obtain es T where
    "Run_loop ops notify (w, S\<lparr>m_stop := False\<rparr>) = Some (Inr (fold (run_payload g (impls S)) es w, T))"
    "mset es = queue S" "sorted (map ev_num es)" "queue T = {#}" "inv T"
    using Run_loop_runs [where S = "S\<lparr>m_stop := False\<rparr>" and w = w and notify = notify and g = g,
        OF assms(1) calculation(2) _ _ refl] assms(3) by auto
  ultimately have "Run ops notify (w, S) = Some (Inr (fold (run_payload g (impls S)) es w, T))"
    by (simp add: Run_def ns_assert_def)
  then show ?thesis using \<open>mset es = queue S\<close> \<open>sorted (map ev_num es)\<close> \<open>queue T = {#}\<close> by blast
qed

end

section \<open>Changing the event list in mid-run\<close>

lemma move_events_enough:
  assumes old: "event_list old e0 oinvar oevs olo ohi" and new: "event_list new n0 ninvar nevs nlo nhi"
    and "oinvar s" and "ninvar t" and "unique_uids (oevs s + nevs t)" and "size (oevs s) \<le> n"
    and "\<forall>e \<in># oevs s. nlo t \<le> ev_ts e \<and> ev_ts e \<le> nhi" and "size (oevs s) + size (nevs t) < 2 ^ 32"
  shows "\<exists>t'. move_events old new n s t = Some (Inr t') \<and> ninvar t' \<and> nevs t' = oevs s + nevs t"
  using assms(3-)
proof (induction n arbitrary: s t)
  case 0
  then show ?case using event_list.IsEmpty [OF old 0(1)] by auto
next
  case (Suc n)
  show ?case
  proof (cases "oevs s = {#}")
    case True
    then show ?thesis using Suc.prems event_list.IsEmpty [OF old Suc.prems(1)] by auto
  next
    case False
    from event_list.remove_next [OF old Suc.prems(1) False] obtain e s' where e:
      "op_RemoveNext old s = Inr (e, s')" "oinvar s'" "oevs s = add_mset e (oevs s')" by metis
    have u: "fresh e (nevs t)" "unique_uids (oevs s' + add_mset e (nevs t))"
      using Suc.prems(3) by (auto simp: e(3) unique_uids_add fresh_def)
    have "nlo t \<le> ev_ts e" "ev_ts e \<le> nhi" "size (nevs t) + 1 < 2 ^ 32"
      using Suc.prems(5,6) by (auto simp: e(3))
    from event_list.Insert [OF new Suc.prems(2) u(1) this] obtain t' where t':
      "op_Insert new t e = Inr t'" "ninvar t'" "nevs t' = add_mset e (nevs t)" "nlo t' = nlo t" by blast
    from Suc.IH [OF e(2) t'(2)] u(2) Suc.prems(4-6) obtain t'' where
      "move_events old new n s' t' = Some (Inr t'')" "ninvar t''" "nevs t'' = oevs s' + nevs t'"
      by (auto simp: e(3) t'(3,4))
    moreover have "\<not> op_IsEmpty old s" using event_list.IsEmpty [OF old Suc.prems(1)] False by simp
    ultimately show ?thesis using e t' by simp
  qed
qed

declare move_events.simps [simp del]

section \<open>Properties of the simulator with its default event list\<close>

text \<open>A small run for the witnesses: one event, of payload 7, five time steps ahead.\<close>

definition demo0 :: "(nat, event_map) simulator" where
  "demo0 = DefaultSimulatorImpl_new []"

definition demo_id :: EventId where
  "demo_id = EventId 1 5 NO_CONTEXT 4"

definition demo1 :: "(nat, event_map) simulator" where
  "demo1 = demo0\<lparr>m_events := [(EventKey 5 4 NO_CONTEXT, 1)], m_uid := 5, m_unscheduledEvents := 1,
     impls := [1 \<mapsto> EventImpl 7 False], next_impl := 2\<rparr>"

lemmas demo_defs = demo0_def demo1_def demo_id_def DefaultSimulatorImpl_new_def

lemma demo_reach0: "sim_steps MapScheduler (DefaultSimulatorImpl_new []) demo0"
  by (simp add: demo0_def)

lemma demo_room: "room demo0 5"
  by (simp add: room_def demo_defs UID_VALID_def)

lemma demo_schedule: "Simulator_Schedule MapScheduler demo0 5 7 = Inr (demo_id, demo1)"
  by (simp add: Simulator_Schedule_def MakeEvent_def Schedule_def insert_event_def MapScheduler_def
      MapScheduler_Insert_def demo_defs UID_VALID_def)

lemma demo_step: "sim_steps MapScheduler demo0 demo1"
  using sim_step.schedule [OF demo_schedule demo_room] by blast

lemma demo_reach1: "sim_steps MapScheduler (DefaultSimulatorImpl_new []) demo1"
  using demo_step by (simp add: demo0_def)

lemma demo_pending: "IsPending demo1 demo_id"
  by (simp add: IsPending_def IsExpired_def EventImpl_IsCancelled_def demo_defs UID_DESTROY_def)

text \<open>C1: events are dispatched in order. From any reachable state of the simulator, whatever
  callbacks scheduled, cancelled or removed in between, taking the next event never fails (the
  assertion of \<open>ProcessOneEvent\<close> that time does not run backwards holds, and the event's callback
  object exists), and the event taken has a strictly later key, and a time stamp at least as late,
  as every event dispatched before.\<close>

theorem dispatch_in_order:
  fixes S T :: "('e, event_map) simulator"
  assumes "sim_steps MapScheduler (DefaultSimulatorImpl_new []) S"
    and "sim_steps MapScheduler S T" and "\<not> IsFinished MapScheduler T"
  shows "\<exists>a U. BeginEvent MapScheduler T = Inr (a, U) \<and> a \<in> dom (impls U) \<and>
    sim_now S < sim_now U \<and> m_currentTs S \<le> m_currentTs U"
  using map_removal.dispatch_later [OF map_removal.reachable_inv [OF assms(1)] assms(2)] assms(3)
  by (simp add: IsFinished_def)

theorem dispatch_in_order_witness:
  "\<exists>a U. BeginEvent MapScheduler demo1 = Inr (a, U) \<and> a \<in> dom (impls U) \<and>
    sim_now demo0 < sim_now U \<and> m_currentTs demo0 \<le> m_currentTs U"
proof -
  have "\<not> IsFinished MapScheduler demo1"
    by (simp add: IsFinished_def MapScheduler_def MapScheduler_IsEmpty_def demo_defs)
  with dispatch_in_order [OF demo_reach0 demo_step] show ?thesis .
qed

text \<open>The counter \<open>m_unscheduledEvents\<close>, which \<open>Run\<close> asserts to be zero at the end, is the
  number of queued events in every reachable state, and the events' uids are pairwise distinct.\<close>

theorem unscheduled_counts:
  fixes S :: "('e, event_map) simulator"
  assumes "sim_steps MapScheduler (DefaultSimulatorImpl_new []) S"
  shows "m_unscheduledEvents S = int (length (m_events S)) \<and>
    distinct (map ev_uid (map_events (m_events S)))"
  using map_removal.reachable_inv [OF assms]
  by (simp add: sim_inv_def list_sorted_def map_events_def)

theorem unscheduled_counts_witness:
  "m_unscheduledEvents demo1 = int (length (m_events demo1)) \<and>
    distinct (map ev_uid (map_events (m_events demo1)))"
  by (rule unscheduled_counts [OF demo_reach1])

text \<open>C19: an \<open>EventId\<close> that \<open>Schedule\<close> returned is pending exactly as long as its event is queued
  and not cancelled, in every later state.\<close>

theorem pending_iff_queued:
  fixes S T U :: "('e, event_map) simulator"
  assumes "sim_steps MapScheduler (DefaultSimulatorImpl_new []) S" and "room S delay"
    and "Simulator_Schedule MapScheduler S delay f = Inr (i, T)" and "sim_steps MapScheduler T U"
  shows "IsPending U i \<longleftrightarrow>
    Event (id_impl i) (EventKey (id_ts i) (id_uid i) (id_context i)) \<in> set (map_events (m_events U)) \<and>
    \<not> EventImpl_IsCancelled U (id_impl i)"
  using map_removal.scheduled_pending_iff [OF map_removal.reachable_inv [OF assms(1)] assms(2-4)]
  by simp

theorem pending_iff_queued_witness:
  "IsPending demo1 demo_id \<longleftrightarrow>
    Event 1 (EventKey 5 4 NO_CONTEXT) \<in> set (map_events (m_events demo1)) \<and>
    \<not> EventImpl_IsCancelled demo1 1"
  using pending_iff_queued [OF demo_reach0 demo_room demo_schedule rtranclp.rtrancl_refl]
  by (simp add: demo_id_def)

text \<open>C18: a pending event that is cancelled never runs: in every later state its invocation leaves
  the model as it is, and the event is no longer pending.\<close>

theorem cancelled_never_runs:
  fixes S T U V :: "('e, event_map) simulator"
  assumes "sim_steps MapScheduler (DefaultSimulatorImpl_new []) S" and "room S delay"
    and "Simulator_Schedule MapScheduler S delay f = Inr (i, T)" and "sim_steps MapScheduler T U"
    and "IsPending U i" and "sim_steps MapScheduler (Cancel U i) V"
  shows "EventImpl_Invoke notify (id_impl i) (w, V) = Inr (w, V) \<and> \<not> IsPending V i"
proof -
  note invS = map_removal.reachable_inv [OF assms(1)]
  from map_removal.Simulator_Schedule_inv [OF invS assms(2), of f] assms(3)
  have T: "map_removal.inv T" "id_impl i \<in> dom (impls T)" by auto
  from map_removal.sim_steps_inv [OF assms(4) T(1)]
  have U: "map_removal.inv U" "sim_le (\<lambda>m. mset (map_events m)) T U" by auto
  then have "id_impl i \<in> dom (impls U)" using T(2) by (fastforce simp: sim_le_def)
  then have "EventImpl_IsCancelled (Cancel U i) (id_impl i)"
    using assms(5) by (auto simp: Cancel_def IsPending_def EventImpl_Cancel_def EventImpl_IsCancelled_def)
  with map_removal.sim_steps_inv [OF assms(6)] map_removal.Cancel_step [OF U(1), of i]
  have "EventImpl_IsCancelled V (id_impl i)" using sim_le_cancelled by blast
  then show ?thesis
    by (auto simp: EventImpl_Invoke_def IsPending_def IsExpired_def EventImpl_IsCancelled_def
        split: option.splits if_splits)
qed

theorem cancelled_never_runs_witness:
  "EventImpl_Invoke (\<lambda>f (w, S). Inr (w + f, S)) 1 (0, Cancel demo1 demo_id) = Inr (0, Cancel demo1 demo_id) \<and>
    \<not> IsPending (Cancel demo1 demo_id) demo_id"
  using cancelled_never_runs [OF demo_reach0 demo_room demo_schedule rtranclp.rtrancl_refl demo_pending
      rtranclp.rtrancl_refl, where w = 0 and notify = "\<lambda>f (w, S). Inr (w + f, S)"]
  by (simp add: demo_id_def)



text \<open>\<open>SetScheduler\<close> in mid-run loses nothing: moving the events of a map scheduler into an
  empty heap scheduler takes as many turns as there are events, ends, and the heap then holds
  exactly the same events in heap order.\<close>

theorem set_scheduler_keeps_events:
  fixes m :: event_map
  assumes "list_sorted (map_events m)" and "length m < 2 ^ 32"
  shows "\<exists>h. move_events MapScheduler HeapScheduler (length m) m HeapScheduler_new = Some (Inr h) \<and>
    heap_invar h \<and> heap_events h = mset (map_events m)"
proof -
  have "unique_uids (mset (map_events m))" using assms(1)
    by (simp add: list_sorted_def unique_uids_mset)
  then show ?thesis
    using move_events_enough [OF map_evlist.event_list_axioms heap_evlist.event_list_axioms assms(1)
        heap_evlist.invar_empty, of "length m"] assms(2)
    by (simp add: heap_evlist.evs_empty map_events_def)
qed

theorem set_scheduler_keeps_events_witness:
  "\<exists>h. move_events MapScheduler HeapScheduler (Suc (Suc 0)) [(EventKey 5 4 0, 1), (EventKey 6 5 0, 2)] HeapScheduler_new =
      Some (Inr h) \<and>
    heap_invar h \<and> heap_events h = {#Event 1 (EventKey 5 4 0), Event 2 (EventKey 6 5 0)#}"
  using set_scheduler_keeps_events [of "[(EventKey 5 4 0, 1), (EventKey 6 5 0, 2)]"]
  by (simp add: list_sorted_def key_num_def)

end
