(* ===== verification/NsSchedulerChoice.thy ===== *)
theory NsSchedulerChoice
  imports NsSimulator
begin

text \<open>
  The choice of the event list (the global value \<open>SchedulerType\<close> of \<open>simulator.cc\<close>) is invisible:
  a simulator over any event list that keeps the contract refines the simulator over the plain
  sorted list. Programs are clients that decide on each next request from all the replies so far.
\<close>

section \<open>Events in order\<close>

text \<open>Events compare by their keys, then by the address of the \<open>EventImpl\<close>.\<close>

instantiation Event :: linorder
begin

definition less_eq_Event :: "Event \<Rightarrow> Event \<Rightarrow> bool" where
  "less_eq_Event a b = (ev_key a < ev_key b \<or> (ev_key a = ev_key b \<and> ev_impl a \<le> ev_impl b))"

definition less_Event :: "Event \<Rightarrow> Event \<Rightarrow> bool" where
  "less_Event a b = (ev_key a < ev_key b \<or> (ev_key a = ev_key b \<and> ev_impl a < ev_impl b))"

instance
  by standard (auto simp: less_eq_Event_def less_Event_def intro: Event.expand)

end

text \<open>The events of a multiset in the order in which an event list delivers them.\<close>

definition in_order :: "Event multiset \<Rightarrow> Event list" where
  "in_order M = sorted_list_of_multiset M"

lemma mset_in_order [simp]: "mset (in_order M) = M"
  by (simp add: in_order_def)

lemma set_in_order [simp]: "set (in_order M) = set_mset M"
  by (metis mset_in_order set_mset_mset)

lemma in_order_sorted: "unique_uids M \<Longrightarrow> list_sorted (in_order M)"
proof -
  assume u: "unique_uids M"
  have "sorted (in_order M)" by (simp add: in_order_def)
  then have "sorted (map ev_num (in_order M))"
    by (rule sorted_map_mono) (auto simp: mono_on_def less_eq_Event_def intro: key_le_num less_imp_le)
  moreover have "distinct (map ev_uid (in_order M))" using u by (simp flip: unique_uids_mset)
  ultimately show ?thesis by (simp add: list_sorted_def)
qed

lemma list_sorted_unique:
  assumes "list_sorted xs" and "list_sorted ys" and "mset xs = mset ys"
  shows "xs = ys"
  using sorted_num_sort_key [of xs xs] sorted_num_sort_key [of xs ys] assms
  by (simp add: list_sorted_def)

lemma in_order_eq: "list_sorted xs \<Longrightarrow> in_order (mset xs) = xs"
  by (rule list_sorted_unique [OF in_order_sorted]) (auto simp: unique_uids_mset list_sorted_def)

section \<open>Requests and replies\<close>

datatype 'e request = Ask_schedule Time 'e | Ask_cancel EventId | Ask_remove EventId | Ask_stop | Ask_next

datatype reply = Scheduled EventId | Was_expired bool | Stopped | Finished | Runs nat u64 u32

text \<open>
  One request: schedule a callback, cancel or remove an event (with the answer of \<open>IsExpired\<close>),
  stop, or go on to the next event. The reply of the latter is the \<open>EventImpl\<close> that runs, its
  time and its context.
\<close>

fun serve :: "'s scheduler_ops \<Rightarrow> ('e, 's) simulator \<Rightarrow> 'e request \<Rightarrow> (reply \<times> ('e, 's) simulator) res" where
  "serve ops S (Ask_schedule delay f) =
     res_bind (Simulator_Schedule ops S delay f) (\<lambda>(i, S). Inr (Scheduled i, S))"
| "serve ops S (Ask_cancel i) = Inr (Was_expired (IsExpired S i), Cancel S i)"
| "serve ops S (Ask_remove i) =
     res_bind (Remove ops S i) (\<lambda>T. Inr (Was_expired (IsExpired S i), T))"
| "serve ops S Ask_stop = Inr (Stopped, Stop S)"
| "serve ops S Ask_next =
     (if IsFinished ops S then Inr (Finished, S)
      else res_bind (BeginEvent ops S) (\<lambda>(a, S). Inr (Runs a (m_currentTs S) (m_currentContext S), S)))"

text \<open>A program chooses the next request from the replies so far; \<open>play\<close> runs it for \<open>n\<close> requests.\<close>

type_synonym 'e program = "reply list \<Rightarrow> 'e request"

fun play :: "'s scheduler_ops \<Rightarrow> 'e program \<Rightarrow> nat \<Rightarrow> ('e, 's) simulator \<Rightarrow> (reply list \<times> ('e, 's) simulator) res" where
  "play ops prog 0 S = Inr ([], S)"
| "play ops prog (Suc n) S =
     res_bind (play ops prog n S) (\<lambda>(rs, S).
     res_bind (serve ops S (prog rs)) (\<lambda>(r, S). Inr (rs @ [r], S)))"

text \<open>
  What a program has to respect, over the sorted list: neither the clock nor the uids wrap around,
  and it removes only events that are queued or expired, as every \<open>EventId\<close> that \<open>Schedule\<close>
  returned is.
\<close>

fun fair :: "('e, Event list) simulator \<Rightarrow> 'e request \<Rightarrow> bool" where
  "fair S (Ask_schedule delay f) = room S delay"
| "fair S (Ask_remove i) = (id_uid i = UID_DESTROY \<or> IsExpired S i \<or>
     Event (id_impl i) (EventKey (id_ts i) (id_uid i) (id_context i)) \<in> set (m_events S))"
| "fair S r = True"

definition fair_program :: "'e program \<Rightarrow> nat \<Rightarrow> ('e, Event list) simulator \<Rightarrow> bool" where
  "fair_program prog n S =
     (\<forall>k < n. case play ListScheduler prog k S of Inl e \<Rightarrow> True | Inr (rs, T) \<Rightarrow> fair T (prog rs))"

section \<open>Refinement\<close>

text \<open>The simulator with its event list as a sorted list.\<close>

definition flat :: "('s \<Rightarrow> Event multiset) \<Rightarrow> ('e, 's) simulator \<Rightarrow> ('e, Event list) simulator" where
  "flat evs S = \<lparr>m_eventsWithContext = m_eventsWithContext S,
     m_eventsWithContextEmpty = m_eventsWithContextEmpty S, m_destroyEvents = m_destroyEvents S,
     m_stop = m_stop S, m_events = in_order (evs (m_events S)), m_uid = m_uid S,
     m_currentUid = m_currentUid S, m_currentTs = m_currentTs S, m_currentContext = m_currentContext S,
     m_eventCount = m_eventCount S, m_unscheduledEvents = m_unscheduledEvents S, impls = impls S,
     next_impl = next_impl S\<rparr>"

lemma flat_simps [simp]:
  "m_events (flat evs S) = in_order (evs (m_events S))" "m_uid (flat evs S) = m_uid S"
  "m_stop (flat evs S) = m_stop S" "m_currentUid (flat evs S) = m_currentUid S"
  "m_currentTs (flat evs S) = m_currentTs S" "m_currentContext (flat evs S) = m_currentContext S"
  "impls (flat evs S) = impls S" "next_impl (flat evs S) = next_impl S"
  "m_destroyEvents (flat evs S) = m_destroyEvents S" "m_eventCount (flat evs S) = m_eventCount S"
  "m_unscheduledEvents (flat evs S) = m_unscheduledEvents S"
  by (simp_all add: flat_def)

lemma flat_update:
  "flat evs (S\<lparr>m_events := s\<rparr>) = (flat evs S)\<lparr>m_events := in_order (evs s)\<rparr>"
  "flat evs (S\<lparr>m_uid := u\<rparr>) = (flat evs S)\<lparr>m_uid := u\<rparr>"
  "flat evs (S\<lparr>m_stop := b\<rparr>) = (flat evs S)\<lparr>m_stop := b\<rparr>"
  "flat evs (S\<lparr>m_currentUid := u\<rparr>) = (flat evs S)\<lparr>m_currentUid := u\<rparr>"
  "flat evs (S\<lparr>m_currentTs := t\<rparr>) = (flat evs S)\<lparr>m_currentTs := t\<rparr>"
  "flat evs (S\<lparr>m_currentContext := x\<rparr>) = (flat evs S)\<lparr>m_currentContext := x\<rparr>"
  "flat evs (S\<lparr>m_eventCount := n\<rparr>) = (flat evs S)\<lparr>m_eventCount := n\<rparr>"
  "flat evs (S\<lparr>m_unscheduledEvents := k\<rparr>) = (flat evs S)\<lparr>m_unscheduledEvents := k\<rparr>"
  "flat evs (S\<lparr>impls := f\<rparr>) = (flat evs S)\<lparr>impls := f\<rparr>"
  "flat evs (S\<lparr>next_impl := m\<rparr>) = (flat evs S)\<lparr>next_impl := m\<rparr>"
  "flat evs (S\<lparr>m_destroyEvents := d\<rparr>) = (flat evs S)\<lparr>m_destroyEvents := d\<rparr>"
  by (simp_all add: flat_def)

lemma flat_queries [simp]:
  "EventImpl_IsCancelled (flat evs S) a = EventImpl_IsCancelled S a" "IsExpired (flat evs S) i = IsExpired S i"
  "EventImpl_Cancel (flat evs S) a = flat evs (EventImpl_Cancel S a)" "Cancel (flat evs S) i = flat evs (Cancel S i)"
  "Stop (flat evs S) = flat evs (Stop S)" "room (flat evs S) delay = room S delay"
  by (auto simp: EventImpl_IsCancelled_def IsExpired_def EventImpl_Cancel_def Cancel_def Stop_def room_def flat_update
      split: option.splits)

lemma in_order_Insert:
  assumes "unique_uids M" and "fresh e M"
  shows "ListScheduler_Insert (in_order M) e = in_order (add_mset e M)"
proof -
  have "ev_uid e \<notin> ev_uid ` set (in_order M)" using assms(2) by (auto simp: fresh_def)
  from ListScheduler_Insert_sorted [OF in_order_sorted [OF assms(1)] this]
  show ?thesis using in_order_eq [of "ListScheduler_Insert (in_order M) e"] by simp
qed

lemma in_order_least:
  assumes "unique_uids (add_mset e M)" and "\<forall>f \<in># add_mset e M. ev_num e \<le> ev_num f"
  shows "in_order (add_mset e M) = e # in_order M"
proof -
  have M: "unique_uids M" "fresh e M" using assms(1) by (auto simp: unique_uids_add)
  have "list_sorted (e # in_order M)"
    using in_order_sorted [OF M(1)] M(2) assms(2) by (auto simp: list_sorted_def fresh_def)
  from in_order_eq [OF this] show ?thesis by simp
qed

lemma in_order_remove1:
  assumes "unique_uids (add_mset e M)"
  shows "remove1 e (in_order (add_mset e M)) = in_order M"
  using in_order_eq [OF list_sorted_remove1 [OF in_order_sorted [OF assms]], of e] by simp

context event_list_remove
begin

lemma insert_event_flat:
  assumes "inv S" and "unat (m_uid S) + 1 < 2 ^ 32" and "m_currentTs S \<le> ts \<and> ts \<le> hi"
    and "a \<in> dom (impls S)"
  shows "\<exists>i S'. insert_event ops S ts ctx a = Inr (i, S') \<and> inv S' \<and>
    insert_event ListScheduler (flat evs S) ts ctx a = Inr (i, flat evs S')"
proof -
  let ?e = "Event a (EventKey ts (m_uid S) ctx)"
  from insert_event_inv [OF assms, of ctx] obtain S' where
    S': "insert_event ops S ts ctx a = Inr (EventId a ts ctx (m_uid S), S')" "inv S'"
    "queue S' = add_mset ?e (queue S)"
    "S' = S\<lparr>m_events := m_events S', m_uid := m_uid S + 1, m_unscheduledEvents := m_unscheduledEvents S + 1\<rparr>"
    by blast
  have "fresh ?e (queue S)" "unique_uids (queue S)"
    using S'(2) assms(1) by (auto simp: sim_inv_def S'(3) unique_uids_add)
  then have "ListScheduler_Insert (in_order (queue S)) ?e = in_order (queue S')"
    by (simp add: in_order_Insert S'(3))
  moreover have "flat evs S' = (flat evs S)\<lparr>m_events := in_order (queue S'), m_uid := m_uid S + 1,
      m_unscheduledEvents := m_unscheduledEvents S + 1\<rparr>"
    using arg_cong [OF S'(4), of "flat evs"] by (simp add: flat_update)
  ultimately show ?thesis using S'(1,2) by (simp add: insert_event_def ListScheduler_def)
qed

lemma Simulator_Schedule_flat:
  assumes "inv S" and "room S delay"
  shows "\<exists>i S'. Simulator_Schedule ops S delay f = Inr (i, S') \<and> inv S' \<and>
    Simulator_Schedule ListScheduler (flat evs S) delay f = Inr (i, flat evs S')"
proof -
  obtain a T where M: "MakeEvent f S = (a, T)" by (cases "MakeEvent f S")
  note T = MakeEvent_inv [OF assms(1) M]
  have d: "0 \<le> delay" "unat (m_uid T) + 1 < 2 ^ 32"
    and le: "m_currentTs T \<le> m_currentTs T + word_of_int delay \<and> m_currentTs T + word_of_int delay \<le> hi"
    using assms(2) T hi_bound by (auto simp: room_def unat_delay intro!: u64_le_add u64_le_hi)
  have "MakeEvent f (flat evs S) = (a, flat evs T)" using M by (auto simp: MakeEvent_def flat_update)
  moreover from insert_event_flat [of T "m_currentTs T + word_of_int delay" a "m_currentContext T"] T d(2) le
  obtain i S' where "insert_event ops T (m_currentTs T + word_of_int delay) (m_currentContext T) a = Inr (i, S')"
    "inv S'" "insert_event ListScheduler (flat evs T) (m_currentTs T + word_of_int delay) (m_currentContext T) a =
      Inr (i, flat evs S')" by auto
  ultimately show ?thesis using M d(1) by (simp add: Simulator_Schedule_def Schedule_def)
qed

lemma Remove_flat:
  assumes "inv S" and "fair (flat evs S) (Ask_remove i)"
  shows "\<exists>S'. NsSimulator.Remove ops S i = Inr S' \<and> inv S' \<and>
    NsSimulator.Remove ListScheduler (flat evs S) i = Inr (flat evs S')"
proof (cases "id_uid i = UID_DESTROY \<or> IsExpired S i")
  case True
  then obtain S' where "NsSimulator.Remove ops S i = Inr S'"
    "NsSimulator.Remove ListScheduler (flat evs S) i = Inr (flat evs S')"
    by (cases "id_uid i = UID_DESTROY") (auto simp: NsSimulator.Remove_def flat_update)
  then show ?thesis using Remove_step [OF assms(1)] by blast
next
  case False
  let ?e = "Event (id_impl i) (EventKey (id_ts i) (id_uid i) (id_context i))"
  have e: "?e \<in># queue S" using assms(2) False by simp
  have inv: "invar (m_events S)" "unique_uids (queue S)" using assms(1) by (auto simp: sim_inv_def)
  from Remove_present [OF inv(1) e] obtain s' where s': "op_Remove ops (m_events S) ?e = Inr s'"
    "queue S = add_mset ?e (evs s')" by blast
  have "distinct (map ev_uid (in_order (queue S)))" using in_order_sorted [OF inv(2)] by (simp add: list_sorted_def)
  from ListScheduler_Remove_present [OF this] e have
    "op_Remove ListScheduler (in_order (queue S)) ?e = Inr (remove1 ?e (in_order (queue S)))"
    by (simp add: ListScheduler_def)
  also have "remove1 ?e (in_order (queue S)) = in_order (evs s')"
    using in_order_remove1 inv(2) unfolding s'(2) by blast
  finally have "op_Remove ListScheduler (in_order (queue S)) ?e = Inr (in_order (evs s'))" .
  then have "\<exists>S'. NsSimulator.Remove ops S i = Inr S' \<and>
      NsSimulator.Remove ListScheduler (flat evs S) i = Inr (flat evs S')"
    using False s'(1) by (simp add: NsSimulator.Remove_def flat_update flip: flat_update(1))
  then show ?thesis using Remove_step [OF assms(1)] by blast
qed

lemma BeginEvent_flat:
  assumes "inv S" and "\<not> op_IsEmpty ops (m_events S)"
  shows "\<exists>a S'. BeginEvent ops S = Inr (a, S') \<and> inv S' \<and>
    BeginEvent ListScheduler (flat evs S) = Inr (a, flat evs S')"
proof -
  have inv: "invar (m_events S)" "queue S \<noteq> {#}" "unique_uids (queue S)"
    using assms IsEmpty by (auto simp: sim_inv_def)
  from remove_next [OF inv(1,2)] obtain e s' where r: "op_RemoveNext ops (m_events S) = Inr (e, s')"
    "queue S = add_mset e (evs s')" "\<forall>f \<in># queue S. ev_num e \<le> ev_num f" by metis
  have "in_order (queue S) = e # in_order (evs s')"
    using in_order_least inv(3) r(3) unfolding r(2) by blast
  then have "op_RemoveNext ListScheduler (m_events (flat evs S)) = Inr (e, in_order (evs s'))"
    by (simp add: ListScheduler_def ListScheduler_RemoveNext_def)
  moreover have "m_currentTs S \<le> ev_ts e" using assms(1) r(2) by (auto simp: sim_inv_def queued_ok_def)
  ultimately have "\<exists>S'. BeginEvent ops S = Inr (ev_impl e, S') \<and>
      BeginEvent ListScheduler (flat evs S) = Inr (ev_impl e, flat evs S')"
    using r(1) by (simp add: BeginEvent_def flat_update)
  then show ?thesis using BeginEvent_inv [OF assms] by auto
qed

lemma IsFinished_flat: "inv S \<Longrightarrow> IsFinished ListScheduler (flat evs S) = IsFinished ops S"
proof -
  assume "inv S"
  then have "op_IsEmpty ops (m_events S) \<longleftrightarrow> queue S = {#}" using IsEmpty by (simp add: sim_inv_def)
  moreover have "in_order (queue S) = [] \<longleftrightarrow> queue S = {#}" by (metis mset_in_order mset_zero_iff)
  ultimately show ?thesis
    by (simp add: IsFinished_def ListScheduler_def ListScheduler_IsEmpty_def)
qed

lemma serve_flat:
  assumes "inv S" and "fair (flat evs S) r"
  shows "\<exists>a T. serve ops S r = Inr (a, T) \<and> inv T \<and> serve ListScheduler (flat evs S) r = Inr (a, flat evs T)"
proof (cases r)
  case (Ask_schedule delay f)
  then show ?thesis using Simulator_Schedule_flat [OF assms(1), of delay f] assms(2) by auto
next
  case (Ask_cancel i)
  then show ?thesis using Cancel_step [OF assms(1)] by simp
next
  case (Ask_remove i)
  then show ?thesis using Remove_flat [OF assms(1), of i] assms(2) by auto
next
  case Ask_stop
  moreover have "inv (Stop S)" using assms(1) by (simp add: Stop_def sim_inv_def queued_ok_def)
  ultimately show ?thesis by simp
next
  case Ask_next
  show ?thesis
  proof (cases "IsFinished ops S")
    case True
    then show ?thesis using Ask_next IsFinished_flat [OF assms(1)] assms(1) by simp
  next
    case False
    then have "\<not> op_IsEmpty ops (m_events S)" by (simp add: IsFinished_def)
    from BeginEvent_flat [OF assms(1) this] show ?thesis
      using Ask_next IsFinished_flat [OF assms(1)] False by auto
  qed
qed

lemma play_flat:
  assumes "inv S" and "fair_program prog n (flat evs S)"
  shows "\<exists>rs T. play ops prog n S = Inr (rs, T) \<and> inv T \<and>
    play ListScheduler prog n (flat evs S) = Inr (rs, flat evs T)"
  using assms(2)
proof (induction n)
  case 0
  then show ?case using assms(1) by simp
next
  case (Suc n)
  then have "fair_program prog n (flat evs S)" by (simp add: fair_program_def)
  with Suc.IH obtain rs T where T: "play ops prog n S = Inr (rs, T)" "inv T"
    "play ListScheduler prog n (flat evs S) = Inr (rs, flat evs T)" by blast
  have "fair (flat evs T) (prog rs)"
    using Suc.prems T(3) by (force simp: fair_program_def)
  from serve_flat [OF T(2) this] show ?case using T by auto
qed

end

section \<open>The choice is invisible\<close>

lemma flat_new: "evs s = {#} \<Longrightarrow> flat evs (DefaultSimulatorImpl_new s) = DefaultSimulatorImpl_new []"
  by (simp add: flat_def DefaultSimulatorImpl_new_def in_order_def)

text \<open>
  C3: the choice of the event list is invisible to a simulation. Run any program of requests, each
  of which may depend on all replies so far, on a new simulator with the sorted list, with the map
  and with the calendar queue (in either bucket order): no request fails, all replies are the same
  (the ids, the answers of \<open>IsExpired\<close>, which event runs, when and in which context), and at the
  end the simulators hold the same events and agree in every other field.
\<close>

theorem scheduler_choice_invisible:
  fixes prog :: "'e program"
  assumes "fair_program prog n (DefaultSimulatorImpl_new [])"
  shows "\<exists>rs L M C. play ListScheduler prog n (DefaultSimulatorImpl_new []) = Inr (rs, L) \<and>
    play MapScheduler prog n (DefaultSimulatorImpl_new []) = Inr (rs, M) \<and>
    play CalendarScheduler prog n (DefaultSimulatorImpl_new (CalendarScheduler_new reverse)) = Inr (rs, C) \<and>
    flat (\<lambda>m. mset (map_events m)) M = L \<and> flat calendar_events C = L"
proof -
  have "flat (\<lambda>m. mset (map_events m)) (DefaultSimulatorImpl_new [] :: ('e, event_map) simulator) =
      DefaultSimulatorImpl_new []"
    using flat_new [of "\<lambda>m. mset (map_events m)" "[]"] by simp
  from map_removal.play_flat [OF map_removal.inv_new, of prog n, unfolded this, OF assms]
  obtain rs M where M: "play MapScheduler prog n (DefaultSimulatorImpl_new []) = Inr (rs, M)"
    "play ListScheduler prog n (DefaultSimulatorImpl_new []) = Inr (rs, flat (\<lambda>m. mset (map_events m)) M)" by blast
  have "flat calendar_events (DefaultSimulatorImpl_new (CalendarScheduler_new reverse) :: ('e, calendar) simulator) =
      DefaultSimulatorImpl_new []"
    by (rule flat_new) (rule calendar.evs_empty)
  from calendar.play_flat [OF calendar.inv_new [of reverse], of prog n, unfolded this, OF assms]
  obtain C where "play CalendarScheduler prog n (DefaultSimulatorImpl_new (CalendarScheduler_new reverse)) = Inr (rs, C)"
    "flat (\<lambda>m. mset (map_events m)) M = flat calendar_events C" using M(2) by auto
  with M show ?thesis by auto
qed

text \<open>A program that schedules two events, the later one first, and then runs what is next.\<close>

definition demo_program :: "nat program" where
  "demo_program rs = (if length rs = 0 then Ask_schedule 5 7 else if length rs = 1 then Ask_schedule 3 8 else Ask_next)"

theorem scheduler_choice_invisible_witness:
  "\<exists>rs M C. play MapScheduler demo_program 3 (DefaultSimulatorImpl_new []) = Inr (rs, M) \<and>
    play CalendarScheduler demo_program 3 (DefaultSimulatorImpl_new (CalendarScheduler_new True)) = Inr (rs, C) \<and>
    rs ! 2 = Runs 2 3 NO_CONTEXT"
proof -
  let ?S = "DefaultSimulatorImpl_new [] :: (nat, Event list) simulator"
  note defs = play.simps serve.simps demo_program_def Simulator_Schedule_def MakeEvent_def Schedule_def
    insert_event_def ListScheduler_def DefaultSimulatorImpl_new_def UID_VALID_def
  have p0: "play ListScheduler demo_program 0 ?S = Inr ([], ?S)" by simp
  obtain T1 where p1: "play ListScheduler demo_program 1 ?S = Inr ([Scheduled (EventId 1 5 NO_CONTEXT 4)], T1)"
    and T1: "m_uid T1 = 5" "m_currentTs T1 = 0"
    by (simp add: defs)
  obtain T2 rs where p2: "play ListScheduler demo_program 2 ?S = Inr (rs, T2)" and rs: "length rs = 2"
    by (simp add: defs numeral_2_eq_2 key_less_def)
  have k: "k < 3 \<longleftrightarrow> k = 0 \<or> k = 1 \<or> k = 2" for k :: nat by auto
  have "fair ?S (demo_program [])"
    by (simp add: demo_program_def room_def DefaultSimulatorImpl_new_def UID_VALID_def)
  moreover have "fair T1 (demo_program [Scheduled (EventId 1 5 NO_CONTEXT 4)])" "fair T2 (demo_program rs)"
    by (simp_all add: demo_program_def room_def T1 rs)
  ultimately have "case play ListScheduler demo_program k ?S of Inl e \<Rightarrow> True | Inr (rs, T) \<Rightarrow> fair T (demo_program rs)"
    if "k < 3" for k
    using that unfolding k by (elim disjE) (simp_all only: p0 p1 p2 sum.case prod.case)
  then have "fair_program demo_program 3 ?S" by (simp only: fair_program_def) blast
  from scheduler_choice_invisible [OF this, of True] obtain qs M C L where
    q: "play MapScheduler demo_program 3 (DefaultSimulatorImpl_new []) = Inr (qs, M)"
    "play CalendarScheduler demo_program 3 (DefaultSimulatorImpl_new (CalendarScheduler_new True)) = Inr (qs, C)"
    "play ListScheduler demo_program 3 ?S = Inr (qs, L)" by blast
  have "qs ! 2 = Runs 2 3 NO_CONTEXT"
    using q(3) by (simp add: defs numeral_3_eq_3 key_less_def IsFinished_def ListScheduler_IsEmpty_def
        BeginEvent_def ListScheduler_RemoveNext_def) (auto simp: numeral_2_eq_2)
  with q show ?thesis by blast
qed

end
