(* ===== verification/OranTypes.thy ===== *)
theory OranTypes
  imports OranPrelude Complex_Main "HOL-Library.AList"
begin

text \<open>
  The data that the parts of the O-RAN module exchange: node types, commands from the Logic Modules
  to the E2 nodes (\<open>oran-command*.cc\<close>), reports from the E2 nodes to the RIC
  (\<open>oran-report*.cc\<close>) and the metric samples of the data repository. A \<open>double\<close> is a \<^typ>\<open>real\<close>;
  an \<open>unordered_map\<close> is an association list with distinct keys whose order carries no meaning.
\<close>

section \<open>Nodes\<close>

datatype NodeType = WIRED | NRUE | NRGNB

fun NodeType_int :: "NodeType \<Rightarrow> int" where
  "NodeType_int WIRED = 0"
| "NodeType_int NRUE = 1"
| "NodeType_int NRGNB = 2"

type_synonym Vector = "real \<times> real \<times> real"

section \<open>Commands\<close>

datatype OranCommand =
    OranCommand (m_targetE2NodeId: u64)
  | OranCommandNr2NrHandover (m_targetE2NodeId: u64) (m_targetCellId: u16) (m_targetRnti: u16)
  | OranCommandNrUlRbgTargets (m_targetE2NodeId: u64) (cmd_ulTargets: "(u16 \<times> u32) list")

definition GetTargetE2NodeId :: "OranCommand \<Rightarrow> u64" where
  "GetTargetE2NodeId cmd = m_targetE2NodeId cmd"

text \<open>Decimal output of an unsigned number, as \<open>operator<<\<close> prints it.\<close>

definition digit :: "nat \<Rightarrow> char" where
  "digit n = char_of (48 + n mod 10)"

fun decimal :: "nat \<Rightarrow> string" where
  "decimal n = (if n < 10 then [digit n] else decimal (n div 10) @ [digit n])"

declare decimal.simps [simp del]

fun OranCommand_ToString :: "OranCommand \<Rightarrow> string" where
  "OranCommand_ToString (OranCommand t) = ''Parent OranCommand. Should not be used''"
| "OranCommand_ToString (OranCommandNr2NrHandover t cell rnti) =
     ''OranCommandNr2NrHandover(TargetE2NodeId = '' @ decimal (unat t) @ ''; TargetCellId = '' @
     decimal (unat cell) @ ''; TargetRnti = '' @ decimal (unat rnti) @ '')''"
| "OranCommand_ToString (OranCommandNrUlRbgTargets t targets) =
     ''OranCommandNrUlRbgTargets{targets='' @ decimal (length targets) @ ''}''"

fun SetUlTargets_cmd :: "OranCommand \<Rightarrow> (u16 \<times> u32) list \<Rightarrow> OranCommand" where
  "SetUlTargets_cmd (OranCommandNrUlRbgTargets t old) targets = OranCommandNrUlRbgTargets t targets"
| "SetUlTargets_cmd cmd targets = cmd"

section \<open>Metric samples (oran-nr-data-repository.h)\<close>

datatype NrUeBufferStatus = NrUeBufferStatus (bs_time: Time) (bs_rnti: u16) (bs_lcid: u8)
  (bs_txQueueSize: u32) (bs_txQueueHolDelay: u16) (bs_retxQueueSize: u32) (bs_retxQueueHolDelay: u16)
  (bs_statusPduSize: u16)

datatype NrUeCqi = NrUeCqi (cqi_time: Time) (cqi_rnti: u16) (cqi_cqi: u8) (cqi_mcs: u8) (cqi_ri: u8)

datatype NrUeTxPdu = NrUeTxPdu (pdu_time: Time) (pdu_rnti: u16) (pdu_lcid: u8) (pdu_txPdu: u64)

datatype NrUeTxDrop = NrUeTxDrop (drop_time: Time) (drop_rnti: u16) (drop_lcid: u8) (drop_txDrop: u64)

section \<open>Reports\<close>

datatype OranReport =
    OranReportLocation (m_reporterE2NodeId: u64) (m_time: Time) (m_location: Vector)
  | OranReportNrUeCellInfo (m_reporterE2NodeId: u64) (m_time: Time) (rep_cellId: u16) (rep_rnti: u16)
  | OranReportAppLoss (m_reporterE2NodeId: u64) (m_time: Time) (m_loss: real)
  | OranReportNrUeRsrpRsrq (m_reporterE2NodeId: u64) (m_time: Time) (rep_rnti: u16) (rep_cellId: u16)
      (m_rsrp: real) (m_rsrq: real) (m_isServingCell: bool) (m_componentCarrierId: u16)
  | OranReportUeTxBuffer (m_reporterE2NodeId: u64) (m_time: Time) (rep_rnti: u16) (rep_lcid: u8)
      (m_txQueueSize: u32) (m_txQueueHolDelay: u16) (m_retxQueueSize: u32) (m_retxQueueHolDelay: u16)
      (m_statusPduSize: u16)
  | OranReportNrUeCqi (m_reporterE2NodeId: u64) (m_time: Time) (rep_rnti: u16) (rep_cqi: u8)
      (rep_mcs: u8) (rep_ri: u8)
  | OranReportNrUeTxPdu (m_reporterE2NodeId: u64) (m_time: Time) (rep_rnti: u16) (rep_lcid: u8)
      (m_bytes: u64)
  | OranReportNrUeTxDrop (m_reporterE2NodeId: u64) (m_time: Time) (rep_rnti: u16) (rep_lcid: u8)
      (m_drops: u64)

definition GetReporterE2NodeId :: "OranReport \<Rightarrow> u64" where
  "GetReporterE2NodeId r = m_reporterE2NodeId r"

definition GetTime :: "OranReport \<Rightarrow> Time" where
  "GetTime r = m_time r"

end
