(* ===== verification/NrUlTarget.thy ===== *)
theory NrUlTarget
  imports OranTypes
begin

text \<open>
  The uplink scheduler that applies the RBG targets of the RIC
  (\<open>nr-mac-scheduler-ofdma-ul-target.cc\<close>) and the base class routine it replaces
  (\<open>nr-mac-scheduler-ofdma.cc\<close>, \<open>AssignULRBG\<close>). The transport block size of a grant (the AMC
  model) and the split of the symbols among beams (the \<open>SymPerBeamType\<close> strategies) are parameters.
  The hooks \<open>BeforeUlSched\<close> and \<open>NotAssignedUlResources\<close> are empty in the round robin scheduler;
  the notification of an AI agent does not change the UEs.
\<close>

section \<open>UEs\<close>

record ue_info =
  m_rnti :: u16
  m_ulRBG :: "nat list"
  m_ulSym :: "nat list"
  m_ulTbSize :: nat

text \<open>A UE with the size of its buffer request.\<close>

type_synonym UePtrAndBufferReq = "ue_info \<times> nat"

definition UpdateUlMetric :: "(ue_info \<Rightarrow> nat) \<Rightarrow> ue_info \<Rightarrow> ue_info" where
  "UpdateUlMetric CalculateTbSize ue =
     ue\<lparr>m_ulTbSize := (if m_ulRBG ue = [] then 0 else CalculateTbSize ue)\<rparr>"

definition AssignedUlResources :: "(ue_info \<Rightarrow> nat) \<Rightarrow> ue_info \<Rightarrow> ue_info" where
  "AssignedUlResources CalculateTbSize ue = UpdateUlMetric CalculateTbSize ue"

definition CompareUeWeightsUl :: "UePtrAndBufferReq \<Rightarrow> UePtrAndBufferReq \<Rightarrow> bool" where
  "CompareUeWeightsUl lue rue = (length (m_ulRBG (fst lue)) < length (m_ulRBG (fst rue)))"

text \<open>\<open>std::stable_sort\<close> by the comparison above, which compares a key.\<close>

definition SortUeVector :: "UePtrAndBufferReq list \<Rightarrow> UePtrAndBufferReq list" where
  "SortUeVector ueVector = sort_key (\<lambda>ue. length (m_ulRBG (fst ue))) ueVector"

section \<open>Symbols and RBGs\<close>

text \<open>Every active beam has an entry; beams that the strategy leaves out get 0 symbols.\<close>

definition GetSymPerBeam :: "('b \<rightharpoonup> nat) \<Rightarrow> 'b \<Rightarrow> nat" where
  "GetSymPerBeam strategy beam = (case strategy beam of None \<Rightarrow> 0 | Some n \<Rightarrow> n)"

definition GetUlBitmask :: "bool list \<Rightarrow> nat \<Rightarrow> bool list" where
  "GetUlBitmask ulNotchedRbgMask bandwidthInRbg =
     (if ulNotchedRbgMask = [] then replicate bandwidthInRbg True else ulNotchedRbgMask)"

definition remainingRbgSet :: "bool list \<Rightarrow> nat list" where
  "remainingRbgSet availableRbgs = filter (\<lambda>i. availableRbgs ! i) [0..<length availableRbgs]"

text \<open>One RBG over all symbols of the beam goes to a UE.\<close>

definition give_rbg :: "(ue_info \<Rightarrow> nat) \<Rightarrow> nat \<Rightarrow> nat \<Rightarrow> ue_info \<Rightarrow> ue_info" where
  "give_rbg CalculateTbSize beamSym rbg ue =
     AssignedUlResources CalculateTbSize
       (ue\<lparr>m_ulRBG := m_ulRBG ue @ replicate beamSym rbg, m_ulSym := m_ulSym ue @ [0..<beamSym]\<rparr>)"

text \<open>
  The loop over the remaining RBGs: sort the UEs, pass over those that \<open>skip\<close> says have enough,
  stop if none is left, else give the first RBG to the first UE.
\<close>

fun assign_loop ::
  "(ue_info \<Rightarrow> nat) \<Rightarrow> (UePtrAndBufferReq \<Rightarrow> bool) \<Rightarrow> nat \<Rightarrow> nat list \<Rightarrow> UePtrAndBufferReq list \<Rightarrow>
   nat list \<times> UePtrAndBufferReq list" where
  "assign_loop tbs skip beamSym [] ueVector = ([], ueVector)"
| "assign_loop tbs skip beamSym (rbg # rbgs) ueVector =
     (let v = SortUeVector ueVector
      in case dropWhile skip v of
           [] \<Rightarrow> (rbg # rbgs, v)
         | (ue, req) # rest \<Rightarrow>
             assign_loop tbs skip beamSym rbgs
               (takeWhile skip v @ (give_rbg tbs beamSym rbg ue, req) # rest))"

definition buffer_covered :: "UePtrAndBufferReq \<Rightarrow> bool" where
  "buffer_covered ue = (m_ulTbSize (fst ue) \<ge> max (snd ue) 12)"

section \<open>The base scheduler\<close>

definition base_beam :: "(ue_info \<Rightarrow> nat) \<Rightarrow> bool list \<Rightarrow> nat \<Rightarrow> UePtrAndBufferReq list \<Rightarrow> UePtrAndBufferReq list res" where
  "base_beam tbs rbgMask beamSym ueVector =
     ns_assert (remainingRbgSet rbgMask \<noteq> []) ''!remainingRbgSet.empty()''
       (Inr (snd (assign_loop tbs buffer_covered beamSym (remainingRbgSet rbgMask) ueVector)))"

definition NrMacSchedulerOfdma_AssignULRBG ::
  "(ue_info \<Rightarrow> nat) \<Rightarrow> ('b \<rightharpoonup> nat) \<Rightarrow> bool list \<Rightarrow> nat \<Rightarrow> ('b \<times> UePtrAndBufferReq list) list \<Rightarrow>
   ('b \<times> UePtrAndBufferReq list) list res" where
  "NrMacSchedulerOfdma_AssignULRBG tbs strategy ulNotchedRbgMask bandwidthInRbg activeUl =
     for_each (\<lambda>out (beam, ues). res_bind (base_beam tbs (GetUlBitmask ulNotchedRbgMask bandwidthInRbg) (GetSymPerBeam strategy beam) ues)
        (\<lambda>v. Inr (out @ [(beam, v)]))) activeUl []"

section \<open>The scheduler with targets\<close>

record ul_target_sched =
  m_ulTargets :: "(u16 \<times> u32) list"

definition SetUlTargets :: "(u16 \<times> u32) list \<Rightarrow> ul_target_sched \<Rightarrow> ul_target_sched" where
  "SetUlTargets targets S = S\<lparr>m_ulTargets := targets\<rparr>"

definition HasReachedUlTarget :: "ul_target_sched \<Rightarrow> UePtrAndBufferReq \<Rightarrow> nat \<Rightarrow> bool" where
  "HasReachedUlTarget S ue beamSym =
     (if beamSym = 0 then True
      else case map_of (m_ulTargets S) (m_rnti (fst ue)) of
          None \<Rightarrow> False
        | Some t \<Rightarrow> length (m_ulRBG (fst ue)) div beamSym \<ge> unat t)"

definition target_beam ::
  "(ue_info \<Rightarrow> nat) \<Rightarrow> ul_target_sched \<Rightarrow> bool list \<Rightarrow> nat \<Rightarrow> UePtrAndBufferReq list \<Rightarrow> UePtrAndBufferReq list res" where
  "target_beam tbs S rbgMask beamSym ueVector =
     ns_assert (remainingRbgSet rbgMask \<noteq> []) ''!remainingRbgSet.empty()''
       (Inr (snd (assign_loop tbs (\<lambda>ue. buffer_covered ue \<or> HasReachedUlTarget S ue beamSym) beamSym
          (remainingRbgSet rbgMask) ueVector)))"

definition NrMacSchedulerOfdmaUlTarget_AssignULRBG ::
  "(ue_info \<Rightarrow> nat) \<Rightarrow> ul_target_sched \<Rightarrow> ('b \<rightharpoonup> nat) \<Rightarrow> bool list \<Rightarrow> nat \<Rightarrow> ('b \<times> UePtrAndBufferReq list) list \<Rightarrow>
   ('b \<times> UePtrAndBufferReq list) list res" where
  "NrMacSchedulerOfdmaUlTarget_AssignULRBG tbs S strategy ulNotchedRbgMask bandwidthInRbg activeUl =
     for_each (\<lambda>out (beam, ues). res_bind (target_beam tbs S (GetUlBitmask ulNotchedRbgMask bandwidthInRbg) (GetSymPerBeam strategy beam) ues)
        (\<lambda>v. Inr (out @ [(beam, v)]))) activeUl []"

section \<open>Lemmas on the loop\<close>

lemma mset_SortUeVector [simp]: "mset (SortUeVector v) = mset v"
  by (simp add: SortUeVector_def)

lemma set_SortUeVector [simp]: "set (SortUeVector v) = set v"
  by (simp add: SortUeVector_def)

lemma assign_loop_stop:
  "dropWhile skip (SortUeVector v) = [] \<Longrightarrow>
    assign_loop tbs skip beamSym (rbg # rbgs) v = (rbg # rbgs, SortUeVector v)"
  by (simp only: assign_loop.simps Let_def list.case)

lemma assign_loop_give:
  "dropWhile skip (SortUeVector v) = (ue, req) # rest \<Longrightarrow>
    assign_loop tbs skip beamSym (rbg # rbgs) v = assign_loop tbs skip beamSym rbgs
      (takeWhile skip (SortUeVector v) @ (give_rbg tbs beamSym rbg ue, req) # rest)"
  by (simp only: assign_loop.simps Let_def list.case prod.case)

lemma all_skipped: "dropWhile skip (SortUeVector v) = [] \<Longrightarrow> \<forall>ue \<in> set v. skip ue"
  by simp

declare assign_loop.simps(2) [simp del]

text \<open>A property of multisets of UEs that every grant keeps holds at the end.\<close>

lemma assign_loop_invariant:
  assumes "assign_loop tbs skip beamSym rbgs v = (left, v')" and "I rbgs (mset v)"
    and "\<And>rbg rbgs M ue req. I (rbg # rbgs) (add_mset (ue, req) M) \<Longrightarrow> \<not> skip (ue, req) \<Longrightarrow>
      I rbgs (add_mset (give_rbg tbs beamSym rbg ue, req) M)"
  shows "I left (mset v')"
  using assms(1,2)
proof (induction rbgs arbitrary: v)
  case (Cons rbg rbgs)
  let ?v = "SortUeVector v"
  show ?case
  proof (cases "dropWhile skip ?v")
    case Nil
    show ?thesis using Cons.prems by (auto simp: assign_loop_stop [OF Nil])
  next
    case (Cons x rest)
    obtain ue req where x: "x = (ue, req)" by (cases x)
    have split: "?v = takeWhile skip ?v @ (ue, req) # rest"
      using Cons x by (metis takeWhile_dropWhile_id)
    have nskip: "\<not> skip (ue, req)" using Cons x by (metis dropWhile_eq_Cons_conv)
    have "mset v = add_mset (ue, req) (mset (takeWhile skip ?v) + mset rest)"
      using arg_cong [OF split, of mset] by simp
    with Cons.prems(2) have "I (rbg # rbgs) (add_mset (ue, req) (mset (takeWhile skip ?v) + mset rest))"
      by simp
    from assms(3) [OF this nskip]
    have "I rbgs (mset (takeWhile skip ?v @ (give_rbg tbs beamSym rbg ue, req) # rest))" by simp
    with Cons.IH Cons.prems(1) show ?thesis by (simp add: assign_loop_give [OF Cons [unfolded x]])
  qed
qed simp

lemma give_rbg_simps [simp]:
  "m_rnti (give_rbg tbs n rbg ue) = m_rnti ue"
  "m_ulRBG (give_rbg tbs n rbg ue) = m_ulRBG ue @ replicate n rbg"
  by (simp_all add: give_rbg_def AssignedUlResources_def UpdateUlMetric_def)

text \<open>RBGs are left over only if every UE is passed over.\<close>

lemma assign_loop_left:
  "assign_loop tbs skip beamSym rbgs v = (left, v') \<Longrightarrow> left \<noteq> [] \<Longrightarrow> \<forall>ue \<in> set v'. skip ue"
proof (induction rbgs arbitrary: v)
  case (Cons rbg rbgs)
  show ?case
  proof (cases "dropWhile skip (SortUeVector v)")
    case Nil
    show ?thesis using Cons.prems all_skipped [OF Nil] by (auto simp: assign_loop_stop [OF Nil])
  next
    case (Cons x rest)
    obtain ue req where "x = (ue, req)" by (cases x)
    with Cons have "dropWhile skip (SortUeVector v) = (ue, req) # rest" by simp
    then show ?thesis using Cons.prems Cons.IH by (simp add: assign_loop_give)
  qed
qed simp

lemma assign_loop_suffix: "assign_loop tbs skip beamSym rbgs v = (left, v') \<Longrightarrow> \<exists>used. rbgs = used @ left"
proof (induction rbgs arbitrary: v)
  case (Cons rbg rbgs)
  show ?case
  proof (cases "dropWhile skip (SortUeVector v)")
    case Nil
    show ?thesis using Cons.prems by (auto simp: assign_loop_stop [OF Nil])
  next
    case (Cons x rest)
    obtain ue req where "x = (ue, req)" by (cases x)
    with Cons have "dropWhile skip (SortUeVector v) = (ue, req) # rest" by simp
    then obtain used where "rbgs = used @ left"
      using Cons.prems Cons.IH by (auto simp: assign_loop_give)
    then show ?thesis by (intro exI [of _ "rbg # used"]) simp
  qed
qed simp

lemma assign_loop_cong:
  "(\<And>ue. skip ue = skip' ue) \<Longrightarrow> assign_loop tbs skip beamSym rbgs v = assign_loop tbs skip' beamSym rbgs v"
  by (metis ext)

lemma remainingRbgSet_distinct [simp]: "distinct (remainingRbgSet rbgMask)"
  by (simp add: remainingRbgSet_def)

lemma set_remainingRbgSet: "set (remainingRbgSet rbgMask) = {i. i < length rbgMask \<and> rbgMask ! i}"
  by (auto simp: remainingRbgSet_def)

section \<open>Properties\<close>

lemma target_beam_within:
  assumes "target_beam tbs S rbgMask beamSym ues = Inr v" and "\<forall>ue \<in> set ues. m_ulRBG (fst ue) = []"
    and "ue \<in> set v" and "map_of (m_ulTargets S) (m_rnti (fst ue)) = Some t"
  shows "length (m_ulRBG (fst ue)) \<le> unat t * beamSym \<and> beamSym dvd length (m_ulRBG (fst ue))"
proof -
  let ?skip = "\<lambda>ue. buffer_covered ue \<or> HasReachedUlTarget S ue beamSym"
  let ?ok = "\<lambda>ue. beamSym dvd length (m_ulRBG (fst ue)) \<and>
    (\<forall>t. map_of (m_ulTargets S) (m_rnti (fst ue)) = Some t \<longrightarrow> length (m_ulRBG (fst ue)) \<le> unat t * beamSym)"
  obtain rest where l: "assign_loop tbs ?skip beamSym (remainingRbgSet rbgMask) ues = (rest, v)"
    using assms(1) by (auto simp: target_beam_def res_simps prod_eq_iff)
  have step: "?ok (give_rbg tbs beamSym rbg u, req)" if ok: "?ok (u, req)" and ns: "\<not> ?skip (u, req)" for rbg u req
  proof -
    have b: "beamSym \<noteq> 0" using ns by (simp add: HasReachedUlTarget_def split: if_splits)
    have "length (m_ulRBG u) + beamSym \<le> unat t * beamSym"
      if "map_of (m_ulTargets S) (m_rnti u) = Some t" for t
    proof -
      from ok obtain k where k: "length (m_ulRBG u) = beamSym * k" by auto
      have "length (m_ulRBG u) div beamSym < unat t" using ns that b by (auto simp: HasReachedUlTarget_def)
      then have "k + 1 \<le> unat t" using k b by simp
      then have "(k + 1) * beamSym \<le> unat t * beamSym" by (rule mult_right_mono) simp
      then show ?thesis by (simp add: k algebra_simps)
    qed
    with ok show ?thesis by auto
  qed
  have "\<forall>ue \<in># mset v. ?ok ue"
  proof (rule assign_loop_invariant [OF l, where I = "\<lambda>rbgs M. \<forall>ue \<in># M. ?ok ue"])
    show "\<forall>ue \<in># mset ues. ?ok ue" using assms(2) by auto
  next
    fix rbg rbgs M u req
    assume "\<forall>ue \<in># add_mset (u, req) M. ?ok ue" and "\<not> ?skip (u, req)"
    with step [of u req rbg] show "\<forall>ue \<in># add_mset (give_rbg tbs beamSym rbg u, req) M. ?ok ue" by simp
  qed
  with assms(3,4) show ?thesis by auto
qed

text \<open>C22: no UE gets more RBGs than its target. Started with UEs that hold nothing, the scheduler gives
  a UE with a target of \<open>t\<close> at most \<open>t\<close> RBGs, each over all symbols of the beam.\<close>

theorem ul_targets_respected:
  assumes "target_beam tbs S rbgMask beamSym ues = Inr v" and "\<forall>ue \<in> set ues. m_ulRBG (fst ue) = []"
    and "ue \<in> set v" and "map_of (m_ulTargets S) (m_rnti (fst ue)) = Some t"
  shows "length (m_ulRBG (fst ue)) \<le> unat t * beamSym \<and> beamSym dvd length (m_ulRBG (fst ue))"
  using assms by (rule target_beam_within)

text \<open>Two UEs that want more than they can get, one of them with a target of one RBG.\<close>

definition demo_ues :: "UePtrAndBufferReq list" where
  "demo_ues = [(\<lparr>m_rnti = 1, m_ulRBG = [], m_ulSym = [], m_ulTbSize = 0\<rparr>, 5000),
    (\<lparr>m_rnti = 2, m_ulRBG = [], m_ulSym = [], m_ulTbSize = 0\<rparr>, 5000)]"

definition demo_sched :: ul_target_sched where
  "demo_sched = \<lparr>m_ulTargets = [(1, 1)]\<rparr>"

definition demo_alloc :: "UePtrAndBufferReq list" where
  "demo_alloc = [(\<lparr>m_rnti = 2, m_ulRBG = [1, 1, 3, 3], m_ulSym = [0, 1, 0, 1], m_ulTbSize = 40\<rparr>, 5000),
    (\<lparr>m_rnti = 1, m_ulRBG = [0, 0], m_ulSym = [0, 1], m_ulTbSize = 20\<rparr>, 5000)]"

lemma demo_beam:
  "target_beam (\<lambda>ue. 10 * length (m_ulRBG ue)) demo_sched [True, True, False, True] 2 demo_ues = Inr demo_alloc"
  by code_simp

theorem ul_targets_respected_witness:
  "length (m_ulRBG (fst (last demo_alloc))) \<le> 1 * 2"
  using ul_targets_respected [OF demo_beam, of "last demo_alloc" 1]
  by (simp add: demo_ues_def demo_alloc_def demo_sched_def)

text \<open>How many UEs hold an RBG.\<close>

definition owners :: "nat \<Rightarrow> UePtrAndBufferReq multiset \<Rightarrow> nat" where
  "owners rbg M = size (filter_mset (\<lambda>ue. rbg \<in> set (m_ulRBG (fst ue))) M)"

text \<open>C28: RBGs are not shared and not invented. Every RBG goes to at most one UE of the beam, and only
  RBGs that the bit mask allows are given out.\<close>

theorem ul_rbgs_exclusive:
  assumes "target_beam tbs S rbgMask beamSym ues = Inr v" and "\<forall>ue \<in> set ues. m_ulRBG (fst ue) = []"
  shows "owners rbg (mset v) \<le> 1 \<and> (0 < owners rbg (mset v) \<longrightarrow> rbg < length rbgMask \<and> rbgMask ! rbg)"
proof -
  let ?skip = "\<lambda>ue. buffer_covered ue \<or> HasReachedUlTarget S ue beamSym"
  let ?I = "\<lambda>rbgs M. distinct rbgs \<and> set rbgs \<subseteq> set (remainingRbgSet rbgMask) \<and>
    (\<forall>r. owners r M \<le> (if r \<in> set rbgs then 0 else 1)) \<and>
    (\<forall>r. 0 < owners r M \<longrightarrow> r \<in> set (remainingRbgSet rbgMask))"
  obtain rest where l: "assign_loop tbs ?skip beamSym (remainingRbgSet rbgMask) ues = (rest, v)"
    using assms(1) by (auto simp: target_beam_def res_simps prod_eq_iff)
  have "?I rest (mset v)"
  proof (rule assign_loop_invariant [OF l, where I = ?I])
    show "?I (remainingRbgSet rbgMask) (mset ues)"
    proof -
      have "owners r (mset ues) = 0" for r
        using assms(2) by (simp add: owners_def)
      then show ?thesis by simp
    qed
  next
    fix r0 rbgs M u req
    assume I: "?I (r0 # rbgs) (add_mset (u, req) M)"
    have own: "owners r (add_mset (give_rbg tbs beamSym r0 u, req) M) \<le>
        owners r (add_mset (u, req) M) + (if r = r0 then 1 else 0)" for r
      by (auto simp: owners_def)
    have zero: "owners r0 (add_mset (u, req) M) = 0" using I by (metis le_zero_eq list.set_intros(1))
    have "owners r (add_mset (give_rbg tbs beamSym r0 u, req) M) \<le> (if r \<in> set rbgs then 0 else 1)" for r
      using own [of r] I zero by (cases "r = r0") (auto split: if_splits dest!: spec [of _ r])
    moreover have "r \<in> set (remainingRbgSet rbgMask)"
      if "0 < owners r (add_mset (give_rbg tbs beamSym r0 u, req) M)" for r
      using that own [of r] I by (cases "r = r0") auto
    ultimately show "?I rbgs (add_mset (give_rbg tbs beamSym r0 u, req) M)" using I by auto
  qed
  then show ?thesis
    by (auto simp: set_remainingRbgSet dest!: spec [of _ rbg] split: if_splits)
qed

theorem ul_rbgs_exclusive_witness:
  "owners 3 (mset demo_alloc) \<le> 1 \<and> owners 3 (mset demo_alloc) = 1 \<and> [True, True, False, True] ! 3"
  using ul_rbgs_exclusive [OF demo_beam, of 3] by (simp add: demo_ues_def demo_alloc_def owners_def)

text \<open>C29: the scheduler is work conserving within the targets. It leaves an allowed RBG unassigned only
  if every UE of the beam has its buffer covered or its target reached.\<close>

theorem ul_work_conserving:
  assumes "target_beam tbs S rbgMask beamSym ues = Inr v" and "\<forall>ue \<in> set ues. m_ulRBG (fst ue) = []"
    and "rbg < length rbgMask" and "rbgMask ! rbg" and "\<forall>ue \<in> set v. rbg \<notin> set (m_ulRBG (fst ue))"
    and "ue \<in> set v"
  shows "buffer_covered ue \<or> HasReachedUlTarget S ue beamSym"
proof (cases "beamSym = 0")
  case True
  then show ?thesis by (simp add: HasReachedUlTarget_def)
next
  case False
  let ?skip = "\<lambda>ue. buffer_covered ue \<or> HasReachedUlTarget S ue beamSym"
  let ?I = "\<lambda>rbgs (M :: UePtrAndBufferReq multiset). \<forall>r \<in> set (remainingRbgSet rbgMask) - set rbgs. \<exists>ue \<in># M. r \<in> set (m_ulRBG (fst ue))"
  obtain rest where l: "assign_loop tbs ?skip beamSym (remainingRbgSet rbgMask) ues = (rest, v)"
    using assms(1) by (auto simp: target_beam_def res_simps prod_eq_iff)
  have "?I rest (mset v)"
  proof (rule assign_loop_invariant [OF l, where I = ?I])
    fix r0 rbgs M u req
    assume I: "?I (r0 # rbgs) (add_mset (u, req) M)"
    show "?I rbgs (add_mset (give_rbg tbs beamSym r0 u, req) M)"
    proof
      fix r assume r: "r \<in> set (remainingRbgSet rbgMask) - set rbgs"
      show "\<exists>ue \<in># add_mset (give_rbg tbs beamSym r0 u, req) M. r \<in> set (m_ulRBG (fst ue))"
        using I r False by (cases "r = r0") auto
    qed
  qed simp
  moreover have "rbg \<in> set (remainingRbgSet rbgMask)" using assms(3,4) by (simp add: set_remainingRbgSet)
  ultimately have "rbg \<in> set rest" using assms(5) by auto
  then have "rest \<noteq> []" by auto
  from assign_loop_left [OF l this] assms(6) show ?thesis by blast
qed

definition demo_single :: "UePtrAndBufferReq list" where
  "demo_single = [(\<lparr>m_rnti = 1, m_ulRBG = [0, 0], m_ulSym = [0, 1], m_ulTbSize = 20\<rparr>, 5000)]"

lemma demo_single_beam:
  "target_beam (\<lambda>ue. 10 * length (m_ulRBG ue)) demo_sched [True, True, False, True] 2 [hd demo_ues] = Inr demo_single"
  by code_simp

theorem ul_work_conserving_witness:
  "buffer_covered (hd demo_single) \<or> HasReachedUlTarget demo_sched (hd demo_single) 2"
  by (rule ul_work_conserving [OF demo_single_beam, of 3])
    (simp_all add: demo_ues_def demo_single_def)

text \<open>C30: without targets the scheduler is the base scheduler: on every beam with symbols it gives the
  same RBGs to the same UEs as \<open>NrMacSchedulerOfdma::AssignULRBG\<close>.\<close>

theorem no_targets_is_base:
  assumes "m_ulTargets S = []" and "\<forall>(beam, ues) \<in> set activeUl. 0 < GetSymPerBeam strategy beam"
  shows "NrMacSchedulerOfdmaUlTarget_AssignULRBG tbs S strategy notched n activeUl =
    NrMacSchedulerOfdma_AssignULRBG tbs strategy notched n activeUl"
proof -
  have beam: "target_beam tbs S m k ues = base_beam tbs m k ues" if "0 < k" for m k ues
  proof -
    have "(\<lambda>ue. buffer_covered ue \<or> HasReachedUlTarget S ue k) = buffer_covered"
      using that assms(1) by (auto simp: HasReachedUlTarget_def)
    then show ?thesis by (simp add: target_beam_def base_beam_def)
  qed
  have "for_each (\<lambda>out (beam, ues). res_bind (target_beam tbs S (GetUlBitmask notched n) (GetSymPerBeam strategy beam) ues)
        (\<lambda>v. Inr (out @ [(beam, v)]))) activeUl out =
      for_each (\<lambda>out (beam, ues). res_bind (base_beam tbs (GetUlBitmask notched n) (GetSymPerBeam strategy beam) ues)
        (\<lambda>v. Inr (out @ [(beam, v)]))) activeUl out" for out
    using assms(2)
  proof (induction activeUl arbitrary: out)
    case (Cons el els)
    obtain b us where el: "el = (b, us)" by (cases el)
    have "0 < GetSymPerBeam strategy b" using Cons.prems by (simp add: el)
    with Cons show ?case by (simp add: el beam res_bind_def split: sum.split)
  qed simp
  then show ?thesis
    by (simp add: NrMacSchedulerOfdmaUlTarget_AssignULRBG_def NrMacSchedulerOfdma_AssignULRBG_def)
qed

theorem no_targets_is_base_witness:
  "NrMacSchedulerOfdmaUlTarget_AssignULRBG (\<lambda>ue. 0) \<lparr>m_ulTargets = []\<rparr> [0 \<mapsto> 2] [True, True] 2 [(0 :: nat, demo_ues)] =
    NrMacSchedulerOfdma_AssignULRBG (\<lambda>ue. 0) [0 \<mapsto> 2] [True, True] 2 [(0, demo_ues)]"
  by (rule no_targets_is_base) (simp_all add: GetSymPerBeam_def)

end
