(* ===== verification/OranReporter.thy ===== *)
theory OranReporter
  imports NrUlTarget "HOL-Library.Product_Lexorder"
begin

text \<open>
  What the reporters collect and report (\<open>oran-reporter-*.cc\<close>): the samples that the trace sinks of each
  reporter keep, and \<open>GenerateReports\<close>, which turns them into reports. The base class
  \<open>OranReporter\<close> is in theory \<open>OranE2Node\<close>; of its members the functions here take \<open>m_active\<close> and the
  E2 node id of \<open>m_terminator\<close> (\<^const>\<open>None\<close> for a null terminator).
\<close>

section \<open>Transmission buffer (oran-reporter-buffer-status.cc)\<close>

datatype BufferStatusReportParameters = BufferStatusReportParameters (bsr_rnti: u16) (bsr_lcid: u8)
  (bsr_txQueueSize: u32) (bsr_txQueueHolDelay: u16) (bsr_retxQueueSize: u32) (bsr_retxQueueHolDelay: u16)
  (bsr_statusPduSize: u16) (bsr_expBsrTimer: bool)

type_synonym tx_buffer = "(u8 \<times> Time \<times> BufferStatusReportParameters) list"

definition AddSample :: "Time \<Rightarrow> BufferStatusReportParameters \<Rightarrow> tx_buffer \<Rightarrow> tx_buffer" where
  "AddSample now params m_samples = smap_put (bsr_lcid params) (now, params) m_samples"

definition UeTxBuffer_report :: "u64 \<Rightarrow> Time \<times> BufferStatusReportParameters \<Rightarrow> OranReport" where
  "UeTxBuffer_report e2NodeId sample = (case sample of (time, d) \<Rightarrow>
     OranReportUeTxBuffer e2NodeId time (bsr_rnti d) (bsr_lcid d) (bsr_txQueueSize d) (bsr_txQueueHolDelay d)
       (bsr_retxQueueSize d) (bsr_retxQueueHolDelay d) (bsr_statusPduSize d))"

definition null_terminator :: string where
  "null_terminator = ''Attempting to generate reports in reporter with NULL E2 Terminator''"

definition UeTxBuffer_GenerateReports ::
  "bool \<Rightarrow> u64 option \<Rightarrow> tx_buffer \<Rightarrow> (tx_buffer \<times> OranReport list) res" where
  "UeTxBuffer_GenerateReports m_active m_terminator m_samples =
     (if m_active \<and> m_samples \<noteq> []
      then abort_if (m_terminator = None) null_terminator
        (Inr ([], map (\<lambda>(lcid, sample). UeTxBuffer_report (the m_terminator) sample) m_samples))
      else Inr (m_samples, []))"

section \<open>Transmitted PDUs (oran-reporter-nr-ue-tx-pdu.cc)\<close>

datatype Sample = Sample (smp_time: Time) (smp_rnti: u16) (smp_lcid: u8) (smp_bytes: u64)

text \<open>The bytes of the entry that \<open>m_samples[key]\<close> finds or creates.\<close>

definition sample_bytes :: "('k \<times> Sample) list \<Rightarrow> 'k \<Rightarrow> u64" where
  "sample_bytes m_samples key = (case map_of m_samples key of None \<Rightarrow> 0 | Some s \<Rightarrow> smp_bytes s)"

type_synonym tx_pdu = "(u8 \<times> Sample) list"

definition AddTxPdu :: "Time \<Rightarrow> u16 \<Rightarrow> u8 \<Rightarrow> u32 \<Rightarrow> tx_pdu \<Rightarrow> tx_pdu" where
  "AddTxPdu now rnti lcid bytes m_samples =
     smap_put lcid (Sample now rnti lcid (sample_bytes m_samples lcid + ucast bytes)) m_samples"

definition NrUeTxPdu_report :: "u64 \<Rightarrow> Sample \<Rightarrow> OranReport" where
  "NrUeTxPdu_report e2NodeId s = OranReportNrUeTxPdu e2NodeId (smp_time s) (smp_rnti s) (smp_lcid s) (smp_bytes s)"

definition NrUeTxPdu_GenerateReports ::
  "bool \<Rightarrow> u64 option \<Rightarrow> tx_pdu \<Rightarrow> (tx_pdu \<times> OranReport list) res" where
  "NrUeTxPdu_GenerateReports m_active m_terminator m_samples =
     (if m_active
      then abort_if (m_terminator = None) null_terminator
        (Inr ([], map (\<lambda>(lcid, sample). NrUeTxPdu_report (the m_terminator) sample) m_samples))
      else Inr (m_samples, []))"

section \<open>Dropped packets (oran-reporter-nr-ue-tx-drop.cc)\<close>

record tx_drop =
  drop_samples :: "((u16 \<times> u8) \<times> Sample) list"
  m_defaultRnti :: u16
  m_defaultLcid :: u8

definition AddTxDrop :: "Time \<Rightarrow> u32 \<Rightarrow> u16 \<Rightarrow> u8 \<Rightarrow> tx_drop \<Rightarrow> tx_drop" where
  "AddTxDrop now packetSize rnti lcid D =
     D\<lparr>drop_samples := smap_put (rnti, lcid)
        (Sample now rnti lcid (sample_bytes (drop_samples D) (rnti, lcid) + ucast packetSize)) (drop_samples D)\<rparr>"

definition AddTxDrop_default :: "Time \<Rightarrow> u32 \<Rightarrow> tx_drop \<Rightarrow> tx_drop" where
  "AddTxDrop_default now packetSize D = AddTxDrop now packetSize (m_defaultRnti D) (m_defaultLcid D) D"

definition NrUeTxDrop_report :: "u64 \<Rightarrow> Sample \<Rightarrow> OranReport" where
  "NrUeTxDrop_report e2NodeId s = OranReportNrUeTxDrop e2NodeId (smp_time s) (smp_rnti s) (smp_lcid s) (smp_bytes s)"

definition NrUeTxDrop_GenerateReports ::
  "bool \<Rightarrow> u64 option \<Rightarrow> tx_drop \<Rightarrow> (tx_drop \<times> OranReport list) res" where
  "NrUeTxDrop_GenerateReports m_active m_terminator D =
     (if m_active
      then abort_if (m_terminator = None) null_terminator
        (Inr (D\<lparr>drop_samples := []\<rparr>,
           map (\<lambda>(key, sample). NrUeTxDrop_report (the m_terminator) sample) (drop_samples D)))
      else Inr (D, []))"

section \<open>Application loss (oran-reporter-apploss.cc)\<close>

record app_loss =
  m_tx :: u64
  m_rx :: u64

definition AddTx :: "app_loss \<Rightarrow> app_loss" where
  "AddTx A = A\<lparr>m_tx := m_tx A + 1\<rparr>"

definition AddRx :: "app_loss \<Rightarrow> app_loss" where
  "AddRx A = A\<lparr>m_rx := m_rx A + 1\<rparr>"

definition AppLoss_loss :: "app_loss \<Rightarrow> real" where
  "AppLoss_loss A =
     (if m_rx A \<le> m_tx A \<and> 0 < m_tx A then real (unat (m_tx A - m_rx A)) / real (unat (m_tx A)) else 0)"

definition AppLoss_GenerateReports ::
  "bool \<Rightarrow> u64 option \<Rightarrow> Time \<Rightarrow> app_loss \<Rightarrow> (app_loss \<times> OranReport list) res" where
  "AppLoss_GenerateReports m_active m_terminator now A =
     (if m_active
      then abort_if (m_terminator = None) null_terminator
        (Inr (A\<lparr>m_tx := 0, m_rx := 0\<rparr>, [OranReportAppLoss (the m_terminator) now (AppLoss_loss A)]))
      else Inr (A, []))"

section \<open>Channel quality and signal strength (oran-reporter-nr-ue-cqi.cc, oran-reporter-nr-ue-rsrp-rsrq.cc)\<close>

definition ReportCqi ::
  "bool \<Rightarrow> u64 option \<Rightarrow> Time \<Rightarrow> u16 \<Rightarrow> u8 \<Rightarrow> u8 \<Rightarrow> u8 \<Rightarrow> OranReport list \<Rightarrow> OranReport list res" where
  "ReportCqi m_active m_terminator now rnti cqi mcs ri m_reports =
     (if m_active
      then abort_if (m_terminator = None) null_terminator
        (Inr (m_reports @ [OranReportNrUeCqi (the m_terminator) now rnti cqi mcs ri]))
      else Inr m_reports)"

definition NrUeCqi_GenerateReports :: "bool \<Rightarrow> OranReport list \<Rightarrow> OranReport list \<times> OranReport list" where
  "NrUeCqi_GenerateReports m_active m_reports = (if m_active then ([], m_reports) else (m_reports, []))"

definition ReportRsrpRsrq ::
  "bool \<Rightarrow> u64 option \<Rightarrow> Time \<Rightarrow> u16 \<Rightarrow> u16 \<Rightarrow> real \<Rightarrow> real \<Rightarrow> bool \<Rightarrow> u8 \<Rightarrow> OranReport list \<Rightarrow>
   OranReport list res" where
  "ReportRsrpRsrq m_active m_terminator now rnti cellId rsrp rsrq isServingCell componentCarrierId m_reports =
     (if m_active
      then abort_if (m_terminator = None) null_terminator
        (Inr (m_reports @ [OranReportNrUeRsrpRsrq (the m_terminator) now rnti cellId rsrp rsrq isServingCell
          (ucast componentCarrierId)]))
      else Inr m_reports)"

definition NrUeRsrpRsrq_GenerateReports :: "bool \<Rightarrow> OranReport list \<Rightarrow> OranReport list \<times> OranReport list" where
  "NrUeRsrpRsrq_GenerateReports m_active m_reports = (if m_active then ([], m_reports) else (m_reports, []))"

section \<open>Location and serving cell (oran-reporter-location.cc, oran-reporter-nr-ue-cell-info.cc)\<close>

text \<open>
  The position comes from the mobility model of the node, \<^const>\<open>None\<close> if it has none. The cell comes from
  the RRC of the first NR UE device among the node's devices.
\<close>

text \<open>
  The devices of a node: an NR UE device with the IMSI, cell and RNTI of its RRC; an NR gNB device with its cell,
  its scheduler if that is the one with uplink targets, and the handover requests (RNTI and cell) given to its
  RRC; or another device.
\<close>

datatype net_device =
    NrUeNetDevice (dev_imsi: u64) (dev_cellId: u16) (dev_rnti: u16)
  | NrGnbNetDevice (dev_cellId: u16) (dev_scheduler: "ul_target_sched option") (dev_handovers: "(u16 \<times> u16) list")
  | OtherNetDevice

fun first_ue_device :: "net_device list \<Rightarrow> (u16 \<times> u16) option" where
  "first_ue_device [] = None"
| "first_ue_device (NrUeNetDevice imsi cellId rnti # ds) = Some (cellId, rnti)"
| "first_ue_device (d # ds) = first_ue_device ds"

text \<open>What a reporter reads of its node: the mobility model and the devices.\<close>

record node_env =
  env_mobility :: "Vector option"
  env_devices :: "net_device list"

definition Location_GenerateReports ::
  "bool \<Rightarrow> u64 option \<Rightarrow> Time \<Rightarrow> node_env option \<Rightarrow> OranReport list res" where
  "Location_GenerateReports m_active m_terminator now node =
     (if m_active
      then abort_if (m_terminator = None) null_terminator
        (case node of
           None \<Rightarrow> Inl (UB ''null node'')
         | Some env \<Rightarrow>
             (case env_mobility env of
                None \<Rightarrow> Inl (UB ''null mobility model'')
              | Some position \<Rightarrow> Inr [OranReportLocation (the m_terminator) now position]))
      else Inr [])"

definition NrUeCellInfo_GenerateReports ::
  "bool \<Rightarrow> u64 option \<Rightarrow> Time \<Rightarrow> node_env option \<Rightarrow> OranReport list res" where
  "NrUeCellInfo_GenerateReports m_active m_terminator now node =
     (if m_active
      then abort_if (m_terminator = None) null_terminator
        (case node of
           None \<Rightarrow> Inl (UB ''null node'')
         | Some env \<Rightarrow>
             (case first_ue_device (env_devices env) of
                None \<Rightarrow> Inl (NS_ABORT ''Unable to find appropriate network device'')
              | Some (cellId, rnti) \<Rightarrow> Inr [OranReportNrUeCellInfo (the m_terminator) now cellId rnti]))
      else Inr [])"

section \<open>The reporters together\<close>

datatype reporter_data =
    OranReporterLocation
  | OranReporterNrUeCellInfo
  | OranReporterAppLoss app_loss
  | OranReporterNrUeRsrpRsrq "OranReport list"
  | OranReporterUeTxBuffer tx_buffer
  | OranReporterNrUeCqi "OranReport list"
  | OranReporterNrUeTxPdu tx_pdu
  | OranReporterNrUeTxDrop tx_drop

fun GenerateReports ::
  "bool \<Rightarrow> u64 option \<Rightarrow> Time \<Rightarrow> node_env option \<Rightarrow> reporter_data \<Rightarrow> (reporter_data \<times> OranReport list) res" where
  "GenerateReports act term now env OranReporterLocation =
     res_bind (Location_GenerateReports act term now env) (\<lambda>rs. Inr (OranReporterLocation, rs))"
| "GenerateReports act term now env OranReporterNrUeCellInfo =
     res_bind (NrUeCellInfo_GenerateReports act term now env) (\<lambda>rs. Inr (OranReporterNrUeCellInfo, rs))"
| "GenerateReports act term now env (OranReporterAppLoss A) =
     res_bind (AppLoss_GenerateReports act term now A) (\<lambda>(A', rs). Inr (OranReporterAppLoss A', rs))"
| "GenerateReports act term now env (OranReporterNrUeRsrpRsrq ms) =
     (let (ms', rs) = NrUeRsrpRsrq_GenerateReports act ms in Inr (OranReporterNrUeRsrpRsrq ms', rs))"
| "GenerateReports act term now env (OranReporterUeTxBuffer ms) =
     res_bind (UeTxBuffer_GenerateReports act term ms) (\<lambda>(ms', rs). Inr (OranReporterUeTxBuffer ms', rs))"
| "GenerateReports act term now env (OranReporterNrUeCqi ms) =
     (let (ms', rs) = NrUeCqi_GenerateReports act ms in Inr (OranReporterNrUeCqi ms', rs))"
| "GenerateReports act term now env (OranReporterNrUeTxPdu ms) =
     res_bind (NrUeTxPdu_GenerateReports act term ms) (\<lambda>(ms', rs). Inr (OranReporterNrUeTxPdu ms', rs))"
| "GenerateReports act term now env (OranReporterNrUeTxDrop D) =
     res_bind (NrUeTxDrop_GenerateReports act term D) (\<lambda>(D', rs). Inr (OranReporterNrUeTxDrop D', rs))"

section \<open>Counting reporters\<close>

text \<open>
  The reporters of transmitted and of dropped bytes have the same contract: a sample adds its amount to what
  is held for its key, and a report hands over all that is held and leaves nothing. \<open>counter_run\<close> is
  any interleaving of samples (\<^const>\<open>Some\<close>) and report generations (\<^const>\<open>None\<close>).
\<close>

fun counter_run ::
  "('a \<Rightarrow> 's \<Rightarrow> 's) \<Rightarrow> ('s \<Rightarrow> ('s \<times> OranReport list) res) \<Rightarrow> 'a option list \<Rightarrow> 's \<Rightarrow> ('s \<times> OranReport list) res" where
  "counter_run add gen [] s = Inr (s, [])"
| "counter_run add gen (Some a # ops) s = counter_run add gen ops (add a s)"
| "counter_run add gen (None # ops) s =
     res_bind (gen s) (\<lambda>(s', rs). res_bind (counter_run add gen ops s') (\<lambda>(s'', rs'). Inr (s'', rs @ rs')))"

definition total_for :: "('a \<Rightarrow> 'k) \<Rightarrow> ('a \<Rightarrow> u64) \<Rightarrow> 'k \<Rightarrow> 'a list \<Rightarrow> u64" where
  "total_for key amount k xs = sum_list (map amount (filter (\<lambda>x. key x = k) xs))"

definition samples_of :: "'a option list \<Rightarrow> 'a list" where
  "samples_of ops = List.map_filter id ops"

lemma total_for_simps [simp]:
  "total_for key amount k [] = 0"
  "total_for key amount k (x # xs) = (if key x = k then amount x else 0) + total_for key amount k xs"
  "total_for key amount k (xs @ ys) = total_for key amount k xs + total_for key amount k ys"
  by (simp_all add: total_for_def)

lemma samples_of_simps [simp]:
  "samples_of [] = []" "samples_of (Some a # ops) = a # samples_of ops" "samples_of (None # ops) = samples_of ops"
  by (simp_all add: samples_of_def map_filter_simps)

locale counting_reporter =
  fixes add :: "'a \<Rightarrow> 's \<Rightarrow> 's" and gen :: "'s \<Rightarrow> ('s \<times> OranReport list) res"
    and key :: "'a \<Rightarrow> 'k" and amount :: "'a \<Rightarrow> u64"
    and rkey :: "OranReport \<Rightarrow> 'k" and rbytes :: "OranReport \<Rightarrow> u64"
    and held :: "'s \<Rightarrow> 'k \<Rightarrow> u64" and ok :: "'s \<Rightarrow> bool"
  assumes ok_add: "ok s \<Longrightarrow> ok (add a s)"
    and held_add: "ok s \<Longrightarrow> held (add a s) k = held s k + (if key a = k then amount a else 0)"
    and gen_total: "ok s \<Longrightarrow> \<exists>s' rs. gen s = Inr (s', rs) \<and> ok s' \<and> (\<forall>k. held s' k = 0) \<and>
      (\<forall>k. total_for rkey rbytes k rs = held s k)"
begin

text \<open>Whatever the interleaving, what was reported and what is still held add up to what was counted.\<close>

lemma conservation:
  "ok s \<Longrightarrow> \<exists>s' rs. counter_run add gen ops s = Inr (s', rs) \<and> ok s' \<and>
    (\<forall>k. total_for rkey rbytes k rs + held s' k = held s k + total_for key amount k (samples_of ops))"
proof (induction ops arbitrary: s)
  case (Cons op ops)
  show ?case
  proof (cases op)
    case None
    obtain s1 rs1 where 1: "gen s = Inr (s1, rs1)" "ok s1" "\<forall>k. held s1 k = 0"
      "\<forall>k. total_for rkey rbytes k rs1 = held s k" using gen_total [OF Cons.prems] by blast
    obtain s2 rs2 where 2: "counter_run add gen ops s1 = Inr (s2, rs2)" "ok s2"
      "\<forall>k. total_for rkey rbytes k rs2 + held s2 k = held s1 k + total_for key amount k (samples_of ops)"
      using Cons.IH [OF 1(2)] by blast
    from 1 2 show ?thesis by (simp add: None res_simps add.assoc)
  next
    case (Some a)
    with Cons.IH [OF ok_add [OF Cons.prems], of a] show ?thesis
      by (simp add: held_add [OF Cons.prems] ac_simps)
  qed
qed simp

end

definition keyed :: "('k :: linorder \<Rightarrow> Sample \<Rightarrow> bool) \<Rightarrow> ('k \<times> Sample) list \<Rightarrow> bool" where
  "keyed P m = (smap_ok m \<and> (\<forall>(k, s) \<in> set m. P k s))"

lemma set_smap_put: "set (smap_put k v m) \<subseteq> insert (k, v) (set m)"
  by (induction m) (auto split: if_splits)

lemma keyed_put: "keyed P m \<Longrightarrow> P k s \<Longrightarrow> keyed P (smap_put k s m)"
  using set_smap_put [of k s m] by (auto simp: keyed_def)

lemma sample_bytes_put:
  "keyed P m \<Longrightarrow> sample_bytes (smap_put k s m) k' = (if k' = k then smp_bytes s else sample_bytes m k')"
  by (simp add: sample_bytes_def keyed_def)

text \<open>The reports made of all samples carry, for each key, the bytes held for it.\<close>

lemma reports_total:
  assumes "keyed P m" and "\<And>k s. P k s \<Longrightarrow> rkey (report s) = k" and "\<And>s. rbytes (report s) = smp_bytes s"
  shows "total_for rkey rbytes k (map (\<lambda>(k, s). report s) m) = sample_bytes m k"
proof -
  have "filter (\<lambda>x. rkey (case x of (k, s) \<Rightarrow> report s) = k) m = filter (\<lambda>kv. fst kv = k) m"
    using assms(1,2) by (intro filter_cong) (auto simp: keyed_def)
  then show ?thesis
    using assms(1) by (auto simp: total_for_def filter_map comp_def smap_filter_key keyed_def sample_bytes_def
        assms(3) split: option.split)
qed

lemma report_simps [simp]:
  "rep_lcid (NrUeTxPdu_report i s) = smp_lcid s" "m_bytes (NrUeTxPdu_report i s) = smp_bytes s"
  "rep_rnti (NrUeTxDrop_report i s) = smp_rnti s" "rep_lcid (NrUeTxDrop_report i s) = smp_lcid s"
  "m_drops (NrUeTxDrop_report i s) = smp_bytes s"
  by (simp_all add: NrUeTxPdu_report_def NrUeTxDrop_report_def)

interpretation pdu: counting_reporter "\<lambda>(now, rnti, lcid, bytes). AddTxPdu now rnti lcid bytes"
  "NrUeTxPdu_GenerateReports True (Some e2NodeId)" "\<lambda>(now, rnti, lcid, bytes). lcid"
  "\<lambda>(now, rnti, lcid, bytes). ucast bytes" rep_lcid m_bytes sample_bytes "keyed (\<lambda>k s. smp_lcid s = k)"
  for e2NodeId
proof unfold_locales
  fix s :: tx_pdu and a :: "Time \<times> u16 \<times> u8 \<times> u32" and k
  assume ok: "keyed (\<lambda>k s. smp_lcid s = k) s"
  obtain now rnti lcid bytes where a: "a = (now, rnti, lcid, bytes)" by (cases a)
  show "keyed (\<lambda>k s. smp_lcid s = k) ((case a of (now, rnti, lcid, bytes) \<Rightarrow> AddTxPdu now rnti lcid bytes) s)"
    using ok by (simp add: a AddTxPdu_def keyed_put)
  show "sample_bytes ((case a of (now, rnti, lcid, bytes) \<Rightarrow> AddTxPdu now rnti lcid bytes) s) k =
      sample_bytes s k + (if (case a of (now, rnti, lcid, bytes) \<Rightarrow> lcid) = k
        then case a of (now, rnti, lcid, bytes) \<Rightarrow> ucast bytes else 0)"
    using ok by (simp add: a AddTxPdu_def sample_bytes_put)
  show "\<exists>s' rs. NrUeTxPdu_GenerateReports True (Some e2NodeId) s = Inr (s', rs) \<and>
      keyed (\<lambda>k s. smp_lcid s = k) s' \<and> (\<forall>k. sample_bytes s' k = 0) \<and>
      (\<forall>k. total_for rep_lcid m_bytes k rs = sample_bytes s k)"
    using reports_total [OF ok, of rep_lcid "NrUeTxPdu_report e2NodeId" m_bytes]
    by (simp add: NrUeTxPdu_GenerateReports_def res_simps keyed_def sample_bytes_def [of "[]"])
qed

interpretation drop: counting_reporter "\<lambda>(now, packetSize, rnti, lcid). AddTxDrop now packetSize rnti lcid"
  "NrUeTxDrop_GenerateReports True (Some e2NodeId)" "\<lambda>(now, packetSize, rnti, lcid). (rnti, lcid)"
  "\<lambda>(now, packetSize, rnti, lcid). ucast packetSize" "\<lambda>r. (rep_rnti r, rep_lcid r)" m_drops
  "\<lambda>D. sample_bytes (drop_samples D)" "\<lambda>D. keyed (\<lambda>k s. (smp_rnti s, smp_lcid s) = k) (drop_samples D)"
  for e2NodeId
proof unfold_locales
  fix s :: tx_drop and a :: "Time \<times> u32 \<times> u16 \<times> u8" and k
  assume ok: "keyed (\<lambda>k s. (smp_rnti s, smp_lcid s) = k) (drop_samples s)"
  obtain now packetSize rnti lcid where a: "a = (now, packetSize, rnti, lcid)" by (cases a)
  show "keyed (\<lambda>k s. (smp_rnti s, smp_lcid s) = k) (drop_samples
      ((case a of (now, packetSize, rnti, lcid) \<Rightarrow> AddTxDrop now packetSize rnti lcid) s))"
    using ok by (simp add: a AddTxDrop_def keyed_put)
  show "sample_bytes (drop_samples ((case a of (now, packetSize, rnti, lcid) \<Rightarrow>
        AddTxDrop now packetSize rnti lcid) s)) k =
      sample_bytes (drop_samples s) k + (if (case a of (now, packetSize, rnti, lcid) \<Rightarrow> (rnti, lcid)) = k
        then case a of (now, packetSize, rnti, lcid) \<Rightarrow> ucast packetSize else 0)"
    using ok by (simp add: a AddTxDrop_def sample_bytes_put)
  show "\<exists>s' rs. NrUeTxDrop_GenerateReports True (Some e2NodeId) s = Inr (s', rs) \<and>
      keyed (\<lambda>k s. (smp_rnti s, smp_lcid s) = k) (drop_samples s') \<and>
      (\<forall>k. sample_bytes (drop_samples s') k = 0) \<and>
      (\<forall>k. total_for (\<lambda>r. (rep_rnti r, rep_lcid r)) m_drops k rs = sample_bytes (drop_samples s) k)"
    using reports_total [OF ok, of "\<lambda>r. (rep_rnti r, rep_lcid r)" "NrUeTxDrop_report e2NodeId" m_drops]
    by (simp add: NrUeTxDrop_GenerateReports_def res_simps keyed_def sample_bytes_def [of "[]"])
qed

text \<open>The buffer reporter holds the last sample of each logical channel.\<close>

definition keyed_lcid :: "tx_buffer \<Rightarrow> bool" where
  "keyed_lcid m = (smap_ok m \<and> (\<forall>(lcid, sample) \<in> set m. bsr_lcid (snd sample) = lcid))"

lemma rep_lcid_UeTxBuffer [simp]: "rep_lcid (UeTxBuffer_report i s) = bsr_lcid (snd s)"
  by (cases s) (simp add: UeTxBuffer_report_def)

lemma AddSample_keyed:
  "keyed_lcid m \<Longrightarrow> keyed_lcid (AddSample now params m)"
  "keyed_lcid m \<Longrightarrow> map_of (AddSample now params m) = (map_of m)(bsr_lcid params \<mapsto> (now, params))"
  using set_smap_put [of "bsr_lcid params" "(now, params)" m] by (auto simp: keyed_lcid_def AddSample_def)

lemma fold_AddSample:
  "keyed_lcid (fold (\<lambda>(now, params). AddSample now params) samples []) \<and>
   map_of (fold (\<lambda>(now, params). AddSample now params) samples []) =
     (\<lambda>l. case filter (\<lambda>(now, params). bsr_lcid params = l) samples of
        [] \<Rightarrow> None | x # xs \<Rightarrow> Some (last (x # xs)))"
proof (induction samples rule: rev_induct)
  case (snoc x samples)
  obtain now params where x: "x = (now, params)" by (cases x)
  have last: "xs @ [y] = z # zs \<Longrightarrow> zs \<noteq> [] \<Longrightarrow> y = last zs" for xs zs and y z :: 'a
    by (metis last_ConsR last_snoc)
  from snoc show ?case by (auto simp: x AddSample_keyed fun_eq_iff dest: last split: list.split)
qed (simp add: keyed_lcid_def)

section \<open>Properties\<close>

text \<open>C27: every transmitted byte is reported exactly once. From an empty, active reporter with a terminator,
  any interleaving of traces and report generations succeeds, and for every logical channel the bytes in the
  reports plus the bytes still held are the bytes traced (modulo \<open>2 ^ 64\<close>, the width of the counter).\<close>

theorem txpdu_bytes_reported_once:
  "\<exists>m_samples rs. counter_run (\<lambda>(now, rnti, lcid, bytes). AddTxPdu now rnti lcid bytes)
      (NrUeTxPdu_GenerateReports True (Some e2NodeId)) ops [] = Inr (m_samples, rs) \<and>
    (\<forall>lcid. total_for rep_lcid m_bytes lcid rs + sample_bytes m_samples lcid =
      total_for (\<lambda>(now, rnti, lcid, bytes). lcid) (\<lambda>(now, rnti, lcid, bytes). ucast bytes) lcid (samples_of ops))"
  using pdu.conservation [of "[]" e2NodeId ops] by (auto simp: keyed_def sample_bytes_def)

text \<open>Every dropped byte is reported exactly once, per UE and logical channel, in any interleaving of
  drop traces and report generations.\<close>

theorem txdrop_bytes_reported_once:
  assumes "drop_samples D = []"
  shows "\<exists>D' rs. counter_run (\<lambda>(now, packetSize, rnti, lcid). AddTxDrop now packetSize rnti lcid)
      (NrUeTxDrop_GenerateReports True (Some e2NodeId)) ops D = Inr (D', rs) \<and>
    (\<forall>k. total_for (\<lambda>r. (rep_rnti r, rep_lcid r)) m_drops k rs + sample_bytes (drop_samples D') k =
      total_for (\<lambda>(now, packetSize, rnti, lcid). (rnti, lcid)) (\<lambda>(now, packetSize, rnti, lcid). ucast packetSize) k
        (samples_of ops))"
  using drop.conservation [of D e2NodeId ops] assms by (auto simp: keyed_def sample_bytes_def)

theorem txdrop_bytes_reported_once_witness:
  "\<exists>D' rs. counter_run (\<lambda>(now, packetSize, rnti, lcid). AddTxDrop now packetSize rnti lcid)
      (NrUeTxDrop_GenerateReports True (Some 7)) [Some (1, 100, 3, 4), Some (2, 50, 3, 4), None]
      \<lparr>drop_samples = [], m_defaultRnti = 0, m_defaultLcid = 0\<rparr> = Inr (D', rs) \<and>
    total_for (\<lambda>r. (rep_rnti r, rep_lcid r)) m_drops (3, 4) rs + sample_bytes (drop_samples D') (3, 4) = 150"
  using txdrop_bytes_reported_once [of "\<lparr>drop_samples = [], m_defaultRnti = 0, m_defaultLcid = 0\<rparr>" 7
      "[Some (1, 100, 3, 4), Some (2, 50, 3, 4), None]"]
  by fastforce

text \<open>The buffer reporter reports the latest sample of every logical channel. After any sequence of
  samples the active reporter succeeds, forgets the samples, and has for each channel exactly one report, made
  of the last sample of that channel, or none if the channel had no sample; the reports are in channel order.\<close>

theorem buffer_latest_sample:
  "\<exists>rs. UeTxBuffer_GenerateReports True (Some e2NodeId) (fold (\<lambda>(now, params). AddSample now params) samples []) =
      Inr ([], rs) \<and> sorted_wrt (<) (map rep_lcid rs) \<and>
    (\<forall>lcid. filter (\<lambda>r. rep_lcid r = lcid) rs =
      (case filter (\<lambda>(now, params). bsr_lcid params = lcid) samples of [] \<Rightarrow> []
       | x # xs \<Rightarrow> [UeTxBuffer_report e2NodeId (last (x # xs))]))"
proof -
  let ?add = "\<lambda>(now, params). AddSample now params"
  define m where "m = fold ?add samples []"
  have m: "keyed_lcid m \<and> map_of m = (\<lambda>l. case filter (\<lambda>(now, params). bsr_lcid params = l) samples of
      [] \<Rightarrow> None | x # xs \<Rightarrow> Some (last (x # xs)))"
    unfolding m_def by (rule fold_AddSample)
  let ?rs = "map (\<lambda>(lcid, sample). UeTxBuffer_report e2NodeId sample) m"
  have "UeTxBuffer_GenerateReports True (Some e2NodeId) m = Inr ([], ?rs)"
    by (simp add: UeTxBuffer_GenerateReports_def res_simps)
  moreover have "map rep_lcid ?rs = map fst m"
    using m by (auto simp: keyed_lcid_def)
  moreover have "filter (\<lambda>r. rep_lcid r = l) ?rs =
      map (\<lambda>(lcid, sample). UeTxBuffer_report e2NodeId sample) (filter (\<lambda>kv. fst kv = l) m)" for l
    using m unfolding filter_map comp_def
    by (intro arg_cong [where f = "map _"] filter_cong) (auto simp: keyed_lcid_def)
  moreover have "sorted_wrt (<) (map fst m)" using m by (simp add: keyed_lcid_def smap_ok_def)
  ultimately show ?thesis
    using m unfolding m_def [symmetric]
    by (auto simp del: map_map simp: keyed_lcid_def smap_filter_key smap_ok_def [symmetric] split: list.split)
qed

text \<open>The application loss is a ratio. The active reporter makes one report, with a loss between 0 and 1
  that is \<open>(tx - rx) / tx\<close> whenever packets were sent and no more received than sent, and 0 otherwise; it
  starts counting anew.\<close>

theorem app_loss_ratio:
  "\<exists>loss. AppLoss_GenerateReports True (Some e2NodeId) now A =
      Inr (A\<lparr>m_tx := 0, m_rx := 0\<rparr>, [OranReportAppLoss e2NodeId now loss]) \<and> 0 \<le> loss \<and> loss \<le> 1 \<and>
    loss * real (unat (m_tx A)) = real (if unat (m_rx A) \<le> unat (m_tx A) then unat (m_tx A) - unat (m_rx A) else 0)"
proof -
  have "unat (m_tx A - m_rx A) = unat (m_tx A) - unat (m_rx A)" if "m_rx A \<le> m_tx A"
    using that by (rule unat_sub)
  moreover have "AppLoss_GenerateReports True (Some e2NodeId) now A =
      Inr (A\<lparr>m_tx := 0, m_rx := 0\<rparr>, [OranReportAppLoss e2NodeId now (AppLoss_loss A)])"
    by (simp add: AppLoss_GenerateReports_def res_simps)
  moreover have "0 \<le> AppLoss_loss A" by (simp add: AppLoss_loss_def del: of_nat_unat)
  ultimately show ?thesis
    by (auto simp: AppLoss_loss_def word_le_nat_alt word_less_nat_alt field_simps of_nat_diff
        simp del: of_nat_unat split: if_splits)
qed

end
