(* ===== verification/OranE2Node.thy ===== *)
theory OranE2Node
  imports OranReporter NsSimulator
begin

text \<open>
  The node side of the E2 interface: report triggers (\<open>oran-report-trigger*.cc\<close>), the base class of the
  reporters (\<open>oran-reporter.cc\<close>) and the E2 node terminators (\<open>oran-e2-node-terminator*.cc\<close>). Objects
  live in stores indexed by numbers, which are their addresses; a \<open>Ptr\<close> is an address or \<^const>\<open>None\<close>.
  The code runs on the simulator of theory \<open>NsSimulator\<close> with the map scheduler, the default of ns-3.
  What a random variable draws is a parameter: the sequence of its values as times.
\<close>

section \<open>Events\<close>

text \<open>The calls that the O-RAN module schedules, one constructor per function given to \<open>Simulator::Schedule\<close>.\<close>

datatype oran_event =
    TriggerReport_ev nat
  | Register_ev nat
  | DoSendReports_ev nat
  | ReceiveRegistrationResponse_ev nat u64
  | ReceiveDeregistrationResponse_ev "nat option" u64
  | ReceiveCommand_ev "nat option" OranCommand
  | ReceiveRegistrationRequest_ev NodeType u64 nat
  | ReceiveDeregistrationRequest_ev u64
  | ReceiveReport_ev OranReport
  | FinishRun_ev nat
  | QueryLms_ev
  | CheckForInactivity_ev
  | ProcessLmQueryCommands_ev

type_synonym oran_sim = "(oran_event, event_map) simulator"

definition schedule :: "Time \<Rightarrow> oran_event \<Rightarrow> oran_sim \<Rightarrow> (EventId \<times> oran_sim) res" where
  "schedule delay ev S = Simulator_Schedule MapScheduler S delay ev"

record rv =
  rv_values :: "nat \<Rightarrow> Time"
  rv_drawn :: nat

definition GetValue :: "rv \<Rightarrow> Time" where
  "GetValue r = rv_values r (rv_drawn r)"

definition drawn :: "rv \<Rightarrow> rv" where
  "drawn r = r\<lparr>rv_drawn := rv_drawn r + 1\<rparr>"

section \<open>Objects\<close>

record reporter =
  r_active :: bool
  r_terminator :: "nat option"
  r_trigger :: "nat option"
  r_data :: reporter_data

datatype trigger_kind = OranReportTriggerPeriodic | OranReportTriggerNrUeHandover

record trigger =
  g_kind :: trigger_kind
  g_active :: bool
  g_reporter :: "nat option"
  m_initialReport :: bool
  m_intervalRv :: rv
  m_triggerEvent :: EventId
  g_connected :: bool

record node_terminator =
  t_type :: NodeType
  t_active :: bool
  m_e2NodeId :: u64
  t_nearRtRic :: bool
  t_node :: "node_env option"
  m_netDeviceIndex :: nat
  m_reports :: "OranReport list"
  m_reporters :: "nat list"
  m_registrationEvent :: EventId
  m_sendEvent :: EventId
  m_registrationIntervalRv :: rv
  m_sendIntervalRv :: rv
  t_transmissionDelayRv :: rv

text \<open>The stores. The RIC extends this record.\<close>

record e2_side =
  reporters :: "nat \<rightharpoonup> reporter"
  triggers :: "nat \<rightharpoonup> trigger"
  terminators :: "nat \<rightharpoonup> node_terminator"

type_synonym 'm e2_world = "'m e2_side_scheme \<times> oran_sim"

text \<open>Access to an object through a pointer.\<close>

definition deref :: "(nat \<rightharpoonup> 'a) \<Rightarrow> nat option \<Rightarrow> ('a \<Rightarrow> 'b res) \<Rightarrow> 'b res" where
  "deref store p k = (case p of None \<Rightarrow> Inl (UB ''null pointer'')
     | Some a \<Rightarrow> (case store a of None \<Rightarrow> Inl (UB ''dangling pointer'') | Some x \<Rightarrow> k x))"

definition set_reporter :: "nat \<Rightarrow> reporter \<Rightarrow> 'm e2_side_scheme \<Rightarrow> 'm e2_side_scheme" where
  "set_reporter a x W = W\<lparr>reporters := (reporters W)(a \<mapsto> x)\<rparr>"

definition set_trigger :: "nat \<Rightarrow> trigger \<Rightarrow> 'm e2_side_scheme \<Rightarrow> 'm e2_side_scheme" where
  "set_trigger a x W = W\<lparr>triggers := (triggers W)(a \<mapsto> x)\<rparr>"

definition set_terminator :: "nat \<Rightarrow> node_terminator \<Rightarrow> 'm e2_side_scheme \<Rightarrow> 'm e2_side_scheme" where
  "set_terminator a x W = W\<lparr>terminators := (terminators W)(a \<mapsto> x)\<rparr>"

section \<open>Report triggers\<close>

definition ScheduleNextTrigger :: "nat \<Rightarrow> 'm e2_world \<Rightarrow> 'm e2_world res" where
  "ScheduleNextTrigger g = (\<lambda>(W, S). deref (triggers W) (Some g) (\<lambda>G.
     res_bind (schedule (GetValue (m_intervalRv G)) (TriggerReport_ev g) S) (\<lambda>(i, S).
     Inr (set_trigger g (G\<lparr>m_intervalRv := drawn (m_intervalRv G), m_triggerEvent := i\<rparr>) W, S))))"

definition CancelNextTrigger :: "nat \<Rightarrow> 'm e2_world \<Rightarrow> 'm e2_world res" where
  "CancelNextTrigger g = (\<lambda>(W, S). deref (triggers W) (Some g) (\<lambda>G.
     Inr (W, if IsPending S (m_triggerEvent G) then Cancel S (m_triggerEvent G) else S)))"

text \<open>The reporter's terminator's node has an NR UE device, whose RRC the sinks are attached to.\<close>

definition find_ue_device :: "nat option \<Rightarrow> 'm e2_world \<Rightarrow> unit res" where
  "find_ue_device r = (\<lambda>(W, S). deref (reporters W) r (\<lambda>R. deref (terminators W) (r_terminator R) (\<lambda>T.
     case t_node T of
       None \<Rightarrow> Inl (UB ''null node'')
     | Some env \<Rightarrow> abort_if (first_ue_device (env_devices env) = None)
         ''Unable to find appropriate network device'' (Inr ()))))"

definition OranReportTrigger_Activate :: "nat \<Rightarrow> nat \<Rightarrow> 'm e2_world \<Rightarrow> 'm e2_world res" where
  "OranReportTrigger_Activate g r = (\<lambda>(W, S). deref (triggers W) (Some g) (\<lambda>G.
     if g_active G then Inr (W, S)
     else deref (reporters W) (Some r) (\<lambda>R.
       Inr (set_reporter r (R\<lparr>r_trigger := Some g\<rparr>)
              (set_trigger g (G\<lparr>g_active := True, g_reporter := Some r\<rparr>) W), S))))"

definition Trigger_Activate :: "nat \<Rightarrow> nat \<Rightarrow> 'm e2_world \<Rightarrow> 'm e2_world res" where
  "Trigger_Activate g r = (\<lambda>(W, S). deref (triggers W) (Some g) (\<lambda>G.
     res_bind
       (case g_kind G of
          OranReportTriggerPeriodic \<Rightarrow> if \<not> g_active G then ScheduleNextTrigger g (W, S) else Inr (W, S)
        | OranReportTriggerNrUeHandover \<Rightarrow>
            if \<not> g_active G
            then res_bind (find_ue_device (Some r) (W, S)) (\<lambda>_. Inr (set_trigger g (G\<lparr>g_connected := True\<rparr>) W, S))
            else Inr (W, S))
       (OranReportTrigger_Activate g r)))"

definition OranReportTrigger_Deactivate :: "nat \<Rightarrow> 'm e2_world \<Rightarrow> 'm e2_world res" where
  "OranReportTrigger_Deactivate g = (\<lambda>(W, S). deref (triggers W) (Some g) (\<lambda>G.
     if \<not> g_active G then Inr (W, S)
     else abort_if (g_reporter G = None) ''Attempting to unlink from a NULL reporter.''
       (deref (reporters W) (g_reporter G) (\<lambda>R.
          Inr (set_trigger g (G\<lparr>g_reporter := None, g_active := False\<rparr>)
                 (set_reporter (the (g_reporter G)) (R\<lparr>r_trigger := None\<rparr>) W), S)))))"

definition Trigger_Deactivate :: "nat \<Rightarrow> 'm e2_world \<Rightarrow> 'm e2_world res" where
  "Trigger_Deactivate g = (\<lambda>(W, S). deref (triggers W) (Some g) (\<lambda>G.
     res_bind
       (case g_kind G of
          OranReportTriggerPeriodic \<Rightarrow> if g_active G then CancelNextTrigger g (W, S) else Inr (W, S)
        | OranReportTriggerNrUeHandover \<Rightarrow>
            if g_active G
            then res_bind (find_ue_device (g_reporter G) (W, S)) (\<lambda>_. Inr (set_trigger g (G\<lparr>g_connected := False\<rparr>) W, S))
            else Inr (W, S))
       (OranReportTrigger_Deactivate g)))"

section \<open>Reporters: the base class\<close>

definition Reporter_Deactivate :: "nat \<Rightarrow> 'm e2_world \<Rightarrow> 'm e2_world res" where
  "Reporter_Deactivate r = (\<lambda>(W, S). deref (reporters W) (Some r) (\<lambda>R.
     if \<not> r_active R then Inr (W, S)
     else (case r_trigger R of None \<Rightarrow> Inl (UB ''null trigger'')
       | Some g \<Rightarrow> res_bind (Trigger_Deactivate g (W, S)) (\<lambda>(W, S).
           deref (reporters W) (Some r) (\<lambda>R. Inr (set_reporter r (R\<lparr>r_active := False\<rparr>) W, S))))))"

definition Reporter_Activate :: "nat \<Rightarrow> 'm e2_world \<Rightarrow> 'm e2_world res" where
  "Reporter_Activate r = (\<lambda>(W, S). deref (reporters W) (Some r) (\<lambda>R.
     if \<not> r_active R \<and> r_terminator R \<noteq> None \<and> r_trigger R \<noteq> None
     then Trigger_Activate (the (r_trigger R)) r (set_reporter r (R\<lparr>r_active := True\<rparr>) W, S)
     else Reporter_Deactivate r (W, S)))"

definition StoreReport :: "nat \<Rightarrow> OranReport \<Rightarrow> 'm e2_side_scheme \<Rightarrow> 'm e2_side_scheme res" where
  "StoreReport t report W = deref (terminators W) (Some t) (\<lambda>T.
     Inr (if t_active T then set_terminator t (T\<lparr>m_reports := m_reports T @ [report]\<rparr>) W else W))"

definition PerformReport :: "nat \<Rightarrow> 'm e2_world \<Rightarrow> 'm e2_world res" where
  "PerformReport r = (\<lambda>(W, S). deref (reporters W) (Some r) (\<lambda>R.
     if \<not> r_active R then Inr (W, S)
     else (case r_terminator R of
         None \<Rightarrow> Reporter_Deactivate r (W, S)
       | Some t \<Rightarrow> deref (terminators W) (Some t) (\<lambda>T.
           res_bind (GenerateReports True (Some (m_e2NodeId T)) (Now S) (t_node T) (r_data R)) (\<lambda>(d, reports).
           res_bind (for_each (\<lambda>W report. StoreReport t report W) reports
             (set_reporter r (R\<lparr>r_data := d\<rparr>) W)) (\<lambda>W. Inr (W, S)))))))"

definition OranReportTrigger_TriggerReport :: "nat \<Rightarrow> 'm e2_world \<Rightarrow> 'm e2_world res" where
  "OranReportTrigger_TriggerReport g = (\<lambda>(W, S). deref (triggers W) (Some g) (\<lambda>G.
     abort_if (g_reporter G = None) ''Attempting to trigger a report with a NULL reporter.''
       (PerformReport (the (g_reporter G)) (W, S))))"

definition TriggerReport :: "nat \<Rightarrow> 'm e2_world \<Rightarrow> 'm e2_world res" where
  "TriggerReport g = (\<lambda>(W, S). deref (triggers W) (Some g) (\<lambda>G.
     res_bind (if g_kind G = OranReportTriggerPeriodic \<and> g_active G then ScheduleNextTrigger g (W, S) else Inr (W, S))
       (OranReportTrigger_TriggerReport g)))"

text \<open>The sinks of the handover trigger.\<close>

definition HandoverCompleteSink :: "nat \<Rightarrow> 'm e2_world \<Rightarrow> 'm e2_world res" where
  "HandoverCompleteSink g W = TriggerReport g W"

definition ConnectionEstablishedSink :: "nat \<Rightarrow> 'm e2_world \<Rightarrow> 'm e2_world res" where
  "ConnectionEstablishedSink g W = TriggerReport g W"

definition Trigger_NotifyRegistrationComplete :: "nat \<Rightarrow> 'm e2_world \<Rightarrow> 'm e2_world res" where
  "Trigger_NotifyRegistrationComplete g = (\<lambda>(W, S). deref (triggers W) (Some g) (\<lambda>G.
     if g_active G \<and> m_initialReport G then TriggerReport g (W, S) else Inr (W, S)))"

definition Reporter_NotifyRegistrationComplete :: "nat \<Rightarrow> 'm e2_world \<Rightarrow> 'm e2_world res" where
  "Reporter_NotifyRegistrationComplete r = (\<lambda>(W, S). deref (reporters W) (Some r) (\<lambda>R.
     abort_if (r_trigger R = None) ''Attempting to notify successfull registration to NULL trigger.''
       (Trigger_NotifyRegistrationComplete (the (r_trigger R)) (W, S))))"

section \<open>E2 node terminators\<close>

text \<open>Changes to a terminator through its address.\<close>

definition upd_terminator ::
  "nat \<Rightarrow> (node_terminator \<Rightarrow> node_terminator) \<Rightarrow> 'm e2_world \<Rightarrow> 'm e2_world res" where
  "upd_terminator t f = (\<lambda>(W, S). deref (terminators W) (Some t) (\<lambda>T. Inr (set_terminator t (f T) W, S)))"

definition AddReporter :: "nat \<Rightarrow> nat \<Rightarrow> 'm e2_world \<Rightarrow> 'm e2_world res" where
  "AddReporter t reporter = upd_terminator t (\<lambda>T. T\<lparr>m_reporters := m_reporters T @ [reporter]\<rparr>)"

definition Attach :: "nat \<Rightarrow> node_env option \<Rightarrow> nat \<Rightarrow> 'm e2_world \<Rightarrow> 'm e2_world res" where
  "Attach t node netDeviceIndex =
     upd_terminator t (\<lambda>T. T\<lparr>t_node := node, m_netDeviceIndex := netDeviceIndex\<rparr>)"

text \<open>A message to the RIC arrives after the transmission delay.\<close>

definition send_to_ric :: "nat \<Rightarrow> oran_event \<Rightarrow> 'm e2_world \<Rightarrow> 'm e2_world res" where
  "send_to_ric t ev = (\<lambda>(W, S). deref (terminators W) (Some t) (\<lambda>T.
     res_bind (schedule (GetValue (t_transmissionDelayRv T)) ev S) (\<lambda>(i, S).
     Inr (set_terminator t (T\<lparr>t_transmissionDelayRv := drawn (t_transmissionDelayRv T)\<rparr>) W, S))))"

definition CancelNextRegistration :: "nat \<Rightarrow> 'm e2_world \<Rightarrow> 'm e2_world res" where
  "CancelNextRegistration t = (\<lambda>(W, S). deref (terminators W) (Some t) (\<lambda>T.
     Inr (W, if IsPending S (m_registrationEvent T) then Cancel S (m_registrationEvent T) else S)))"

definition CancelNextSend :: "nat \<Rightarrow> 'm e2_world \<Rightarrow> 'm e2_world res" where
  "CancelNextSend t = (\<lambda>(W, S). deref (terminators W) (Some t) (\<lambda>T.
     Inr (W, if IsPending S (m_sendEvent T) then Cancel S (m_sendEvent T) else S)))"

definition ScheduleNextSend :: "nat \<Rightarrow> 'm e2_world \<Rightarrow> 'm e2_world res" where
  "ScheduleNextSend t = (\<lambda>(W, S). deref (terminators W) (Some t) (\<lambda>T.
     if t_active T
     then res_bind (schedule (GetValue (m_sendIntervalRv T)) (DoSendReports_ev t) S) (\<lambda>(i, S).
       Inr (set_terminator t (T\<lparr>m_sendIntervalRv := drawn (m_sendIntervalRv T), m_sendEvent := i\<rparr>) W, S))
     else Inr (W, S)))"

definition Deregister :: "nat \<Rightarrow> 'm e2_world \<Rightarrow> 'm e2_world res" where
  "Deregister t = (\<lambda>(W, S). deref (terminators W) (Some t) (\<lambda>T.
     abort_if (\<not> t_nearRtRic T) ''Attempting to deregister to NULL Near-RT RIC''
       (res_bind (CancelNextRegistration t (W, S))
         (send_to_ric t (ReceiveDeregistrationRequest_ev (m_e2NodeId T))))))"

definition Register :: "nat \<Rightarrow> 'm e2_world \<Rightarrow> 'm e2_world res" where
  "Register t = (\<lambda>(W, S). deref (terminators W) (Some t) (\<lambda>T.
     if t_active T
     then abort_if (\<not> t_nearRtRic T) ''Attempting to send a report to a null Near-RT RIC''
       (res_bind (CancelNextRegistration t (W, S)) (\<lambda>(W, S).
        res_bind (send_to_ric t (ReceiveRegistrationRequest_ev (t_type T) (m_e2NodeId T) t) (W, S)) (\<lambda>(W, S).
        res_bind (schedule (GetValue (m_registrationIntervalRv T)) (Register_ev t) S) (\<lambda>(i, S).
        upd_terminator t (\<lambda>T. T\<lparr>m_registrationIntervalRv := drawn (m_registrationIntervalRv T),
          m_registrationEvent := i\<rparr>) (W, S)))))
     else Inr (W, S)))"

definition Terminator_Deactivate :: "nat \<Rightarrow> 'm e2_world \<Rightarrow> 'm e2_world res" where
  "Terminator_Deactivate t = (\<lambda>(W, S). deref (terminators W) (Some t) (\<lambda>T.
     if t_active T
     then res_bind (for_each (\<lambda>w r. Reporter_Deactivate r w) (m_reporters T) (W, S)) (\<lambda>w.
       res_bind (CancelNextSend t w) (\<lambda>w. res_bind (Deregister t w)
         (upd_terminator t (\<lambda>T. T\<lparr>t_active := False\<rparr>))))
     else Inr (W, S)))"

definition Terminator_Activate :: "nat \<Rightarrow> 'm e2_world \<Rightarrow> 'm e2_world res" where
  "Terminator_Activate t = (\<lambda>(W, S). deref (terminators W) (Some t) (\<lambda>T.
     if \<not> t_nearRtRic T
     then res_bind (upd_terminator t (\<lambda>T. T\<lparr>t_active := False\<rparr>) (W, S)) (Terminator_Deactivate t)
     else if \<not> t_active T
     then res_bind (upd_terminator t (\<lambda>T. T\<lparr>t_active := True, m_reports := []\<rparr>) (W, S)) (\<lambda>w.
       res_bind (Register t w) (for_each (\<lambda>w r. Reporter_Activate r w) (m_reporters T)))
     else Inr (W, S)))"

definition ReceiveDeregistrationResponse :: "nat \<Rightarrow> u64 \<Rightarrow> 'm e2_world \<Rightarrow> 'm e2_world res" where
  "ReceiveDeregistrationResponse t e2NodeId = upd_terminator t (\<lambda>T. T\<lparr>m_e2NodeId := 0\<rparr>)"

definition ReceiveRegistrationResponse :: "nat \<Rightarrow> u64 \<Rightarrow> 'm e2_world \<Rightarrow> 'm e2_world res" where
  "ReceiveRegistrationResponse t e2NodeId = (\<lambda>(W, S). deref (terminators W) (Some t) (\<lambda>T.
     if t_active T
     then res_bind
       (if m_e2NodeId T \<noteq> e2NodeId
        then res_bind (upd_terminator t (\<lambda>T. T\<lparr>m_e2NodeId := e2NodeId\<rparr>) (W, S)) (\<lambda>w.
          if e2NodeId > 0
          then for_each (\<lambda>w r. Reporter_NotifyRegistrationComplete r w) (m_reporters T) w
          else Inr w)
        else Inr (W, S)) (ScheduleNextSend t)
     else Inr (W, S)))"

definition DoSendReports :: "nat \<Rightarrow> 'm e2_world \<Rightarrow> 'm e2_world res" where
  "DoSendReports t = (\<lambda>(W, S). deref (terminators W) (Some t) (\<lambda>T.
     if t_active T
     then abort_if (\<not> t_nearRtRic T) ''Attempting to send a report to a null Near-RT RIC''
       (res_bind (for_each (\<lambda>w r. send_to_ric t (ReceiveReport_ev r) w) (m_reports T) (W, S)) (\<lambda>w.
        res_bind (upd_terminator t (\<lambda>T. T\<lparr>m_reports := []\<rparr>) w) (ScheduleNextSend t)))
     else Inr (W, S)))"

text \<open>A container of terminators activates and deactivates them in order.\<close>

definition Container_Activate :: "nat list \<Rightarrow> 'm e2_world \<Rightarrow> 'm e2_world res" where
  "Container_Activate ts = for_each (\<lambda>w t. Terminator_Activate t w) ts"

definition Container_Deactivate :: "nat list \<Rightarrow> 'm e2_world \<Rightarrow> 'm e2_world res" where
  "Container_Deactivate ts = for_each (\<lambda>w t. Terminator_Deactivate t w) ts"

section \<open>Devices and commands\<close>

text \<open>The device that the terminator is attached to, with the checks of the class of the terminator.\<close>

definition GetNrNetDevice :: "node_terminator \<Rightarrow> net_device res" where
  "GetNrNetDevice T =
     (case t_node T of
        None \<Rightarrow> Inl (UB ''null node'')
      | Some env \<Rightarrow>
          ns_assert (m_netDeviceIndex T < length (env_devices env)) ''Device index is out of range''
            (let dev = env_devices env ! m_netDeviceIndex T
             in if t_type T = NRGNB
                then abort_if (case dev of NrGnbNetDevice _ _ _ \<Rightarrow> False | _ \<Rightarrow> True)
                  ''NetDevice is not an NrGnbNetDevice'' (Inr dev)
                else Inr dev))"

definition set_device :: "net_device \<Rightarrow> node_terminator \<Rightarrow> node_terminator" where
  "set_device dev T = T\<lparr>t_node := map_option
     (\<lambda>env. env\<lparr>env_devices := (env_devices env)[m_netDeviceIndex T := dev]\<rparr>) (t_node T)\<rparr>"

text \<open>
  A gNB passes a handover to the RRC of its device and targets to the scheduler of its device; the terminators
  of UEs and wired nodes support no commands.
\<close>

definition ReceiveCommand :: "nat \<Rightarrow> OranCommand \<Rightarrow> 'm e2_world \<Rightarrow> 'm e2_world res" where
  "ReceiveCommand t command = (\<lambda>(W, S). deref (terminators W) (Some t) (\<lambda>T.
     if t_active T \<and> t_type T = NRGNB
     then (case command of
         OranCommand _ \<Rightarrow> Inr (W, S)
       | OranCommandNr2NrHandover _ cellId rnti \<Rightarrow>
           res_bind (GetNrNetDevice T) (\<lambda>dev. case dev of
               NrGnbNetDevice c s hs \<Rightarrow>
                 Inr (set_terminator t (set_device (NrGnbNetDevice c s (hs @ [(rnti, cellId)])) T) W, S)
             | _ \<Rightarrow> Inl (NS_ABORT ''NetDevice no es un gNB''))
       | OranCommandNrUlRbgTargets _ targets \<Rightarrow>
           res_bind (GetNrNetDevice T) (\<lambda>dev. case dev of
               NrGnbNetDevice c None hs \<Rightarrow> Inr (W, S)
             | NrGnbNetDevice c (Some s) hs \<Rightarrow>
                 Inr (set_terminator t (set_device (NrGnbNetDevice c (Some (SetUlTargets targets s)) hs) T) W, S)
             | _ \<Rightarrow> Inl (NS_ABORT ''NetDevice no es un gNB'')))
     else Inr (W, S)))"

section \<open>The agenda\<close>

text \<open>
  The agenda of a simulator: the events in its list that are not cancelled, as time stamp and payload.
  \<open>space\<close> and \<open>delay_ok\<close> say that neither the 32-bit uid counter nor the 64-bit clock wraps around.
\<close>

abbreviation sim_ok :: "('e, event_map) simulator \<Rightarrow> bool" where
  "sim_ok \<equiv> sim_inv (\<lambda>m. list_sorted (map_events m)) (\<lambda>m. mset (map_events m)) any_time"

definition live :: "('e, event_map) simulator \<Rightarrow> Event multiset" where
  "live S = filter_mset (\<lambda>e. \<not> EventImpl_IsCancelled S (ev_impl e)) (mset (map_events (m_events S)))"

definition agenda :: "('e, event_map) simulator \<Rightarrow> (u64 \<times> 'e) multiset" where
  "agenda S = image_mset (\<lambda>e. (ev_ts e, impl_notify (the (impls S (ev_impl e))))) (live S)"

definition space :: "nat \<Rightarrow> ('e, 's) simulator \<Rightarrow> bool" where
  "space n S = (unat (m_uid S) + n < 2 ^ 32)"

definition delay_ok :: "('e, 's) simulator \<Rightarrow> Time \<Rightarrow> bool" where
  "delay_ok S d = (0 \<le> d \<and> unat (m_currentTs S) + nat d < 2 ^ 64)"

definition after :: "('e, 's) simulator \<Rightarrow> Time \<Rightarrow> u64" where
  "after S d = m_currentTs S + word_of_int d"

lemma schedule_agenda:
  assumes "sim_ok S" and "space (Suc n) S" and "delay_ok S d"
  shows "\<exists>i S'. schedule d ev S = Inr (i, S') \<and> sim_ok S' \<and> space n S' \<and> m_currentTs S' = m_currentTs S \<and>
    agenda S' = add_mset (after S d, ev) (agenda S)"
proof -
  let ?a = "next_impl S" and ?ts = "after S d"
  define T where "T = S\<lparr>impls := (impls S)(?a \<mapsto> EventImpl ev False), next_impl := ?a + 1\<rparr>"
  have M: "MakeEvent ev S = (?a, T)" by (simp add: MakeEvent_def T_def)
  note T = map_removal.MakeEvent_inv [OF assms(1) M]
  have u: "unat (m_uid T) + 1 < 2 ^ 32" and us: "unat (m_uid T + 1) = unat (m_uid S) + 1"
    using assms(2) by (auto simp: space_def T_def unat_less_Suc)
  have le: "m_currentTs T \<le> ?ts"
    using assms(3) by (auto simp: delay_ok_def after_def T_def unat_delay intro!: u64_le_add)
  from map_removal.insert_event_inv [of T ?ts ?a "m_currentContext T"] T u le
  obtain S' where S': "insert_event MapScheduler T ?ts (m_currentContext T) ?a =
      Inr (EventId ?a ?ts (m_currentContext T) (m_uid T), S')" "sim_ok S'"
    "mset (map_events (m_events S')) = add_mset (Event ?a (EventKey ?ts (m_uid T) (m_currentContext T)))
      (mset (map_events (m_events T)))"
    and eq: "S' = T\<lparr>m_events := m_events S', m_uid := m_uid T + 1, m_unscheduledEvents := m_unscheduledEvents T + 1\<rparr>"
    by auto
  have f: "impls S' = (impls S)(?a \<mapsto> EventImpl ev False)" "m_currentTs S' = m_currentTs S" "m_uid S' = m_uid T + 1"
    by (subst eq, simp add: T_def)+
  have old: "ev_impl e \<noteq> ?a" if "e \<in># mset (map_events (m_events S))" for e
    using that assms(1) by (fastforce simp: sim_inv_def queued_ok_def)
  have "live S' = add_mset (Event ?a (EventKey ?ts (m_uid T) (m_currentContext T))) (live S)"
    unfolding live_def S'(3) using old
    by (auto simp: EventImpl_IsCancelled_def f T_def intro!: filter_mset_cong)
  moreover have "image_mset (\<lambda>e. (ev_ts e, impl_notify (the (impls S' (ev_impl e))))) (live S) = agenda S"
    unfolding agenda_def using old by (intro image_mset_cong) (auto simp: f live_def)
  ultimately have "agenda S' = add_mset (?ts, ev) (agenda S)"
    unfolding agenda_def [of S'] by (simp add: f)
  moreover have "space n S'" using assms(2) us by (simp add: space_def f)
  moreover have "schedule d ev S = Inr (EventId ?a ?ts (m_currentContext T) (m_uid T), S')"
    using S'(1) assms(3) M
    by (simp add: schedule_def Simulator_Schedule_def Schedule_def after_def delay_ok_def T_def res_simps)
  ultimately show ?thesis using S'(2) f(2) by blast
qed

section \<open>Lemmas on the stores\<close>

lemma deref_simps [simp]:
  "deref store None k = Inl (UB ''null pointer'')"
  "store a = Some x \<Longrightarrow> deref store (Some a) k = k x"
  by (simp_all add: deref_def)

lemma set_simps [simp]:
  "reporters (set_reporter a R W) = (reporters W)(a \<mapsto> R)" "triggers (set_reporter a R W) = triggers W"
  "terminators (set_reporter a R W) = terminators W"
  "reporters (set_trigger a G W) = reporters W" "triggers (set_trigger a G W) = (triggers W)(a \<mapsto> G)"
  "terminators (set_trigger a G W) = terminators W"
  "reporters (set_terminator a T W) = reporters W" "triggers (set_terminator a T W) = triggers W"
  "terminators (set_terminator a T W) = (terminators W)(a \<mapsto> T)"
  by (simp_all add: set_reporter_def set_trigger_def set_terminator_def)

lemma set_terminator_same: "terminators W a = Some T \<Longrightarrow> set_terminator a T W = W"
  by (simp add: set_terminator_def map_upd_triv)

lemma set_terminator_twice [simp]: "set_terminator a T (set_terminator a T' W) = set_terminator a T W"
  by (simp add: set_terminator_def)

lemma drawn_values [simp]: "rv_values (drawn r) = rv_values r"
  by (simp add: drawn_def)

text \<open>Messages sent one after the other: each arrives after the next delay that the random variable draws.\<close>

fun arrivals :: "u64 \<Rightarrow> rv \<Rightarrow> 'e list \<Rightarrow> (u64 \<times> 'e) multiset" where
  "arrivals ts r [] = {#}"
| "arrivals ts r (e # es) = add_mset (ts + word_of_int (GetValue r), e) (arrivals ts (drawn r) es)"

lemma send_loop:
  assumes "sim_ok S" and "space (length es + n) S" and "terminators W t = Some T"
    and "\<forall>k. delay_ok S (rv_values (t_transmissionDelayRv T) k)"
  shows "\<exists>S' r. for_each (\<lambda>w e. send_to_ric t e w) es (W, S) =
      Inr (set_terminator t (T\<lparr>t_transmissionDelayRv := r\<rparr>) W, S') \<and> sim_ok S' \<and> space n S' \<and>
    m_currentTs S' = m_currentTs S \<and>
    agenda S' = agenda S + arrivals (m_currentTs S) (t_transmissionDelayRv T) es"
  using assms
proof (induction es arbitrary: W S T)
  case Nil
  then show ?case by (auto simp: set_terminator_same intro!: exI [of _ "t_transmissionDelayRv T"])
next
  case (Cons e es)
  let ?d = "GetValue (t_transmissionDelayRv T)" and ?T = "T\<lparr>t_transmissionDelayRv := drawn (t_transmissionDelayRv T)\<rparr>"
  have "delay_ok S ?d" using Cons.prems(4) by (simp add: GetValue_def)
  from schedule_agenda [OF Cons.prems(1) _ this, of "length es + n" e] Cons.prems(2)
  obtain i S1 where S1: "schedule ?d e S = Inr (i, S1)" "sim_ok S1" "space (length es + n) S1"
    "m_currentTs S1 = m_currentTs S" "agenda S1 = add_mset (after S ?d, e) (agenda S)" by auto
  have "send_to_ric t e (W, S) = Inr (set_terminator t ?T W, S1)"
    using Cons.prems(3) S1(1) by (simp add: send_to_ric_def res_simps)
  moreover from Cons.IH [OF S1(2,3), of "set_terminator t ?T W" ?T] Cons.prems(4) S1(4)
  obtain S' r where "for_each (\<lambda>w e. send_to_ric t e w) es (set_terminator t ?T W, S1) =
      Inr (set_terminator t (?T\<lparr>t_transmissionDelayRv := r\<rparr>) (set_terminator t ?T W), S')" "sim_ok S'" "space n S'"
    "m_currentTs S' = m_currentTs S" "agenda S' = agenda S1 + arrivals (m_currentTs S) (drawn (t_transmissionDelayRv T)) es"
    by (auto simp: delay_ok_def)
  ultimately show ?case
    using S1(5) by (auto simp: res_simps after_def intro!: exI [of _ r])
qed

lemma StoreReport_loop:
  "terminators W t = Some T \<Longrightarrow> t_active T \<Longrightarrow>
    for_each (\<lambda>W r. StoreReport t r W) rs W = Inr (set_terminator t (T\<lparr>m_reports := m_reports T @ rs\<rparr>) W)"
proof (induction rs arbitrary: W T)
  case Nil
  then show ?case by (simp add: set_terminator_same)
next
  case (Cons r rs)
  let ?T = "T\<lparr>m_reports := m_reports T @ [r]\<rparr>"
  have "StoreReport t r W = Inr (set_terminator t ?T W)" using Cons.prems by (simp add: StoreReport_def)
  with Cons.IH [of "set_terminator t ?T W" ?T] Cons.prems(2) show ?case by (simp add: res_simps)
qed

section \<open>Properties\<close>

text \<open>C26: a node sends every stored report exactly once. \<open>DoSendReports\<close> of an active terminator succeeds,
  puts one \<open>ReceiveReport\<close> per stored report on the agenda, each after the next transmission delay, plus
  one \<open>DoSendReports\<close> after the send interval, and nothing else, and it empties the store.\<close>

theorem reports_sent_once:
  assumes "sim_ok S" and "terminators W t = Some T" and "t_active T" and "t_nearRtRic T"
    and "space (length (m_reports T) + 1) S" and "\<forall>k. delay_ok S (rv_values (t_transmissionDelayRv T) k)"
    and "delay_ok S (GetValue (m_sendIntervalRv T))"
  shows "\<exists>W' S' T'. DoSendReports t (W, S) = Inr (W', S') \<and> sim_ok S' \<and>
    terminators W' t = Some T' \<and> m_reports T' = [] \<and>
    agenda S' = agenda S + arrivals (m_currentTs S) (t_transmissionDelayRv T) (map ReceiveReport_ev (m_reports T)) +
      {#(after S (GetValue (m_sendIntervalRv T)), DoSendReports_ev t)#}"
proof -
  from send_loop [OF assms(1) _ assms(2,6), of "map ReceiveReport_ev (m_reports T)" 1] assms(5)
  obtain S1 r where 1: "for_each (\<lambda>w e. send_to_ric t e w) (map ReceiveReport_ev (m_reports T)) (W, S) =
      Inr (set_terminator t (T\<lparr>t_transmissionDelayRv := r\<rparr>) W, S1)" "sim_ok S1" "space (Suc 0) S1"
    "m_currentTs S1 = m_currentTs S"
    "agenda S1 = agenda S + arrivals (m_currentTs S) (t_transmissionDelayRv T) (map ReceiveReport_ev (m_reports T))"
    by auto
  have loop: "for_each (\<lambda>w r. send_to_ric t (ReceiveReport_ev r) w) (m_reports T) (W, S) =
      for_each (\<lambda>w e. send_to_ric t e w) (map ReceiveReport_ev (m_reports T)) (W, S)"
    by (rule for_each_map)
  have "delay_ok S1 (GetValue (m_sendIntervalRv T))" using assms(7) 1(4) by (simp add: delay_ok_def)
  from schedule_agenda [OF 1(2,3) this, of "DoSendReports_ev t"] 1 assms(2-4) show ?thesis
    by (auto simp: DoSendReports_def upd_terminator_def ScheduleNextSend_def loop after_def res_simps)
qed

text \<open>A UE node with one reporter of dropped packets behind a periodic trigger.\<close>

definition demo_rv :: "Time \<Rightarrow> rv" where
  "demo_rv d = \<lparr>rv_values = (\<lambda>k. d), rv_drawn = 0\<rparr>"

definition demo_T :: node_terminator where
  "demo_T = \<lparr>t_type = NRUE, t_active = True, m_e2NodeId = 7, t_nearRtRic = True,
     t_node = Some \<lparr>env_mobility = Some (0, 0, 0), env_devices = [NrUeNetDevice 1 2 3]\<rparr>, m_netDeviceIndex = 0,
     m_reports = [OranReportNrUeTxDrop 7 1 3 4 100, OranReportNrUeTxDrop 7 2 3 4 50], m_reporters = [1],
     m_registrationEvent = EventId_default, m_sendEvent = EventId_default, m_registrationIntervalRv = demo_rv 1000,
     m_sendIntervalRv = demo_rv 1000, t_transmissionDelayRv = demo_rv 5\<rparr>"

definition demo_R :: reporter where
  "demo_R = \<lparr>r_active = True, r_terminator = Some 1, r_trigger = Some 1,
     r_data = OranReporterNrUeTxDrop
       \<lparr>drop_samples = [((3, 4), Sample 2 3 4 60)], m_defaultRnti = 0, m_defaultLcid = 0\<rparr>\<rparr>"

definition demo_G :: trigger where
  "demo_G = \<lparr>g_kind = OranReportTriggerPeriodic, g_active = True, g_reporter = Some 1, m_initialReport = True,
     m_intervalRv = demo_rv 10, m_triggerEvent = EventId_default, g_connected = False\<rparr>"

definition demo_W :: e2_side where
  "demo_W = \<lparr>reporters = [1 \<mapsto> demo_R], triggers = [1 \<mapsto> demo_G], terminators = [1 \<mapsto> demo_T]\<rparr>"

definition demo_S :: oran_sim where
  "demo_S = DefaultSimulatorImpl_new []"

lemma demo_S_ok: "sim_ok demo_S" "space n demo_S = (n + 4 < 2 ^ 32)" "delay_ok demo_S d = (0 \<le> d \<and> nat d < 2 ^ 64)"
  using map_removal.inv_new
  by (simp_all add: demo_S_def space_def delay_ok_def) (auto simp: DefaultSimulatorImpl_new_def UID_VALID_def)

theorem reports_sent_once_witness:
  "\<exists>W' S' T'. DoSendReports 1 (demo_W, demo_S) = Inr (W', S') \<and> terminators W' 1 = Some T' \<and> m_reports T' = []"
  using reports_sent_once [of demo_S demo_W 1 demo_T]
  by (auto simp: demo_S_ok demo_W_def demo_T_def demo_rv_def GetValue_def)

text \<open>A periodic trigger keeps reporting. When the trigger event of an active periodic trigger runs, the
  next one is on the agenda one interval later, and all reports that its reporter generates are stored, in
  order, at the terminator.\<close>

theorem periodic_trigger_reports:
  assumes "sim_ok S" and "space 1 S" and "delay_ok S (GetValue (m_intervalRv G))"
    and "triggers W g = Some G" and "g_kind G = OranReportTriggerPeriodic" and "g_active G" and "g_reporter G = Some r"
    and "reporters W r = Some R" and "r_active R" and "r_terminator R = Some t"
    and "terminators W t = Some T" and "t_active T"
    and "GenerateReports True (Some (m_e2NodeId T)) (Now S) (t_node T) (r_data R) = Inr (d, rs)"
  shows "\<exists>W' S'. TriggerReport g (W, S) = Inr (W', S') \<and> sim_ok S' \<and>
    agenda S' = add_mset (after S (GetValue (m_intervalRv G)), TriggerReport_ev g) (agenda S) \<and>
    reporters W' r = Some (R\<lparr>r_data := d\<rparr>) \<and> terminators W' t = Some (T\<lparr>m_reports := m_reports T @ rs\<rparr>)"
proof -
  from schedule_agenda [OF assms(1) _ assms(3), of 0 "TriggerReport_ev g"] assms(2)
  obtain i S' where S': "schedule (GetValue (m_intervalRv G)) (TriggerReport_ev g) S = Inr (i, S')" "sim_ok S'"
    "m_currentTs S' = m_currentTs S"
    "agenda S' = add_mset (after S (GetValue (m_intervalRv G)), TriggerReport_ev g) (agenda S)" by auto
  have "Now S' = Now S" using S'(3) by (simp add: Now_def)
  with S' assms(4-13) show ?thesis
    by (auto simp: TriggerReport_def ScheduleNextTrigger_def OranReportTrigger_TriggerReport_def PerformReport_def
        StoreReport_loop res_simps)
qed

theorem periodic_trigger_reports_witness:
  "\<exists>W' S'. TriggerReport 1 (demo_W, demo_S) = Inr (W', S') \<and>
    terminators W' 1 = Some (demo_T\<lparr>m_reports := m_reports demo_T @ [OranReportNrUeTxDrop 7 2 3 4 60]\<rparr>)"
  using periodic_trigger_reports [of demo_S demo_G demo_W 1 1 demo_R 1 demo_T]
  by (auto simp: demo_S_ok demo_W_def demo_T_def demo_R_def demo_G_def demo_rv_def GetValue_def res_simps
      NrUeTxDrop_GenerateReports_def NrUeTxDrop_report_def)

text \<open>Every registration response starts another chain of sends. A response that confirms the id of an
  active terminator changes nothing but puts a further \<open>DoSendReports\<close> on the agenda; the ones that
  are there stay.\<close>

theorem registration_response_adds_send:
  assumes "sim_ok S" and "space 1 S" and "delay_ok S (GetValue (m_sendIntervalRv T))"
    and "terminators W t = Some T" and "t_active T" and "m_e2NodeId T = e2NodeId"
  shows "\<exists>W' S'. ReceiveRegistrationResponse t e2NodeId (W, S) = Inr (W', S') \<and> sim_ok S' \<and>
    agenda S' = add_mset (after S (GetValue (m_sendIntervalRv T)), DoSendReports_ev t) (agenda S)"
proof -
  from schedule_agenda [OF assms(1) _ assms(3), of 0 "DoSendReports_ev t"] assms(2)
  obtain i S' where "schedule (GetValue (m_sendIntervalRv T)) (DoSendReports_ev t) S = Inr (i, S')" "sim_ok S'"
    "agenda S' = add_mset (after S (GetValue (m_sendIntervalRv T)), DoSendReports_ev t) (agenda S)" by auto
  with assms(4-6) show ?thesis by (simp add: ReceiveRegistrationResponse_def ScheduleNextSend_def res_simps)
qed

theorem registration_response_adds_send_witness:
  "\<exists>W' S'. ReceiveRegistrationResponse 1 7 (demo_W, demo_S) = Inr (W', S') \<and>
    agenda S' = add_mset (after demo_S 1000, DoSendReports_ev 1) (agenda demo_S)"
  using registration_response_adds_send [of demo_S demo_T demo_W 1 7]
  by (auto simp: demo_S_ok demo_W_def demo_T_def demo_rv_def GetValue_def)

text \<open>A reporter that was deactivated stays inactive. Deactivating an active reporter unlinks it from its
  trigger, and activating it again is without effect.\<close>

theorem reporter_not_reactivated:
  assumes "reporters W r = Some R" and "r_active R" and "r_trigger R = Some g"
    and "triggers W g = Some G" and "g_active G" and "g_reporter G = Some r" and "g_kind G = OranReportTriggerPeriodic"
  shows "\<exists>W' S' R'. Reporter_Deactivate r (W, S) = Inr (W', S') \<and> reporters W' r = Some R' \<and>
    \<not> r_active R' \<and> r_trigger R' = None \<and> Reporter_Activate r (W', S') = Inr (W', S')"
  using assms
  by (auto simp: Reporter_Deactivate_def Reporter_Activate_def Trigger_Deactivate_def CancelNextTrigger_def
      OranReportTrigger_Deactivate_def res_simps)

theorem reporter_not_reactivated_witness:
  "\<exists>W' S' R'. Reporter_Deactivate 1 (demo_W, demo_S) = Inr (W', S') \<and> reporters W' 1 = Some R' \<and>
    \<not> r_active R' \<and> r_trigger R' = None \<and> Reporter_Activate 1 (W', S') = Inr (W', S')"
  by (rule reporter_not_reactivated [where R = demo_R and g = 1 and G = demo_G])
    (simp_all add: demo_W_def demo_R_def demo_G_def)

text \<open>An initial report leaves a trigger event behind. Activate a reporter whose periodic trigger has
  \<open>InitialReport\<close> set, complete the registration and deactivate the reporter: a \<open>TriggerReport\<close> is
  still on the agenda, and running it aborts the simulation.\<close>

theorem initial_report_stale_trigger:
  "case res_bind (Reporter_Activate 1
      (demo_W\<lparr>reporters := [1 \<mapsto> demo_R\<lparr>r_active := False\<rparr>], triggers := [1 \<mapsto> demo_G\<lparr>g_active := False, g_reporter := None\<rparr>]\<rparr>,
       demo_S)) (\<lambda>w. res_bind (Reporter_NotifyRegistrationComplete 1 w) (Reporter_Deactivate 1)) of
    Inl e \<Rightarrow> False
  | Inr (W, S) \<Rightarrow> (10, TriggerReport_ev 1) \<in># agenda S \<and>
      (case TriggerReport 1 (W, S) of Inr w \<Rightarrow> False
       | Inl e \<Rightarrow> e = NS_ABORT ''Attempting to trigger a report with a NULL reporter.'')"
  by code_simp

end
