(* ===== verification/OranRepository.thy ===== *)
theory OranRepository
  imports OranTypes "HOL-Library.Product_Lexorder"
begin

text \<open>
  The data repository of the Near-RT RIC (\<open>oran-nr-data-repository-sqlite.cc\<close>). The tables are lists
  of rows with their row ids, and each SQL statement of \<open>InitStatements\<close> is the function on tables
  that it denotes. What SQLite leaves open is a parameter \<open>q\<close>: which row id \<open>AUTOINCREMENT\<close> chooses,
  the return codes of \<open>sqlite3_open\<close> and \<open>sqlite3_step\<close>, the row that a bare column of an aggregate
  query is read from, and the order of a query without \<open>ORDER BY\<close>. \<open>sqlite_ok\<close> states what
  SQLite documents about them. Foreign keys are not enforced (SQLite's default, which the code
  does not change).
\<close>

section \<open>Tables\<close>

record 'r table =
  seq :: int
  rows :: "(int \<times> 'r) list"

datatype reg_row = RegRow (reg_nodeid: u64) (reg_registered: bool) (reg_time: Time)
datatype loc_row = LocRow (loc_nodeid: u64) (loc_pos: Vector) (loc_time: Time)
datatype cell_row = CellRow (cell_nodeid: u64) (cell_cellid: u16) (cell_rnti: u16) (cell_time: Time)
datatype rsrp_row = RsrpRow (rsrp_nodeid: u64) (rsrp_time: Time) (rsrp_rnti: u16) (rsrp_cellid: u16)
  (rsrp_rsrp: real) (rsrp_rsrq: real) (rsrp_serving: bool) (rsrp_ccid: u8)
datatype loss_row = LossRow (loss_nodeid: u64) (loss_loss: real) (loss_time: Time)
datatype log_row = LogRow (log_name: string) (log_time: Time) (log_text: string)
datatype tcmd_row = TcmdRow (tcmd_targetid: u64) (tcmd_time: Time) (tcmd_name: string)

record db =
  node :: "int table"
  noderegistration :: "reg_row table"
  nodelocation :: "loc_row table"
  nrgnb :: "(u64 \<times> u16) list"
  nrue :: "(u64 \<times> u64) list"
  nruecell :: "cell_row table"
  nruersrprsrq :: "rsrp_row table"
  nodeapploss :: "loss_row table"
  nruetxbuffer :: "(u64 \<times> NrUeBufferStatus) table"
  nruetxpdu :: "(u64 \<times> NrUeTxPdu) table"
  nruetxdrop :: "(u64 \<times> NrUeTxDrop) table"
  nruecqi :: "(u64 \<times> NrUeCqi) table"
  terminatorcommand :: "tcmd_row table"
  lmcommand :: "log_row table"
  lmaction :: "log_row table"
  cmmaction :: "log_row table"

definition empty_table :: "'r table" where
  "empty_table = \<lparr>seq = 0, rows = []\<rparr>"

text \<open>\<open>InitDb\<close> on a file that has no tables yet.\<close>

definition empty_db :: db where
  "empty_db = \<lparr>node = empty_table, noderegistration = empty_table, nodelocation = empty_table,
     nrgnb = [], nrue = [], nruecell = empty_table, nruersrprsrq = empty_table,
     nodeapploss = empty_table, nruetxbuffer = empty_table, nruetxpdu = empty_table,
     nruetxdrop = empty_table, nruecqi = empty_table, terminatorcommand = empty_table,
     lmcommand = empty_table, lmaction = empty_table, cmmaction = empty_table\<rparr>"

text \<open>
  The names of the statements; the two statements on \<open>nodeapploss\<close>, which the code spells where it
  uses them, are named here too.
\<close>

datatype StatementType = CHECK_NODE_REGISTERED | GET_ALL_LAST_REGISTRATION_TIMES
  | GET_NR_ALL_GNB_E2NODEIDS | GET_NR_ALL_UE_E2NODEIDS | GET_NR_CELLID_FROM_E2NODEID
  | GET_NR_UE_CELLINFO | GET_NR_UE_CQI | GET_NR_UE_TX_BUFFER_STATUS | GET_NR_UE_TX_PDU | GET_NR_UE_TX_DROP
  | GET_NR_UE_E2NODEID_FROM_CELLINFO | GET_NODE_ALL_POSITIONS | GET_NR_UE_RSRP_RSRQ | GET_APPLOSS
  | INSERT_NR_GNB_NODE | INSERT_NR_UE_CELL | INSERT_NR_UE_TX_BUFFER_STATUS | INSERT_NR_UE_TX_PDU
  | INSERT_NR_UE_TX_DROP | INSERT_NR_UE_CQI | INSERT_NR_UE_NODE | INSERT_NODE_ADD
  | INSERT_NODE_UPDATE | INSERT_NODE_LOCATION | INSERT_NODE_REGISTRATION | INSERT_NR_UE_RSRP_RSRQ
  | INSERT_APPLOSS | LOG_CMM_ACTION | LOG_E2TERMINATOR_COMMAND | LOG_LM_ACTION | LOG_LM_COMMAND

record sqlite =
  autoincrement :: "int \<Rightarrow> int"
  open_rc :: "string \<Rightarrow> int"
  step_rc :: "StatementType \<Rightarrow> db \<Rightarrow> int"
  bare_row :: "(int \<times> reg_row) list \<Rightarrow> int \<times> reg_row"
  scan_rsrp :: "(int \<times> rsrp_row) list \<Rightarrow> (int \<times> rsrp_row) list"

definition SQLITE_OK :: int where "SQLITE_OK = 0"
definition SQLITE_DONE :: int where "SQLITE_DONE = 101"

text \<open>
  What the code relies on: \<open>AUTOINCREMENT\<close> gives row ids larger than any that the table had, the
  database can be opened and statements run to their end, the bare columns of a query with
  \<open>MAX\<close> come from a row that attains the maximum, and a scan returns every selected row once.
\<close>

definition sqlite_ok :: "sqlite \<Rightarrow> bool" where
  "sqlite_ok q =
     ((\<forall>n. n < autoincrement q n) \<and> (\<forall>p. open_rc q p = SQLITE_OK) \<and>
      (\<forall>st db. step_rc q st db = SQLITE_DONE) \<and>
      (\<forall>xs. xs \<noteq> [] \<longrightarrow> bare_row q xs \<in> set xs) \<and>
      (\<forall>xs. mset (scan_rsrp q xs) = mset xs))"

section \<open>The repository object\<close>

record repository =
  m_active :: bool
  m_db :: "db option"
  m_dbPath :: string
  db_file :: db
  m_bufferStatus :: "u64 \<rightharpoonup> NrUeBufferStatus list"
  m_cqiSamples :: "u64 \<rightharpoonup> NrUeCqi list"
  m_txPduSamples :: "u64 \<rightharpoonup> NrUeTxPdu list"
  m_txDropSamples :: "u64 \<rightharpoonup> NrUeTxDrop list"

definition OranNrDataRepositorySqlite_new :: "string \<Rightarrow> db \<Rightarrow> repository" where
  "OranNrDataRepositorySqlite_new path file =
     \<lparr>m_active = False, m_db = None, m_dbPath = path, db_file = file, m_bufferStatus = Map.empty,
      m_cqiSamples = Map.empty, m_txPduSamples = Map.empty, m_txDropSamples = Map.empty\<rparr>"

definition IsDbOpen :: "repository \<Rightarrow> bool" where
  "IsDbOpen R = (m_db R \<noteq> None)"

text \<open>A path that names a database without a file: its content goes when it is closed.\<close>

definition transient :: "string \<Rightarrow> bool" where
  "transient path = (path = '':memory:'' \<or> path = [])"

text \<open>\<open>InitDb\<close> creates the tables only if they do not exist, so it keeps what a file holds.\<close>

definition OpenDb :: "sqlite \<Rightarrow> repository \<Rightarrow> repository res" where
  "OpenDb q R =
     abort_if (m_dbPath R \<noteq> '':memory:'' \<and> CHR '':'' \<in> set (m_dbPath R))
       ''URI-named DBs are not supported''
       (abort_if (open_rc q (m_dbPath R) \<noteq> 0) ''Could not open database''
          (Inr (R\<lparr>m_db := Some (if transient (m_dbPath R) then empty_db else db_file R)\<rparr>)))"

definition CloseDb :: "repository \<Rightarrow> repository" where
  "CloseDb R =
     (case m_db R of None \<Rightarrow> R
      | Some db \<Rightarrow> (if transient (m_dbPath R) then R else R\<lparr>db_file := db\<rparr>)\<lparr>m_db := None\<rparr>)"

definition Repository_Activate :: "sqlite \<Rightarrow> repository \<Rightarrow> repository res" where
  "Repository_Activate q R =
     (let R = R\<lparr>m_active := True\<rparr> in if \<not> IsDbOpen R then OpenDb q R else Inr R)"

definition Repository_Deactivate :: "repository \<Rightarrow> repository" where
  "Repository_Deactivate R =
     (let R = (if IsDbOpen R then CloseDb R else R) in R\<lparr>m_active := False\<rparr>)"

section \<open>Running statements\<close>

definition CheckQueryReturnCode :: "int \<Rightarrow> 'a res \<Rightarrow> 'a res" where
  "CheckQueryReturnCode rc k =
     (if rc = SQLITE_OK \<or> rc = SQLITE_DONE then k else Inl (NS_ABORT ''Query FAILED''))"

text \<open>Prepare, step and check a statement: \<open>f\<close> is what it does to the tables, or reads.\<close>

definition run_stmt :: "sqlite \<Rightarrow> StatementType \<Rightarrow> (db \<Rightarrow> 'a) \<Rightarrow> repository \<Rightarrow> 'a res" where
  "run_stmt q st f R =
     (case m_db R of None \<Rightarrow> Inl (UB ''closed database'')
      | Some db \<Rightarrow> CheckQueryReturnCode (step_rc q st db) (Inr (f db)))"

definition exec_stmt :: "sqlite \<Rightarrow> StatementType \<Rightarrow> (db \<Rightarrow> db) \<Rightarrow> repository \<Rightarrow> repository res" where
  "exec_stmt q st f R = res_bind (run_stmt q st f R) (\<lambda>db. Inr (R\<lparr>m_db := Some db\<rparr>))"

definition insert_auto :: "sqlite \<Rightarrow> 'r \<Rightarrow> 'r table \<Rightarrow> 'r table" where
  "insert_auto q r t =
     (let i = autoincrement q (seq t) in t\<lparr>seq := i, rows := rows t @ [(i, r)]\<rparr>)"

text \<open>\<open>INSERT OR REPLACE\<close> with an explicit row id; the sequence follows the largest id.\<close>

definition replace_row :: "int \<Rightarrow> 'r \<Rightarrow> 'r table \<Rightarrow> 'r table" where
  "replace_row i r t = t\<lparr>seq := max (seq t) i, rows := filter (\<lambda>(j, _). j \<noteq> i) (rows t) @ [(i, r)]\<rparr>"

text \<open>\<open>ORDER BY simulationtime DESC, entryid DESC\<close>.\<close>

definition newest_first :: "('r \<Rightarrow> Time) \<Rightarrow> (int \<times> 'r) list \<Rightarrow> (int \<times> 'r) list" where
  "newest_first time xs = rev (sort_key (\<lambda>(i, r). (time r, i)) xs)"

definition oldest_first :: "('r \<Rightarrow> Time) \<Rightarrow> (int \<times> 'r) list \<Rightarrow> (int \<times> 'r) list" where
  "oldest_first time xs = sort_key (\<lambda>(i, r). (time r, i)) xs"

text \<open>\<open>LIMIT n\<close>: a negative number means no limit.\<close>

definition sql_limit :: "int \<Rightarrow> 'a list \<Rightarrow> 'a list" where
  "sql_limit n xs = (if n < 0 then xs else take (nat n) xs)"

text \<open>\<open>sqlite3_bind_int\<close> takes an \<open>int\<close>: a wider argument loses its upper half.\<close>

definition bind_int :: "u64 \<Rightarrow> int" where
  "bind_int x = sint (ucast x :: u32)"

section \<open>Registration\<close>

definition select_registered :: "u64 \<Rightarrow> db \<Rightarrow> bool" where
  "select_registered e2NodeId db =
     (case newest_first reg_time (filter (\<lambda>(i, r). reg_nodeid r = e2NodeId) (rows (noderegistration db))) of
        [] \<Rightarrow> False | (i, r) # _ \<Rightarrow> reg_registered r)"

definition IsNodeRegistered :: "sqlite \<Rightarrow> repository \<Rightarrow> u64 \<Rightarrow> bool res" where
  "IsNodeRegistered q R e2NodeId =
     (if m_active R then run_stmt q CHECK_NODE_REGISTERED (select_registered e2NodeId) R else Inr False)"

definition insert_registration :: "sqlite \<Rightarrow> u64 \<Rightarrow> bool \<Rightarrow> Time \<Rightarrow> db \<Rightarrow> db" where
  "insert_registration q e2NodeId registered now db =
     db\<lparr>noderegistration := insert_auto q (RegRow e2NodeId registered now) (noderegistration db)\<rparr>"

text \<open>The node row, and the row id that \<open>sqlite3_last_insert_rowid\<close> returns for it.\<close>

definition insert_node :: "sqlite \<Rightarrow> NodeType \<Rightarrow> u64 \<Rightarrow> repository \<Rightarrow> (int \<times> repository) res" where
  "insert_node q type id' R =
     (if id' = 0
      then res_bind (exec_stmt q INSERT_NODE_ADD
             (\<lambda>db. db\<lparr>node := insert_auto q (NodeType_int type) (node db)\<rparr>) R)
           (\<lambda>R'. Inr (case m_db R of None \<Rightarrow> 0 | Some db \<Rightarrow> autoincrement q (seq (node db)), R'))
      else res_bind (exec_stmt q INSERT_NODE_UPDATE
             (\<lambda>db. db\<lparr>node := replace_row (bind_int id') (NodeType_int type) (node db)\<rparr>) R)
           (\<lambda>R'. Inr (bind_int id', R')))"

definition RegisterNode ::
  "sqlite \<Rightarrow> Time \<Rightarrow> NodeType \<Rightarrow> u64 \<Rightarrow> repository \<Rightarrow> (u64 \<times> repository) res" where
  "RegisterNode q now type id' R =
     (if m_active R
      then res_bind (insert_node q type id' R) (\<lambda>(rowid, R).
           let e2NodeId = word_of_int rowid
           in res_bind (exec_stmt q INSERT_NODE_REGISTRATION (insert_registration q e2NodeId True now) R)
                (\<lambda>R. Inr (e2NodeId, R)))
      else Inr (0, R))"

text \<open>\<open>INSERT OR REPLACE INTO nrue\<close>: rows with the same node id or the same imsi make way.\<close>

definition replace_nrue :: "u64 \<Rightarrow> u64 \<Rightarrow> db \<Rightarrow> db" where
  "replace_nrue id' imsi db =
     db\<lparr>nrue := filter (\<lambda>(n, i). n \<noteq> id' \<and> i \<noteq> imsi) (nrue db) @ [(id', imsi)]\<rparr>"

definition RegisterNodeNrUe ::
  "sqlite \<Rightarrow> Time \<Rightarrow> u64 \<Rightarrow> u64 \<Rightarrow> repository \<Rightarrow> (u64 \<times> repository) res" where
  "RegisterNodeNrUe q now id' imsi R =
     (if m_active R
      then res_bind (RegisterNode q now NRUE id' R) (\<lambda>(e2NodeId, R).
           res_bind (exec_stmt q INSERT_NR_UE_NODE (replace_nrue id' imsi) R)
             (\<lambda>R. Inr (e2NodeId, R)))
      else Inr (0, R))"

definition replace_nrgnb :: "u64 \<Rightarrow> u16 \<Rightarrow> db \<Rightarrow> db" where
  "replace_nrgnb id' cellId db =
     db\<lparr>nrgnb := filter (\<lambda>(n, c). n \<noteq> id') (nrgnb db) @ [(id', cellId)]\<rparr>"

definition RegisterNodeNrGnb ::
  "sqlite \<Rightarrow> Time \<Rightarrow> u64 \<Rightarrow> u16 \<Rightarrow> repository \<Rightarrow> (u64 \<times> repository) res" where
  "RegisterNodeNrGnb q now id' cellId R =
     (if m_active R
      then res_bind (RegisterNode q now NRGNB id' R) (\<lambda>(e2NodeId, R).
           res_bind (exec_stmt q INSERT_NR_GNB_NODE (replace_nrgnb id' cellId) R)
             (\<lambda>R. Inr (e2NodeId, R)))
      else Inr (0, R))"

definition DeregisterNode :: "sqlite \<Rightarrow> Time \<Rightarrow> u64 \<Rightarrow> repository \<Rightarrow> (u64 \<times> repository) res" where
  "DeregisterNode q now e2NodeId R =
     (if m_active R
      then res_bind (exec_stmt q INSERT_NODE_REGISTRATION (insert_registration q e2NodeId False now) R)
             (\<lambda>R. Inr (e2NodeId, R))
      else Inr (0, R))"

section \<open>Saving reports\<close>

text \<open>Every \<open>Save\<close> operation does nothing for a node that is not registered.\<close>

definition if_registered :: "sqlite \<Rightarrow> u64 \<Rightarrow> (repository \<Rightarrow> repository res) \<Rightarrow> repository \<Rightarrow> repository res" where
  "if_registered q e2NodeId f R =
     (if m_active R
      then res_bind (IsNodeRegistered q R e2NodeId) (\<lambda>registered. if registered then f R else Inr R)
      else Inr R)"

definition SavePosition :: "sqlite \<Rightarrow> u64 \<Rightarrow> Vector \<Rightarrow> Time \<Rightarrow> repository \<Rightarrow> repository res" where
  "SavePosition q e2NodeId pos t =
     if_registered q e2NodeId (exec_stmt q INSERT_NODE_LOCATION
       (\<lambda>db. db\<lparr>nodelocation := insert_auto q (LocRow e2NodeId pos t) (nodelocation db)\<rparr>))"

definition SaveNrUeCellInfo :: "sqlite \<Rightarrow> u64 \<Rightarrow> u16 \<Rightarrow> u16 \<Rightarrow> Time \<Rightarrow> repository \<Rightarrow> repository res" where
  "SaveNrUeCellInfo q e2NodeId cellId rnti t =
     if_registered q e2NodeId (exec_stmt q INSERT_NR_UE_CELL
       (\<lambda>db. db\<lparr>nruecell := insert_auto q (CellRow e2NodeId cellId rnti t) (nruecell db)\<rparr>))"

text \<open>The window of recent samples in memory: push back, and drop the oldest beyond 1000.\<close>

definition push_window :: "'a list option \<Rightarrow> 'a \<Rightarrow> 'a list" where
  "push_window old x =
     (let xs = (case old of None \<Rightarrow> [] | Some xs \<Rightarrow> xs) @ [x]
      in if length xs > 1000 then tl xs else xs)"

definition SaveNrUeBufferStatus :: "sqlite \<Rightarrow> u64 \<Rightarrow> NrUeBufferStatus \<Rightarrow> repository \<Rightarrow> repository res" where
  "SaveNrUeBufferStatus q e2NodeId status =
     if_registered q e2NodeId (\<lambda>R.
       let R = R\<lparr>m_bufferStatus := (m_bufferStatus R)(e2NodeId \<mapsto> push_window (m_bufferStatus R e2NodeId) status)\<rparr>
       in exec_stmt q INSERT_NR_UE_TX_BUFFER_STATUS
            (\<lambda>db. db\<lparr>nruetxbuffer := insert_auto q (e2NodeId, status) (nruetxbuffer db)\<rparr>) R)"

definition SaveNrUeCqi :: "sqlite \<Rightarrow> u64 \<Rightarrow> NrUeCqi \<Rightarrow> repository \<Rightarrow> repository res" where
  "SaveNrUeCqi q e2NodeId cqi =
     if_registered q e2NodeId (\<lambda>R.
       let R = R\<lparr>m_cqiSamples := (m_cqiSamples R)(e2NodeId \<mapsto> push_window (m_cqiSamples R e2NodeId) cqi)\<rparr>
       in exec_stmt q INSERT_NR_UE_CQI
            (\<lambda>db. db\<lparr>nruecqi := insert_auto q (e2NodeId, cqi) (nruecqi db)\<rparr>) R)"

definition SaveNrUeTxPdu :: "sqlite \<Rightarrow> u64 \<Rightarrow> NrUeTxPdu \<Rightarrow> repository \<Rightarrow> repository res" where
  "SaveNrUeTxPdu q e2NodeId pdu =
     if_registered q e2NodeId (\<lambda>R.
       let R = R\<lparr>m_txPduSamples := (m_txPduSamples R)(e2NodeId \<mapsto> push_window (m_txPduSamples R e2NodeId) pdu)\<rparr>
       in exec_stmt q INSERT_NR_UE_TX_PDU
            (\<lambda>db. db\<lparr>nruetxpdu := insert_auto q (e2NodeId, pdu) (nruetxpdu db)\<rparr>) R)"

definition SaveNrUeTxDrop :: "sqlite \<Rightarrow> u64 \<Rightarrow> NrUeTxDrop \<Rightarrow> repository \<Rightarrow> repository res" where
  "SaveNrUeTxDrop q e2NodeId drop' =
     if_registered q e2NodeId (\<lambda>R.
       let R = R\<lparr>m_txDropSamples := (m_txDropSamples R)(e2NodeId \<mapsto> push_window (m_txDropSamples R e2NodeId) drop')\<rparr>
       in exec_stmt q INSERT_NR_UE_TX_DROP
            (\<lambda>db. db\<lparr>nruetxdrop := insert_auto q (e2NodeId, drop') (nruetxdrop db)\<rparr>) R)"

definition SaveAppLoss :: "sqlite \<Rightarrow> u64 \<Rightarrow> real \<Rightarrow> Time \<Rightarrow> repository \<Rightarrow> repository res" where
  "SaveAppLoss q e2NodeId appLoss t =
     if_registered q e2NodeId (exec_stmt q INSERT_APPLOSS
       (\<lambda>db. db\<lparr>nodeapploss := insert_auto q (LossRow e2NodeId appLoss t) (nodeapploss db)\<rparr>))"

definition SaveNrUeRsrpRsrq ::
  "sqlite \<Rightarrow> u64 \<Rightarrow> Time \<Rightarrow> u16 \<Rightarrow> u16 \<Rightarrow> real \<Rightarrow> real \<Rightarrow> bool \<Rightarrow> u8 \<Rightarrow> repository \<Rightarrow> repository res" where
  "SaveNrUeRsrpRsrq q e2NodeId t rnti cellId rsrp rsrq isServing componentCarrierId =
     if_registered q e2NodeId (exec_stmt q INSERT_NR_UE_RSRP_RSRQ
       (\<lambda>db. db\<lparr>nruersrprsrq := insert_auto q
          (RsrpRow e2NodeId t rnti cellId rsrp rsrq isServing componentCarrierId) (nruersrprsrq db)\<rparr>))"

section \<open>Queries\<close>

definition query_registered ::
  "sqlite \<Rightarrow> u64 \<Rightarrow> 'a \<Rightarrow> (repository \<Rightarrow> 'a res) \<Rightarrow> repository \<Rightarrow> 'a res" where
  "query_registered q e2NodeId dflt f R =
     (if m_active R
      then res_bind (IsNodeRegistered q R e2NodeId) (\<lambda>registered. if registered then f R else Inr dflt)
      else Inr dflt)"

text \<open>
  The rows come newest first and are put into a map by time, so that of two rows of the same
  time the one with the smaller row id stays.
\<close>

definition select_positions :: "u64 \<Rightarrow> Time \<Rightarrow> Time \<Rightarrow> u64 \<Rightarrow> db \<Rightarrow> (int \<times> loc_row) list" where
  "select_positions e2NodeId fromTime toTime maxEntries db =
     sql_limit (sint maxEntries) (newest_first loc_time
       (filter (\<lambda>(i, r). loc_nodeid r = e2NodeId \<and> fromTime \<le> loc_time r \<and> loc_time r \<le> toTime)
          (rows (nodelocation db))))"

definition GetNodePositions ::
  "sqlite \<Rightarrow> u64 \<Rightarrow> Time \<Rightarrow> Time \<Rightarrow> u64 \<Rightarrow> repository \<Rightarrow> (Time \<times> Vector) list res" where
  "GetNodePositions q e2NodeId fromTime toTime maxEntries =
     query_registered q e2NodeId [] (run_stmt q GET_NODE_ALL_POSITIONS
       (\<lambda>db. fold (\<lambda>(i, r) m. smap_put (loc_time r) (loc_pos r) m)
          (select_positions e2NodeId fromTime toTime maxEntries db) []))"

definition GetNrUeCellInfo :: "sqlite \<Rightarrow> u64 \<Rightarrow> repository \<Rightarrow> (bool \<times> u16 \<times> u16) res" where
  "GetNrUeCellInfo q e2NodeId =
     query_registered q e2NodeId (False, 0, 0) (run_stmt q GET_NR_UE_CELLINFO
       (\<lambda>db. case newest_first cell_time
                 (filter (\<lambda>(i, r). cell_nodeid r = e2NodeId) (rows (nruecell db))) of
               [] \<Rightarrow> (False, 0, 0) | (i, r) # _ \<Rightarrow> (True, cell_cellid r, cell_rnti r)))"

text \<open>
  \<open>GROUP BY nodeid HAVING registered = 1\<close> beside \<open>MAX(simulationtime)\<close>: the bare column is read from
  a row of the group that has the largest time.
\<close>

definition latest_rows :: "(int \<times> reg_row) list \<Rightarrow> (int \<times> reg_row) list" where
  "latest_rows g = filter (\<lambda>(i, r). \<forall>(j, s) \<in> set g. reg_time s \<le> reg_time r) g"

definition select_last_registrations ::
  "sqlite \<Rightarrow> (u64 \<Rightarrow> bool) \<Rightarrow> db \<Rightarrow> (u64 \<times> Time) list" where
  "select_last_registrations q wanted db =
     (let rs = rows (noderegistration db);
          groups = sort_key sint (remdups (filter wanted (map (\<lambda>(i, r). reg_nodeid r) rs)));
          last_row = (\<lambda>n. bare_row q (latest_rows (filter (\<lambda>(i, r). reg_nodeid r = n) rs)))
      in map (\<lambda>n. (n, reg_time (snd (last_row n))))
           (filter (\<lambda>n. reg_registered (snd (last_row n))) groups))"

definition GetNrUeE2NodeIds :: "sqlite \<Rightarrow> repository \<Rightarrow> u64 list res" where
  "GetNrUeE2NodeIds q R =
     (if m_active R
      then run_stmt q GET_NR_ALL_UE_E2NODEIDS
             (\<lambda>db. map fst (select_last_registrations q (\<lambda>n. n \<in> fst ` set (nrue db)) db)) R
      else Inr [])"

definition GetAppLoss :: "sqlite \<Rightarrow> u64 \<Rightarrow> repository \<Rightarrow> real res" where
  "GetAppLoss q e2NodeId =
     query_registered q e2NodeId 0 (run_stmt q GET_APPLOSS
       (\<lambda>db. case rev (sort_key fst (filter (\<lambda>(i, r). loss_nodeid r = e2NodeId) (rows (nodeapploss db)))) of
               [] \<Rightarrow> 0 | (i, r) # _ \<Rightarrow> loss_loss r))"

definition GetNrUeE2NodeIdFromCellInfo :: "sqlite \<Rightarrow> u16 \<Rightarrow> u16 \<Rightarrow> repository \<Rightarrow> u64 res" where
  "GetNrUeE2NodeIdFromCellInfo q cellId rnti R =
     (if m_active R
      then run_stmt q GET_NR_UE_E2NODEID_FROM_CELLINFO
             (\<lambda>db. case rev (sort_key fst (filter (\<lambda>(i, r). cell_cellid r = cellId \<and> cell_rnti r = rnti)
                          (rows (nruecell db)))) of
                     [] \<Rightarrow> 0 | (i, r) # _ \<Rightarrow> cell_nodeid r) R
      else Inr 0)"

definition GetNrGnbCellInfo :: "sqlite \<Rightarrow> u64 \<Rightarrow> repository \<Rightarrow> (bool \<times> u16) res" where
  "GetNrGnbCellInfo q e2NodeId =
     query_registered q e2NodeId (False, 0) (run_stmt q GET_NR_CELLID_FROM_E2NODEID
       (\<lambda>db. case map_of (nrgnb db) e2NodeId of None \<Rightarrow> (False, 0) | Some c \<Rightarrow> (True, c)))"

definition GetNrGnbE2NodeIds :: "sqlite \<Rightarrow> repository \<Rightarrow> u64 list res" where
  "GetNrGnbE2NodeIds q R =
     (if m_active R
      then run_stmt q GET_NR_ALL_GNB_E2NODEIDS
             (\<lambda>db. map fst (select_last_registrations q (\<lambda>n. n \<in> fst ` set (nrgnb db)) db)) R
      else Inr [])"

definition GetLastRegistrationRequests :: "sqlite \<Rightarrow> repository \<Rightarrow> (u64 \<times> Time) list res" where
  "GetLastRegistrationRequests q R =
     (if m_active R
      then run_stmt q GET_ALL_LAST_REGISTRATION_TIMES (select_last_registrations q (\<lambda>n. True)) R
      else Inr [])"

definition select_rsrp_rsrq :: "sqlite \<Rightarrow> u64 \<Rightarrow> db \<Rightarrow> (int \<times> rsrp_row) list" where
  "select_rsrp_rsrq q e2NodeId db =
     (let own = filter (\<lambda>(i, r). rsrp_nodeid r = e2NodeId) (rows (nruersrprsrq db));
          newest = take 1 (rev (sort (map (\<lambda>(i, r). rsrp_time r) own)))
      in scan_rsrp q (filter (\<lambda>(i, r). rsrp_time r \<in> set newest) own))"

definition GetNrUeRsrpRsrq ::
  "sqlite \<Rightarrow> u64 \<Rightarrow> repository \<Rightarrow> (u16 \<times> u16 \<times> real \<times> real \<times> bool \<times> u8) list res" where
  "GetNrUeRsrpRsrq q e2NodeId =
     query_registered q e2NodeId [] (run_stmt q GET_NR_UE_RSRP_RSRQ
       (\<lambda>db. map (\<lambda>(i, r). (rsrp_rnti r, rsrp_cellid r, rsrp_rsrp r, rsrp_rsrq r, rsrp_serving r, rsrp_ccid r))
          (select_rsrp_rsrq q e2NodeId db)))"

definition GetNrUeBufferStatus :: "sqlite \<Rightarrow> u64 \<Rightarrow> repository \<Rightarrow> NrUeBufferStatus list res" where
  "GetNrUeBufferStatus q e2NodeId =
     query_registered q e2NodeId [] (run_stmt q GET_NR_UE_TX_BUFFER_STATUS
       (\<lambda>db. map (\<lambda>(i, n, s). s) (oldest_first (bs_time \<circ> snd)
          (filter (\<lambda>(i, n, s). n = e2NodeId) (rows (nruetxbuffer db))))))"

definition GetNrUeCqi :: "u64 \<Rightarrow> repository \<Rightarrow> NrUeCqi list" where
  "GetNrUeCqi e2NodeId R = (case m_cqiSamples R e2NodeId of None \<Rightarrow> [] | Some xs \<Rightarrow> xs)"

text \<open>
  The byte counts of PDUs and drops are stored in 64 bits but read with \<open>sqlite3_column_int\<close> and a
  cast to \<open>uint32_t\<close>.
\<close>

definition column_u32 :: "u64 \<Rightarrow> u64" where
  "column_u32 x = ucast (ucast x :: u32)"

definition GetNrUeTxPdu :: "sqlite \<Rightarrow> u64 \<Rightarrow> repository \<Rightarrow> NrUeTxPdu list res" where
  "GetNrUeTxPdu q e2NodeId =
     query_registered q e2NodeId [] (run_stmt q GET_NR_UE_TX_PDU
       (\<lambda>db. map (\<lambda>(i, n, s). NrUeTxPdu (pdu_time s) (pdu_rnti s) (pdu_lcid s) (column_u32 (pdu_txPdu s)))
          (newest_first (pdu_time \<circ> snd) (filter (\<lambda>(i, n, s). n = e2NodeId) (rows (nruetxpdu db))))))"

definition GetNrUeTxDrop :: "sqlite \<Rightarrow> u64 \<Rightarrow> repository \<Rightarrow> NrUeTxDrop list res" where
  "GetNrUeTxDrop q e2NodeId =
     query_registered q e2NodeId [] (run_stmt q GET_NR_UE_TX_DROP
       (\<lambda>db. map (\<lambda>(i, n, s). NrUeTxDrop (drop_time s) (drop_rnti s) (drop_lcid s) (column_u32 (drop_txDrop s)))
          (newest_first (drop_time \<circ> snd) (filter (\<lambda>(i, n, s). n = e2NodeId) (rows (nruetxdrop db))))))"

section \<open>Logs\<close>

definition LogCommandE2Terminator :: "sqlite \<Rightarrow> Time \<Rightarrow> OranCommand \<Rightarrow> repository \<Rightarrow> repository res" where
  "LogCommandE2Terminator q now cmd =
     if_registered q (GetTargetE2NodeId cmd) (exec_stmt q LOG_E2TERMINATOR_COMMAND
       (\<lambda>db. db\<lparr>terminatorcommand := insert_auto q
          (TcmdRow (GetTargetE2NodeId cmd) now (OranCommand_ToString cmd)) (terminatorcommand db)\<rparr>))"

definition LogCommandLm :: "sqlite \<Rightarrow> Time \<Rightarrow> string \<Rightarrow> OranCommand \<Rightarrow> repository \<Rightarrow> repository res" where
  "LogCommandLm q now lm cmd R =
     (if m_active R
      then exec_stmt q LOG_LM_COMMAND
             (\<lambda>db. db\<lparr>lmcommand := insert_auto q (LogRow lm now (OranCommand_ToString cmd)) (lmcommand db)\<rparr>) R
      else Inr R)"

definition LogActionLm :: "sqlite \<Rightarrow> Time \<Rightarrow> string \<Rightarrow> string \<Rightarrow> repository \<Rightarrow> repository res" where
  "LogActionLm q now lm logStr R =
     (if m_active R
      then exec_stmt q LOG_LM_ACTION
             (\<lambda>db. db\<lparr>lmaction := insert_auto q (LogRow lm now logStr) (lmaction db)\<rparr>) R
      else Inr R)"

definition LogActionCmm :: "sqlite \<Rightarrow> Time \<Rightarrow> string \<Rightarrow> string \<Rightarrow> repository \<Rightarrow> repository res" where
  "LogActionCmm q now cmm logStr R =
     (if m_active R
      then exec_stmt q LOG_CMM_ACTION
             (\<lambda>db. db\<lparr>cmmaction := insert_auto q (LogRow cmm now logStr) (cmmaction db)\<rparr>) R
      else Inr R)"

section \<open>Invariant and statement lemmas\<close>

definition table_ok :: "'r table \<Rightarrow> bool" where
  "table_ok t = (sorted_wrt (<) (map fst (rows t)) \<and> (\<forall>(i, r) \<in> set (rows t). i \<le> seq t))"

text \<open>
  The state of an active repository at time \<open>now\<close>: the database is open, row ids grow, no
  registration lies in the future, and no id beyond the sequence was ever given out.
\<close>

definition repo_inv :: "Time \<Rightarrow> repository \<Rightarrow> bool" where
  "repo_inv now R =
     (m_active R \<and>
      (case m_db R of None \<Rightarrow> False
       | Some db \<Rightarrow> 0 \<le> seq (node db) \<and> table_ok (noderegistration db) \<and>
           (\<forall>(i, r) \<in> set (rows (noderegistration db)). reg_time r \<le> now \<and>
              (reg_registered r \<longrightarrow> sint (reg_nodeid r) \<le> seq (node db)))))"

definition registered_now :: "repository \<Rightarrow> u64 \<Rightarrow> bool" where
  "registered_now R e2NodeId =
     (m_active R \<and> (case m_db R of None \<Rightarrow> False | Some db \<Rightarrow> select_registered e2NodeId db))"

lemma insort_key_append_max:
  "f y \<le> (f x :: 'k :: linorder) \<Longrightarrow> insort_key f y (zs @ [x]) = insort_key f y zs @ [x]"
  by (induction zs) auto

lemma sort_key_append_max:
  "\<forall>y \<in> set xs. f y \<le> (f x :: 'k :: linorder) \<Longrightarrow> sort_key f (xs @ [x]) = sort_key f xs @ [x]"
  by (induction xs) (simp_all add: insort_key_append_max)

lemma newest_first_append:
  assumes "\<forall>(j, s) \<in> set xs. time s \<le> time r \<and> j \<le> i"
  shows "newest_first time (xs @ [(i, r)]) = (i, r) # newest_first time xs"
proof -
  have "\<forall>y \<in> set xs. (case y of (j, s) \<Rightarrow> (time s, j)) \<le> (case (i, r) of (j, s) \<Rightarrow> (time s, j))"
    using assms by (auto simp: less_eq_prod_def)
  from sort_key_append_max [OF this] show ?thesis by (simp add: newest_first_def)
qed

lemma newest_first_Cons: "x \<in> set xs \<Longrightarrow> \<exists>i r zs. newest_first time xs = (i, r) # zs"
proof -
  assume "x \<in> set xs"
  then have "x \<in> set (newest_first time xs)" by (simp add: newest_first_def)
  then show ?thesis by (cases "newest_first time xs") auto
qed

lemma insert_auto_rows: "rows (insert_auto q r t) = rows t @ [(autoincrement q (seq t), r)]"
  by (simp add: insert_auto_def Let_def)

lemma insert_auto_seq: "seq (insert_auto q r t) = autoincrement q (seq t)"
  by (simp add: insert_auto_def Let_def)

lemma registered_now_frame [simp]:
  "registered_now (R\<lparr>m_bufferStatus := a\<rparr>) n = registered_now R n"
  "registered_now (R\<lparr>m_cqiSamples := b\<rparr>) n = registered_now R n"
  "registered_now (R\<lparr>m_txPduSamples := c\<rparr>) n = registered_now R n"
  "registered_now (R\<lparr>m_txDropSamples := d\<rparr>) n = registered_now R n"
  by (simp_all add: registered_now_def)

lemma repo_inv_frame [simp]:
  "repo_inv now (R\<lparr>m_bufferStatus := a\<rparr>) = repo_inv now R"
  "repo_inv now (R\<lparr>m_cqiSamples := b\<rparr>) = repo_inv now R"
  "repo_inv now (R\<lparr>m_txPduSamples := c\<rparr>) = repo_inv now R"
  "repo_inv now (R\<lparr>m_txDropSamples := d\<rparr>) = repo_inv now R"
  by (simp_all add: repo_inv_def)

locale sqlite_engine =
  fixes q :: sqlite
  assumes ok: "sqlite_ok q"
begin

lemma autoincrement_larger: "n < autoincrement q n"
  using ok by (simp add: sqlite_ok_def)

lemma run_stmt_open: "m_db R = Some db \<Longrightarrow> run_stmt q st f R = Inr (f db)"
  using ok by (simp add: run_stmt_def sqlite_ok_def CheckQueryReturnCode_def)

lemma exec_stmt_open: "m_db R = Some db \<Longrightarrow> exec_stmt q st f R = Inr (R\<lparr>m_db := Some (f db)\<rparr>)"
  by (simp add: exec_stmt_def run_stmt_open)

lemma insert_auto_ok:
  assumes "table_ok t"
  shows "table_ok (insert_auto q r t)"
  using assms autoincrement_larger [of "seq t"]
  by (fastforce simp: table_ok_def insert_auto_rows insert_auto_seq sorted_wrt_append)

lemma IsNodeRegistered_now: "repo_inv now R \<Longrightarrow> IsNodeRegistered q R n = Inr (registered_now R n)"
  by (auto simp: repo_inv_def IsNodeRegistered_def registered_now_def run_stmt_open split: option.splits)

lemma if_registered_now:
  "repo_inv now R \<Longrightarrow> if_registered q n f R = (if registered_now R n then f R else Inr R)"
  by (simp add: if_registered_def IsNodeRegistered_now) (simp add: repo_inv_def)

lemma query_registered_now:
  "repo_inv now R \<Longrightarrow> query_registered q n d f R = (if registered_now R n then f R else Inr d)"
  by (simp add: query_registered_def IsNodeRegistered_now) (simp add: repo_inv_def)

text \<open>A registration row of the present time decides for its node, and for no other.\<close>

lemma select_registered_insert:
  assumes "table_ok (noderegistration db)"
    and "\<forall>(i, r) \<in> set (rows (noderegistration db)). reg_time r \<le> now"
  shows "select_registered m (insert_registration q n b now db) =
    (if m = n then b else select_registered m db)"
proof (cases "m = n")
  case True
  have "\<forall>(j, s) \<in> set (filter (\<lambda>(i, r). reg_nodeid r = n) (rows (noderegistration db))).
      reg_time s \<le> reg_time (RegRow n b now) \<and> j \<le> autoincrement q (seq (noderegistration db))"
    using assms autoincrement_larger [of "seq (noderegistration db)"] by (fastforce simp: table_ok_def)
  from newest_first_append [OF this] True show ?thesis
    by (simp add: select_registered_def insert_registration_def insert_auto_rows)
next
  case False
  then show ?thesis
    by (simp add: select_registered_def insert_registration_def insert_auto_rows)
qed

lemma select_registered_row:
  "select_registered n db \<Longrightarrow>
    \<exists>(i, r) \<in> set (rows (noderegistration db)). reg_nodeid r = n \<and> reg_registered r"
proof -
  let ?xs = "filter (\<lambda>(i, r). reg_nodeid r = n) (rows (noderegistration db))"
  assume "select_registered n db"
  then obtain i r zs where ys: "newest_first reg_time ?xs = (i, r) # zs" "reg_registered r"
    by (auto simp: select_registered_def split: list.splits)
  have "set (newest_first reg_time ?xs) = set ?xs" by (simp add: newest_first_def)
  then have "(i, r) \<in> set ?xs" unfolding ys(1) by auto
  with ys(2) show ?thesis by auto
qed

text \<open>Adding the registration row of the present time: what every (de)registration ends with.\<close>

lemma registration_row:
  assumes "repo_inv now R" and "m_db R = Some db" and "b \<longrightarrow> sint n \<le> seq (node db)"
  shows "\<exists>R'. exec_stmt q INSERT_NODE_REGISTRATION (insert_registration q n b now) R = Inr R' \<and>
    repo_inv now R' \<and> (\<forall>m. registered_now R' m = (if m = n then b else registered_now R m))"
proof -
  let ?db = "insert_registration q n b now db"
  have inv: "m_active R" "table_ok (noderegistration db)" "0 \<le> seq (node db)"
    "\<forall>(i, r) \<in> set (rows (noderegistration db)). reg_time r \<le> now"
    "\<forall>(i, r) \<in> set (rows (noderegistration db)). reg_registered r \<longrightarrow> sint (reg_nodeid r) \<le> seq (node db)"
    using assms(1,2) by (auto simp: repo_inv_def)
  have "repo_inv now (R\<lparr>m_db := Some ?db\<rparr>)"
    using inv assms(3) insert_auto_ok [OF inv(2)]
    by (auto simp: repo_inv_def insert_registration_def insert_auto_rows)
  with select_registered_insert [OF inv(2,4)] inv(1) assms(2) show ?thesis
    by (simp add: exec_stmt_open registered_now_def)
qed

lemma RegisterNode_registers:
  assumes "repo_inv now R" and "m_db R = Some db"
    and "id' \<noteq> 0 \<longrightarrow> unat id' < 2 ^ 31" and "id' = 0 \<longrightarrow> autoincrement q (seq (node db)) < 2 ^ 63"
  shows "\<exists>n R'. RegisterNode q now type id' R = Inr (n, R') \<and> repo_inv now R' \<and>
    (if id' = 0 then \<not> registered_now R n else n = id') \<and>
    (\<forall>m. registered_now R' m = (m = n \<or> registered_now R m))"
proof -
  let ?i = "if id' = 0 then autoincrement q (seq (node db)) else bind_int id'"
  let ?t = "if id' = 0 then insert_auto q (NodeType_int type) (node db)
    else replace_row (bind_int id') (NodeType_int type) (node db)"
  let ?R = "R\<lparr>m_db := Some (db\<lparr>node := ?t\<rparr>)\<rparr>"
  let ?n = "word_of_int ?i :: u64"
  have node: "insert_node q type id' R = Inr (?i, ?R)"
    by (simp add: insert_node_def exec_stmt_open [OF assms(2)] assms(2))
  have inv: "m_active R" "0 \<le> seq (node db)" and seq: "seq (node db) \<le> seq ?t" "?i \<le> seq ?t"
    using assms(1,2) autoincrement_larger [of "seq (node db)"]
    by (auto simp: repo_inv_def insert_auto_seq replace_row_def less_imp_le)
  have "sint (reg_nodeid r) \<le> seq ?t"
    if "(i, r) \<in> set (rows (noderegistration db))" "reg_registered r" for i r
    using that assms(1,2) by (intro order_trans [OF _ seq(1)]) (auto simp: repo_inv_def)
  then have R: "repo_inv now ?R" using assms(1,2) inv seq(1) by (auto simp: repo_inv_def)
  have old: "registered_now ?R m = registered_now R m" for m
    by (simp add: registered_now_def assms(2) select_registered_def)
  have small: "uint id' < 2 ^ 31" if "id' \<noteq> 0"
  proof -
    have "int (unat id') < int (2 ^ 31)" using assms(3) that by (simp only: of_nat_less_iff simp_thms)
    then show ?thesis by simp
  qed
  then have bind: "bind_int id' = uint id'" if "id' \<noteq> 0"
    using that unfolding bind_int_def by (intro sint_ucast_u32) simp
  have si: "sint ?n = ?i"
  proof (rule sint_u64)
    show "- (2 ^ 63) \<le> ?i" using bind autoincrement_larger [of "seq (node db)"] inv(2)
        unsigned_greater_eq [of id', where 'a = int] by (auto intro: order_trans [of _ 0])
    show "?i < 2 ^ 63" using bind small assms(4) by auto
  qed
  have "\<not> registered_now R ?n" if "id' = 0"
  proof
    assume "registered_now R ?n"
    then obtain i r where "(i, r) \<in> set (rows (noderegistration db))" "reg_nodeid r = ?n" "reg_registered r"
      using select_registered_row [of ?n db] by (auto simp: registered_now_def assms(2))
    then have "sint ?n \<le> seq (node db)" using assms(1,2) by (fastforce simp: repo_inv_def)
    then show False using si autoincrement_larger [of "seq (node db)"] that by simp
  qed
  moreover have "?n = id'" if "id' \<noteq> 0" using bind [OF that] that by simp
  moreover obtain R' where
    "exec_stmt q INSERT_NODE_REGISTRATION (insert_registration q ?n True now) ?R = Inr R'"
    "repo_inv now R'" "\<forall>m. registered_now R' m = (m = ?n \<or> registered_now R m)"
    using registration_row [OF R, of "db\<lparr>node := ?t\<rparr>" True ?n] si seq(2) unfolding old by auto
  ultimately show ?thesis
    by (intro exI [of _ ?n] exI [of _ R']) (simp add: RegisterNode_def inv(1) node Let_def)
qed

lemma DeregisterNode_deregisters:
  assumes "repo_inv now R"
  shows "\<exists>R'. DeregisterNode q now n R = Inr (n, R') \<and> repo_inv now R' \<and>
    (\<forall>m. registered_now R' m = (m \<noteq> n \<and> registered_now R m))"
proof -
  obtain db where db: "m_db R = Some db" "m_active R"
    using assms by (auto simp: repo_inv_def split: option.splits)
  from registration_row [OF assms db(1), of False n] db(2) show ?thesis
    by (auto simp: DeregisterNode_def)
qed

text \<open>The window in memory is the suffix of what was saved.\<close>

lemma push_window_take:
  "push_window (Some (drop (length xs - 1000) xs)) x = drop (length (xs @ [x]) - 1000) (xs @ [x])"
proof (cases "length xs < 1000")
  case False
  then have "drop (length xs - 1000) xs \<noteq> []" by auto
  moreover have "tl (drop (length xs - 1000) xs) = drop (Suc (length xs - 1000)) xs"
    by (simp add: drop_Suc tl_drop)
  moreover have "Suc (length xs - 1000) = Suc (length xs) - 1000" using False by simp
  ultimately have "tl (drop (length xs - 1000) xs @ [x]) = drop (Suc (length xs) - 1000) xs @ [x]"
    by (simp add: tl_append2)
  with False show ?thesis by (simp add: push_window_def Let_def)
qed (simp add: push_window_def Let_def)

lemma repo_inv_db:
  "repo_inv now R \<Longrightarrow> m_db R = Some db \<Longrightarrow> noderegistration db' = noderegistration db \<Longrightarrow>
    node db' = node db \<Longrightarrow> repo_inv now (R\<lparr>m_db := Some db'\<rparr>) \<and>
    registered_now (R\<lparr>m_db := Some db'\<rparr>) n = registered_now R n"
  by (simp add: repo_inv_def registered_now_def select_registered_def)

lemma SaveNrUeTxPdu_open:
  assumes "repo_inv now R" and "m_db R = Some db" and "registered_now R n"
  shows "SaveNrUeTxPdu q n pdu R = Inr (R\<lparr>
      m_txPduSamples := (m_txPduSamples R)(n \<mapsto> push_window (m_txPduSamples R n) pdu),
      m_db := Some (db\<lparr>nruetxpdu := insert_auto q (n, pdu) (nruetxpdu db)\<rparr>)\<rparr>)"
  using assms by (simp add: SaveNrUeTxPdu_def if_registered_now Let_def exec_stmt_open)

lemma SaveNrUeTxPdu_sequence:
  assumes "repo_inv now R" and "registered_now R n"
    and "m_txPduSamples R n = Some (drop (length xs - 1000) xs)"
  shows "\<exists>R'. for_each (\<lambda>R pdu. SaveNrUeTxPdu q n pdu R) pdus R = Inr R' \<and> repo_inv now R' \<and>
    registered_now R' n \<and>
    m_txPduSamples R' n = Some (drop (length (xs @ pdus) - 1000) (xs @ pdus))"
  using assms
proof (induction pdus arbitrary: R xs)
  case (Cons pdu pdus)
  obtain db where db: "m_db R = Some db"
    using Cons.prems(1) by (auto simp: repo_inv_def split: option.splits)
  let ?R = "R\<lparr>m_txPduSamples := (m_txPduSamples R)(n \<mapsto> push_window (m_txPduSamples R n) pdu),
      m_db := Some (db\<lparr>nruetxpdu := insert_auto q (n, pdu) (nruetxpdu db)\<rparr>)\<rparr>"
  have "repo_inv now ?R" "registered_now ?R n"
    using Cons.prems(1,2) db by (auto simp: repo_inv_def registered_now_def select_registered_def)
  moreover have "m_txPduSamples ?R n = Some (drop (length (xs @ [pdu]) - 1000) (xs @ [pdu]))"
    using Cons.prems(3) push_window_take [of xs pdu] by simp
  ultimately obtain R' where "for_each (\<lambda>R pdu. SaveNrUeTxPdu q n pdu R) pdus ?R = Inr R'"
    "repo_inv now R'" "registered_now R' n"
    "m_txPduSamples R' n = Some (drop (length ((xs @ [pdu]) @ pdus) - 1000) ((xs @ [pdu]) @ pdus))"
    using Cons.IH [of ?R "xs @ [pdu]"] by blast
  then show ?case using SaveNrUeTxPdu_open [OF Cons.prems(1) db Cons.prems(2), of pdu] by simp
qed simp

lemma SaveNrUeTxPdu_Get:
  assumes "repo_inv now R" and "m_db R = Some db" and "registered_now R n"
    and "table_ok (nruetxpdu db)" and "\<forall>(i, m, s) \<in> set (rows (nruetxpdu db)). pdu_time s \<le> pdu_time pdu"
  shows "\<exists>R' old. SaveNrUeTxPdu q n pdu R = Inr R' \<and> GetNrUeTxPdu q n R = Inr old \<and>
    GetNrUeTxPdu q n R' = Inr (NrUeTxPdu (pdu_time pdu) (pdu_rnti pdu) (pdu_lcid pdu)
       (column_u32 (pdu_txPdu pdu)) # old)"
proof -
  let ?R = "R\<lparr>m_txPduSamples := (m_txPduSamples R)(n \<mapsto> push_window (m_txPduSamples R n) pdu),
      m_db := Some (db\<lparr>nruetxpdu := insert_auto q (n, pdu) (nruetxpdu db)\<rparr>)\<rparr>"
  have R: "repo_inv now ?R" "registered_now ?R n"
    using assms(1-3) by (auto simp: repo_inv_def registered_now_def select_registered_def)
  have "\<forall>(j, s) \<in> set (filter (\<lambda>(i, m, s). m = n) (rows (nruetxpdu db))).
      (pdu_time \<circ> snd) s \<le> (pdu_time \<circ> snd) (n, pdu) \<and> j \<le> autoincrement q (seq (nruetxpdu db))"
    using assms(4,5) autoincrement_larger [of "seq (nruetxpdu db)"] by (fastforce simp: table_ok_def)
  note new = newest_first_append [OF this]
  have "GetNrUeTxPdu q n ?R = Inr (NrUeTxPdu (pdu_time pdu) (pdu_rnti pdu) (pdu_lcid pdu)
      (column_u32 (pdu_txPdu pdu)) # map (\<lambda>(i, n, s). NrUeTxPdu (pdu_time s) (pdu_rnti s) (pdu_lcid s)
        (column_u32 (pdu_txPdu s))) (newest_first (pdu_time \<circ> snd)
          (filter (\<lambda>(i, m, s). m = n) (rows (nruetxpdu db)))))"
    unfolding GetNrUeTxPdu_def query_registered_now [OF R(1)] using R(2) new
    by (simp add: run_stmt_open insert_auto_rows comp_def)
  moreover have "GetNrUeTxPdu q n R = Inr (map (\<lambda>(i, n, s). NrUeTxPdu (pdu_time s) (pdu_rnti s)
      (pdu_lcid s) (column_u32 (pdu_txPdu s))) (newest_first (pdu_time \<circ> snd)
        (filter (\<lambda>(i, m, s). m = n) (rows (nruetxpdu db)))))"
    unfolding GetNrUeTxPdu_def query_registered_now [OF assms(1)] using assms(2,3)
    by (simp add: run_stmt_open)
  ultimately show ?thesis using SaveNrUeTxPdu_open [OF assms(1-3), of pdu] by blast
qed

text \<open>The aggregate query agrees with the ordered one when no node has two rows of one time that differ.\<close>

lemma bare_row_latest:
  assumes "xs \<noteq> []"
  shows "bare_row q (latest_rows xs) \<in> set xs \<and>
    (\<forall>(j, s) \<in> set xs. reg_time s \<le> reg_time (snd (bare_row q (latest_rows xs))))"
proof -
  have "Max (set (map (reg_time \<circ> snd) xs)) \<in> set (map (reg_time \<circ> snd) xs)"
    using assms by (intro Max_in) auto
  then obtain y where y: "y \<in> set xs" "reg_time (snd y) = Max (set (map (reg_time \<circ> snd) xs))" by auto
  have "reg_time s \<le> reg_time (snd y)" if "(j, s) \<in> set xs" for j s
    unfolding y(2) using that by (intro Max_ge) force+
  then have "y \<in> set (latest_rows xs)" using y(1) by (auto simp: latest_rows_def)
  then have "bare_row q (latest_rows xs) \<in> set (latest_rows xs)"
    using ok by (metis empty_iff empty_set sqlite_ok_def)
  then show ?thesis by (auto simp: latest_rows_def)
qed

lemma newest_first_head:
  assumes "newest_first time xs = (i, r) # zs"
  shows "(i, r) \<in> set xs \<and> (\<forall>(j, s) \<in> set xs. time s \<le> time r)"
proof -
  let ?f = "\<lambda>(i, r). (time r, i)"
  have ys: "sort_key ?f xs = rev zs @ [(i, r)]" using assms
    by (metis newest_first_def rev.simps(2) rev_rev_ident)
  have set: "set xs = insert (i, r) (set zs)"
    by (metis ys set_sort set_append set_rev list.simps(15) empty_set Un_insert_right sup_bot_right)
  have "sorted (map ?f (sort_key ?f xs))" by (rule sorted_sort_key)
  then have "\<forall>(j, s) \<in> set zs. (time s, j) \<le> (time r, i)" unfolding ys by (auto simp: sorted_append)
  then have "\<forall>(j, s) \<in> set zs. time s \<le> time r" by (auto simp: less_eq_prod_def)
  then show ?thesis unfolding set by auto
qed

lemma last_registration_row:
  assumes "\<forall>(i, r) \<in> set (rows (noderegistration db)). \<forall>(j, s) \<in> set (rows (noderegistration db)).
      reg_nodeid r = reg_nodeid s \<and> reg_time r = reg_time s \<longrightarrow> reg_registered r = reg_registered s"
    and "xs = filter (\<lambda>(i, r). reg_nodeid r = n) (rows (noderegistration db))" and "xs \<noteq> []"
  shows "reg_registered (snd (bare_row q (latest_rows xs))) = select_registered n db"
proof -
  from bare_row_latest [OF assms(3)] obtain j s where b: "bare_row q (latest_rows xs) = (j, s)"
    "(j, s) \<in> set xs" "\<forall>(j, r) \<in> set xs. reg_time r \<le> reg_time s" by (cases "bare_row q (latest_rows xs)") auto
  have "length (newest_first reg_time xs) = length xs" by (simp add: newest_first_def)
  then obtain i r zs where h: "newest_first reg_time xs = (i, r) # zs"
    using assms(3) by (cases "newest_first reg_time xs") auto
  from newest_first_head [OF h] b(2,3) have "(i, r) \<in> set xs" "reg_time r = reg_time s" by force+
  with b(2) assms(1) have "reg_registered r = reg_registered s" unfolding assms(2) by fastforce
  with b(1) h show ?thesis by (simp add: select_registered_def assms(2))
qed

lemma select_last_registrations_iff:
  assumes "\<forall>(i, r) \<in> set (rows (noderegistration db)). \<forall>(j, s) \<in> set (rows (noderegistration db)).
      reg_nodeid r = reg_nodeid s \<and> reg_time r = reg_time s \<longrightarrow> reg_registered r = reg_registered s"
  shows "n \<in> fst ` set (select_last_registrations q wanted db) \<longleftrightarrow> wanted n \<and> select_registered n db"
proof -
  let ?xs = "filter (\<lambda>(i, r). reg_nodeid r = n) (rows (noderegistration db))"
  have nil: "\<not> select_registered n db" if "?xs = []"
    using that by (simp add: select_registered_def newest_first_def)
  let ?ids = "map (\<lambda>(i, r). reg_nodeid r) (rows (noderegistration db))"
  have ids: "?xs \<noteq> [] \<longleftrightarrow> n \<in> set ?ids" by (force simp: filter_empty_conv)
  have "fst ` set (map (\<lambda>n. (n, g n)) (filter P (sort_key sint (remdups (filter wanted ids))))) =
      {n \<in> set ids. wanted n \<and> P n}" for g :: "u64 \<Rightarrow> Time" and P and ids :: "u64 list"
    by (auto simp: image_image)
  note grp = this
  have "n \<in> fst ` set (select_last_registrations q wanted db) \<longleftrightarrow>
      ?xs \<noteq> [] \<and> wanted n \<and> reg_registered (snd (bare_row q (latest_rows ?xs)))"
    unfolding select_last_registrations_def Let_def ids grp by blast
  then show ?thesis using last_registration_row [OF assms refl, of n] nil by blast
qed

text \<open>On an active repository every query returns.\<close>

lemma stmt_returns: "repo_inv now R \<Longrightarrow> \<exists>x. (if m_active R then run_stmt q st f R else Inr d) = Inr x"
  by (auto simp: repo_inv_def run_stmt_open split: option.splits)

lemma query_returns: "repo_inv now R \<Longrightarrow> \<exists>x. query_registered q n d (run_stmt q st f) R = Inr x"
  by (cases "registered_now R n")
    (auto simp: query_registered_now repo_inv_def run_stmt_open split: option.splits)

lemma queries_return:
  assumes "repo_inv now R"
  shows "\<exists>x. GetNrUeBufferStatus q n R = Inr x" "\<exists>x. GetNrUeTxDrop q n R = Inr x"
    "\<exists>x. GetNrUeTxPdu q n R = Inr x" "\<exists>x. GetNrUeCellInfo q n R = Inr x"
    "\<exists>x. GetNrGnbE2NodeIds q R = Inr x" "\<exists>x. GetNrUeE2NodeIds q R = Inr x"
    "\<exists>x. GetLastRegistrationRequests q R = Inr x" "\<exists>x. GetNrUeRsrpRsrq q n R = Inr x"
    "\<exists>x. GetNrGnbCellInfo q n R = Inr x" "\<exists>x. GetAppLoss q n R = Inr x"
    "\<exists>x. GetNrUeE2NodeIdFromCellInfo q c r R = Inr x"
  unfolding GetNrUeBufferStatus_def GetNrUeTxDrop_def GetNrUeTxPdu_def GetNrUeCellInfo_def
    GetNrGnbE2NodeIds_def GetNrUeE2NodeIds_def GetLastRegistrationRequests_def GetNrUeRsrpRsrq_def
    GetNrGnbCellInfo_def GetAppLoss_def GetNrUeE2NodeIdFromCellInfo_def
  by (rule query_returns [OF assms] stmt_returns [OF assms])+

end

text \<open>An engine with the documented behaviour, to run the model with.\<close>

definition sqlite_ref :: sqlite where
  "sqlite_ref = \<lparr>autoincrement = (\<lambda>n. n + 1), open_rc = (\<lambda>p. SQLITE_OK), step_rc = (\<lambda>st db. SQLITE_DONE),
     bare_row = last, scan_rsrp = (\<lambda>xs. xs)\<rparr>"

lemma sqlite_ref_ok: "sqlite_ok sqlite_ref"
  by (simp add: sqlite_ok_def sqlite_ref_def)

interpretation sqlite_ref: sqlite_engine sqlite_ref
  by unfold_locales (rule sqlite_ref_ok)

section \<open>Properties\<close>

lemma select_last_registrations_wanted:
  "n \<in> set (map fst (select_last_registrations q P db)) \<Longrightarrow> P n"
  by (auto simp: select_last_registrations_def Let_def)

text \<open>A small active repository for the witnesses: nodes 1 and 2 are registered.\<close>

definition demo_db :: db where
  "demo_db = empty_db\<lparr>node := \<lparr>seq = 2, rows = [(1, 1), (2, 2)]\<rparr>,
     noderegistration := \<lparr>seq = 2, rows = [(1, RegRow 1 True 0), (2, RegRow 2 True 5)]\<rparr>\<rparr>"

definition demo_repo :: repository where
  "demo_repo = (OranNrDataRepositorySqlite_new '':memory:'' empty_db)\<lparr>m_active := True, m_db := Some demo_db\<rparr>"

lemma demo_repo_inv: "repo_inv 10 demo_repo"
  by (simp add: repo_inv_def demo_repo_def demo_db_def table_ok_def)

lemma demo_registered: "registered_now demo_repo n \<longleftrightarrow> n = 1 \<or> n = 2"
  by (simp add: registered_now_def demo_repo_def demo_db_def select_registered_def newest_first_def)

lemma demo_repo_simps [simp]:
  "m_db demo_repo = Some demo_db" "seq (node demo_db) = 2" "autoincrement sqlite_ref n = n + 1"
  "nruetxpdu demo_db = empty_table" "table_ok empty_table" "rows empty_table = []"
  by (simp_all add: demo_repo_def demo_db_def sqlite_ref_def empty_db_def empty_table_def table_ok_def)

text \<open>Registering a node. A request with id 0 gets an id that no registered node has, a request
  with an id keeps it (ids below \<open>2 ^ 31\<close>, because the id is bound as an \<open>int\<close>), and afterwards
  exactly this node is registered in addition to those that were.\<close>

theorem register_node:
  assumes "sqlite_ok q" and "repo_inv now R"
    and "id' \<noteq> 0 \<longrightarrow> unat id' < 2 ^ 31"
    and "\<forall>db. m_db R = Some db \<longrightarrow> autoincrement q (seq (node db)) < 2 ^ 63"
  shows "\<exists>n R'. RegisterNode q now type id' R = Inr (n, R') \<and> repo_inv now R' \<and>
    (if id' = 0 then IsNodeRegistered q R n = Inr False else n = id') \<and>
    (\<forall>m. IsNodeRegistered q R' m = Inr (m = n \<or> registered_now R m))"
proof -
  note eng = sqlite_engine.intro [OF assms(1)]
  obtain db where db: "m_db R = Some db" using assms(2) by (auto simp: repo_inv_def split: option.splits)
  from sqlite_engine.RegisterNode_registers [OF eng assms(2) db assms(3), of type] assms(4) db
  obtain n R' where R': "RegisterNode q now type id' R = Inr (n, R')" "repo_inv now R'"
    "if id' = 0 then \<not> registered_now R n else n = id'"
    "\<forall>m. registered_now R' m = (m = n \<or> registered_now R m)" by auto
  then show ?thesis
    using sqlite_engine.IsNodeRegistered_now [OF eng assms(2)]
      sqlite_engine.IsNodeRegistered_now [OF eng R'(2)] by auto
qed

theorem register_node_witness:
  "\<exists>n R'. RegisterNode sqlite_ref 10 NRUE 0 demo_repo = Inr (n, R') \<and> repo_inv 10 R' \<and>
    IsNodeRegistered sqlite_ref demo_repo n = Inr False \<and>
    (\<forall>m. IsNodeRegistered sqlite_ref R' m = Inr (m = n \<or> m = 1 \<or> m = 2))"
  using register_node [OF sqlite_ref_ok demo_repo_inv, of 0 NRUE]
  by (simp add: demo_registered)

text \<open>Deregistering a node takes effect at once, and only for this node.\<close>

theorem deregister_node:
  assumes "sqlite_ok q" and "repo_inv now R"
  shows "\<exists>R'. DeregisterNode q now n R = Inr (n, R') \<and> repo_inv now R' \<and>
    (\<forall>m. IsNodeRegistered q R' m = Inr (m \<noteq> n \<and> registered_now R m))"
proof -
  note eng = sqlite_engine.intro [OF assms(1)]
  from sqlite_engine.DeregisterNode_deregisters [OF eng assms(2), of n] obtain R' where R':
    "DeregisterNode q now n R = Inr (n, R')" "repo_inv now R'"
    "\<forall>m. registered_now R' m = (m \<noteq> n \<and> registered_now R m)" by blast
  then show ?thesis using sqlite_engine.IsNodeRegistered_now [OF eng R'(2)] by auto
qed

theorem deregister_node_witness:
  "\<exists>R'. DeregisterNode sqlite_ref 10 2 demo_repo = Inr (2, R') \<and> repo_inv 10 R' \<and>
    (\<forall>m. IsNodeRegistered sqlite_ref R' m = Inr (m \<noteq> 2 \<and> (m = 1 \<or> m = 2)))"
  using deregister_node [OF sqlite_ref_ok demo_repo_inv, of 2] by (simp add: demo_registered)

text \<open>Reports of a node that is not registered leave no trace: each of the eight operations that
  save a report returns the repository as it was.\<close>

theorem unregistered_reports_dropped:
  assumes "sqlite_ok q" and "repo_inv now R" and "\<not> registered_now R n"
  shows "SavePosition q n pos t R = Inr R \<and> SaveNrUeCellInfo q n cellId rnti t R = Inr R \<and>
    SaveNrUeBufferStatus q n status R = Inr R \<and> SaveNrUeCqi q n cqi R = Inr R \<and>
    SaveNrUeTxPdu q n pdu R = Inr R \<and> SaveNrUeTxDrop q n drop' R = Inr R \<and>
    SaveAppLoss q n loss t R = Inr R \<and>
    SaveNrUeRsrpRsrq q n t rnti cellId rsrp rsrq serving ccid R = Inr R"
  using sqlite_engine.if_registered_now [OF sqlite_engine.intro [OF assms(1)] assms(2)] assms(3)
  by (simp add: SavePosition_def SaveNrUeCellInfo_def SaveNrUeBufferStatus_def SaveNrUeCqi_def
      SaveNrUeTxPdu_def SaveNrUeTxDrop_def SaveAppLoss_def SaveNrUeRsrpRsrq_def)

theorem unregistered_reports_dropped_witness:
  "SavePosition sqlite_ref 7 (1, 2, 3) 9 demo_repo = Inr demo_repo \<and>
    SaveNrUeCqi sqlite_ref 7 (NrUeCqi 9 1 15 28 1) demo_repo = Inr demo_repo"
  using unregistered_reports_dropped [OF sqlite_ref_ok demo_repo_inv, of 7 "(1, 2, 3)" 9 0 0 undefined
      "NrUeCqi 9 1 15 28 1"]
  by (simp add: demo_registered)

text \<open>The samples in memory are a sliding window. After saving the samples \<open>pdus\<close> of a registered
  node, the repository holds the last 1000 of all samples ever saved for it, in their order.\<close>

theorem sample_window:
  assumes "sqlite_ok q" and "repo_inv now R" and "registered_now R n" and "m_txPduSamples R n = Some []"
  shows "\<exists>R'. for_each (\<lambda>R pdu. SaveNrUeTxPdu q n pdu R) pdus R = Inr R' \<and>
    m_txPduSamples R' n = Some (drop (length pdus - 1000) pdus)"
  using sqlite_engine.SaveNrUeTxPdu_sequence [OF sqlite_engine.intro [OF assms(1)] assms(2,3), of "[]" pdus]
    assms(4) by auto

theorem sample_window_witness:
  "\<exists>R'. for_each (\<lambda>R pdu. SaveNrUeTxPdu sqlite_ref 1 pdu R) (map (\<lambda>k. NrUeTxPdu 9 1 3 (of_nat k)) [0..<1500])
      (demo_repo\<lparr>m_txPduSamples := [1 \<mapsto> []]\<rparr>) = Inr R' \<and>
    m_txPduSamples R' 1 = Some (map (\<lambda>k. NrUeTxPdu 9 1 3 (of_nat k)) [500..<1500])"
proof -
  have "repo_inv 10 (demo_repo\<lparr>m_txPduSamples := [1 \<mapsto> []]\<rparr>)"
    using demo_repo_inv by simp
  moreover have "registered_now (demo_repo\<lparr>m_txPduSamples := [1 \<mapsto> []]\<rparr>) 1"
    by (simp add: demo_registered)
  ultimately show ?thesis
    using sample_window [OF sqlite_ref_ok, of 10 "demo_repo\<lparr>m_txPduSamples := [1 \<mapsto> []]\<rparr>" 1
        "map (\<lambda>k. NrUeTxPdu 9 1 3 (of_nat k)) [0..<1500]"]
    by (simp add: drop_map drop_upt)
qed

text \<open>Saving and reading transmitted PDU counts. A query returns the saved sample first and then
  what it returned before, but the byte count comes back modulo \<open>2 ^ 32\<close>: the round trip is exact
  for counts below \<open>2 ^ 32\<close> and loses the upper half of larger ones.\<close>

theorem txpdu_roundtrip:
  assumes "sqlite_ok q" and "repo_inv now R" and "m_db R = Some db" and "registered_now R n"
    and "table_ok (nruetxpdu db)" and "\<forall>(i, m, s) \<in> set (rows (nruetxpdu db)). pdu_time s \<le> t"
  shows "\<exists>R' old. SaveNrUeTxPdu q n (NrUeTxPdu t rnti lcid bytes) R = Inr R' \<and>
    GetNrUeTxPdu q n R = Inr old \<and>
    GetNrUeTxPdu q n R' = Inr (NrUeTxPdu t rnti lcid (bytes mod 2 ^ 32) # old)"
proof -
  have "column_u32 bytes = take_bit 32 bytes"
    unfolding column_u32_def by (rule bit_word_eqI) (auto simp: bit_simps)
  then have "column_u32 bytes = bytes mod 2 ^ 32" by (simp only: take_bit_eq_mod)
  then show ?thesis
    using sqlite_engine.SaveNrUeTxPdu_Get [OF sqlite_engine.intro [OF assms(1)] assms(2-5),
        of "NrUeTxPdu t rnti lcid bytes"] assms(6) by simp
qed

theorem txpdu_roundtrip_witness:
  "\<exists>R' old. SaveNrUeTxPdu sqlite_ref 1 (NrUeTxPdu 9 1 3 4294967300) demo_repo = Inr R' \<and>
    GetNrUeTxPdu sqlite_ref 1 demo_repo = Inr old \<and>
    GetNrUeTxPdu sqlite_ref 1 R' = Inr (NrUeTxPdu 9 1 3 4 # old)"
  using txpdu_roundtrip [OF sqlite_ref_ok demo_repo_inv, of demo_db 1 9 1 3 4294967300]
  by (simp add: demo_registered)

text \<open>The list of last registration requests, from which the RIC decides which nodes are inactive,
  names exactly the registered nodes, provided that no node registers and deregisters at one
  and the same time step (the aggregate query may then read the row of either).\<close>

theorem last_requests_are_registered:
  assumes "sqlite_ok q" and "repo_inv now R" and "m_db R = Some db"
    and "\<forall>(i, r) \<in> set (rows (noderegistration db)). \<forall>(j, s) \<in> set (rows (noderegistration db)).
      reg_nodeid r = reg_nodeid s \<and> reg_time r = reg_time s \<longrightarrow> reg_registered r = reg_registered s"
  shows "\<exists>reqs. GetLastRegistrationRequests q R = Inr reqs \<and>
    (\<forall>n. n \<in> fst ` set reqs \<longleftrightarrow> IsNodeRegistered q R n = Inr True)"
proof -
  note eng = sqlite_engine.intro [OF assms(1)]
  have "m_active R" using assms(2) by (simp add: repo_inv_def)
  then have "GetLastRegistrationRequests q R = Inr (select_last_registrations q (\<lambda>n. True) db)"
    by (simp add: GetLastRegistrationRequests_def sqlite_engine.run_stmt_open [OF eng assms(3)])
  then show ?thesis
    using sqlite_engine.select_last_registrations_iff [OF eng assms(4)]
      sqlite_engine.IsNodeRegistered_now [OF eng assms(2)] \<open>m_active R\<close>
    by (simp add: registered_now_def assms(3))
qed

theorem last_requests_are_registered_witness:
  "\<exists>reqs. GetLastRegistrationRequests sqlite_ref demo_repo = Inr reqs \<and>
    (\<forall>n. n \<in> fst ` set reqs \<longleftrightarrow> IsNodeRegistered sqlite_ref demo_repo n = Inr True)"
  by (rule last_requests_are_registered [OF sqlite_ref_ok demo_repo_inv, of demo_db])
    (simp_all add: demo_db_def)

text \<open>The first registration of a UE stores its row under node id 0. The UE is registered, but the
  list of UE node ids that the Logic Modules iterate over does not contain it.\<close>

theorem first_ue_registration_not_listed:
  assumes "sqlite_ok q" and "repo_inv now R" and "m_db R = Some db"
    and "autoincrement q (seq (node db)) < 2 ^ 63"
    and "\<forall>n \<in> fst ` set (nrue db). sint n \<le> seq (node db)"
  shows "\<exists>n R' ids. RegisterNodeNrUe q now 0 imsi R = Inr (n, R') \<and> IsNodeRegistered q R' n = Inr True \<and>
    GetNrUeE2NodeIds q R' = Inr ids \<and> n \<notin> set ids"
proof -
  note eng = sqlite_engine.intro [OF assms(1)]
  let ?i = "autoincrement q (seq (node db))"
  let ?n = "word_of_int ?i :: u64"
  let ?db = "insert_registration q ?n True now (db\<lparr>node := insert_auto q 1 (node db)\<rparr>)"
  have act: "m_active R" and seq: "0 \<le> seq (node db)" "seq (node db) < ?i"
    using assms(2,3) sqlite_engine.autoincrement_larger [OF eng] by (auto simp: repo_inv_def)
  have reg: "RegisterNode q now NRUE 0 R = Inr (?n, R\<lparr>m_db := Some ?db\<rparr>)"
    by (simp add: RegisterNode_def act insert_node_def sqlite_engine.exec_stmt_open [OF eng] assms(3) Let_def)
  let ?R = "R\<lparr>m_db := Some (replace_nrue 0 imsi ?db)\<rparr>"
  have ue: "RegisterNodeNrUe q now 0 imsi R = Inr (?n, ?R)"
    by (simp add: RegisterNodeNrUe_def act reg sqlite_engine.exec_stmt_open [OF eng])
  have si: "sint ?n = ?i" using assms(4) seq by (intro sint_u64) auto
  have "sint n \<le> seq (node db)" if "n \<in> fst ` set (nrue (replace_nrue 0 imsi ?db))" for n
    using that assms(5) seq(1) by (auto simp: replace_nrue_def insert_registration_def)
  then have "?n \<notin> fst ` set (nrue (replace_nrue 0 imsi ?db))" using si seq(2) by fastforce
  then have "?n \<notin> set (map fst (select_last_registrations q
      (\<lambda>n. n \<in> fst ` set (nrue (replace_nrue 0 imsi ?db))) (replace_nrue 0 imsi ?db)))"
    by (rule contrapos_nn) (erule select_last_registrations_wanted)
  moreover have "GetNrUeE2NodeIds q ?R = Inr (map fst (select_last_registrations q
      (\<lambda>n. n \<in> fst ` set (nrue (replace_nrue 0 imsi ?db))) (replace_nrue 0 imsi ?db)))"
    by (simp add: GetNrUeE2NodeIds_def act sqlite_engine.run_stmt_open [OF eng])
  moreover have "IsNodeRegistered q ?R ?n = Inr True"
  proof -
    from sqlite_engine.RegisterNode_registers [OF eng assms(2,3), of 0 NRUE] assms(4) reg
    have "repo_inv now (R\<lparr>m_db := Some ?db\<rparr>)" "registered_now (R\<lparr>m_db := Some ?db\<rparr>) ?n" by auto
    then have "select_registered ?n ?db" by (simp add: registered_now_def)
    then show ?thesis using act
      by (simp add: IsNodeRegistered_def sqlite_engine.run_stmt_open [OF eng] replace_nrue_def
          select_registered_def)
  qed
  ultimately show ?thesis using ue by blast
qed

theorem first_ue_registration_not_listed_witness:
  "\<exists>n R' ids. RegisterNodeNrUe sqlite_ref 10 0 777 demo_repo = Inr (n, R') \<and>
    IsNodeRegistered sqlite_ref R' n = Inr True \<and> GetNrUeE2NodeIds sqlite_ref R' = Inr ids \<and> n \<notin> set ids"
  by (rule first_ue_registration_not_listed [OF sqlite_ref_ok demo_repo_inv, of demo_db])
    (simp_all add: demo_db_def empty_db_def sqlite_ref_def)

text \<open>A UE that registers again, with the id that the first registration returned, is listed from
  then on.\<close>

theorem reregistered_ue_listed:
  assumes "sqlite_ok q" and "repo_inv now R" and "m_db R = Some db" and "n \<noteq> 0" and "unat n < 2 ^ 31"
    and "\<forall>(i, r) \<in> set (rows (noderegistration db)). reg_nodeid r = n \<longrightarrow> reg_time r < now"
  shows "\<exists>R' ids. RegisterNodeNrUe q now n imsi R = Inr (n, R') \<and> GetNrUeE2NodeIds q R' = Inr ids \<and> n \<in> set ids"
proof -
  note eng = sqlite_engine.intro [OF assms(1)]
  have act: "m_active R" using assms(2) by (simp add: repo_inv_def)
  from sqlite_engine.RegisterNode_registers [OF eng assms(2,3), of n NRUE] assms(4,5)
  have n: "\<exists>R'. RegisterNode q now NRUE n R = Inr (n, R')" by auto
  define db1 where "db1 = db\<lparr>node := replace_row (bind_int n) 1 (node db)\<rparr>"
  define db2 where "db2 = replace_nrue n imsi (insert_registration q n True now db1)"
  have nb: "word_of_int (bind_int n) = n"
    using n by (auto simp: RegisterNode_def act insert_node_def assms(4) Let_def res_simps)
  have ue: "RegisterNodeNrUe q now n imsi R = Inr (n, R\<lparr>m_db := Some db2\<rparr>)"
    by (simp add: RegisterNodeNrUe_def RegisterNode_def act insert_node_def assms(3,4) nb Let_def
        sqlite_engine.exec_stmt_open [OF eng] db1_def db2_def)
  let ?old = "filter (\<lambda>(i, r). reg_nodeid r = n) (rows (noderegistration db))"
  let ?i = "autoincrement q (seq (noderegistration db))"
  have rows: "filter (\<lambda>(i, r). reg_nodeid r = n) (rows (noderegistration db2)) = ?old @ [(?i, RegRow n True now)]"
    by (simp add: db2_def db1_def replace_nrue_def insert_registration_def insert_auto_rows)
  from sqlite_engine.bare_row_latest [OF eng, of "?old @ [(?i, RegRow n True now)]"]
  have "reg_registered (snd (bare_row q (latest_rows (?old @ [(?i, RegRow n True now)]))))"
    using assms(6) by fastforce
  moreover have "n \<in> fst ` set (nrue db2)" by (simp add: db2_def replace_nrue_def)
  moreover have "n \<in> (\<lambda>(i, r). reg_nodeid r) ` set (rows (noderegistration db2))"
    by (force simp: db2_def db1_def replace_nrue_def insert_registration_def insert_auto_rows)
  ultimately have "n \<in> set (map fst (select_last_registrations q (\<lambda>n. n \<in> fst ` set (nrue db2)) db2))"
    unfolding select_last_registrations_def Let_def using rows by (force simp: image_image)
  then show ?thesis using ue act
    by (auto simp: GetNrUeE2NodeIds_def sqlite_engine.run_stmt_open [OF eng])
qed

theorem reregistered_ue_listed_witness:
  "\<exists>R' ids. RegisterNodeNrUe sqlite_ref 10 1 777 demo_repo = Inr (1, R') \<and>
    GetNrUeE2NodeIds sqlite_ref R' = Inr ids \<and> 1 \<in> set ids"
  by (rule reregistered_ue_listed [OF sqlite_ref_ok demo_repo_inv, of demo_db])
    (simp_all add: demo_db_def)

text \<open>The measurements that a handover decision sees are those of the latest time only: the query
  returns exactly the RSRP/RSRQ rows of the node whose time is the largest among its rows.\<close>

theorem rsrp_latest_only:
  assumes "sqlite_ok q" and "repo_inv now R" and "m_db R = Some db" and "registered_now R n"
  shows "\<exists>res. GetNrUeRsrpRsrq q n R = Inr res \<and>
    mset res = image_mset (\<lambda>(i, r). (rsrp_rnti r, rsrp_cellid r, rsrp_rsrp r, rsrp_rsrq r, rsrp_serving r, rsrp_ccid r))
      (filter_mset (\<lambda>(i, r). rsrp_nodeid r = n \<and>
          (\<forall>(j, s) \<in> set (rows (nruersrprsrq db)). rsrp_nodeid s = n \<longrightarrow> rsrp_time s \<le> rsrp_time r))
        (mset (rows (nruersrprsrq db))))"
proof -
  note eng = sqlite_engine.intro [OF assms(1)]
  let ?own = "filter (\<lambda>(i, r). rsrp_nodeid r = n) (rows (nruersrprsrq db))"
  let ?ts = "map (\<lambda>(i, r). rsrp_time r) ?own"
  have newest: "t \<in> set (take 1 (rev (sort ts))) \<longleftrightarrow> t \<in> set ts \<and> (\<forall>u \<in> set ts. u \<le> t)" for t and ts :: "Time list"
  proof (cases "sort ts" rule: rev_cases)
    case (snoc ys y)
    have "set ts = insert y (set ys)" using snoc by (metis set_sort set_append list.simps(15) empty_set Un_insert_right sup_bot_right)
    moreover have "\<forall>u \<in> set ys. u \<le> y" using snoc sorted_sort [of ts] by (simp add: sorted_append)
    ultimately show ?thesis using snoc by force
  next
    case Nil
    then have "ts = []" by (metis length_0_conv length_sort)
    then show ?thesis by simp
  qed
  have sel: "filter (\<lambda>(i, r). rsrp_time r \<in> set (take 1 (rev (sort ?ts)))) ?own =
      filter (\<lambda>(i, r). rsrp_nodeid r = n \<and>
        (\<forall>(j, s) \<in> set (rows (nruersrprsrq db)). rsrp_nodeid s = n \<longrightarrow> rsrp_time s \<le> rsrp_time r))
        (rows (nruersrprsrq db))"
    unfolding newest filter_filter by (intro filter_cong refl) force
  have "mset (select_rsrp_rsrq q n db) = mset (filter (\<lambda>(i, r). rsrp_time r \<in> set (take 1 (rev (sort ?ts)))) ?own)"
    using assms(1) by (simp add: select_rsrp_rsrq_def Let_def sqlite_ok_def)
  then show ?thesis unfolding sel
    by (simp add: GetNrUeRsrpRsrq_def sqlite_engine.query_registered_now [OF eng assms(2)] assms(4)
        sqlite_engine.run_stmt_open [OF eng assms(3)] mset_filter mset_map)
qed

definition demo_rsrp_repo :: repository where
  "demo_rsrp_repo = demo_repo\<lparr>m_db := Some (demo_db\<lparr>nruersrprsrq := \<lparr>seq = 3, rows =
     [(1, RsrpRow 1 4 9 1 (- 90) (- 5) True 0), (2, RsrpRow 1 8 9 1 (- 95) (- 6) True 0),
      (3, RsrpRow 1 8 9 2 (- 80) (- 4) False 0)]\<rparr>\<rparr>)\<rparr>"

theorem rsrp_latest_only_witness:
  "\<exists>res. GetNrUeRsrpRsrq sqlite_ref 1 demo_rsrp_repo = Inr res \<and>
    mset res = {#(9, 1, - 95, - 6, True, 0), (9, 2, - 80, - 4, False, 0)#}"
proof -
  have "repo_inv 10 demo_rsrp_repo" "registered_now demo_rsrp_repo 1"
    using demo_repo_inv demo_registered [of 1]
    by (simp_all add: demo_rsrp_repo_def repo_inv_def registered_now_def select_registered_def)
  from rsrp_latest_only [OF sqlite_ref_ok this(1) _ this(2)] show ?thesis
    by (simp add: demo_rsrp_repo_def)
qed

lemma positions_fold:
  assumes "smap_ok m"
  shows "smap_ok (fold (\<lambda>(i, r) m. smap_put (loc_time r) (loc_pos r) m) rs m) \<and>
    fst ` set (fold (\<lambda>(i, r) m. smap_put (loc_time r) (loc_pos r) m) rs m) =
      fst ` set m \<union> (\<lambda>(i, r). loc_time r) ` set rs"
  using assms by (induction rs arbitrary: m) (auto simp: split_beta)

text \<open>A node's position history. The query returns only positions of the requested time window,
  at most \<open>maxEntries\<close> of them, ordered by time, and the newest one of the window is among them.\<close>

theorem positions_window:
  assumes "sqlite_ok q" and "repo_inv now R" and "m_db R = Some db" and "registered_now R n"
    and "0 < sint maxEntries"
  shows "\<exists>m. GetNodePositions q n fromTime toTime maxEntries R = Inr m \<and>
    sorted_wrt (<) (map fst m) \<and> length m \<le> unat maxEntries \<and> (\<forall>t \<in> fst ` set m. fromTime \<le> t \<and> t \<le> toTime) \<and>
    (\<forall>(i, r) \<in> set (rows (nodelocation db)). loc_nodeid r = n \<and> fromTime \<le> loc_time r \<and> loc_time r \<le> toTime \<longrightarrow>
       (\<exists>t \<in> fst ` set m. loc_time r \<le> t))"
proof -
  note eng = sqlite_engine.intro [OF assms(1)]
  let ?in = "filter (\<lambda>(i, r). loc_nodeid r = n \<and> fromTime \<le> loc_time r \<and> loc_time r \<le> toTime)
    (rows (nodelocation db))"
  let ?rs = "take (nat (sint maxEntries)) (newest_first loc_time ?in)"
  let ?m = "fold (\<lambda>(i, r) m. smap_put (loc_time r) (loc_pos r) m) ?rs []"
  have get: "GetNodePositions q n fromTime toTime maxEntries R = Inr ?m"
    using assms(5) by (simp add: GetNodePositions_def sqlite_engine.query_registered_now [OF eng assms(2)]
        assms(4) sqlite_engine.run_stmt_open [OF eng assms(3)] select_positions_def sql_limit_def)
  from positions_fold [of "[]" ?rs] have m: "sorted_wrt (<) (map fst ?m)"
    "fst ` set ?m = (\<lambda>(i, r). loc_time r) ` set ?rs" by (simp_all add: smap_ok_def)
  have sub: "set ?rs \<subseteq> set ?in" by (auto simp: newest_first_def dest: in_set_takeD)
  have "length ?m = card (fst ` set ?m)" using m(1) by (rule length_sorted_keys)
  also have "\<dots> \<le> length ?rs" unfolding m(2)
    by (rule le_trans [OF card_image_le [OF finite_set] card_length])
  also have "\<dots> \<le> nat (sint maxEntries)" by simp
  also have "\<dots> \<le> unat maxEntries" by (rule nat_sint_le)
  finally have len: "length ?m \<le> unat maxEntries" .
  have newest: "\<exists>t \<in> fst ` set ?m. loc_time r \<le> t" if "(i, r) \<in> set ?in" for i r
  proof -
    from newest_first_Cons [OF that, of loc_time] obtain j s zs where
      h: "newest_first loc_time ?in = (j, s) # zs" by blast
    have "(j, s) \<in> set ?rs" using assms(5) by (cases "nat (sint maxEntries)") (auto simp: h)
    moreover have "loc_time r \<le> loc_time s" using sqlite_ref.newest_first_head [OF h] that by blast
    ultimately show ?thesis unfolding m(2) by force
  qed
  then have new: "\<forall>(i, r) \<in> set (rows (nodelocation db)). loc_nodeid r = n \<and> fromTime \<le> loc_time r \<and>
      loc_time r \<le> toTime \<longrightarrow> (\<exists>t \<in> fst ` set ?m. loc_time r \<le> t)" unfolding m(2) by auto
  have window: "\<forall>t \<in> fst ` set ?m. fromTime \<le> t \<and> t \<le> toTime"
    using sub unfolding m(2) by auto
  show ?thesis by (intro exI [of _ ?m] conjI; fact)
qed

definition demo_pos_repo :: repository where
  "demo_pos_repo = demo_repo\<lparr>m_db := Some (demo_db\<lparr>nodelocation := \<lparr>seq = 2, rows =
     [(1, LocRow 1 (0, 0, 0) 4), (2, LocRow 1 (1, 0, 0) 8)]\<rparr>\<rparr>)\<rparr>"

theorem positions_window_witness:
  "\<exists>m. GetNodePositions sqlite_ref 1 0 9 1 demo_pos_repo = Inr m \<and> length m \<le> 1 \<and> (\<exists>t \<in> fst ` set m. 8 \<le> t)"
proof -
  have "repo_inv 10 demo_pos_repo" "registered_now demo_pos_repo 1"
    using demo_repo_inv demo_registered [of 1]
    by (simp_all add: demo_pos_repo_def repo_inv_def registered_now_def select_registered_def)
  from positions_window [OF sqlite_ref_ok this(1) _ this(2), of _ 1 0 9] show ?thesis
    by (fastforce simp: demo_pos_repo_def)
qed

text \<open>Deactivating and activating the repository again keeps what a file holds; a database in
  memory, or a temporary one, starts empty again. A path with a colon is refused.\<close>

theorem reactivate_repository:
  assumes "sqlite_ok q" and "m_db R = Some db"
  shows "Repository_Activate q (Repository_Deactivate R) =
    (if m_dbPath R \<noteq> '':memory:'' \<and> CHR '':'' \<in> set (m_dbPath R)
     then Inl (NS_ABORT ''URI-named DBs are not supported'')
     else Inr (if transient (m_dbPath R) then R\<lparr>m_active := True, m_db := Some empty_db\<rparr>
               else R\<lparr>m_active := True, db_file := db\<rparr>))"
  using assms by (simp add: Repository_Activate_def Repository_Deactivate_def IsDbOpen_def CloseDb_def
      OpenDb_def abort_if_def sqlite_ok_def SQLITE_OK_def Let_def transient_def)

theorem reactivate_repository_witness:
  "Repository_Activate sqlite_ref (Repository_Deactivate demo_repo) = Inr (demo_repo\<lparr>m_db := Some empty_db\<rparr>)"
  using reactivate_repository [OF sqlite_ref_ok, of demo_repo demo_db]
  by (simp add: demo_repo_def transient_def OranNrDataRepositorySqlite_new_def)

end
