(* ===== verification/OranLmRl.thy ===== *)
theory OranLmRl
  imports OranRepository
begin

text \<open>
  The reinforcement learning Logic Modules (\<open>oran-lm-nr-rl-qlearn.cc\<close> and
  \<open>oran-lm-nr-rl-dqn.cc\<close>, which differ in their names only): the observation they send to the agent
  and the uplink RBG targets they derive from its answer. The agent behind gRPC and the iteration
  order of \<open>unordered_map\<close> are parameters. \<open>double\<close> is \<^typ>\<open>real\<close>; the properties of the target
  loops hold for every rounding, because they only use that each rounded target is an integer of
  32 bits.
\<close>

section \<open>State\<close>

text \<open>
  A map that the code reads with \<open>operator[]\<close> is a total function with default 0; the maps that it
  tests with \<open>count\<close> are partial functions. \<open>ttiCounter\<close> is the static counter of \<open>Run\<close>.
\<close>

record rl_lm =
  m_N :: u32
  m_bufferCounter :: "u64 \<Rightarrow> u32"
  m_txDropCounter :: "u64 \<Rightarrow> u32"
  m_txPduCounter :: "u64 \<Rightarrow> u32"
  m_lastBufferValue :: "u64 \<Rightarrow> u64"
  m_lastTxDropValue :: "u64 \<Rightarrow> u64"
  m_lastTxPduValue :: "u64 \<Rightarrow> u64"
  m_lastBufferTime :: "u64 \<rightharpoonup> Time"
  m_lastTxDropTime :: "u64 \<rightharpoonup> Time"
  m_lastTxPduTime :: "u64 \<rightharpoonup> Time"
  ttiCounter :: u64

definition rl_lm_new :: rl_lm where
  "rl_lm_new = \<lparr>m_N = 1, m_bufferCounter = (\<lambda>u. 0), m_txDropCounter = (\<lambda>u. 0),
     m_txPduCounter = (\<lambda>u. 0), m_lastBufferValue = (\<lambda>u. 0), m_lastTxDropValue = (\<lambda>u. 0),
     m_lastTxPduValue = (\<lambda>u. 0), m_lastBufferTime = Map.empty, m_lastTxDropTime = Map.empty,
     m_lastTxPduTime = Map.empty, ttiCounter = 0\<rparr>"

section \<open>Metrics\<close>

text \<open>The loop over the samples: sum, number and newest time of those after \<open>lastTime\<close>.\<close>

fun scan_samples :: "Time \<Rightarrow> (Time \<times> u64) list \<Rightarrow> u64 \<times> u64 \<times> Time \<Rightarrow> u64 \<times> u64 \<times> Time" where
  "scan_samples lastTime [] acc = acc"
| "scan_samples lastTime ((t, v) # xs) (sm, cnt, newestTime) =
     scan_samples lastTime xs
       (if t > lastTime then (sm + v, cnt + 1, if t > newestTime then t else newestTime)
        else (sm, cnt, newestTime))"

definition GetBufferSize :: "sqlite \<Rightarrow> repository \<Rightarrow> u64 \<Rightarrow> u8 \<Rightarrow> rl_lm \<Rightarrow> (u64 \<times> rl_lm) res" where
  "GetBufferSize q data ueId lcid L =
     (let L = L\<lparr>m_bufferCounter := (m_bufferCounter L)(ueId := m_bufferCounter L ueId + 1)\<rparr>
      in if m_bufferCounter L ueId < m_N L then Inr (m_lastBufferValue L ueId, L)
         else let L = L\<lparr>m_bufferCounter := (m_bufferCounter L)(ueId := 0)\<rparr>
           in res_bind (GetNrUeBufferStatus q ueId data) (\<lambda>samples.
             if samples = [] then Inr (0, L)
             else
               let lastTime = (case m_lastBufferTime L ueId of None \<Rightarrow> 0 | Some t \<Rightarrow> t);
                   (sm, cnt, newestTime) = scan_samples lastTime
                     (map (\<lambda>s. (bs_time s, ucast (bs_txQueueSize s))) samples) (0, 0, lastTime);
                   avg = (if cnt = 0 then 0 else sm div cnt)
               in Inr (avg, L\<lparr>m_lastBufferTime := (m_lastBufferTime L)(ueId \<mapsto> newestTime),
                    m_lastBufferValue := (m_lastBufferValue L)(ueId := avg)\<rparr>)))"

definition GetTxDrop :: "sqlite \<Rightarrow> repository \<Rightarrow> u64 \<Rightarrow> u8 \<Rightarrow> rl_lm \<Rightarrow> (u64 \<times> rl_lm) res" where
  "GetTxDrop q data ueId lcid L =
     (let L = L\<lparr>m_txDropCounter := (m_txDropCounter L)(ueId := m_txDropCounter L ueId + 1)\<rparr>
      in if m_txDropCounter L ueId < m_N L then Inr (m_lastTxDropValue L ueId, L)
         else let L = L\<lparr>m_txDropCounter := (m_txDropCounter L)(ueId := 0)\<rparr>
           in res_bind (GetNrUeTxDrop q ueId data) (\<lambda>samples.
             if samples = [] then Inr (0, L)
             else
               let lastTime = (case m_lastTxDropTime L ueId of None \<Rightarrow> 0 | Some t \<Rightarrow> t);
                   (sm, cnt, newestTime) = scan_samples lastTime
                     (map (\<lambda>s. (drop_time s, drop_txDrop s)) samples) (0, 0, lastTime);
                   avg = (if cnt = 0 then 0 else sm div cnt)
               in Inr (avg, L\<lparr>m_lastTxDropTime := (m_lastTxDropTime L)(ueId \<mapsto> newestTime),
                    m_lastTxDropValue := (m_lastTxDropValue L)(ueId := avg)\<rparr>)))"

definition GetTxPdu :: "sqlite \<Rightarrow> repository \<Rightarrow> u64 \<Rightarrow> u8 \<Rightarrow> rl_lm \<Rightarrow> (u64 \<times> rl_lm) res" where
  "GetTxPdu q data ueId lcid L =
     (let L = L\<lparr>m_txPduCounter := (m_txPduCounter L)(ueId := m_txPduCounter L ueId + 1)\<rparr>
      in if m_txPduCounter L ueId < m_N L then Inr (m_lastTxPduValue L ueId, L)
         else let L = L\<lparr>m_txPduCounter := (m_txPduCounter L)(ueId := 0)\<rparr>
           in res_bind (GetNrUeTxPdu q ueId data) (\<lambda>samples.
             if samples = [] then Inr (0, L)
             else
               let lastTime = (case m_lastTxPduTime L ueId of None \<Rightarrow> 0 | Some t \<Rightarrow> t);
                   (sm, cnt, newestTime) = scan_samples lastTime
                     (map (\<lambda>s. (pdu_time s, pdu_txPdu s)) samples) (0, 0, lastTime);
                   avg = (if cnt = 0 then 0 else sm div cnt)
               in Inr (avg, L\<lparr>m_lastTxPduTime := (m_lastTxPduTime L)(ueId \<mapsto> newestTime),
                    m_lastTxPduValue := (m_lastTxPduValue L)(ueId := avg)\<rparr>)))"

section \<open>Targets\<close>

definition B_FIXED :: u32 where "B_FIXED = 533"

text \<open>\<open>std::llround\<close>: to the nearest integer, halves away from zero.\<close>

definition llround :: "real \<Rightarrow> int" where
  "llround x = (if 0 \<le> x then \<lfloor>x + 1 / 2\<rfloor> else - \<lfloor>- x + 1 / 2\<rfloor>)"

text \<open>The shares of the answer: negative ones count as 0, then they are scaled to sum 1.\<close>

definition read_shares :: "(u32 \<times> real) list \<Rightarrow> (u16 \<times> real) list" where
  "read_shares shares = map (\<lambda>(rnti, share). (ucast rnti, max 0 share)) shares"

definition normalise :: "(u16 \<times> real) list \<Rightarrow> (u16 \<times> real) list" where
  "normalise items =
     (let sumShare = sum_list (map snd items)
      in if sumShare \<le> 0 then map (\<lambda>(r, s). (r, 1 / real (length items))) items
         else map (\<lambda>(r, s). (r, s / sumShare)) items)"

definition round_target :: "real \<Rightarrow> u32" where
  "round_target share =
     (let t = (word_of_int (llround (share * 533)) :: u32) in if t < 1 then 1 else t)"

text \<open>The first loop: the map of targets and the running sum.\<close>

fun assign_targets :: "(u16 \<times> u32) list \<Rightarrow> (u16 \<times> u32) list \<times> u32 \<Rightarrow> (u16 \<times> u32) list \<times> u32" where
  "assign_targets [] acc = acc"
| "assign_targets ((rnti, t) # its) (ulTargets, sumT) =
     assign_targets its (AList.update rnti t ulTargets, sumT + t)"

text \<open>The largest target above 1, the first one in iteration order among equals.\<close>

fun best_target :: "(u16 \<times> u32) list \<Rightarrow> (u16 \<times> u32) option \<Rightarrow> (u16 \<times> u32) option" where
  "best_target [] best = best"
| "best_target ((r, t) # m) best =
     best_target m (if t > 1 \<and> (case best of None \<Rightarrow> True | Some (r', t') \<Rightarrow> t > t') then Some (r, t) else best)"

definition set_target :: "u16 \<Rightarrow> u32 \<Rightarrow> (u16 \<times> u32) list \<Rightarrow> (u16 \<times> u32) list" where
  "set_target rnti t m = map (\<lambda>(r, v). if r = rnti then (r, t) else (r, v)) m"

function reduce_loop :: "(u16 \<times> u32) list \<Rightarrow> u32 \<Rightarrow> (u16 \<times> u32) list \<times> u32" where
  "reduce_loop ulTargets sumT =
     (if sumT > B_FIXED
      then (case best_target ulTargets None of
              None \<Rightarrow> (ulTargets, sumT)
            | Some (r, t) \<Rightarrow> reduce_loop (set_target r (t - 1) ulTargets) (sumT - 1))
      else (ulTargets, sumT))"
  by auto

lemma unat_minus_one_less: "B_FIXED < s \<Longrightarrow> unat (s - 1) = unat s - 1 \<and> 0 < unat s"
proof -
  assume "B_FIXED < s"
  then have "533 < unat s" by (simp add: B_FIXED_def word_less_nat_alt)
  moreover have "unat (s - 1) = unat s - 1" using calculation
    by (intro unat_minus_one) auto
  ultimately show ?thesis by simp
qed

termination reduce_loop
  by (relation "measure (\<lambda>(m, s). unat s)") (auto dest!: unat_minus_one_less)

declare reduce_loop.simps [simp del]

text \<open>The item with the largest share, the first one among equals.\<close>

fun best_share :: "(u16 \<times> real) list \<Rightarrow> u16 \<times> real \<Rightarrow> u16" where
  "best_share [] best = fst best"
| "best_share ((r, s) # its) best = best_share its (if s > snd best then (r, s) else best)"

text \<open>\<open>ulTargets[bestRnti] += 1\<close>, where a missing entry counts as 0.\<close>

definition add_target :: "u16 \<Rightarrow> (u16 \<times> u32) list \<Rightarrow> (u16 \<times> u32) list" where
  "add_target rnti m =
     AList.update rnti ((case map_of m rnti of None \<Rightarrow> 0 | Some t \<Rightarrow> t) + 1) m"

function fill_loop :: "(u16 \<times> real) list \<Rightarrow> (u16 \<times> u32) list \<Rightarrow> u32 \<Rightarrow> (u16 \<times> u32) list \<times> u32" where
  "fill_loop items ulTargets sumT =
     (if sumT < B_FIXED
      then fill_loop items (add_target (best_share items (hd items)) ulTargets) (sumT + 1)
      else (ulTargets, sumT))"
  by auto

lemma unat_plus_one_fill: "s < B_FIXED \<Longrightarrow> unat (s + 1) = unat s + 1 \<and> unat s < 533"
proof -
  assume "s < B_FIXED"
  then have "unat s < 533" by (simp add: B_FIXED_def word_less_nat_alt)
  then show ?thesis by (simp add: unat_word_ariths)
qed

termination fill_loop
  by (relation "measure (\<lambda>(i, m, s). 533 - unat s)") (auto dest!: unat_plus_one_fill)

declare fill_loop.simps [simp del]

text \<open>\<open>iter\<close> is the order in which the map of targets is iterated once it is built.\<close>

definition ul_targets ::
  "((u16 \<times> u32) list \<Rightarrow> (u16 \<times> u32) list) \<Rightarrow> (u16 \<times> real) list \<Rightarrow> (u16 \<times> u32) list" where
  "ul_targets iter items =
     (let (m, sumT) = assign_targets (map (\<lambda>(r, s). (r, round_target s)) items) ([], 0);
          (m, sumT) = reduce_loop (iter m) sumT;
          (m, sumT) = fill_loop items m sumT
      in m)"

section \<open>The run of the Logic Module\<close>

datatype UeObservation = UeObservation (obs_rnti: u32) (obs_txdrop: u64) (obs_txbuffer: u64) (obs_txpdu: u64)

datatype ObservationRequest = ObservationRequest (tti_counter: u64) (req_ues: "UeObservation list")

text \<open>The observation of one UE, appended to the request.\<close>

definition observe_ue ::
  "sqlite \<Rightarrow> repository \<Rightarrow> UeObservation list \<times> rl_lm \<Rightarrow> u64 \<Rightarrow> (UeObservation list \<times> rl_lm) res" where
  "observe_ue q data acc ueId =
     (let (ues, L) = acc
      in res_bind (GetNrUeCellInfo q ueId data) (\<lambda>(found, cellId, rnti).
         res_bind (GetBufferSize q data ueId 3 L) (\<lambda>(buf, L).
         res_bind (GetTxDrop q data ueId 1 L) (\<lambda>(drop', L).
         res_bind (GetTxPdu q data ueId 3 L) (\<lambda>(pdu, L).
         Inr (ues @ [UeObservation (ucast rnti) drop' buf pdu], L))))))"

text \<open>
  \<open>Run\<close>: \<open>ric\<close> is the repository of the RIC, if there is a RIC; \<open>agent\<close> answers an observation, or
  the call fails.
\<close>

definition OranLmNrRlQlearn_Run ::
  "sqlite \<Rightarrow> ((u16 \<times> u32) list \<Rightarrow> (u16 \<times> u32) list) \<Rightarrow>
   (ObservationRequest \<Rightarrow> (u32 \<times> real) list option) \<Rightarrow> bool \<Rightarrow> repository option \<Rightarrow> rl_lm \<Rightarrow>
   (OranCommand list \<times> rl_lm) res" where
  "OranLmNrRlQlearn_Run q iter agent active ric L =
     (if \<not> active then Inr ([], L)
      else case ric of
          None \<Rightarrow> Inl (NS_ABORT ''MDP RL LM running without a Near-RT RIC'')
        | Some data \<Rightarrow>
            res_bind (GetNrUeE2NodeIds q data) (\<lambda>ueIds.
            res_bind (GetNrGnbE2NodeIds q data) (\<lambda>gnbIds.
            let tti = ttiCounter L; L = L\<lparr>ttiCounter := ttiCounter L + 1\<rparr>
            in res_bind (for_each (observe_ue q data) ueIds ([], L)) (\<lambda>(ues, L).
               case agent (ObservationRequest tti ues) of
                 None \<Rightarrow> Inr ([], L)
               | Some shares \<Rightarrow>
                   if gnbIds \<noteq> [] \<and> shares \<noteq> []
                   then Inr ([OranCommandNrUlRbgTargets (hd gnbIds)
                                (ul_targets iter (normalise (read_shares shares)))], L)
                   else Inr ([], L)))))"

text \<open>The DQN module is the same code under another name.\<close>

definition OranLmNrRlDqn_Run ::
  "sqlite \<Rightarrow> ((u16 \<times> u32) list \<Rightarrow> (u16 \<times> u32) list) \<Rightarrow>
   (ObservationRequest \<Rightarrow> (u32 \<times> real) list option) \<Rightarrow> bool \<Rightarrow> repository option \<Rightarrow> rl_lm \<Rightarrow>
   (OranCommand list \<times> rl_lm) res" where
  "OranLmNrRlDqn_Run q iter agent active ric L =
     (if \<not> active then Inr ([], L)
      else case ric of
          None \<Rightarrow> Inl (NS_ABORT ''MDP RL LM running without a Near-RT RIC'')
        | Some data \<Rightarrow>
            res_bind (GetNrUeE2NodeIds q data) (\<lambda>ueIds.
            res_bind (GetNrGnbE2NodeIds q data) (\<lambda>gnbIds.
            let tti = ttiCounter L; L = L\<lparr>ttiCounter := ttiCounter L + 1\<rparr>
            in res_bind (for_each (observe_ue q data) ueIds ([], L)) (\<lambda>(ues, L).
               case agent (ObservationRequest tti ues) of
                 None \<Rightarrow> Inr ([], L)
               | Some shares \<Rightarrow>
                   if gnbIds \<noteq> [] \<and> shares \<noteq> []
                   then Inr ([OranCommandNrUlRbgTargets (hd gnbIds)
                                (ul_targets iter (normalise (read_shares shares)))], L)
                   else Inr ([], L)))))"

section \<open>Lemmas on targets\<close>

abbreviation target_sum :: "(u16 \<times> u32) list \<Rightarrow> nat" where
  "target_sum m \<equiv> sum_list (map (\<lambda>(r, t). unat t) m)"

definition targets_ok :: "(u16 \<times> u32) list \<Rightarrow> bool" where
  "targets_ok m = (distinct (map fst m) \<and> (\<forall>(r, t) \<in> set m. 1 \<le> t))"

lemma update_fresh: "k \<notin> fst ` set m \<Longrightarrow> AList.update k v m = m @ [(k, v)]"
  by (induction m) auto

lemma assign_targets_distinct:
  assumes "distinct (map fst (m @ its))"
  shows "assign_targets its (m, s) = (m @ its, s + sum_list (map snd its))"
  using assms
proof (induction its arbitrary: m s)
  case (Cons x its)
  obtain r t where x: "x = (r, t)" by (cases x)
  have "r \<notin> fst ` set m" using Cons.prems by (auto simp: x)
  then show ?case using Cons.IH [of "m @ [(r, t)]" "s + t"] Cons.prems
    by (simp add: x update_fresh add.assoc)
qed simp

lemma unat_sum_list_u32:
  "sum_list (map unat ts) < 2 ^ 32 \<Longrightarrow> unat (sum_list (ts :: u32 list)) = sum_list (map unat ts)"
  by (induction ts) (auto simp: unat_word_ariths)

lemma best_target_spec:
  assumes "\<forall>x. best = Some x \<longrightarrow> 1 < snd x"
  shows "case best_target m best of
      None \<Rightarrow> best = None \<and> (\<forall>(r, t) \<in> set m. t \<le> 1)
    | Some x \<Rightarrow> (x \<in> set m \<or> best = Some x) \<and> 1 < snd x"
  using assms
proof (induction m best rule: best_target.induct)
  case (2 r t m best)
  let ?b = "if t > 1 \<and> (case best of None \<Rightarrow> True | Some (r', t') \<Rightarrow> t > t') then Some (r, t) else best"
  have "\<forall>x. ?b = Some x \<longrightarrow> 1 < snd x" using "2.prems" by (auto split: if_splits)
  from "2.IH" [OF this] show ?case
    by (cases "best_target m ?b") (auto simp: not_less split: if_splits option.splits)
qed (auto split: option.splits)

lemma map_fst_set_target [simp]: "map fst (set_target r t m) = map fst m"
  by (auto simp: set_target_def)

lemma length_set_target [simp]: "length (set_target r t m) = length m"
  by (simp add: set_target_def)

lemma target_sum_set_target:
  assumes "distinct (map fst m)" and "(r, t) \<in> set m"
  shows "target_sum (set_target r t' m) + unat t = target_sum m + unat t'"
  using assms
proof (induction m)
  case (Cons x m)
  obtain r0 t0 where x: "x = (r0, t0)" by (cases x)
  have same: "set_target r t' m = m" if "r \<notin> fst ` set m"
    using that unfolding set_target_def by (intro map_idI) force
  show ?case
  proof (cases "r0 = r")
    case True
    then have "r \<notin> fst ` set m" using Cons.prems(1) by (auto simp: x)
    moreover from this have "t0 = t" using Cons.prems(2) True by (force simp: x)
    ultimately show ?thesis using same True by (simp add: x set_target_def)
  next
    case False
    then show ?thesis using Cons by (simp add: x set_target_def)
  qed
qed simp

lemma targets_ok_length: "targets_ok m \<Longrightarrow> length m \<le> target_sum m"
proof -
  assume m: "targets_ok m"
  have "1 \<le> (case x of (r, t) \<Rightarrow> unat t)" if "x \<in> set m" for x
  proof (cases x)
    case (Pair r t)
    then have "1 \<le> t" using m that by (auto simp: targets_ok_def)
    then show ?thesis by (simp add: Pair word_le_nat_alt)
  qed
  then show ?thesis by (rule sum_list_ge_length)
qed

lemma set_target_ok:
  assumes "targets_ok m" and "1 \<le> t'"
  shows "targets_ok (set_target r t' m)"
proof -
  have "\<forall>(r', t) \<in> set (set_target r t' m). 1 \<le> t"
    using assms by (auto simp: targets_ok_def set_target_def split: if_splits)
  with assms(1) show ?thesis by (simp add: targets_ok_def)
qed

lemma reduce_loop_spec:
  assumes "targets_ok m" and "unat s = target_sum m"
  shows "\<exists>m' s'. reduce_loop m s = (m', s') \<and> targets_ok m' \<and> map fst m' = map fst m \<and>
    unat s' = target_sum m' \<and> target_sum m' = (if 533 < target_sum m then max 533 (length m) else target_sum m)"
  using assms
proof (induction m s rule: reduce_loop.induct)
  case (1 m s)
  have big: "B_FIXED < s \<longleftrightarrow> 533 < target_sum m"
    by (simp add: B_FIXED_def word_less_nat_alt "1.prems"(2) [symmetric])
  show ?case
  proof (cases "533 < target_sum m")
    case False
    then show ?thesis using "1.prems" big by (subst reduce_loop.simps) simp
  next
    case True
    show ?thesis
    proof (cases "best_target m None")
      case None
      then have "\<forall>(r, t) \<in> set m. t \<le> 1" using best_target_spec [of None m] by simp
      then have "\<forall>(r, t) \<in> set m. unat t = 1"
        using "1.prems"(1) by (fastforce simp: targets_ok_def word_le_nat_alt)
      then have "map (\<lambda>(r, t). unat t) m = map (\<lambda>x. 1) m" by (intro map_cong refl) auto
      then have "target_sum m = length m" by (simp only: sum_list_triv) simp
      then show ?thesis using "1.prems" True big None by (subst reduce_loop.simps) simp
    next
      case (Some x)
      obtain r t where x: "x = (r, t)" by (cases x)
      have rt: "(r, t) \<in> set m" "1 < t" using best_target_spec [of None m] Some by (auto simp: x)
      have "t \<noteq> 0" using rt(2) by auto
      then have u: "unat (t - 1) = unat t - 1" by (rule unat_minus_one)
      then have "1 \<le> t - 1" using rt(2) by (simp add: word_le_nat_alt word_less_nat_alt)
      then have m2: "targets_ok (set_target r (t - 1) m)" using "1.prems"(1) by (intro set_target_ok)
      have "target_sum (set_target r (t - 1) m) + unat t = target_sum m + unat (t - 1)"
        using "1.prems"(1) rt(1) by (intro target_sum_set_target) (simp add: targets_ok_def)
      then have sum: "target_sum (set_target r (t - 1) m) = target_sum m - 1"
        using u rt(2) True by (simp add: word_less_nat_alt)
      have "unat (s - 1) = target_sum (set_target r (t - 1) m)"
        using unat_minus_one_less [of s] big True sum "1.prems"(2) by simp
      from "1.IH" [OF _ Some x [symmetric] m2 this] True big obtain m' s' where IH:
        "reduce_loop (set_target r (t - 1) m) (s - 1) = (m', s')" "targets_ok m'" "map fst m' = map fst m"
        "unat s' = target_sum m'"
        "target_sum m' = (if 533 < target_sum m - 1 then max 533 (length m) else target_sum m - 1)"
        unfolding sum length_set_target map_fst_set_target by blast
      have "length m \<le> target_sum m - 1"
        using targets_ok_length [OF m2] sum by simp
      then have "target_sum m' = max 533 (length m)" using IH(5) True by auto
      then show ?thesis using IH True big Some x by (subst reduce_loop.simps) simp
    qed
  qed
qed

lemma add_target_present:
  assumes "distinct (map fst m)" and "(r, t) \<in> set m"
  shows "add_target r m = set_target r (t + 1) m"
  using assms
proof (induction m)
  case (Cons x m)
  obtain r0 t0 where x: "x = (r0, t0)" by (cases x)
  have same: "set_target r (t + 1) m = m" if "r \<notin> fst ` set m"
    using that unfolding set_target_def by (intro map_idI) force
  show ?case
  proof (cases "r0 = r")
    case True
    then have "r \<notin> fst ` set m" using Cons.prems(1) by (auto simp: x)
    moreover from this have "t0 = t" using Cons.prems(2) True by (force simp: x)
    ultimately show ?thesis using same True by (simp add: x set_target_def add_target_def)
  next
    case False
    then show ?thesis using Cons by (simp add: x set_target_def add_target_def)
  qed
qed simp

lemma fill_loop_spec:
  assumes "targets_ok m" and "unat s = target_sum m" and "best_share items (hd items) \<in> fst ` set m"
  shows "\<exists>m' s'. fill_loop items m s = (m', s') \<and> targets_ok m' \<and> map fst m' = map fst m \<and>
    target_sum m' = max 533 (target_sum m)"
  using assms
proof (induction items m s rule: fill_loop.induct)
  case (1 items m s)
  have small: "s < B_FIXED \<longleftrightarrow> target_sum m < 533"
    by (simp add: B_FIXED_def word_less_nat_alt "1.prems"(2) [symmetric])
  show ?case
  proof (cases "target_sum m < 533")
    case False
    then show ?thesis using "1.prems" small by (subst fill_loop.simps) simp
  next
    case True
    let ?r = "best_share items (hd items)"
    obtain t where t: "(?r, t) \<in> set m" using "1.prems"(3) by auto
    have dist: "distinct (map fst m)" using "1.prems"(1) by (simp add: targets_ok_def)
    have "unat t \<le> target_sum m" using member_le_sum_list [of "unat t" "map (\<lambda>(r, t). unat t) m"] t by force
    then have u: "unat (t + 1) = unat t + 1" using True by (simp add: unat_word_ariths)
    have m2: "targets_ok (set_target ?r (t + 1) m)"
      using "1.prems"(1) u by (intro set_target_ok) (auto simp: word_le_nat_alt)
    have sum: "target_sum (set_target ?r (t + 1) m) = target_sum m + 1"
      using target_sum_set_target [OF dist t, of "t + 1"] u by simp
    have "unat (s + 1) = target_sum (set_target ?r (t + 1) m)"
      using unat_plus_one_fill [of s] small True sum "1.prems"(2) by simp
    moreover have "?r \<in> fst ` set (set_target ?r (t + 1) m)"
      using "1.prems"(3) map_fst_set_target by (metis set_map)
    ultimately obtain m' s' where "fill_loop items (set_target ?r (t + 1) m) (s + 1) = (m', s')"
      "targets_ok m'" "map fst m' = map fst m" "target_sum m' = max 533 (target_sum m + 1)"
      using "1.IH" m2 small True sum add_target_present [OF dist t] by auto
    then show ?thesis using True small add_target_present [OF dist t]
      by (subst fill_loop.simps) simp
  qed
qed

lemma best_share_in: "best_share its b \<in> insert (fst b) (fst ` set its)"
proof (induction its b rule: best_share.induct)
  case (2 r s its best)
  show ?case
  proof (cases "s > snd best")
    case True
    then show ?thesis using 2 by force
  next
    case False
    then show ?thesis using 2 by force
  qed
qed simp

text \<open>The two correcting loops, on any list of rounded targets.\<close>

lemma targets_budget:
  assumes "distinct (map fst its)" and "its \<noteq> []" and "\<forall>(r, t) \<in> set its. 1 \<le> t"
    and "target_sum its < 2 ^ 32" and "mset m0 = mset its" and "map fst items = map fst its"
    and "reduce_loop m0 (sum_list (map snd its)) = (m1, s1)" and "fill_loop items m1 s1 = (m2, s2)"
  shows "targets_ok m2 \<and> set (map fst m2) = set (map fst its) \<and> target_sum m2 = max 533 (length its)"
proof -
  have m0: "targets_ok m0" "target_sum m0 = target_sum its" "length m0 = length its"
    "set (map fst m0) = set (map fst its)"
    using assms(1,3,5) mset_eq_setD [OF assms(5)] mset_eq_length [OF assms(5)]
      mset_eq_imp_distinct_iff [of "map fst m0" "map fst its"]
      sum_mset_sum_list [of "map (\<lambda>(r, t). unat t) m0"] sum_mset_sum_list [of "map (\<lambda>(r, t). unat t) its"]
    by (auto simp: targets_ok_def)
  have "unat (sum_list (map snd its)) = target_sum m0"
    using assms(4) unat_sum_list_u32 [of "map snd its"] m0(2) by (simp add: comp_def case_prod_beta')
  from reduce_loop_spec [OF m0(1) this] assms(7) have m1: "targets_ok m1" "map fst m1 = map fst m0"
    "unat s1 = target_sum m1"
    "target_sum m1 = (if 533 < target_sum its then max 533 (length its) else target_sum its)"
    using m0 by auto
  have "items \<noteq> []" using assms(2,6) by auto
  then have "best_share items (hd items) \<in> set (map fst items)"
    using best_share_in [of items "hd items"] by auto
  then have "best_share items (hd items) \<in> fst ` set m1"
    using m1(2) m0(4) assms(6) by (metis set_map)
  from fill_loop_spec [OF m1(1,3) this] assms(8) have "targets_ok m2" "map fst m2 = map fst m1"
    "target_sum m2 = max 533 (target_sum m1)" by auto
  moreover have "length its \<le> target_sum its" using targets_ok_length [OF m0(1)] m0(2,3) by simp
  ultimately show ?thesis using m1(2,4) m0(4) by (auto split: if_splits)
qed

lemma map_fst_map_snd: "map fst (map (\<lambda>(r, s). (r, g s)) xs) = map fst xs"
  by (induction xs) auto

lemma map_fst_normalise [simp]: "map fst (normalise items) = map fst items"
  by (auto simp: normalise_def Let_def)

lemma normalise_unit:
  assumes "\<forall>(r, s) \<in> set items. 0 \<le> s" and "(r, s) \<in> set (normalise items)"
  shows "0 \<le> s \<and> s \<le> 1"
proof (cases "sum_list (map snd items) \<le> 0")
  case True
  then have "s = 1 / real (length items)" using assms(2) by (auto simp: normalise_def Let_def)
  moreover have "items \<noteq> []" using assms(2) by (auto simp: normalise_def Let_def split: if_splits)
  then have "1 \<le> real (length items)" by (cases items) auto
  ultimately show ?thesis by (simp add: divide_le_eq_1)
next
  case False
  then obtain s0 where s0: "(r, s0) \<in> set items" "s = s0 / sum_list (map snd items)"
    using assms(2) by (auto simp: normalise_def Let_def)
  have "s0 \<in> set (map snd items)" using s0(1) by force
  moreover have "\<forall>x \<in> set (map snd items). 0 \<le> x" using assms(1) by auto
  ultimately have "s0 \<le> sum_list (map snd items)" "0 \<le> s0"
    using member_le_sum_list [of s0 "map snd items"] by auto
  with False show ?thesis by (simp add: s0(2))
qed

lemma round_target_bound:
  assumes "0 \<le> s" and "s \<le> 1"
  shows "1 \<le> round_target s \<and> unat (round_target s) \<le> 533"
proof -
  have k: "0 \<le> llround (s * 533)" "llround (s * 533) \<le> 533"
    using assms by (auto simp: llround_def floor_le_iff)
  then have "unat (word_of_int (llround (s * 533)) :: u32) = nat (llround (s * 533))"
    by (simp add: unat_eq_nat_uint uint_word_of_int)
  with k show ?thesis
    by (auto simp: round_target_def Let_def word_le_nat_alt word_less_nat_alt)
qed

lemma target_sum_bound:
  "\<forall>(r, t) \<in> set its. unat t \<le> 533 \<Longrightarrow> target_sum its \<le> length its * 533"
  by (induction its) auto

section \<open>Properties of the targets\<close>

lemma ul_targets_exact:
  assumes "shares \<noteq> []" and "distinct (map fst (read_shares shares))" and "\<forall>xs. mset (iter xs) = mset xs"
  shows "distinct (map fst (ul_targets iter (normalise (read_shares shares)))) \<and>
    set (map fst (ul_targets iter (normalise (read_shares shares)))) = set (map fst (read_shares shares)) \<and>
    (\<forall>(r, t) \<in> set (ul_targets iter (normalise (read_shares shares))). 1 \<le> t) \<and>
    target_sum (ul_targets iter (normalise (read_shares shares))) = max 533 (length shares)"
proof -
  let ?items = "normalise (read_shares shares)"
  define its where "its = map (\<lambda>(r, s). (r, round_target s)) ?items"
  have fst: "map fst its = map fst (read_shares shares)"
    unfolding its_def map_fst_map_snd map_fst_normalise ..
  have len: "length its = length shares" by (simp add: its_def normalise_def Let_def read_shares_def)
  have ne: "its \<noteq> []" using assms(1) len by auto
  have pos: "\<forall>(r, s) \<in> set (read_shares shares). 0 \<le> s" by (auto simp: read_shares_def)
  have b: "\<forall>(r, t) \<in> set its. 1 \<le> t" "\<forall>(r, t) \<in> set its. unat t \<le> 533"
    using normalise_unit [OF pos] round_target_bound unfolding its_def by fastforce+
  have "length its \<le> 65536"
    using distinct_length_u16 [OF assms(2)] len by (simp add: read_shares_def)
  then have n: "length its * 533 \<le> 65536 * 533" by (rule mult_right_mono) simp
  from target_sum_bound [OF b(2)] n have small: "target_sum its < 2 ^ 32" by simp
  obtain m1 s1 where r: "reduce_loop (iter its) (sum_list (map snd its)) = (m1, s1)" by fastforce
  obtain m2 s2 where f: "fill_loop ?items m1 s1 = (m2, s2)" by fastforce
  have "assign_targets its ([], 0) = (its, sum_list (map snd its))"
    using assign_targets_distinct [of "[]" its 0] assms(2) fst by simp
  then have "ul_targets iter ?items = m2" using r f
    unfolding ul_targets_def its_def [symmetric] by simp
  moreover have "targets_ok m2 \<and> set (map fst m2) = set (map fst its) \<and> target_sum m2 = max 533 (length its)"
    using assms(2,3) fst by (intro targets_budget [OF _ ne b(1) small _ _ r f]) simp_all
  ultimately show ?thesis unfolding fst len by (simp add: targets_ok_def)
qed



text \<open>An answer that names an RNTI twice breaks the budget. The running sum counts both entries,
  the map keeps one, and the correction then takes RBGs away: one UE that could get all 533 RBGs
  is limited to 266.\<close>

theorem duplicate_rnti_breaks_budget:
  "ul_targets (\<lambda>xs. xs) (normalise (read_shares [(5, 1 / 2), (5, 1 / 2)])) = [(5, 266)]"
proof -
  have "round_target (1 / 2) = 267"
    by (simp add: round_target_def llround_def Let_def floor_eq_iff)
  then show ?thesis
    by (simp add: read_shares_def normalise_def Let_def ul_targets_def reduce_loop.simps fill_loop.simps
        B_FIXED_def set_target_def)
qed

section \<open>Properties of the metrics and of a run\<close>

lemma scan_samples_spec:
  assumes "new = filter (\<lambda>(t, v). lastTime < t) xs"
  shows "scan_samples lastTime xs (a, c, n) =
    (a + sum_list (map snd new), c + of_nat (length new), fold max (map fst new) n)"
  unfolding assms by (induction xs arbitrary: a c n) (auto simp: algebra_simps max_def)

lemma fold_max_upper: "(\<forall>t \<in> set ts. t \<le> fold max ts n) \<and> n \<le> fold max ts (n :: Time)"
proof (induction ts arbitrary: n)
  case (Cons t ts)
  from Cons [of "max t n"] show ?case by auto
qed simp

lemma unat_sum_list_u64:
  "sum_list (map unat vs) < 2 ^ 64 \<Longrightarrow> unat (sum_list (vs :: u64 list)) = sum_list (map unat vs)"
  by (induction vs) (auto simp: unat_word_ariths)

lemma unat_ucast_u64: "unat (ucast (x :: u32) :: u64) = unat x"
proof -
  have "unat x < 2 ^ 64" using unsigned_less [of x, where 'a = nat] by simp
  then show ?thesis by (simp add: unsigned_ucast_eq take_bit_nat_eq_self)
qed

lemma sum_list_u32_bound: "sum_list (map (\<lambda>x. unat (f x :: u32)) xs) \<le> length xs * (2 ^ 32 - 1)"
proof (induction xs)
  case (Cons x xs)
  have "unat (f x) \<le> 2 ^ 32 - 1" using unsigned_less [of "f x", where 'a = nat] by simp
  with Cons show ?case by simp
qed simp

text \<open>The buffer metric averages each sample once. A call returns the average queue size of the
  samples that are newer than the last processed one (0 if there is none), rounded down, and
  then no sample of the repository is newer than the time it remembers, so that the next call
  uses none of them again.\<close>

theorem buffer_metric_uses_samples_once:
  assumes "GetNrUeBufferStatus q ueId data = Inr samples" and "samples \<noteq> []" and "length samples < 2 ^ 32"
    and "m_N L = 1" and "m_bufferCounter L ueId = 0"
    and "lastTime = (case m_lastBufferTime L ueId of None \<Rightarrow> 0 | Some t \<Rightarrow> t)"
    and "new = filter (\<lambda>s. lastTime < bs_time s) samples"
  shows "\<exists>v L' t. GetBufferSize q data ueId lcid L = Inr (v, L') \<and>
    unat v = (\<Sum>s\<leftarrow>new. unat (bs_txQueueSize s)) div length new \<and>
    m_lastBufferTime L' ueId = Some t \<and> lastTime \<le> t \<and> (\<forall>s \<in> set samples. bs_time s \<le> t) \<and>
    m_bufferCounter L' ueId = 0 \<and> m_lastBufferValue L' ueId = v"
proof -
  let ?xs = "map (\<lambda>s. (bs_time s, ucast (bs_txQueueSize s) :: u64)) samples"
  let ?ys = "map (\<lambda>s. (bs_time s, ucast (bs_txQueueSize s) :: u64)) new"
  let ?sum = "sum_list (map snd ?ys)" and ?n = "of_nat (length new) :: u64"
  let ?t = "fold max (map fst ?ys) lastTime"
  let ?avg = "if ?n = 0 then 0 else ?sum div ?n"
  have ys: "filter (\<lambda>(t, v). lastTime < t) ?xs = ?ys" by (simp add: assms(7) filter_map comp_def)
  have len: "length new < 2 ^ 32" using assms(3,7) by (metis length_filter_le le_less_trans)
  have un: "unat ?n = length new" using len by (simp add: unat_of_nat)
  have "length new * (2 ^ 32 - 1) \<le> 2 ^ 32 * (2 ^ 32 - 1)" using len by (intro mult_right_mono) auto
  with sum_list_u32_bound [of bs_txQueueSize new]
  have "sum_list (map unat (map snd ?ys)) < 2 ^ 64" by (simp add: comp_def unat_ucast_u64)
  from unat_sum_list_u64 [OF this] have us: "unat ?sum = (\<Sum>s\<leftarrow>new. unat (bs_txQueueSize s))"
    by (simp add: comp_def unat_ucast_u64)
  define avg where "avg = ?avg"
  have v: "unat avg = (\<Sum>s\<leftarrow>new. unat (bs_txQueueSize s)) div length new"
  proof (cases "?n = 0")
    case True
    then have "length new = 0" using un by simp
    then show ?thesis by (simp add: avg_def)
  next
    case False
    then show ?thesis using un us by (simp add: unat_div avg_def)
  qed
  have "bs_time s \<le> ?t" if "s \<in> set samples" for s
    using that fold_max_upper [of "map fst ?ys" lastTime] by (cases "lastTime < bs_time s") (auto simp: assms(7))
  moreover have "lastTime \<le> ?t" using fold_max_upper by blast
  moreover have "GetBufferSize q data ueId lcid L = Inr (avg, L\<lparr>m_bufferCounter := (m_bufferCounter L)(ueId := 0),
      m_lastBufferTime := (m_lastBufferTime L)(ueId \<mapsto> ?t),
      m_lastBufferValue := (m_lastBufferValue L)(ueId := avg)\<rparr>)"
    using assms(1,2,4,5)
    by (simp add: GetBufferSize_def Let_def assms(6) [symmetric] scan_samples_spec [OF ys [symmetric]] avg_def)
  ultimately show ?thesis using v by simp
qed

lemma rl_lm_new_simps: "m_N rl_lm_new = 1" "m_bufferCounter rl_lm_new u = 0"
  "m_lastBufferTime rl_lm_new u = None" "ttiCounter rl_lm_new = 0"
  by (simp_all add: rl_lm_new_def)

theorem buffer_metric_uses_samples_once_witness:
  "\<exists>v L' t. GetBufferSize sqlite_ref (demo_repo\<lparr>m_db := Some (demo_db\<lparr>nruetxbuffer := \<lparr>seq = 2, rows =
        [(1, 1, NrUeBufferStatus 3 9 3 100 0 0 0 0), (2, 1, NrUeBufferStatus 4 9 3 201 0 0 0 0)]\<rparr>\<rparr>)\<rparr>) 1 3 rl_lm_new
      = Inr (v, L') \<and> unat v = 150 \<and> m_lastBufferTime L' 1 = Some t \<and> 4 \<le> t"
proof -
  let ?R = "demo_repo\<lparr>m_db := Some (demo_db\<lparr>nruetxbuffer := \<lparr>seq = 2, rows =
    [(1, 1, NrUeBufferStatus 3 9 3 100 0 0 0 0), (2, 1, NrUeBufferStatus 4 9 3 201 0 0 0 0)]\<rparr>\<rparr>)\<rparr>"
  have R: "repo_inv 10 ?R" "registered_now ?R 1"
    using demo_repo_inv demo_registered [of 1]
    by (simp_all add: repo_inv_def registered_now_def select_registered_def)
  have "GetNrUeBufferStatus sqlite_ref 1 ?R =
      Inr [NrUeBufferStatus 3 9 3 100 0 0 0 0, NrUeBufferStatus 4 9 3 201 0 0 0 0]"
    unfolding GetNrUeBufferStatus_def sqlite_ref.query_registered_now [OF R(1)] using R(2)
    by (simp add: sqlite_ref.run_stmt_open oldest_first_def)
  from buffer_metric_uses_samples_once [OF this _ _ rl_lm_new_simps(1,2) refl refl, of 3]
  obtain v L' t where "GetBufferSize sqlite_ref ?R 1 3 rl_lm_new = Inr (v, L')" "unat v = 150"
    "m_lastBufferTime L' 1 = Some t" "4 \<le> t" by (auto simp: rl_lm_new_simps simp flip: numeral_2_eq_2)
  then show ?thesis by blast
qed

lemma metrics_return:
  assumes "sqlite_ok q" and "repo_inv now data"
  shows "\<exists>v L'. GetBufferSize q data u l L = Inr (v, L') \<and> ttiCounter L' = ttiCounter L"
    "\<exists>v L'. GetTxDrop q data u l L = Inr (v, L') \<and> ttiCounter L' = ttiCounter L"
    "\<exists>v L'. GetTxPdu q data u l L = Inr (v, L') \<and> ttiCounter L' = ttiCounter L"
  using sqlite_engine.queries_return(1,2,3) [OF sqlite_engine.intro [OF assms(1)] assms(2), of u]
  by (auto simp: GetBufferSize_def GetTxDrop_def GetTxPdu_def Let_def split: prod.splits)

lemma observe_ues_return:
  assumes "sqlite_ok q" and "repo_inv now data"
  shows "\<exists>ues' L'. for_each (observe_ue q data) ids (ues, L) = Inr (ues', L') \<and>
    length ues' = length ues + length ids \<and> ttiCounter L' = ttiCounter L"
proof (induction ids arbitrary: ues L)
  case (Cons u ids)
  note ret = metrics_return [OF assms]
  obtain f c r where "GetNrUeCellInfo q u data = Inr (f, c, r)"
    using sqlite_engine.queries_return(4) [OF sqlite_engine.intro [OF assms(1)] assms(2), of u]
    by (metis prod_cases3)
  moreover obtain buf L1 where "GetBufferSize q data u 3 L = Inr (buf, L1)" "ttiCounter L1 = ttiCounter L"
    using ret(1) by blast
  moreover obtain d L2 where "GetTxDrop q data u 1 L1 = Inr (d, L2)" "ttiCounter L2 = ttiCounter L1"
    using ret(2) by blast
  moreover obtain p L3 where "GetTxPdu q data u 3 L2 = Inr (p, L3)" "ttiCounter L3 = ttiCounter L2"
    using ret(3) by blast
  ultimately have "observe_ue q data (ues, L) u = Inr (ues @ [UeObservation (ucast r) d buf p], L3)"
    "ttiCounter L3 = ttiCounter L" by (simp_all add: observe_ue_def)
  with Cons.IH [of "ues @ [UeObservation (ucast r) d buf p]" L3] show ?case by auto
qed simp

text \<open>C31: a run of either learning module on an active repository does not abort. It sends one
  observation with one entry per listed UE and a fresh counter value, and returns no command when
  the agent does not answer or no gNB is listed; otherwise it returns one command, for the first
  listed gNB, with the targets of the answer.\<close>

theorem rl_run:
  assumes "sqlite_ok q" and "repo_inv now data"
  shows "\<exists>ueIds gnbIds ues L'. GetNrUeE2NodeIds q data = Inr ueIds \<and> GetNrGnbE2NodeIds q data = Inr gnbIds \<and>
    length ues = length ueIds \<and> ttiCounter L' = ttiCounter L + 1 \<and>
    OranLmNrRlQlearn_Run q iter agent True (Some data) L =
      Inr (case agent (ObservationRequest (ttiCounter L) ues) of
             None \<Rightarrow> []
           | Some shares \<Rightarrow> if gnbIds = [] \<or> shares = [] then []
               else [OranCommandNrUlRbgTargets (hd gnbIds) (ul_targets iter (normalise (read_shares shares)))], L') \<and>
    OranLmNrRlDqn_Run q iter agent True (Some data) L = OranLmNrRlQlearn_Run q iter agent True (Some data) L"
proof -
  note ret = sqlite_engine.queries_return [OF sqlite_engine.intro [OF assms(1)] assms(2)]
  obtain ueIds gnbIds where ids: "GetNrUeE2NodeIds q data = Inr ueIds" "GetNrGnbE2NodeIds q data = Inr gnbIds"
    using ret(5,6) by blast
  from observe_ues_return [OF assms, of ueIds "[]" "L\<lparr>ttiCounter := ttiCounter L + 1\<rparr>"] obtain ues L' where
    obs: "for_each (observe_ue q data) ueIds ([], L\<lparr>ttiCounter := ttiCounter L + 1\<rparr>) = Inr (ues, L')"
    "length ues = length ueIds" "ttiCounter L' = ttiCounter L + 1" by auto
  show ?thesis
    by (intro exI [of _ ueIds] exI [of _ gnbIds] exI [of _ ues] exI [of _ L'])
      (simp add: OranLmNrRlQlearn_Run_def OranLmNrRlDqn_Run_def ids obs Let_def split: option.split)
qed

theorem rl_run_witness:
  "\<exists>ueIds gnbIds L'. GetNrUeE2NodeIds sqlite_ref demo_repo = Inr ueIds \<and>
    GetNrGnbE2NodeIds sqlite_ref demo_repo = Inr gnbIds \<and> ttiCounter L' = 1 \<and>
    OranLmNrRlQlearn_Run sqlite_ref rev (\<lambda>req. None) True (Some demo_repo) rl_lm_new = Inr ([], L')"
  using rl_run [OF sqlite_ref_ok demo_repo_inv, of rl_lm_new rev "\<lambda>req. None"]
  by (auto simp: rl_lm_new_simps)

end
