(* ===== verification/OranLmMoni.thy ===== *)
theory OranLmMoni
  imports OranRepository
begin

text \<open>
  The Logic Module that only monitors (\<open>oran-lm-nr-2-nr-moni.cc\<close>): in every run it reads positions and
  metrics of the registered nodes from the repository and prints them; it issues no commands. The values
  that the code prints are the results of the functions here. \<open>std::sort\<close> leaves the order of samples of equal
  time open: the sorting functions are parameters that sort a permutation of their input by time.
\<close>

record std_sorts =
  sort_status :: "NrUeBufferStatus list \<Rightarrow> NrUeBufferStatus list"
  sort_drops :: "NrUeTxDrop list \<Rightarrow> NrUeTxDrop list"
  sort_pdus :: "NrUeTxPdu list \<Rightarrow> NrUeTxPdu list"

definition sorts_ok :: "std_sorts \<Rightarrow> bool" where
  "sorts_ok s = ((\<forall>xs. mset (sort_status s xs) = mset xs \<and> sorted (map bs_time (sort_status s xs))) \<and>
     (\<forall>xs. mset (sort_drops s xs) = mset xs \<and> sorted (map drop_time (sort_drops s xs))) \<and>
     (\<forall>xs. mset (sort_pdus s xs) = mset xs \<and> sorted (map pdu_time (sort_pdus s xs))))"

datatype UeInfo = UeInfo (ue_nodeId: u64) (ue_cellId: u16) (ue_rnti: u16) (ue_position: Vector)
datatype GnbInfo = GnbInfo (gnb_nodeId: u64) (gnb_cellId: u16) (gnb_position: Vector)
datatype BufferStatusInfo = BufferStatusInfo (bsi_nodeId: u64) (bsi_rnti: u16) (bsi_lcid: u8)
  (bsi_txQueueSize: u32) (bsi_retxQueueSize: u32) (bsi_time: Time)
datatype TxDropInfo = TxDropInfo (tdi_nodeId: u64) (tdi_time: Time) (tdi_rnti: u16) (tdi_lcid: u32) (tdi_txDrop: u64)
datatype TxPduInfo = TxPduInfo (tpi_nodeId: u64) (tpi_time: Time) (tpi_rnti: u16) (tpi_lcid: u32) (tpi_txPdu: u64)

definition GetUeInfos :: "sqlite \<Rightarrow> Time \<Rightarrow> repository \<Rightarrow> UeInfo list res" where
  "GetUeInfos q now data =
     res_bind (GetNrUeE2NodeIds q data) (\<lambda>ids. for_each (\<lambda>ueInfos ueId.
       res_bind (GetNrUeCellInfo q ueId data) (\<lambda>(found, cellId, rnti).
       if \<not> found then Inr ueInfos
       else res_bind (GetNodePositions q ueId 0 now 1 data) (\<lambda>nodePositions.
         if nodePositions = [] then Inr ueInfos
         else Inr (ueInfos @ [UeInfo ueId cellId rnti (snd (last nodePositions))])))) ids [])"

definition GetGnbInfos :: "sqlite \<Rightarrow> Time \<Rightarrow> repository \<Rightarrow> GnbInfo list res" where
  "GetGnbInfos q now data =
     res_bind (GetNrGnbE2NodeIds q data) (\<lambda>ids. for_each (\<lambda>gnbInfos gnbId.
       res_bind (GetNrGnbCellInfo q gnbId data) (\<lambda>(found, cellId).
       if \<not> found then Inr gnbInfos
       else res_bind (GetNodePositions q gnbId 0 now 1 data) (\<lambda>nodePositions.
         if nodePositions = [] then Inr gnbInfos
         else Inr (gnbInfos @ [GnbInfo gnbId cellId (snd (last nodePositions))])))) ids [])"

definition GetRsrpInfos ::
  "sqlite \<Rightarrow> repository \<Rightarrow> u64 \<Rightarrow> (u64 \<times> u16 \<times> u16 \<times> real \<times> real \<times> bool \<times> u16) list res" where
  "GetRsrpInfos q data ueNodeId = res_bind (GetNrUeRsrpRsrq q ueNodeId data) (\<lambda>measurements.
     Inr (map (\<lambda>(rnti, cellId, rsrp, rsrq, serving, cc). (ueNodeId, rnti, cellId, rsrp, rsrq, serving, ucast cc)) measurements))"

definition GetAppLossInfos :: "sqlite \<Rightarrow> repository \<Rightarrow> u64 \<Rightarrow> (u64 \<times> real) list res" where
  "GetAppLossInfos q data ueNodeId = res_bind (GetAppLoss q ueNodeId data) (\<lambda>loss. Inr [(ueNodeId, loss)])"

text \<open>The last sample of the data channel, 3, in time order; zeroes if there is none.\<close>

definition GetBufferInfos :: "sqlite \<Rightarrow> std_sorts \<Rightarrow> repository \<Rightarrow> u64 \<Rightarrow> BufferStatusInfo list res" where
  "GetBufferInfos q srt data ueNodeId = res_bind (GetNrUeBufferStatus q ueNodeId data) (\<lambda>bufList.
     Inr [fold (\<lambda>status result.
        if bs_lcid status = 3
        then BufferStatusInfo ueNodeId (bs_rnti status) 3 (bs_txQueueSize status) (bs_retxQueueSize status) (bs_time status)
        else result) (sort_status srt bufList) (BufferStatusInfo ueNodeId 0 3 0 0 0)])"

definition GetCqiInfos :: "repository \<Rightarrow> u64 \<Rightarrow> (u64 \<times> NrUeCqi) list" where
  "GetCqiInfos data ueNodeId =
     (let cqiList = GetNrUeCqi ueNodeId data
      in if cqiList = [] then [] else [(ueNodeId, last cqiList)])"

definition drop_step :: "u16 \<Rightarrow> NrUeTxDrop \<Rightarrow> u64 \<times> Time \<times> u8 \<times> bool \<Rightarrow> u64 \<times> Time \<times> u8 \<times> bool" where
  "drop_step rnti sample acc = (case acc of (totalTxDrop, newest, newestLcid, hasSample) \<Rightarrow>
     if drop_rnti sample \<noteq> rnti then acc
     else if drop_time sample > newest then (totalTxDrop + drop_txDrop sample, drop_time sample, drop_lcid sample, True)
     else (totalTxDrop + drop_txDrop sample, newest, newestLcid, True))"

definition GetTxDropInfos :: "sqlite \<Rightarrow> std_sorts \<Rightarrow> repository \<Rightarrow> u64 \<Rightarrow> TxDropInfo list res" where
  "GetTxDropInfos q srt data ueNodeId = res_bind (GetNrUeTxDrop q ueNodeId data) (\<lambda>list.
     if list = [] then Inr []
     else res_bind (GetNrUeCellInfo q ueNodeId data) (\<lambda>(found, cellId, rnti).
       if \<not> found then Inr []
       else let (totalTxDrop, newest, newestLcid, hasSample) = fold (drop_step rnti) (sort_drops srt list) (0, 0, 0, False)
            in if \<not> hasSample then Inr []
               else Inr [TxDropInfo ueNodeId newest rnti (ucast newestLcid) totalTxDrop]))"

definition GetTxPduInfos :: "sqlite \<Rightarrow> std_sorts \<Rightarrow> repository \<Rightarrow> u64 \<Rightarrow> TxPduInfo list res" where
  "GetTxPduInfos q srt data ueNodeId = res_bind (GetNrUeTxPdu q ueNodeId data) (\<lambda>list.
     if list = [] then Inr []
     else let l = last (sort_pdus srt list)
          in Inr [TxPduInfo ueNodeId (pdu_time l) (pdu_rnti l) (ucast (pdu_lcid l)) (pdu_txPdu l)])"

definition OranLmNr2NrMoni_Run ::
  "sqlite \<Rightarrow> std_sorts \<Rightarrow> Time \<Rightarrow> bool \<Rightarrow> repository option \<Rightarrow> OranCommand list res" where
  "OranLmNr2NrMoni_Run q srt now active ric =
     (if \<not> active then Inr []
      else case ric of
          None \<Rightarrow> Inl (NS_ABORT ''Attempting to run LM (OranLmNr2NrMoni) with NULL Near-RT RIC'')
        | Some data \<Rightarrow>
            res_bind (GetUeInfos q now data) (\<lambda>ueInfos.
            res_bind (GetGnbInfos q now data) (\<lambda>gnbInfos.
            for_each (\<lambda>commands ueInfo.
              res_bind (GetRsrpInfos q data (ue_nodeId ueInfo)) (\<lambda>_.
              res_bind (GetAppLossInfos q data (ue_nodeId ueInfo)) (\<lambda>_.
              res_bind (GetBufferInfos q srt data (ue_nodeId ueInfo)) (\<lambda>_.
              res_bind (GetTxPduInfos q srt data (ue_nodeId ueInfo)) (\<lambda>_.
              res_bind (GetTxDropInfos q srt data (ue_nodeId ueInfo)) (\<lambda>_. Inr commands)))))) ueInfos [])))"

section \<open>Lemmas\<close>

lemma fold_drop_step:
  assumes "fold (drop_step rnti) xs (tot, newest, l, has) = (tot', newest', l', has')"
  shows "tot' = tot + sum_list (map drop_txDrop (filter (\<lambda>s. drop_rnti s = rnti) xs)) \<and>
    (has' \<longleftrightarrow> has \<or> (\<exists>s \<in> set xs. drop_rnti s = rnti)) \<and> newest \<le> newest' \<and>
    (\<forall>s \<in> set xs. drop_rnti s = rnti \<longrightarrow> drop_time s \<le> newest')"
  using assms
proof (induction xs arbitrary: tot newest l has)
  case (Cons s xs)
  obtain t1 n1 l1 h1 where 1: "drop_step rnti s (tot, newest, l, has) = (t1, n1, l1, h1)" by (metis prod_cases4)
  from Cons.IH [of t1 n1 l1 h1] Cons.prems 1 show ?case
    by (auto simp: drop_step_def add.assoc split: if_splits)
qed simp

lemma sum_list_perm: "mset xs = mset ys \<Longrightarrow> sum_list (map f xs) = (sum_list (map f ys) :: u64)"
  by (metis mset_map sum_mset_sum_list)

section \<open>Properties\<close>

text \<open>The drop total of the monitor is exact and does not depend on the order that \<open>std::sort\<close> leaves
  open. For a registered UE with a known cell it is the sum (modulo \<open>2 ^ 64\<close>) of all drop samples of the
  UE's RNTI in the repository, with a time not before any of them; there is no entry iff there is no such
  sample.\<close>

theorem monitor_drop_total:
  assumes "sorts_ok srt" and "GetNrUeTxDrop q n R = Inr samples" and "GetNrUeCellInfo q n R = Inr (True, cellId, rnti)"
  shows "\<exists>infos. GetTxDropInfos q srt R n = Inr infos \<and>
    (infos = [] \<longleftrightarrow> (\<forall>s \<in> set samples. drop_rnti s \<noteq> rnti)) \<and>
    (\<forall>info \<in> set infos. tdi_nodeId info = n \<and> tdi_rnti info = rnti \<and>
       tdi_txDrop info = sum_list (map drop_txDrop (filter (\<lambda>s. drop_rnti s = rnti) samples)) \<and>
       (\<forall>s \<in> set samples. drop_rnti s = rnti \<longrightarrow> drop_time s \<le> tdi_time info))"
proof (cases "samples = []")
  case False
  obtain tot newest l has where
    f: "fold (drop_step rnti) (sort_drops srt samples) (0, 0, 0, False) = (tot, newest, l, has)"
    by (metis prod_cases4)
  have m: "mset (sort_drops srt samples) = mset samples" using assms(1) by (simp add: sorts_ok_def)
  then have "set (sort_drops srt samples) = set samples" by (rule mset_eq_setD)
  moreover have "sum_list (map drop_txDrop (filter (\<lambda>s. drop_rnti s = rnti) (sort_drops srt samples))) =
      sum_list (map drop_txDrop (filter (\<lambda>s. drop_rnti s = rnti) samples))"
    by (rule sum_list_perm) (simp add: m)
  ultimately show ?thesis
    using assms(2,3) False fold_drop_step [OF f] by (auto simp: GetTxDropInfos_def f res_simps)
qed (use assms(2) in \<open>simp add: GetTxDropInfos_def res_simps\<close>)

definition demo_drop_repo :: repository where
  "demo_drop_repo = demo_repo\<lparr>m_db := Some (demo_db\<lparr>
     nruecell := \<lparr>seq = 1, rows = [(1, CellRow 1 2 9 4)]\<rparr>,
     nruetxdrop := \<lparr>seq = 2, rows = [(1, 1, NrUeTxDrop 4 9 1 100), (2, 1, NrUeTxDrop 6 9 1 50)]\<rparr>\<rparr>)\<rparr>"

definition demo_sorts :: std_sorts where
  "demo_sorts = \<lparr>sort_status = sort_key bs_time, sort_drops = sort_key drop_time, sort_pdus = sort_key pdu_time\<rparr>"

theorem monitor_drop_total_witness:
  "\<exists>infos. GetTxDropInfos sqlite_ref demo_sorts demo_drop_repo 1 = Inr infos \<and> infos \<noteq> [] \<and>
    tdi_txDrop (hd infos) = 150"
proof -
  have "sorts_ok demo_sorts" by (simp add: sorts_ok_def demo_sorts_def)
  moreover have "GetNrUeTxDrop sqlite_ref 1 demo_drop_repo = Inr [NrUeTxDrop 6 9 1 50, NrUeTxDrop 4 9 1 100]"
    "GetNrUeCellInfo sqlite_ref 1 demo_drop_repo = Inr (True, 2, 9)" by code_simp+
  ultimately show ?thesis using monitor_drop_total [of demo_sorts sqlite_ref 1 demo_drop_repo]
    by (fastforce dest: hd_in_set)
qed

end
