(* ===== verification/OranRic.thy ===== *)
theory OranRic
  imports OranE2Node OranLmRl OranLmMoni "HOL-Library.Char_ord" "HOL-Library.List_Lexorder"
begin

text \<open>
  The Near-RT RIC (\<open>oran-nr-near-rt-ric.cc\<close>) with its E2 terminator (\<open>oran-nr-near-rt-ric-e2terminator.cc\<close>),
  the base class of the Logic Modules (\<open>oran-lm.cc\<close>) and the Conflict Mitigation Module (\<open>oran-cmm*.cc\<close>).
  There is one RIC with one terminator, one repository and one conflict mitigation module, so that a pointer to
  one of them is a flag; Logic Modules live in a store. The state extends the stores of the node side.
\<close>

section \<open>State\<close>

text \<open>
  What is outside: the SQLite engine, \<open>std::sort\<close>, the order in which an \<open>unordered_map\<close> is traversed, the
  answer of the learning agent, and the text of a time in seconds, which only reaches the log tables.
\<close>

record ext =
  api :: sqlite
  sorts :: std_sorts
  iter_order :: "(u16 \<times> u32) list \<Rightarrow> (u16 \<times> u32) list"
  rl_agent :: "ObservationRequest \<Rightarrow> (u32 \<times> real) list option"
  show_seconds :: "Time \<Rightarrow> string"

datatype lm_kind = OranLmNoop | OranLmNr2NrMoni | OranLmNrRlQlearn rl_lm | OranLmNrRlDqn rl_lm

record lm =
  lm_kind :: lm_kind
  lm_name :: string
  lm_nearRtRic :: bool
  lm_verbose :: bool
  lm_active :: bool
  m_processingDelayRv :: rv
  m_cycle :: Time
  m_commands :: "OranCommand list"
  m_finishRunEvent :: EventId

record cmm =
  cmm_name :: string
  cmm_nearRtRic :: bool
  cmm_verbose :: bool
  cmm_active :: bool

datatype LateCommandPolicy = DROP | SAVE

datatype AddLmResult = ADDLM_OK | ADDLM_ERR_NAME_EXISTS

datatype RemoveLmResult = DELLM_OK | DELLM_ERR_NAME_INVALID

record oran = e2_side +
  lms :: "nat \<rightharpoonup> lm"
  the_cmm :: cmm
  data :: repository
  e2t_active :: bool
  e2t_nearRtRic :: bool
  e2t_data :: bool
  e2t_transmissionDelayRv :: rv
  m_nodeTerminators :: "(u64 \<times> nat option) list"
  ric_active :: bool
  ric_e2t :: bool
  ric_data :: bool
  ric_cmm :: bool
  m_defaultLm :: "nat option"
  m_additionalLms :: "(string \<times> nat) list"
  m_queryTriggers :: "(string \<times> (OranReport \<Rightarrow> bool)) list"
  m_lmQueryInterval :: Time
  m_lmQueryMaxWaitTime :: Time
  m_lmQueryLateCommandPolicy :: LateCommandPolicy
  m_e2NodeInactivityThreshold :: Time
  m_e2NodeInactivityIntervalRv :: rv
  m_lmQueryEvent :: EventId
  m_e2NodeInactivityEvent :: EventId
  m_processLmQueryCommandsEvent :: EventId
  m_lmQueryCycle :: Time
  m_lmQueryCommands :: "((string \<times> bool) \<times> OranCommand list) list"

type_synonym world = "oran \<times> oran_sim"

definition set_lm :: "nat \<Rightarrow> lm \<Rightarrow> oran \<Rightarrow> oran" where
  "set_lm l L W = W\<lparr>lms := (lms W)(l \<mapsto> L)\<rparr>"

section \<open>Logic Modules\<close>

definition LogLogicToRepository :: "ext \<Rightarrow> Time \<Rightarrow> lm \<Rightarrow> string \<Rightarrow> oran \<Rightarrow> oran res" where
  "LogLogicToRepository x now L msg W =
     abort_if (\<not> lm_nearRtRic L) ''Attempting to log LM logic with NULL Near-RT RIC''
       (if lm_verbose L
        then if ric_data W
          then res_bind (LogActionLm (api x) now (lm_name L)
                 (show_seconds x now @ '' -- '' @ lm_name L @ '' -- '' @ msg) (data W)) (\<lambda>R. Inr (W\<lparr>data := R\<rparr>))
          else Inl (UB ''null repository'')
        else Inr W)"

definition OranLmNoop_Run :: "ext \<Rightarrow> Time \<Rightarrow> lm \<Rightarrow> oran \<Rightarrow> (OranCommand list \<times> oran) res" where
  "OranLmNoop_Run x now L W =
     abort_if (\<not> lm_nearRtRic L) (''Attempting to run LM ('' @ lm_name L @ '') with NULL Near-RT RIC'')
       (res_bind (LogLogicToRepository x now L ''No action taken'' W) (\<lambda>W. Inr ([], W)))"

text \<open>The virtual \<open>Run()\<close> of the module at address \<open>l\<close>.\<close>

definition Lm_Run_virtual :: "ext \<Rightarrow> Time \<Rightarrow> nat \<Rightarrow> lm \<Rightarrow> oran \<Rightarrow> (OranCommand list \<times> oran) res" where
  "Lm_Run_virtual x now l L W =
     (let ric = if lm_nearRtRic L then Some (data W) else None
      in if lm_kind L \<noteq> OranLmNoop \<and> lm_active L \<and> lm_nearRtRic L \<and> \<not> ric_data W
         then Inl (UB ''null repository'')
         else case lm_kind L of
          OranLmNoop \<Rightarrow> OranLmNoop_Run x now L W
        | OranLmNr2NrMoni \<Rightarrow>
            res_bind (OranLmNr2NrMoni_Run (api x) (sorts x) now (lm_active L) ric) (\<lambda>cmds. Inr (cmds, W))
        | OranLmNrRlQlearn rl \<Rightarrow>
            res_bind (OranLmNrRlQlearn_Run (api x) (iter_order x) (rl_agent x) (lm_active L) ric rl) (\<lambda>(cmds, rl).
            Inr (cmds, set_lm l (L\<lparr>lm_kind := OranLmNrRlQlearn rl\<rparr>) W))
        | OranLmNrRlDqn rl \<Rightarrow>
            res_bind (OranLmNrRlDqn_Run (api x) (iter_order x) (rl_agent x) (lm_active L) ric rl) (\<lambda>(cmds, rl).
            Inr (cmds, set_lm l (L\<lparr>lm_kind := OranLmNrRlDqn rl\<rparr>) W)))"

definition IsRunning :: "oran_sim \<Rightarrow> lm \<Rightarrow> bool" where
  "IsRunning S L = IsPending S (m_finishRunEvent L)"

definition Lm_Activate :: "nat \<Rightarrow> world \<Rightarrow> world res" where
  "Lm_Activate l = (\<lambda>(W, S). deref (lms W) (Some l) (\<lambda>L.
     abort_if (\<not> lm_nearRtRic L) ''Attempting to activate LM with NULL Near-RT RIC''
       (Inr (set_lm l (L\<lparr>lm_active := True\<rparr>) W, S))))"

text \<open>The list of lost commands, \<open>{c1,c2}\<close>, for the log.\<close>

definition lost_commands :: "OranCommand list \<Rightarrow> string" where
  "lost_commands cmds = butlast ('' {'' @ concat (map (\<lambda>c. OranCommand_ToString c @ '','') cmds)) @ ''}''"

definition decimal_int :: "int \<Rightarrow> string" where
  "decimal_int i = (if i < 0 then ''-'' @ decimal (nat (- i)) else decimal (nat i))"

definition CancelRun :: "ext \<Rightarrow> nat \<Rightarrow> world \<Rightarrow> world res" where
  "CancelRun x l = (\<lambda>(W, S). deref (lms W) (Some l) (\<lambda>L.
     if lm_active L \<and> IsRunning S L
     then let S' = Cancel S (m_finishRunEvent L);
              msg = ''Run canceld for cycle '' @ decimal_int (m_cycle L) @ '' with '' @
                decimal (length (m_commands L)) @ '' command(s) lost''
          in res_bind (if m_commands L \<noteq> []
                       then LogLogicToRepository x (Now S) L (msg @ lost_commands (m_commands L)) W else Inr W)
             (\<lambda>W. Inr (set_lm l (L\<lparr>m_commands := []\<rparr>) W, S'))
     else Inr (W, S)))"

definition Lm_Deactivate :: "ext \<Rightarrow> nat \<Rightarrow> world \<Rightarrow> world res" where
  "Lm_Deactivate x l = (\<lambda>(W, S). deref (lms W) (Some l) (\<lambda>L.
     let W = set_lm l (L\<lparr>lm_active := False\<rparr>) W
     in if IsRunning S L then CancelRun x l (W, S) else Inr (W, S)))"

definition Lm_Run :: "ext \<Rightarrow> nat \<Rightarrow> Time \<Rightarrow> world \<Rightarrow> world res" where
  "Lm_Run x l cycle = (\<lambda>(W, S). deref (lms W) (Some l) (\<lambda>L.
     if lm_active L
     then abort_if (IsRunning S L) ''Attempting to run LM that is already running''
       (let delay = max 0 (GetValue (m_processingDelayRv L));
            L = L\<lparr>m_processingDelayRv := drawn (m_processingDelayRv L), m_cycle := cycle\<rparr>
        in res_bind (Lm_Run_virtual x (Now S) l L (set_lm l L W)) (\<lambda>(cmds, W).
           deref (lms W) (Some l) (\<lambda>L.
           res_bind (schedule delay (FinishRun_ev l) S) (\<lambda>(i, S).
           Inr (set_lm l (L\<lparr>m_commands := cmds, m_finishRunEvent := i\<rparr>) W, S)))))
     else Inr (W, S)))"

section \<open>Conflict mitigation\<close>

definition Cmm_Activate :: "oran \<Rightarrow> oran res" where
  "Cmm_Activate W = abort_if (\<not> cmm_nearRtRic (the_cmm W)) ''Attempting to activate LM with NULL Near-RT RIC''
     (Inr (W\<lparr>the_cmm := (the_cmm W)\<lparr>cmm_active := True\<rparr>\<rparr>))"

definition Cmm_Deactivate :: "oran \<Rightarrow> oran" where
  "Cmm_Deactivate W = W\<lparr>the_cmm := (the_cmm W)\<lparr>cmm_active := False\<rparr>\<rparr>"

definition LogLogicToStorage :: "ext \<Rightarrow> Time \<Rightarrow> string \<Rightarrow> oran \<Rightarrow> oran res" where
  "LogLogicToStorage x now msg W =
     (let c = the_cmm W
      in abort_if (\<not> cmm_nearRtRic c) ''Attempting to log CMM logic with NULL Near-RT RIC''
        (if cmm_verbose c
         then if ric_data W
           then res_bind (LogActionCmm (api x) now (cmm_name c)
                  (show_seconds x now @ '' -- '' @ cmm_name c @ '' -- '' @ msg) (data W)) (\<lambda>R. Inr (W\<lparr>data := R\<rparr>))
           else Inl (UB ''null repository'')
         else Inr W))"

definition OranCmmNoop_Filter ::
  "ext \<Rightarrow> Time \<Rightarrow> ((string \<times> bool) \<times> OranCommand list) list \<Rightarrow> oran \<Rightarrow> (OranCommand list \<times> oran) res" where
  "OranCmmNoop_Filter x now inputCommands W =
     abort_if (\<not> cmm_nearRtRic (the_cmm W)) ''Attempting to run Conflict Mitigation Module with NULL Near-RT RIC''
       (res_bind (LogLogicToStorage x now ''No action taken'' W) (\<lambda>W.
        Inr (concat (map snd inputCommands), W)))"

section \<open>The E2 terminator of the RIC\<close>

definition null_data :: string where
  "null_data = ''Attempting to use a null data repository in the Near-RT RIC E2 Terminator''"

definition E2t_Activate :: "oran \<Rightarrow> oran" where
  "E2t_Activate W = W\<lparr>e2t_active := True\<rparr>"

definition E2t_Deactivate :: "oran \<Rightarrow> oran" where
  "E2t_Deactivate W = W\<lparr>e2t_active := False\<rparr>"

text \<open>\<open>m_nodeTerminators[e2NodeId]\<close>: the terminator, after a null pointer was inserted if there was no entry.\<close>

definition node_terminator_at :: "u64 \<Rightarrow> oran \<Rightarrow> nat option \<times> oran" where
  "node_terminator_at e2NodeId W =
     (case map_of (m_nodeTerminators W) e2NodeId of
        Some p \<Rightarrow> (p, W)
      | None \<Rightarrow> (None, W\<lparr>m_nodeTerminators := smap_put e2NodeId None (m_nodeTerminators W)\<rparr>))"

definition send_to_node :: "oran_event \<Rightarrow> world \<Rightarrow> world res" where
  "send_to_node ev = (\<lambda>(W, S).
     res_bind (schedule (GetValue (e2t_transmissionDelayRv W)) ev S) (\<lambda>(i, S).
     Inr (W\<lparr>e2t_transmissionDelayRv := drawn (e2t_transmissionDelayRv W)\<rparr>, S)))"

text \<open>The registration in the repository, by the type of the node.\<close>

definition register_by_type ::
  "ext \<Rightarrow> Time \<Rightarrow> NodeType \<Rightarrow> u64 \<Rightarrow> node_terminator \<Rightarrow> repository \<Rightarrow> (u64 \<times> repository) res" where
  "register_by_type x now type id' T R =
     (case type of
        NRUE \<Rightarrow>
          if t_type T = NRUE
          then res_bind (GetNrNetDevice T) (\<lambda>dev. case dev of
              NrUeNetDevice imsi c r \<Rightarrow> RegisterNodeNrUe (api x) now id' imsi R
            | _ \<Rightarrow> Inl (NS_ABORT ''Unable to cast to NrUeNetDevice''))
          else Inl (UB ''uninitialised e2NodeId'')
      | NRGNB \<Rightarrow>
          if t_type T = NRGNB
          then res_bind (GetNrNetDevice T) (\<lambda>dev. case dev of
              NrGnbNetDevice c s h \<Rightarrow> RegisterNodeNrGnb (api x) now id' c R
            | _ \<Rightarrow> Inl (NS_ABORT ''Unable to cast to NrGnbNetDevice''))
          else Inl (UB ''null gNB terminator'')
      | WIRED \<Rightarrow> RegisterNode (api x) now WIRED id' R)"

definition ReceiveRegistrationRequest :: "ext \<Rightarrow> NodeType \<Rightarrow> u64 \<Rightarrow> nat \<Rightarrow> world \<Rightarrow> world res" where
  "ReceiveRegistrationRequest x type id' t = (\<lambda>(W, S).
     if e2t_active W
     then abort_if (\<not> e2t_data W) null_data (deref (terminators W) (Some t) (\<lambda>T.
       res_bind (register_by_type x (Now S) type id' T (data W)) (\<lambda>(e2NodeId, R).
       send_to_node (ReceiveRegistrationResponse_ev t e2NodeId)
         (W\<lparr>data := R, m_nodeTerminators := smap_put e2NodeId (Some t) (m_nodeTerminators W)\<rparr>, S))))
     else Inr (W, S))"

definition ReceiveDeregistrationRequest :: "ext \<Rightarrow> u64 \<Rightarrow> world \<Rightarrow> world res" where
  "ReceiveDeregistrationRequest x e2NodeId = (\<lambda>(W, S).
     if e2t_active W
     then abort_if (\<not> e2t_data W) null_data
       (res_bind (DeregisterNode (api x) (Now S) e2NodeId (data W)) (\<lambda>(deregistered, R).
        let (p, W) = node_terminator_at e2NodeId (W\<lparr>data := R\<rparr>)
        in send_to_node (ReceiveDeregistrationResponse_ev p deregistered) (W, S)))
     else Inr (W, S))"

definition SendCommand :: "ext \<Rightarrow> OranCommand \<Rightarrow> world \<Rightarrow> world res" where
  "SendCommand x command = (\<lambda>(W, S).
     if e2t_active W
     then abort_if (\<not> e2t_data W) null_data
       (res_bind (LogCommandE2Terminator (api x) (Now S) command (data W)) (\<lambda>R.
        let (p, W) = node_terminator_at (GetTargetE2NodeId command) (W\<lparr>data := R\<rparr>)
        in send_to_node (ReceiveCommand_ev p command) (W, S)))
     else Inr (W, S))"

definition ProcessCommands :: "ext \<Rightarrow> OranCommand list \<Rightarrow> world \<Rightarrow> world res" where
  "ProcessCommands x commands = (\<lambda>(W, S).
     if e2t_active W then for_each (\<lambda>w cmd. SendCommand x cmd w) commands (W, S) else Inr (W, S))"

text \<open>A report goes to the table of its type.\<close>

fun save_report :: "sqlite \<Rightarrow> OranReport \<Rightarrow> repository \<Rightarrow> repository res" where
  "save_report q (OranReportLocation n t pos) = SavePosition q n pos t"
| "save_report q (OranReportNrUeCellInfo n t cellId rnti) = SaveNrUeCellInfo q n cellId rnti t"
| "save_report q (OranReportAppLoss n t loss) = SaveAppLoss q n loss t"
| "save_report q (OranReportNrUeRsrpRsrq n t rnti cellId rsrp rsrq serving cc) =
     SaveNrUeRsrpRsrq q n t rnti cellId rsrp rsrq serving (ucast cc)"
| "save_report q (OranReportNrUeCqi n t rnti cqi mcs ri) = SaveNrUeCqi q n (NrUeCqi t rnti cqi mcs ri)"
| "save_report q (OranReportUeTxBuffer n t rnti lcid tx txHol retx retxHol pdu) =
     SaveNrUeBufferStatus q n (NrUeBufferStatus t rnti lcid tx txHol retx retxHol pdu)"
| "save_report q (OranReportNrUeTxPdu n t rnti lcid bytes) = SaveNrUeTxPdu q n (NrUeTxPdu t rnti lcid bytes)"
| "save_report q (OranReportNrUeTxDrop n t rnti lcid drops) = SaveNrUeTxDrop q n (NrUeTxDrop t rnti lcid drops)"

section \<open>The Near-RT RIC\<close>

definition Ric_Activate :: "ext \<Rightarrow> world \<Rightarrow> world res" where
  "Ric_Activate x = (\<lambda>(W, S).
     abort_if (\<not> ric_e2t W) ''Attempting to activate Near-RT RIC with a NULL E2 Terminator''
     (abort_if (m_defaultLm W = None) ''Attempting to activate Near-RT RIC with a NULL Default Logic Module''
     (abort_if (\<not> ric_cmm W) ''Attempting to activate Near-RT RIC with a NULL Conflict Mitigation Module''
     (abort_if (\<not> ric_data W) ''Attempting to activate Near-RT RIC with a NULL Data Repository''
     (if ric_active W then Inr (W, S)
      else let W = E2t_Activate (W\<lparr>ric_active := True\<rparr>)
        in res_bind (Repository_Activate (api x) (data W)) (\<lambda>R.
           res_bind (for_each (\<lambda>w l. Lm_Activate l w) (the (m_defaultLm W) # map snd (m_additionalLms W))
             (W\<lparr>data := R\<rparr>, S)) (\<lambda>(W, S).
           res_bind (Cmm_Activate W) (\<lambda>W. Inr (W, S)))))))))"

definition Ric_Deactivate :: "ext \<Rightarrow> world \<Rightarrow> world res" where
  "Ric_Deactivate x = (\<lambda>(W, S).
     if ric_active W
     then
       abort_if (\<not> ric_e2t W) ''Attempting to deactivate Near-RT RIC with a NULL E2 Terminator''
       (abort_if (m_defaultLm W = None) ''Attempting to deactivate Near-RT RIC with a NULL Default Logic Module''
       (abort_if (\<not> ric_cmm W) ''Attempting to deactivate Near-RT RIC with a NULL Conflict Mitigation Module''
       (abort_if (\<not> ric_data W) ''Attempting to deactivate Near-RT RIC with a NULL Data Repository''
       (let W = E2t_Deactivate W
        in res_bind (for_each (\<lambda>w l. Lm_Deactivate x l w) (the (m_defaultLm W) # map snd (m_additionalLms W))
             (W\<lparr>data := Repository_Deactivate (data W)\<rparr>, S)) (\<lambda>(W, S).
           Inr (Cmm_Deactivate W\<lparr>ric_active := False\<rparr>, S))))))
     else Inr (W\<lparr>ric_active := False\<rparr>, S))"

definition Ric_Stop :: "ext \<Rightarrow> world \<Rightarrow> world res" where
  "Ric_Stop x w = res_bind (Ric_Deactivate x w) (\<lambda>(W, S).
     Inr (W, Cancel (Cancel (Cancel S (m_lmQueryEvent W)) (m_e2NodeInactivityEvent W))
       (m_processLmQueryCommandsEvent W)))"

definition Ric_Start :: "ext \<Rightarrow> world \<Rightarrow> world res" where
  "Ric_Start x w = res_bind (Ric_Activate x w) (\<lambda>(W, S).
     abort_if (IsPending S (m_lmQueryEvent W)) ''Near-RT RIC has already been started''
     (abort_if (IsPending S (m_e2NodeInactivityEvent W)) ''Near-RT RIC has already been started''
     (res_bind (schedule (m_lmQueryInterval W) QueryLms_ev S) (\<lambda>(i, S).
      res_bind (schedule (GetValue (m_e2NodeInactivityIntervalRv W)) CheckForInactivity_ev S) (\<lambda>(j, S).
      Inr (W\<lparr>m_lmQueryEvent := i, m_e2NodeInactivityEvent := j,
        m_e2NodeInactivityIntervalRv := drawn (m_e2NodeInactivityIntervalRv W)\<rparr>, S))))))"

definition SetDefaultLogicModule :: "nat option \<Rightarrow> oran \<Rightarrow> oran res" where
  "SetDefaultLogicModule newDefaultLm W =
     abort_if (newDefaultLm = None) ''Attempting to set a NULL Default Logic Module in the Near-RT RIC''
       (Inr (W\<lparr>m_defaultLm := newDefaultLm\<rparr>))"

definition GetAdditionalLogicModule :: "string \<Rightarrow> oran \<Rightarrow> nat option" where
  "GetAdditionalLogicModule name W = map_of (m_additionalLms W) name"

definition AddLogicModule :: "nat \<Rightarrow> oran \<Rightarrow> (AddLmResult \<times> oran) res" where
  "AddLogicModule newLm W = deref (lms W) (Some newLm) (\<lambda>L.
     if map_of (m_additionalLms W) (lm_name L) = None
     then Inr (ADDLM_OK, W\<lparr>m_additionalLms := smap_put (lm_name L) newLm (m_additionalLms W)\<rparr>)
     else Inr (ADDLM_ERR_NAME_EXISTS, W))"

definition RemoveLogicModule :: "string \<Rightarrow> oran \<Rightarrow> RemoveLmResult \<times> oran" where
  "RemoveLogicModule name W =
     (if map_of (m_additionalLms W) name \<noteq> None
      then (DELLM_OK, W\<lparr>m_additionalLms := filter (\<lambda>e. fst e \<noteq> name) (m_additionalLms W)\<rparr>)
      else (DELLM_ERR_NAME_INVALID, W))"

definition AddQueryTrigger :: "string \<Rightarrow> (OranReport \<Rightarrow> bool) \<Rightarrow> oran \<Rightarrow> bool \<times> oran" where
  "AddQueryTrigger name trigger W =
     (if map_of (m_queryTriggers W) name = None
      then (True, W\<lparr>m_queryTriggers := smap_put name trigger (m_queryTriggers W)\<rparr>)
      else (False, W))"

definition RemoveQueryTrigger :: "string \<Rightarrow> oran \<Rightarrow> bool \<times> oran" where
  "RemoveQueryTrigger name W =
     (if map_of (m_queryTriggers W) name \<noteq> None
      then (True, W\<lparr>m_queryTriggers := filter (\<lambda>e. fst e \<noteq> name) (m_queryTriggers W)\<rparr>)
      else (False, W))"

text \<open>Commands of the Logic Modules: collected per module, filtered, and sent.\<close>

definition ProcessLmQueryCommands :: "ext \<Rightarrow> world \<Rightarrow> world res" where
  "ProcessLmQueryCommands x = (\<lambda>(W, S).
     if ric_active W
     then let S = (if IsPending S (m_processLmQueryCommandsEvent W)
                   then Cancel S (m_processLmQueryCommandsEvent W) else S)
       in if \<not> ric_cmm W \<or> \<not> ric_e2t W then Inl (UB ''null module'')
          else res_bind (OranCmmNoop_Filter x (Now S) (m_lmQueryCommands W) W) (\<lambda>(commands, W).
            res_bind (ProcessCommands x commands (W, S)) (\<lambda>(W, S).
            Inr (W\<lparr>m_lmQueryCommands := []\<rparr>, S)))
     else Inr (W, S))"

definition append_commands :: "string \<times> bool \<Rightarrow> OranCommand list \<Rightarrow> oran \<Rightarrow> oran" where
  "append_commands key commands W = W\<lparr>m_lmQueryCommands := smap_put key
     ((case map_of (m_lmQueryCommands W) key of None \<Rightarrow> [] | Some cs \<Rightarrow> cs) @ commands) (m_lmQueryCommands W)\<rparr>"

text \<open>Whether commands are still awaited: the deadline is pending, or there is none.\<close>

definition awaiting :: "world \<Rightarrow> bool" where
  "awaiting = (\<lambda>(W, S). IsPending S (m_processLmQueryCommandsEvent W) \<or> m_lmQueryMaxWaitTime W = 0)"

definition NotifyLmFinished :: "ext \<Rightarrow> Time \<Rightarrow> OranCommand list \<Rightarrow> nat \<Rightarrow> world \<Rightarrow> world res" where
  "NotifyLmFinished x cycle commands l = (\<lambda>(W, S). deref (lms W) (Some l) (\<lambda>L.
     let key = (lm_name L, m_defaultLm W = Some l);
         W = (if map_of (m_lmQueryCommands W) key \<noteq> None
              then W\<lparr>m_lmQueryCommands := smap_put key [] (m_lmQueryCommands W)\<rparr> else W)
     in if cycle = m_lmQueryCycle W
        then let W = (if awaiting (W, S) then append_commands key commands W
                      else case m_lmQueryLateCommandPolicy W of
                          DROP \<Rightarrow> W | SAVE \<Rightarrow> append_commands key commands W)
          in if length (m_lmQueryCommands W) = length (m_additionalLms W) + 1 \<and> awaiting (W, S)
             then ProcessLmQueryCommands x (W, S) else Inr (W, S)
        else Inl (NS_ABORT ''Near-RT RIC received command for unexpected cycle'')))"

definition FinishRun :: "ext \<Rightarrow> nat \<Rightarrow> world \<Rightarrow> world res" where
  "FinishRun x l = (\<lambda>(W, S). deref (lms W) (Some l) (\<lambda>L.
     if lm_active L
     then abort_if (\<not> lm_nearRtRic L) ''Attempting to run LM logic with NULL Near-RT RIC''
       (res_bind (NotifyLmFinished x (m_cycle L) (m_commands L) l (W, S)) (\<lambda>(W, S).
        deref (lms W) (Some l) (\<lambda>L. Inr (set_lm l (L\<lparr>m_commands := []\<rparr>) W, S))))
     else Inr (W, S)))"

text \<open>Nodes that have not registered for longer than the threshold are deregistered.\<close>

definition CheckForInactivity :: "ext \<Rightarrow> world \<Rightarrow> world res" where
  "CheckForInactivity x = (\<lambda>(W, S).
     if ric_active W
     then abort_if (\<not> ric_data W) ''Attempting to check for inactivity in Near-RT RIC with a NULL Data Repository''
       (abort_if (\<not> ric_e2t W) ''Attempting to check for inactivity in Near-RT RIC with a NULL E2 Terminator''
       (res_bind (GetLastRegistrationRequests (api x) (data W)) (\<lambda>lastRegistrations.
        res_bind (for_each (\<lambda>w (e2NodeId, registrationTime).
            if Now S - registrationTime > m_e2NodeInactivityThreshold W
            then ReceiveDeregistrationRequest x e2NodeId w else Inr w) lastRegistrations (W, S)) (\<lambda>(W, S).
        let S = (if IsPending S (m_e2NodeInactivityEvent W) then Cancel S (m_e2NodeInactivityEvent W) else S)
        in res_bind (schedule (GetValue (m_e2NodeInactivityIntervalRv W)) CheckForInactivity_ev S) (\<lambda>(i, S).
           Inr (W\<lparr>m_e2NodeInactivityEvent := i,
             m_e2NodeInactivityIntervalRv := drawn (m_e2NodeInactivityIntervalRv W)\<rparr>, S))))))
     else Inr (W, S))"

definition query_lm :: "ext \<Rightarrow> world \<Rightarrow> nat \<Rightarrow> world res" where
  "query_lm x = (\<lambda>(W, S) l. deref (lms W) (Some l) (\<lambda>L.
     res_bind (if IsRunning S L then CancelRun x l (W, S) else Inr (W, S)) (\<lambda>(W, S).
     Lm_Run x l (m_lmQueryCycle W) (W, S))))"

definition QueryLms :: "ext \<Rightarrow> world \<Rightarrow> world res" where
  "QueryLms x = (\<lambda>(W, S).
     if ric_active W
     then abort_if (\<not> ric_e2t W) ''Attempting to query LMs in a Near-RT RIC with a NULL E2 Terminator''
       (abort_if (m_defaultLm W = None) ''Attempting to query LMs in Near-RT RIC with a NULL Default Logic Module''
       (abort_if (\<not> ric_cmm W) ''Attempting to query LMs in Near-RT RIC with a NULL Conflict Mitigation Module''
       (abort_if (\<not> ric_data W) ''Attempting to query LMs in  Near-RT RIC with a NULL Data Repository''
       (res_bind (CheckForInactivity x (W\<lparr>m_lmQueryCycle := Now S\<rparr>, S)) (\<lambda>(W, S).
        res_bind (if m_lmQueryMaxWaitTime W > 0
                  then res_bind (schedule (m_lmQueryMaxWaitTime W) ProcessLmQueryCommands_ev S) (\<lambda>(i, S).
                    Inr (W\<lparr>m_processLmQueryCommandsEvent := i\<rparr>, S))
                  else Inr (W, S)) (\<lambda>(W, S).
        res_bind (for_each (query_lm x) (the (m_defaultLm W) # map snd (m_additionalLms W)) (W, S)) (\<lambda>(W, S).
        res_bind (schedule (m_lmQueryInterval W) QueryLms_ev S) (\<lambda>(i, S).
        Inr (W\<lparr>m_lmQueryEvent := i\<rparr>, S)))))))))
     else Inr (W, S))"

definition NotifyReportReceived :: "ext \<Rightarrow> OranReport \<Rightarrow> world \<Rightarrow> world res" where
  "NotifyReportReceived x report = (\<lambda>(W, S).
     if \<exists>(name, qtrigger) \<in> set (m_queryTriggers W). qtrigger report
     then QueryLms x (W, if IsPending S (m_lmQueryEvent W) then Cancel S (m_lmQueryEvent W) else S)
     else Inr (W, S))"

definition ReceiveReport :: "ext \<Rightarrow> OranReport \<Rightarrow> world \<Rightarrow> world res" where
  "ReceiveReport x report = (\<lambda>(W, S).
     if e2t_active W
     then abort_if (\<not> e2t_data W) null_data
       (res_bind (save_report (api x) report (data W)) (\<lambda>R.
        if e2t_nearRtRic W then NotifyReportReceived x report (W\<lparr>data := R\<rparr>, S)
        else Inl (UB ''null Near-RT RIC'')))
     else Inr (W, S))"

section \<open>Dispatch\<close>

text \<open>What the simulator runs for each scheduled call; a call through a null pointer is undefined.\<close>

definition call :: "nat option \<Rightarrow> (nat \<Rightarrow> world \<Rightarrow> world res) \<Rightarrow> world \<Rightarrow> world res" where
  "call p f w = (case p of None \<Rightarrow> Inl (UB ''null pointer'') | Some t \<Rightarrow> f t w)"

fun dispatch :: "ext \<Rightarrow> oran_event \<Rightarrow> world \<Rightarrow> world res" where
  "dispatch x (TriggerReport_ev g) w = TriggerReport g w"
| "dispatch x (Register_ev t) w = Register t w"
| "dispatch x (DoSendReports_ev t) w = DoSendReports t w"
| "dispatch x (ReceiveRegistrationResponse_ev t i) w = ReceiveRegistrationResponse t i w"
| "dispatch x (ReceiveDeregistrationResponse_ev p i) w = call p (\<lambda>t. ReceiveDeregistrationResponse t i) w"
| "dispatch x (ReceiveCommand_ev p c) w = call p (\<lambda>t. ReceiveCommand t c) w"
| "dispatch x (ReceiveRegistrationRequest_ev ty i t) w = ReceiveRegistrationRequest x ty i t w"
| "dispatch x (ReceiveDeregistrationRequest_ev i) w = ReceiveDeregistrationRequest x i w"
| "dispatch x (ReceiveReport_ev r) w = ReceiveReport x r w"
| "dispatch x (FinishRun_ev l) w = FinishRun x l w"
| "dispatch x QueryLms_ev w = QueryLms x w"
| "dispatch x CheckForInactivity_ev w = CheckForInactivity x w"
| "dispatch x ProcessLmQueryCommands_ev w = ProcessLmQueryCommands x w"

text \<open>A simulation of the O-RAN module: the event loop of ns-3 over these calls.\<close>

definition simulate :: "ext \<Rightarrow> world \<Rightarrow> world res option" where
  "simulate x w = Run MapScheduler (dispatch x) w"

section \<open>Lemmas\<close>

lemma Now_eq: "m_currentTs S' = m_currentTs S \<Longrightarrow> Now S' = Now S"
  by (simp add: Now_def)

lemma Cancel_frame [simp]:
  "m_uid (Cancel S i) = m_uid S" "m_currentTs (Cancel S i) = m_currentTs S"
  by (simp_all add: Cancel_def)

lemma sim_ok_Cancel: "sim_ok S \<Longrightarrow> sim_ok (Cancel S i)"
  using map_removal.Cancel_step by blast

text \<open>What the terminator of the RIC needs to work: it is active, has a repository, and the clock has room.\<close>

definition e2t_ready :: "nat \<Rightarrow> world \<Rightarrow> bool" where
  "e2t_ready n = (\<lambda>(W, S). e2t_active W \<and> e2t_data W \<and> sim_ok S \<and> space n S \<and> repo_inv (Now S) (data W) \<and>
     (\<forall>k. delay_ok S (rv_values (e2t_transmissionDelayRv W) k)))"

lemma send_to_node_ready:
  assumes "e2t_ready (Suc n) (W, S)"
  shows "\<exists>S'. send_to_node ev (W, S) = Inr (W\<lparr>e2t_transmissionDelayRv := drawn (e2t_transmissionDelayRv W)\<rparr>, S') \<and>
    e2t_ready n (W\<lparr>e2t_transmissionDelayRv := drawn (e2t_transmissionDelayRv W)\<rparr>, S') \<and>
    m_currentTs S' = m_currentTs S \<and>
    agenda S' = add_mset (after S (GetValue (e2t_transmissionDelayRv W)), ev) (agenda S)"
proof -
  have "delay_ok S (GetValue (e2t_transmissionDelayRv W))" using assms by (simp add: e2t_ready_def GetValue_def)
  from schedule_agenda [OF _ _ this, of n ev] assms
  obtain i S' where "schedule (GetValue (e2t_transmissionDelayRv W)) ev S = Inr (i, S')" "sim_ok S'" "space n S'"
    "m_currentTs S' = m_currentTs S" "agenda S' = add_mset (after S (GetValue (e2t_transmissionDelayRv W)), ev) (agenda S)"
    by (auto simp: e2t_ready_def)
  with assms show ?thesis
    by (auto simp: send_to_node_def res_simps e2t_ready_def Now_def delay_ok_def)
qed

lemma e2t_ready_data:
  "e2t_ready n (W, S) \<Longrightarrow> repo_inv (Now S) R \<Longrightarrow> e2t_ready n (W\<lparr>data := R, m_nodeTerminators := m\<rparr>, S)"
  by (simp add: e2t_ready_def)

lemma node_terminator_at_frame: "\<exists>p m. node_terminator_at e2NodeId W = (p, W\<lparr>m_nodeTerminators := m\<rparr>)"
proof (cases "map_of (m_nodeTerminators W) e2NodeId")
  case None
  then show ?thesis by (auto simp: node_terminator_at_def)
next
  case (Some p)
  then show ?thesis by (intro exI [of _ p] exI [of _ "m_nodeTerminators W"]) (simp add: node_terminator_at_def)
qed

text \<open>A deregistration takes exactly one node out of the repository.\<close>

lemma ReceiveDeregistrationRequest_ready:
  assumes "sqlite_ok (api x)" and "e2t_ready (Suc n) (W, S)"
  shows "\<exists>W' S'. ReceiveDeregistrationRequest x e2NodeId (W, S) = Inr (W', S') \<and> e2t_ready n (W', S') \<and>
    m_currentTs S' = m_currentTs S \<and> m_e2NodeInactivityIntervalRv W' = m_e2NodeInactivityIntervalRv W \<and>
    (\<forall>m. registered_now (data W') m = (m \<noteq> e2NodeId \<and> registered_now (data W) m))"
proof -
  have inv: "repo_inv (Now S) (data W)" using assms(2) by (simp add: e2t_ready_def)
  from sqlite_engine.DeregisterNode_deregisters [OF sqlite_engine.intro [OF assms(1)] inv, of e2NodeId]
  obtain R where R: "DeregisterNode (api x) (Now S) e2NodeId (data W) = Inr (e2NodeId, R)" "repo_inv (Now S) R"
    "\<forall>m. registered_now R m = (m \<noteq> e2NodeId \<and> registered_now (data W) m)" by blast
  obtain p m where p: "node_terminator_at e2NodeId (W\<lparr>data := R\<rparr>) = (p, W\<lparr>data := R, m_nodeTerminators := m\<rparr>)"
    using node_terminator_at_frame [of e2NodeId "W\<lparr>data := R\<rparr>"] by blast
  from send_to_node_ready [OF e2t_ready_data [OF assms(2) R(2), of m], of "ReceiveDeregistrationResponse_ev p e2NodeId"]
  show ?thesis using R p assms(2)
    by (auto simp: ReceiveDeregistrationRequest_def res_simps e2t_ready_def)
qed

text \<open>The loop of \<open>CheckForInactivity\<close>: of the listed nodes exactly those past the threshold go.\<close>

lemma inactivity_loop:
  fixes now thr :: Time
  assumes "sqlite_ok (api x)" and "e2t_ready (length regs + n) (W, S)"
  shows "\<exists>W' S'. for_each (\<lambda>w (e2NodeId, registrationTime).
        if now - registrationTime > thr then ReceiveDeregistrationRequest x e2NodeId w else Inr w) regs (W, S) = Inr (W', S') \<and>
    e2t_ready n (W', S') \<and> m_currentTs S' = m_currentTs S \<and>
    m_e2NodeInactivityIntervalRv W' = m_e2NodeInactivityIntervalRv W \<and>
    (\<forall>m. registered_now (data W') m =
       (registered_now (data W) m \<and> (\<forall>t. (m, t) \<in> set regs \<longrightarrow> now - t \<le> thr)))"
  using assms(2)
proof (induction regs arbitrary: W S)
  case (Cons reg regs)
  obtain e t where reg: "reg = (e, t)" by (cases reg)
  have "\<exists>W1 S1. (if now - t > thr then ReceiveDeregistrationRequest x e (W, S) else Inr (W, S)) = Inr (W1, S1) \<and>
      e2t_ready (length regs + n) (W1, S1) \<and> m_currentTs S1 = m_currentTs S \<and>
      m_e2NodeInactivityIntervalRv W1 = m_e2NodeInactivityIntervalRv W \<and>
      (\<forall>m. registered_now (data W1) m = (registered_now (data W) m \<and> (m = e \<longrightarrow> now - t \<le> thr)))"
  proof (cases "now - t > thr")
    case True
    with ReceiveDeregistrationRequest_ready [OF assms(1), of "length regs + n" W S e] Cons.prems
    show ?thesis by auto
  next
    case False
    have "e2t_ready (length regs + n) (W, S)" using Cons.prems by (simp add: e2t_ready_def space_def)
    with False show ?thesis by auto
  qed
  then obtain W1 S1 where 1: "(if now - t > thr then ReceiveDeregistrationRequest x e (W, S) else Inr (W, S)) = Inr (W1, S1)"
    "e2t_ready (length regs + n) (W1, S1)" "m_currentTs S1 = m_currentTs S"
    "m_e2NodeInactivityIntervalRv W1 = m_e2NodeInactivityIntervalRv W"
    "\<forall>m. registered_now (data W1) m = (registered_now (data W) m \<and> (m = e \<longrightarrow> now - t \<le> thr))" by blast
  from Cons.IH [OF 1(2)] 1 show ?case by (auto simp: reg res_simps)
qed simp

text \<open>Commands reach the agenda in the order given, each for the terminator of its target.\<close>

lemma LogCommandE2Terminator_inv:
  assumes "sqlite_ok q" and "repo_inv now R"
  shows "\<exists>R'. LogCommandE2Terminator q now cmd R = Inr R' \<and> repo_inv now R'"
proof -
  note eng = sqlite_engine.intro [OF assms(1)]
  obtain db where "m_db R = Some db" using assms(2) by (auto simp: repo_inv_def split: option.splits)
  with assms(2) show ?thesis
    by (auto simp: LogCommandE2Terminator_def sqlite_engine.if_registered_now [OF eng]
        sqlite_engine.exec_stmt_open [OF eng] sqlite_engine.repo_inv_db [OF eng])
qed

definition command_event :: "oran \<Rightarrow> OranCommand \<Rightarrow> oran_event" where
  "command_event W cmd = ReceiveCommand_ev (the (map_of (m_nodeTerminators W) (GetTargetE2NodeId cmd))) cmd"

lemma SendCommand_loop:
  assumes "sqlite_ok (api x)" and "e2t_ready (length cmds + n) (W, S)"
    and "\<forall>cmd \<in> set cmds. GetTargetE2NodeId cmd \<in> dom (map_of (m_nodeTerminators W))"
  shows "\<exists>R r S'. for_each (\<lambda>w cmd. SendCommand x cmd w) cmds (W, S) =
      Inr (W\<lparr>data := R, e2t_transmissionDelayRv := r\<rparr>, S') \<and>
    e2t_ready n (W\<lparr>data := R, e2t_transmissionDelayRv := r\<rparr>, S') \<and> m_currentTs S' = m_currentTs S \<and>
    agenda S' = agenda S + arrivals (m_currentTs S) (e2t_transmissionDelayRv W) (map (command_event W) cmds)"
  using assms(2,3)
proof (induction cmds arbitrary: W S)
  case Nil
  then show ?case by (intro exI [of _ "data W"] exI [of _ "e2t_transmissionDelayRv W"] exI [of _ S]) simp
next
  case (Cons cmd cmds)
  obtain p where p: "map_of (m_nodeTerminators W) (GetTargetE2NodeId cmd) = Some p" using Cons.prems(2) by auto
  have "repo_inv (Now S) (data W)" using Cons.prems(1) by (simp add: e2t_ready_def)
  from LogCommandE2Terminator_inv [OF assms(1) this, of cmd] obtain R where
    R: "LogCommandE2Terminator (api x) (Now S) cmd (data W) = Inr R" "repo_inv (Now S) R" by blast
  let ?W = "W\<lparr>data := R\<rparr>"
  let ?W1 = "?W\<lparr>e2t_transmissionDelayRv := drawn (e2t_transmissionDelayRv W)\<rparr>"
  have "e2t_ready (Suc (length cmds + n)) (?W, S)" using Cons.prems(1) R(2) by (simp add: e2t_ready_def)
  from send_to_node_ready [OF this, of "ReceiveCommand_ev p cmd"] obtain S1 where
    1: "send_to_node (ReceiveCommand_ev p cmd) (?W, S) = Inr (?W1, S1)" "e2t_ready (length cmds + n) (?W1, S1)"
    "m_currentTs S1 = m_currentTs S"
    "agenda S1 = add_mset (after S (GetValue (e2t_transmissionDelayRv W)), ReceiveCommand_ev p cmd) (agenda S)" by auto
  have send: "SendCommand x cmd (W, S) = Inr (?W1, S1)"
    using Cons.prems(1) R(1) 1(1) p by (simp add: SendCommand_def e2t_ready_def node_terminator_at_def res_simps)
  have ev: "command_event ?W1 = command_event W" by (rule ext) (simp add: command_event_def)
  from Cons.IH [OF 1(2)] Cons.prems(2) obtain R' r S' where
    "for_each (\<lambda>w cmd. SendCommand x cmd w) cmds (?W1, S1) = Inr (?W1\<lparr>data := R', e2t_transmissionDelayRv := r\<rparr>, S')"
    "e2t_ready n (?W1\<lparr>data := R', e2t_transmissionDelayRv := r\<rparr>, S')" "m_currentTs S' = m_currentTs S1"
    "agenda S' = agenda S1 + arrivals (m_currentTs S1) (drawn (e2t_transmissionDelayRv W)) (map (command_event W) cmds)"
    by (auto simp: ev)
  with send 1 p show ?case
    by (intro exI [of _ R'] exI [of _ r] exI [of _ S']) (simp add: res_simps after_def command_event_def [of W cmd])
qed

section \<open>Properties\<close>

text \<open>A gNB and a UE on the repository of the earlier examples, with a default module and one more.\<close>

definition demo_ext :: ext where
  "demo_ext = \<lparr>api = sqlite_ref, sorts = demo_sorts, iter_order = (\<lambda>xs. xs), rl_agent = (\<lambda>_. None),
     show_seconds = (\<lambda>_. [])\<rparr>"

definition demo_lm :: "string \<Rightarrow> lm" where
  "demo_lm name = \<lparr>lm_kind = OranLmNoop, lm_name = name, lm_nearRtRic = True, lm_verbose = False, lm_active = True,
     m_processingDelayRv = demo_rv 0, m_cycle = 10, m_commands = [], m_finishRunEvent = EventId_default\<rparr>"

definition demo_gnb :: node_terminator where
  "demo_gnb = demo_T\<lparr>t_type := NRGNB, m_e2NodeId := 1, t_node := Some \<lparr>env_mobility = None,
     env_devices = [OtherNetDevice, NrGnbNetDevice 4 (Some \<lparr>m_ulTargets = []\<rparr>) []]\<rparr>, m_netDeviceIndex := 1, m_reporters := []\<rparr>"

definition demo_oran :: oran where
  "demo_oran = \<lparr>reporters = [1 \<mapsto> demo_R], triggers = [1 \<mapsto> demo_G], terminators = [1 \<mapsto> demo_gnb, 2 \<mapsto> demo_T],
     lms = [1 \<mapsto> demo_lm ''default'', 2 \<mapsto> demo_lm ''extra''],
     the_cmm = \<lparr>cmm_name = ''CmmNoop'', cmm_nearRtRic = True, cmm_verbose = False, cmm_active = True\<rparr>,
     data = demo_repo, e2t_active = True, e2t_nearRtRic = True, e2t_data = True, e2t_transmissionDelayRv = demo_rv 5,
     m_nodeTerminators = [(1, Some 1), (2, Some 2)], ric_active = True, ric_e2t = True, ric_data = True, ric_cmm = True,
     m_defaultLm = Some 1, m_additionalLms = [(''extra'', 2)], m_queryTriggers = [], m_lmQueryInterval = 100,
     m_lmQueryMaxWaitTime = 0, m_lmQueryLateCommandPolicy = DROP, m_e2NodeInactivityThreshold = 7,
     m_e2NodeInactivityIntervalRv = demo_rv 50, m_lmQueryEvent = EventId_default, m_e2NodeInactivityEvent = EventId_default,
     m_processLmQueryCommandsEvent = EventId_default, m_lmQueryCycle = 10,
     m_lmQueryCommands = [((''default'', True), [OranCommandNr2NrHandover 1 4 9])]\<rparr>"

lemma demo_oran_simps [simp]:
  "terminators demo_oran = [1 \<mapsto> demo_gnb, 2 \<mapsto> demo_T]" "lms demo_oran = [1 \<mapsto> demo_lm ''default'', 2 \<mapsto> demo_lm ''extra'']"
  "cmm_nearRtRic (the_cmm demo_oran)" "\<not> cmm_verbose (the_cmm demo_oran)" "data demo_oran = demo_repo"
  "e2t_active demo_oran" "e2t_nearRtRic demo_oran" "e2t_data demo_oran" "e2t_transmissionDelayRv demo_oran = demo_rv 5"
  "m_nodeTerminators demo_oran = [(1, Some 1), (2, Some 2)]" "ric_active demo_oran" "ric_e2t demo_oran" "ric_data demo_oran"
  "ric_cmm demo_oran" "m_defaultLm demo_oran = Some 1" "m_additionalLms demo_oran = [(''extra'', 2)]"
  "m_queryTriggers demo_oran = []" "m_lmQueryMaxWaitTime demo_oran = 0" "m_e2NodeInactivityThreshold demo_oran = 7"
  "m_e2NodeInactivityIntervalRv demo_oran = demo_rv 50" "m_processLmQueryCommandsEvent demo_oran = EventId_default"
  "m_lmQueryCycle demo_oran = 10" "m_lmQueryCommands demo_oran = [((''default'', True), [OranCommandNr2NrHandover 1 4 9])]"
  by (simp_all add: demo_oran_def)

lemma demo_lm_simps [simp]: "lm_name (demo_lm n) = n" "lm_active (demo_lm n)" "lm_nearRtRic (demo_lm n)"
  by (simp_all add: demo_lm_def)

lemma demo_rv_simps [simp]: "rv_values (demo_rv d) = (\<lambda>k. d)" "GetValue (demo_rv d) = d"
  by (simp_all add: demo_rv_def GetValue_def)

definition demo_S10 :: oran_sim where
  "demo_S10 = demo_S\<lparr>m_currentTs := 10\<rparr>"

lemma demo_S10_ok: "sim_ok demo_S10" "space n demo_S10 = (n + 4 < 2 ^ 32)" "Now demo_S10 = 10"
  "delay_ok demo_S10 d = (0 \<le> d \<and> nat d + 10 < 2 ^ 64)"
  using demo_S_ok(1)
  by (auto simp: demo_S10_def demo_S_def space_def delay_ok_def Now_def DefaultSimulatorImpl_new_def UID_VALID_def sim_inv_def)

lemma demo_ready: "n + 4 < 2 ^ 32 \<Longrightarrow> e2t_ready n (demo_oran, demo_S10)"
  using demo_repo_inv by (simp add: e2t_ready_def demo_S10_ok)

lemma demo_api: "sqlite_ok (api demo_ext)"
  by (simp add: demo_ext_def sqlite_ref_ok)



text \<open>The commands that the RIC holds once a module has answered: the module's old entry makes way.\<close>

definition collected :: "string \<times> bool \<Rightarrow> OranCommand list \<Rightarrow> oran \<Rightarrow> ((string \<times> bool) \<times> OranCommand list) list" where
  "collected key commands W = smap_put key commands (m_lmQueryCommands W)"

lemma NotifyLmFinished_collect:
  assumes "lms W l = Some L" and "key = (lm_name L, m_defaultLm W = Some l)" and "smap_ok (m_lmQueryCommands W)"
    and "cycle = m_lmQueryCycle W" and "awaiting (W, S)"
  shows "NotifyLmFinished x cycle commands l (W, S) =
    (let W' = W\<lparr>m_lmQueryCommands := collected key commands W\<rparr>
     in if length (collected key commands W) = length (m_additionalLms W) + 1
        then ProcessLmQueryCommands x (W', S) else Inr (W', S))"
proof (cases "map_of (m_lmQueryCommands W) key")
  case None
  with assms show ?thesis
    by (simp add: NotifyLmFinished_def append_commands_def collected_def awaiting_def Let_def)
next
  case (Some cs)
  with assms show ?thesis
    by (simp add: NotifyLmFinished_def append_commands_def collected_def awaiting_def Let_def)
qed



text \<open>A late command that is saved for the next cycle is lost. Under the policy \<open>SAVE\<close> a command that comes
  after the deadline is stored; when the same module answers in the next cycle while others are still
  missing, the stored commands are exactly those of the new answer.\<close>

theorem saved_late_commands_lost:
  assumes "lms W l = Some L" and "key = (lm_name L, m_defaultLm W = Some l)" and "smap_ok (m_lmQueryCommands W)"
    and "map_of (m_lmQueryCommands W) key = None" and "m_lmQueryLateCommandPolicy W = SAVE"
    and "\<not> awaiting (W, S)" and "awaiting (W, S')"
    and "length (m_lmQueryCommands W) \<noteq> length (m_additionalLms W)"
  shows "\<exists>W1 W2. NotifyLmFinished x (m_lmQueryCycle W) late l (W, S) = Inr (W1, S) \<and>
    map_of (m_lmQueryCommands W1) key = Some late \<and>
    NotifyLmFinished x next l_cmds l (W1\<lparr>m_lmQueryCycle := next\<rparr>, S') = Inr (W2, S') \<and>
    map_of (m_lmQueryCommands W2) key = Some l_cmds"
proof -
  let ?W1 = "W\<lparr>m_lmQueryCommands := smap_put key late (m_lmQueryCommands W)\<rparr>"
  let ?W = "?W1\<lparr>m_lmQueryCycle := next\<rparr>"
  have 1: "NotifyLmFinished x (m_lmQueryCycle W) late l (W, S) = Inr (?W1, S)"
    using assms(1-6) by (simp add: NotifyLmFinished_def append_commands_def awaiting_def Let_def)
  have "lms ?W l = Some L" "key = (lm_name L, m_defaultLm ?W = Some l)" "smap_ok (m_lmQueryCommands ?W)"
    "next = m_lmQueryCycle ?W" "awaiting (?W, S')" using assms by (simp_all add: awaiting_def)
  from NotifyLmFinished_collect [OF this, of x l_cmds] assms(3,4,8)
  have "NotifyLmFinished x next l_cmds l (?W, S') = Inr (?W\<lparr>m_lmQueryCommands := collected key l_cmds ?W\<rparr>, S')"
    by (simp add: collected_def length_smap_put)
  with 1 assms(3) show ?thesis by (auto simp: collected_def)
qed

theorem saved_late_commands_lost_witness:
  "\<exists>W1 W2. let W = demo_oran\<lparr>m_lmQueryCommands := [], m_lmQueryLateCommandPolicy := SAVE, m_lmQueryMaxWaitTime := 3,
      m_processLmQueryCommandsEvent := EventId 1 12 0 5\<rparr>; S' = demo_S10\<lparr>impls := [1 \<mapsto> EventImpl ProcessLmQueryCommands_ev False]\<rparr>
    in NotifyLmFinished demo_ext 10 [OranCommand 1] 1 (W, demo_S10\<lparr>m_currentTs := 13\<rparr>) = Inr (W1, demo_S10\<lparr>m_currentTs := 13\<rparr>) \<and>
      NotifyLmFinished demo_ext 20 [] 1 (W1\<lparr>m_lmQueryCycle := 20\<rparr>, S') = Inr (W2, S') \<and>
      map_of (m_lmQueryCommands W2) (''default'', True) = Some []"
proof -
  let ?W = "demo_oran\<lparr>m_lmQueryCommands := [], m_lmQueryLateCommandPolicy := SAVE, m_lmQueryMaxWaitTime := 3,
    m_processLmQueryCommandsEvent := EventId 1 12 0 5\<rparr>"
  let ?S' = "demo_S10\<lparr>impls := [1 \<mapsto> EventImpl ProcessLmQueryCommands_ev False]\<rparr>"
  have "\<not> awaiting (?W, demo_S10\<lparr>m_currentTs := 13\<rparr>)" "awaiting (?W, ?S')"
    by (simp_all add: awaiting_def IsPending_def IsExpired_def UID_DESTROY_def EventImpl_IsCancelled_def demo_S10_def
        demo_S_def DefaultSimulatorImpl_new_def)
  from saved_late_commands_lost [OF _ _ _ _ _ this, of 1 "demo_lm ''default''" "(''default'', True)" demo_ext "[OranCommand 1]" 20 "[]"]
  show ?thesis by (auto simp: Let_def)
qed

text \<open>Deactivating a running Logic Module does not stop its run. The module becomes inactive, but its finish
  event stays pending and its commands are kept; if the module is activated again before the event runs, the
  event hands over the commands of the old run.\<close>

theorem deactivate_keeps_run:
  assumes "lms W l = Some L" and "lm_active L" and "lm_nearRtRic L" and "IsRunning S L"
  shows "\<exists>W'. Lm_Deactivate x l (W, S) = Inr (W', S) \<and> lms W' l = Some (L\<lparr>lm_active := False\<rparr>) \<and>
    res_bind (Lm_Activate l (W', S)) (FinishRun x l) = FinishRun x l (W, S)"
proof -
  have "Lm_Deactivate x l (W, S) = Inr (set_lm l (L\<lparr>lm_active := False\<rparr>) W, S)"
    using assms(1,4) by (simp add: Lm_Deactivate_def CancelRun_def set_lm_def Let_def)
  moreover have "Lm_Activate l (set_lm l (L\<lparr>lm_active := False\<rparr>) W, S) = Inr (W, S)"
  proof -
    have "L\<lparr>lm_active := True\<rparr> = L" using assms(2) by simp
    then show ?thesis
      using assms(1,3) by (simp add: Lm_Activate_def set_lm_def res_simps map_upd_triv)
  qed
  ultimately show ?thesis by (simp add: set_lm_def res_simps)
qed

lemma demo_running:
  "IsRunning (demo_S10\<lparr>impls := [1 \<mapsto> EventImpl (FinishRun_ev 1) False]\<rparr>)
    (demo_lm ''default''\<lparr>m_finishRunEvent := EventId 1 12 0 5\<rparr>)"
  by (simp add: IsRunning_def IsPending_def IsExpired_def UID_DESTROY_def EventImpl_IsCancelled_def demo_S10_def
      demo_S_def DefaultSimulatorImpl_new_def)

theorem deactivate_keeps_run_witness:
  "\<exists>W'. let W = demo_oran\<lparr>lms := [1 \<mapsto> demo_lm ''default''\<lparr>m_finishRunEvent := EventId 1 12 0 5\<rparr>]\<rparr>;
      S = demo_S10\<lparr>impls := [1 \<mapsto> EventImpl (FinishRun_ev 1) False]\<rparr>
    in Lm_Deactivate demo_ext 1 (W, S) = Inr (W', S) \<and>
      res_bind (Lm_Activate 1 (W', S)) (FinishRun demo_ext 1) = FinishRun demo_ext 1 (W, S)"
  using deactivate_keeps_run [OF _ _ _ demo_running,
      of "demo_oran\<lparr>lms := [1 \<mapsto> demo_lm ''default''\<lparr>m_finishRunEvent := EventId 1 12 0 5\<rparr>]\<rparr>" 1 demo_ext]
  by (auto simp: Let_def)

lemma ReceiveCommand_sets_targets:
  assumes "terminators W t = Some T" and "t_active T" and "t_type T = NRGNB"
    and "GetNrNetDevice T = Inr (NrGnbNetDevice c (Some s) hs)"
  shows "\<exists>W' T'. dispatch x (ReceiveCommand_ev (Some t) (OranCommandNrUlRbgTargets n targets)) (W, S) = Inr (W', S) \<and>
    terminators W' t = Some T' \<and> GetNrNetDevice T' = Inr (NrGnbNetDevice c (Some (SetUlTargets targets s)) hs) \<and>
    m_ulTargets (SetUlTargets targets s) = targets"
proof -
  from assms(3,4) obtain env where env: "t_node T = Some env" "m_netDeviceIndex T < length (env_devices env)"
    by (auto simp: GetNrNetDevice_def ns_assert_def split: option.splits if_splits)
  then have "GetNrNetDevice (set_device (NrGnbNetDevice c (Some (SetUlTargets targets s)) hs) T) =
      Inr (NrGnbNetDevice c (Some (SetUlTargets targets s)) hs)"
    using assms(3) by (simp add: GetNrNetDevice_def set_device_def res_simps Let_def)
  then show ?thesis
    using assms by (simp add: call_def ReceiveCommand_def res_simps SetUlTargets_def)
qed

text \<open>Targets that a command carries reach the scheduler. An active gNB terminator on a gNB device with the
  uplink target scheduler replaces the scheduler's targets by those of the command and changes
  nothing else of the device.\<close>

theorem targets_reach_scheduler:
  assumes "terminators W t = Some T" and "t_active T" and "t_type T = NRGNB"
    and "GetNrNetDevice T = Inr (NrGnbNetDevice c (Some s) hs)"
  shows "\<exists>W' T'. dispatch x (ReceiveCommand_ev (Some t) (OranCommandNrUlRbgTargets n targets)) (W, S) = Inr (W', S) \<and>
    terminators W' t = Some T' \<and> GetNrNetDevice T' = Inr (NrGnbNetDevice c (Some (SetUlTargets targets s)) hs) \<and>
    m_ulTargets (SetUlTargets targets s) = targets"
  using assms by (rule ReceiveCommand_sets_targets)

theorem targets_reach_scheduler_witness:
  "\<exists>W' T'. dispatch demo_ext (ReceiveCommand_ev (Some 1) (OranCommandNrUlRbgTargets 1 [(3, 20)])) (demo_oran, demo_S10) =
      Inr (W', demo_S10) \<and> terminators W' 1 = Some T' \<and>
    GetNrNetDevice T' = Inr (NrGnbNetDevice 4 (Some \<lparr>m_ulTargets = [(3, 20)]\<rparr>) [])"
proof -
  have "GetNrNetDevice demo_gnb = Inr (NrGnbNetDevice 4 (Some \<lparr>m_ulTargets = []\<rparr>) [])"
    by (simp add: demo_gnb_def demo_T_def GetNrNetDevice_def res_simps Let_def)
  from targets_reach_scheduler [OF _ _ _ this, of demo_oran 1 demo_ext 1 "[(3, 20)]" demo_S10] show ?thesis
    by (auto simp: SetUlTargets_def demo_gnb_def demo_T_def)
qed



end
