(* ===== verification/NrRlcHeader.thy ===== *)
theory NrRlcHeader
  imports OranPrelude "HOL-Library.Signed_Division"
begin

text \<open>
  The header of RLC PDUs in unacknowledged mode (\<open>src/nr/model/nr-rlc-header.cc\<close>) and the sequence
  numbers it carries (\<open>nr-rlc-sequence-number.h\<close>): 10-bit numbers with a modulus base for comparisons,
  and the packing of framing info, sequence number, extension bits and 11-bit length indicators into bytes.
\<close>

unbundle bit_operations_syntax

section \<open>Sequence numbers\<close>

record SequenceNumber10 =
  m_value :: u16
  m_modulusBase :: u16

definition SN :: "u16 \<Rightarrow> SequenceNumber10" where
  "SN value = \<lparr>m_value = value mod 1024, m_modulusBase = 0\<rparr>"

text \<open>Assignment of a number keeps the base.\<close>

definition sn_assign :: "SequenceNumber10 \<Rightarrow> u16 \<Rightarrow> SequenceNumber10" where
  "sn_assign sn value = sn\<lparr>m_value := value mod 1024\<rparr>"

definition SetModulusBase :: "SequenceNumber10 \<Rightarrow> SequenceNumber10 \<Rightarrow> SequenceNumber10" where
  "SetModulusBase base sn = sn\<lparr>m_modulusBase := m_value base\<rparr>"

definition sn_incr :: "SequenceNumber10 \<Rightarrow> SequenceNumber10" where
  "sn_incr sn = sn\<lparr>m_value := (m_value sn + 1) mod 1024\<rparr>"

definition sn_plus :: "SequenceNumber10 \<Rightarrow> u16 \<Rightarrow> SequenceNumber10" where
  "sn_plus sn delta = sn\<lparr>m_value := (m_value sn + delta) mod 1024\<rparr>"

text \<open>
  The remainder of the C++ \<open>int\<close> difference may be negative; the constructor converts it to
  \<open>uint16_t\<close> and takes the remainder again. As 1024 divides \<open>2^16\<close>, this is the difference of words.
\<close>

definition sn_minus :: "SequenceNumber10 \<Rightarrow> u16 \<Rightarrow> SequenceNumber10" where
  "sn_minus sn delta = sn\<lparr>m_value := (m_value sn - delta) mod 1024\<rparr>"

text \<open>In a comparison the remainder is not taken again: negative remainders become large numbers.\<close>

definition sn_offset :: "SequenceNumber10 \<Rightarrow> u16" where
  "sn_offset sn = word_of_int ((uint (m_value sn) - uint (m_modulusBase sn)) smod 1024)"

definition sn_gt :: "SequenceNumber10 \<Rightarrow> SequenceNumber10 \<Rightarrow> bool res" where
  "sn_gt a b = ns_assert (m_modulusBase a = m_modulusBase b) ''m_modulusBase == other.m_modulusBase''
     (Inr (sn_offset a > sn_offset b))"

definition sn_eq :: "SequenceNumber10 \<Rightarrow> SequenceNumber10 \<Rightarrow> bool" where
  "sn_eq a b = (m_value a = m_value b)"

definition sn_le :: "SequenceNumber10 \<Rightarrow> SequenceNumber10 \<Rightarrow> bool res" where
  "sn_le a b = res_bind (sn_gt a b) (\<lambda>g. Inr (\<not> g))"

definition sn_lt :: "SequenceNumber10 \<Rightarrow> SequenceNumber10 \<Rightarrow> bool res" where
  "sn_lt a b = res_bind (sn_gt a b) (\<lambda>g. Inr (\<not> g \<and> m_value a \<noteq> m_value b))"

section \<open>The header\<close>

record NrRlcHeader =
  m_headerLength :: u16
  m_framingInfo :: u8
  h_sequenceNumber :: SequenceNumber10
  m_extensionBits :: "u8 list"
  m_lengthIndicators :: "u16 list"

definition NrRlcHeader_new :: NrRlcHeader where
  "NrRlcHeader_new = \<lparr>m_headerLength = 0, m_framingInfo = 0xff, h_sequenceNumber = SN 0xfffa,
     m_extensionBits = [], m_lengthIndicators = []\<rparr>"

definition DATA_FIELD_FOLLOWS :: u8 where "DATA_FIELD_FOLLOWS = 0"
definition E_LI_FIELDS_FOLLOWS :: u8 where "E_LI_FIELDS_FOLLOWS = 1"
definition FIRST_BYTE :: u8 where "FIRST_BYTE = 0x00"
definition NO_FIRST_BYTE :: u8 where "NO_FIRST_BYTE = 0x02"
definition LAST_BYTE :: u8 where "LAST_BYTE = 0x00"
definition NO_LAST_BYTE :: u8 where "NO_LAST_BYTE = 0x01"

definition SetFramingInfo :: "u8 \<Rightarrow> NrRlcHeader \<Rightarrow> NrRlcHeader" where
  "SetFramingInfo framingInfo h = h\<lparr>m_framingInfo := framingInfo AND 0x03\<rparr>"

definition SetSequenceNumber :: "SequenceNumber10 \<Rightarrow> NrRlcHeader \<Rightarrow> NrRlcHeader" where
  "SetSequenceNumber sequenceNumber h = h\<lparr>h_sequenceNumber := sequenceNumber\<rparr>"

definition PushExtensionBit :: "u8 \<Rightarrow> NrRlcHeader \<Rightarrow> NrRlcHeader" where
  "PushExtensionBit extensionBit h =
     (let h = h\<lparr>m_extensionBits := m_extensionBits h @ [extensionBit]\<rparr>
      in if length (m_extensionBits h) = 1 then h\<lparr>m_headerLength := 2\<rparr>
         else if odd (length (m_extensionBits h)) then h\<lparr>m_headerLength := m_headerLength h + 1\<rparr>
         else h\<lparr>m_headerLength := m_headerLength h + 2\<rparr>)"

definition PushLengthIndicator :: "u16 \<Rightarrow> NrRlcHeader \<Rightarrow> NrRlcHeader" where
  "PushLengthIndicator lengthIndicator h = h\<lparr>m_lengthIndicators := m_lengthIndicators h @ [lengthIndicator]\<rparr>"

definition PopExtensionBit :: "NrRlcHeader \<Rightarrow> (u8 \<times> NrRlcHeader) res" where
  "PopExtensionBit h = (case m_extensionBits h of [] \<Rightarrow> Inl (UB ''m_extensionBits.front()'')
     | e # es \<Rightarrow> Inr (e, h\<lparr>m_extensionBits := es\<rparr>))"

definition PopLengthIndicator :: "NrRlcHeader \<Rightarrow> (u16 \<times> NrRlcHeader) res" where
  "PopLengthIndicator h = (case m_lengthIndicators h of [] \<Rightarrow> Inl (UB ''m_lengthIndicators.front()'')
     | li # lis \<Rightarrow> Inr (li, h\<lparr>m_lengthIndicators := lis\<rparr>))"

definition GetSerializedSize :: "NrRlcHeader \<Rightarrow> nat" where
  "GetSerializedSize h = unat (m_headerLength h)"

section \<open>Bytes\<close>

definition odd_byte :: "u8 \<Rightarrow> u16 \<Rightarrow> u8" where
  "odd_byte oddE oddLi = (push_bit 7 oddE AND 0x80) OR ucast (drop_bit 4 oddLi AND 0x007F)"

text \<open>The loop of \<open>Serialize\<close> over the bits and indicators after the fixed part.\<close>

fun serialize_lis :: "u8 list \<Rightarrow> u16 list \<Rightarrow> u8 list" where
  "serialize_lis (oddE # evenE # es) (oddLi # evenLi # lis) =
     odd_byte oddE oddLi
     # (ucast (push_bit 4 oddLi AND 0x00F0) OR (push_bit 3 evenE AND 0x08) OR ucast (drop_bit 8 evenLi AND 0x0007))
     # ucast (evenLi AND 0x00FF) # serialize_lis es lis"
| "serialize_lis (oddE # es) (oddLi # lis) = [odd_byte oddE oddLi, ucast (push_bit 4 oddLi AND 0x00F0)]"
| "serialize_lis es lis = []"

definition Serialize :: "NrRlcHeader \<Rightarrow> u8 list res" where
  "Serialize h =
     (case m_extensionBits h of
        [] \<Rightarrow> Inl (UB ''dereference of end()'')
      | e # es \<Rightarrow>
          let sn = m_value (h_sequenceNumber h)
          in Inr (((push_bit 3 (m_framingInfo h) AND 0x18) OR (push_bit 2 e AND 0x04) OR
                   ucast (drop_bit 8 sn AND 0x0003))
               # ucast (sn AND 0x00FF) # serialize_lis es (m_lengthIndicators h)))"

text \<open>The loop of \<open>Deserialize\<close>: extension bits, length indicators and the number of bytes read.\<close>

fun deserialize_lis :: "u8 list \<Rightarrow> (u8 list \<times> u16 list \<times> u16) res" where
  "deserialize_lis (byte_1 # byte_2 # bs) =
     (let oddE = drop_bit 7 (byte_1 AND 0x80);
          oddLi = push_bit 4 (ucast (byte_1 AND 0x7F)) OR ucast (drop_bit 4 (byte_2 AND 0xF0))
      in if oddE = E_LI_FIELDS_FOLLOWS
         then case bs of
             [] \<Rightarrow> Inl (NS_ASSERT ''read outside the buffer'')
           | byte_3 # bs \<Rightarrow>
               let evenE = drop_bit 3 (byte_2 AND 0x08);
                   evenLi = push_bit 8 (ucast (byte_2 AND 0x07)) OR ucast (byte_3 AND 0xFF)
               in if evenE = E_LI_FIELDS_FOLLOWS
                  then res_bind (deserialize_lis bs) (\<lambda>(es, lis, n).
                    Inr (oddE # evenE # es, oddLi # evenLi # lis, n + 3))
                  else Inr ([oddE, evenE], [oddLi, evenLi], 3)
         else Inr ([oddE], [oddLi], 2))"
| "deserialize_lis bs = Inl (NS_ASSERT ''read outside the buffer'')"

definition Deserialize :: "u8 list \<Rightarrow> NrRlcHeader res" where
  "Deserialize bs =
     (case bs of
        byte_1 # byte_2 # bs \<Rightarrow>
          let extensionBit = drop_bit 2 (byte_1 AND 0x04);
              h = NrRlcHeader_new\<lparr>m_headerLength := 2, m_framingInfo := drop_bit 3 (byte_1 AND 0x18),
                    h_sequenceNumber := sn_assign (h_sequenceNumber NrRlcHeader_new)
                      (push_bit 8 (ucast (byte_1 AND 0x03)) OR ucast byte_2),
                    m_extensionBits := [extensionBit]\<rparr>
          in if extensionBit = DATA_FIELD_FOLLOWS then Inr h
             else res_bind (deserialize_lis bs) (\<lambda>(es, lis, n).
               Inr (h\<lparr>m_headerLength := 2 + n, m_extensionBits := extensionBit # es, m_lengthIndicators := lis\<rparr>))
      | _ \<Rightarrow> Inl (NS_ASSERT ''read outside the buffer''))"

section \<open>Round trip\<close>

text \<open>The masks of the code, as runs of ones; a word is narrow when it fits into \<open>n\<close> bits.\<close>

lemma masks8:
  "(0x18 :: u8) = push_bit 3 (mask 2)" "(0x04 :: u8) = push_bit 2 (mask 1)" "(0x03 :: u8) = mask 2"
  "(0x80 :: u8) = push_bit 7 (mask 1)" "(0x7F :: u8) = mask 7" "(0xF0 :: u8) = push_bit 4 (mask 4)"
  "(0x08 :: u8) = push_bit 3 (mask 1)" "(0x07 :: u8) = mask 3" "(0xFF :: u8) = mask 8"
  by (simp_all add: mask_eq_exp_minus_1)

lemma masks16:
  "(0x0003 :: u16) = mask 2" "(0x00FF :: u16) = mask 8" "(0x007F :: u16) = mask 7"
  "(0x00F0 :: u16) = push_bit 4 (mask 4)" "(0x0007 :: u16) = mask 3"
  by (simp_all add: mask_eq_exp_minus_1)

definition narrow :: "nat \<Rightarrow> 'a :: len word \<Rightarrow> bool" where
  "narrow n w = (\<forall>k. bit w k \<longrightarrow> k < n)"

lemma narrow_less:
  assumes "unat w < 2 ^ n"
  shows "narrow n w"
  unfolding narrow_def
proof (intro allI impI)
  fix k assume "bit w k"
  then have "bit (unat w) k" by (simp add: bit_unsigned_iff)
  then have "odd (unat w div 2 ^ k)" by (simp add: bit_iff_odd)
  then have "2 ^ k \<le> unat w" by (metis div_less even_zero not_less)
  with assms have "(2 :: nat) ^ k < 2 ^ n" by (rule le_less_trans [rotated])
  then show "k < n" by simp
qed

lemmas masks = masks8 masks16

lemmas bits = narrow_def bit_simps

lemma fixed_part_bits:
  fixes f e :: u8 and sn :: u16
  defines "b \<equiv> (push_bit 3 f AND 0x18) OR (push_bit 2 e AND 0x04) OR ucast (drop_bit 8 sn AND 0x0003)"
  assumes "narrow 2 f" and "narrow 1 e" and "narrow 10 sn"
  shows "drop_bit 3 (b AND 0x18) = f" and "drop_bit 2 (b AND 0x04) = e"
    and "push_bit 8 (ucast (b AND 0x03)) OR ucast (ucast (sn AND 0x00FF) :: u8) = sn"
proof -
  show "drop_bit 3 (b AND 0x18) = f" unfolding b_def masks
    by (rule bit_word_eqI) (use assms(2) in \<open>auto simp: bits\<close>)
  show "drop_bit 2 (b AND 0x04) = e" unfolding b_def masks
    by (rule bit_word_eqI) (use assms(3) in \<open>auto simp: bits\<close>)
  show "push_bit 8 (ucast (b AND 0x03)) OR ucast (ucast (sn AND 0x00FF) :: u8) = sn" unfolding b_def masks
    by (rule bit_word_eqI) (use assms(4) in \<open>auto simp: bits\<close>)
qed

lemma odd_bits:
  fixes b :: u8
  assumes "narrow 1 e" and "narrow 11 li" and "narrow 4 b"
  shows "drop_bit 7 (odd_byte e li AND 0x80) = e"
    and "push_bit 4 (ucast (odd_byte e li AND 0x7F)) OR ucast (drop_bit 4 ((ucast (push_bit 4 li AND 0x00F0) OR b) AND 0xF0)) = li"
proof -
  show "drop_bit 7 (odd_byte e li AND 0x80) = e" unfolding odd_byte_def masks
    by (rule bit_word_eqI) (use assms(1) in \<open>auto simp: bits\<close>)
  show "push_bit 4 (ucast (odd_byte e li AND 0x7F)) OR ucast (drop_bit 4 ((ucast (push_bit 4 li AND 0x00F0) OR b) AND 0xF0)) = li"
    unfolding odd_byte_def masks
    by (rule bit_word_eqI) (use assms(2,3) in \<open>auto simp: bits\<close>)
qed

lemma even_bits:
  fixes a e :: u8 and li oddLi :: u16
  defines "b \<equiv> ucast (push_bit 4 oddLi AND 0x00F0) OR (push_bit 3 e AND 0x08) OR ucast (drop_bit 8 li AND 0x0007)"
  assumes "narrow 1 e" and "narrow 11 li"
  shows "drop_bit 3 (b AND 0x08) = e"
    and "push_bit 8 (ucast (b AND 0x07)) OR ucast ((ucast (li AND 0x00FF) :: u8) AND 0xFF) = li"
proof -
  show "drop_bit 3 (b AND 0x08) = e" unfolding b_def masks
    by (rule bit_word_eqI) (use assms(2) in \<open>auto simp: bits\<close>)
  show "push_bit 8 (ucast (b AND 0x07)) OR ucast ((ucast (li AND 0x00FF) :: u8) AND 0xFF) = li" unfolding b_def masks
    by (rule bit_word_eqI) (use assms(3) in \<open>auto simp: bits\<close>)
qed

text \<open>The extension bits of a header with \<open>k\<close> length indicators, and the bytes that these take.\<close>

definition ext_bits :: "nat \<Rightarrow> u8 list" where
  "ext_bits k = replicate k 1 @ [0]"

definition li_bytes :: "nat \<Rightarrow> nat" where
  "li_bytes k = (3 * k + 1) div 2"

lemma ext_bits_simps [simp]: "ext_bits 0 = [0]" "ext_bits (Suc k) = 1 # ext_bits k"
  by (simp_all add: ext_bits_def)

lemma length_ext_bits [simp]: "length (ext_bits k) = Suc k"
  by (simp add: ext_bits_def)

lemma li_bytes_simps [simp]: "li_bytes 0 = 0" "li_bytes (Suc 0) = 2" "li_bytes (Suc (Suc k)) = li_bytes k + 3"
  by (simp_all add: li_bytes_def)

definition header_ok :: "NrRlcHeader \<Rightarrow> bool" where
  "header_ok h =
     (m_framingInfo h < 4 \<and> m_value (h_sequenceNumber h) < 1024 \<and>
      (\<forall>li \<in> set (m_lengthIndicators h). li < 2048) \<and>
      m_extensionBits h = ext_bits (length (m_lengthIndicators h)) \<and>
      m_headerLength h = of_nat (2 + li_bytes (length (m_lengthIndicators h))))"

lemma narrow_bit [simp]: "narrow (Suc 0) (0 :: u8)" "narrow (Suc 0) (1 :: u8)"
  by (auto intro!: narrow_less)

lemma lis_roundtrip:
  assumes "lis \<noteq> []" and "\<forall>li \<in> set lis. narrow 11 li"
  shows "deserialize_lis (serialize_lis (ext_bits (length lis - 1)) lis @ rest) =
    Inr (ext_bits (length lis - 1), lis, of_nat (li_bytes (length lis)))"
  using assms
proof (induction lis rule: induct_list012)
  case (2 li)
  have "narrow 4 (0 :: u8)" by (simp add: narrow_def)
  from odd_bits [of 0 li 0] this 2 show ?case
    by (simp add: Let_def E_LI_FIELDS_FOLLOWS_def)
next
  case (3 oddLi evenLi lis)
  have n: "narrow 11 oddLi" "narrow 11 evenLi" using "3.prems" by auto
  let ?e = "if lis = [] then 0 else 1 :: u8"
  have e: "narrow 1 ?e" by simp
  let ?b = "(push_bit 3 ?e AND 0x08) OR ucast (drop_bit 8 evenLi AND 0x0007) :: u8"
  have "narrow 4 ?b" unfolding masks using n(2) by (auto simp: bits)
  note o = odd_bits [of 1 oddLi ?b, OF _ n(1) this] and ev = even_bits [OF e n(2), of oddLi]
  show ?case
  proof (cases "lis = []")
    case True
    with o ev show ?thesis by (simp add: Let_def E_LI_FIELDS_FOLLOWS_def or.assoc)
  next
    case False
    then obtain k where k: "length lis = Suc k" by (cases lis) auto
    from "3.IH"(1) False "3.prems"(2) have
      "deserialize_lis (serialize_lis (ext_bits k) lis @ rest) = Inr (ext_bits k, lis, of_nat (li_bytes (length lis)))"
      by (simp add: k)
    with o ev False show ?thesis by (simp add: Let_def E_LI_FIELDS_FOLLOWS_def or.assoc k)
  qed
qed simp

lemma length_serialize_lis:
  "length es = length lis \<Longrightarrow> length (serialize_lis es lis) = li_bytes (length lis)"
  by (induction es lis rule: serialize_lis.induct) (auto simp: length_Suc_conv)

lemma header_roundtrip:
  assumes "header_ok h"
  shows "\<exists>bs. Serialize h = Inr bs \<and> length bs = 2 + li_bytes (length (m_lengthIndicators h)) \<and>
    Deserialize (bs @ rest) = Inr (h\<lparr>h_sequenceNumber := SN (m_value (h_sequenceNumber h))\<rparr>)"
proof -
  let ?k = "length (m_lengthIndicators h)" and ?lis = "m_lengthIndicators h" and ?sn = "m_value (h_sequenceNumber h)"
  have n: "narrow 2 (m_framingInfo h)" "narrow 10 ?sn" "\<forall>li \<in> set ?lis. narrow 11 li"
    using assms by (auto simp: header_ok_def word_less_nat_alt intro!: narrow_less)
  have sn: "?sn mod 1024 = ?sn"
    using assms by (simp add: header_ok_def word_unat_eq_iff unat_mod word_less_nat_alt)
  have len: "m_headerLength h = of_nat (2 + li_bytes ?k)" "m_extensionBits h = ext_bits ?k"
    using assms by (auto simp: header_ok_def)
  show ?thesis
  proof (cases ?k)
    case 0
    from fixed_part_bits [OF n(1) _ n(2), of 0] len 0 sn show ?thesis
      by (simp add: Serialize_def Deserialize_def Let_def DATA_FIELD_FOLLOWS_def NrRlcHeader_new_def sn_assign_def SN_def
          NrRlcHeader.equality)
  next
    case (Suc k)
    have "deserialize_lis (serialize_lis (ext_bits k) ?lis @ rest) = Inr (ext_bits k, ?lis, of_nat (li_bytes (Suc k)))"
      using lis_roundtrip [OF _ n(3), of rest] Suc by force
    moreover have "length (serialize_lis (ext_bits k) ?lis) = li_bytes (Suc k)"
      using length_serialize_lis [of "ext_bits k" ?lis] Suc by simp
    ultimately show ?thesis using fixed_part_bits [OF n(1) _ n(2), of 1] len Suc sn
      by (simp add: Serialize_def Deserialize_def Let_def DATA_FIELD_FOLLOWS_def NrRlcHeader_new_def sn_assign_def SN_def
          NrRlcHeader.equality)
  qed
qed

text \<open>C34: headers survive the bytes. A header with a 2-bit framing info, a 10-bit sequence number and 11-bit length
  indicators, one extension bit before each of them and a final zero, is written to two bytes and twelve bits per
  indicator (rounded up to bytes), and reading these bytes in front of any payload gives the same header.\<close>

theorem rlc_header_roundtrip:
  assumes "header_ok h" and "m_modulusBase (h_sequenceNumber h) = 0"
  shows "\<exists>bs. Serialize h = Inr bs \<and> length bs = 2 + (3 * length (m_lengthIndicators h) + 1) div 2 \<and>
    Deserialize (bs @ payload) = Inr h"
proof -
  have "m_value (h_sequenceNumber h) mod 1024 = m_value (h_sequenceNumber h)"
    using assms(1) by (simp add: header_ok_def word_unat_eq_iff unat_mod word_less_nat_alt)
  then have "h\<lparr>h_sequenceNumber := SN (m_value (h_sequenceNumber h))\<rparr> = h"
    using assms(2) by (simp add: SN_def)
  with header_roundtrip [OF assms(1), of payload] show ?thesis by (simp add: li_bytes_def)
qed

theorem rlc_header_roundtrip_witness:
  "\<exists>bs. Serialize \<lparr>m_headerLength = 5, m_framingInfo = 1, h_sequenceNumber = SN 1023, m_extensionBits = [1, 1, 0],
      m_lengthIndicators = [2047, 3]\<rparr> = Inr bs \<and> length bs = 5 \<and>
    Deserialize (bs @ [7]) = Inr \<lparr>m_headerLength = 5, m_framingInfo = 1, h_sequenceNumber = SN 1023,
      m_extensionBits = [1, 1, 0], m_lengthIndicators = [2047, 3]\<rparr>"
proof -
  let ?h = "\<lparr>m_headerLength = 5, m_framingInfo = 1, h_sequenceNumber = SN 1023, m_extensionBits = [1, 1, 0],
      m_lengthIndicators = [2047, 3]\<rparr>"
  have "header_ok ?h" "m_modulusBase (h_sequenceNumber ?h) = 0"
    by (simp_all add: header_ok_def SN_def ext_bits_def li_bytes_def)
  from rlc_header_roundtrip [OF this, of "[7]"] show ?thesis by simp
qed

section \<open>Comparison of sequence numbers\<close>

text \<open>The distance of a sequence number from its modulus base, counted upwards modulo 1024.\<close>

definition sn_dist :: "SequenceNumber10 \<Rightarrow> nat" where
  "sn_dist sn = (unat (m_value sn) + 1024 - unat (m_modulusBase sn)) mod 1024"

definition sn_ok :: "SequenceNumber10 \<Rightarrow> bool" where
  "sn_ok sn = (unat (m_value sn) < 1024 \<and> unat (m_modulusBase sn) < 1024)"

lemma smod_1024: "- 1024 < d \<Longrightarrow> d < 1024 \<Longrightarrow> d smod 1024 = (d :: int)"
  by (cases "d < 0") (auto simp: signed_modulo_int_def sgn_if)

lemma offset_smod:
  assumes "v < 1024" and "b < (1024 :: nat)"
  shows "((int v - int b) smod 1024) mod 65536 = int (if b \<le> v then v - b else 65536 - (b - v))"
proof -
  have d: "(int v - int b) smod 1024 = int v - int b" using assms by (intro smod_1024) auto
  show ?thesis
  proof (cases "b \<le> v")
    case False
    have "(int v - int b) mod 65536 = (int v - int b + 65536) mod 65536" by simp
    also have "\<dots> = int v - int b + 65536" using False assms by (intro mod_pos_pos_trivial) auto
    finally show ?thesis using False assms by (simp add: d)
  qed (use assms in \<open>simp add: d\<close>)
qed

lemma unat_sn_offset:
  assumes "sn_ok sn"
  shows "unat (sn_offset sn) = (if unat (m_modulusBase sn) \<le> unat (m_value sn)
    then unat (m_value sn) - unat (m_modulusBase sn) else 65536 - (unat (m_modulusBase sn) - unat (m_value sn)))"
proof -
  have "int (unat (sn_offset sn)) = ((int (unat (m_value sn)) - int (unat (m_modulusBase sn))) smod 1024) mod 65536"
    unfolding sn_offset_def uint_nat [symmetric] uint_word_of_int by simp
  also have "\<dots> = int (if unat (m_modulusBase sn) \<le> unat (m_value sn) then unat (m_value sn) - unat (m_modulusBase sn)
      else 65536 - (unat (m_modulusBase sn) - unat (m_value sn)))"
    using assms unfolding sn_ok_def by (intro offset_smod) simp_all
  finally show ?thesis by (simp only: of_nat_eq_iff)
qed

text \<open>Comparing the unreduced remainders of the code is comparing the distances.\<close>

lemma sn_gt_dist:
  assumes "sn_ok a" and "sn_ok b" and "m_modulusBase a = m_modulusBase b"
  shows "sn_gt a b = Inr (sn_dist b < sn_dist a)"
proof -
  have "sn_dist sn = (if unat (m_modulusBase sn) \<le> unat (m_value sn)
    then unat (m_value sn) - unat (m_modulusBase sn) else unat (m_value sn) + 1024 - unat (m_modulusBase sn))"
    if "sn_ok sn" for sn
    using that by (auto simp: sn_dist_def sn_ok_def mod_if)
  then show ?thesis
    using assms by (auto simp: sn_gt_def word_less_nat_alt unat_sn_offset sn_ok_def)
qed

lemma sn_dist_inj:
  assumes "sn_ok a" and "sn_ok b" and "m_modulusBase a = m_modulusBase b"
  shows "sn_dist a = sn_dist b \<longleftrightarrow> m_value a = m_value b"
  using assms by (auto simp: sn_dist_def sn_ok_def word_unat_eq_iff mod_if split: if_splits)

lemma sn_lt_dist:
  assumes "sn_ok a" and "sn_ok b" and "m_modulusBase a = m_modulusBase b"
  shows "sn_lt a b = Inr (sn_dist a < sn_dist b)"
  using sn_gt_dist [OF assms] sn_dist_inj [OF assms] by (auto simp: sn_lt_def)

lemma sn_le_dist:
  assumes "sn_ok a" and "sn_ok b" and "m_modulusBase a = m_modulusBase b"
  shows "sn_le a b = Inr (sn_dist a \<le> sn_dist b)"
  using sn_gt_dist [OF assms] by (auto simp: sn_le_def)

end
