(* ===== verification/NrMacCe.thy ===== *)
theory NrMacCe
  imports NrRlcHeader
begin

text \<open>
  The MAC subheaders and the buffer status report of the NR module
  (\<open>src/nr/model/nr-mac-header-fs.cc\<close>, \<open>nr-mac-header-fs-ul.cc\<close>, \<open>nr-mac-header-vs.cc\<close>,
  \<open>nr-mac-short-bsr-ce.cc\<close>): the bytes of the subheaders, and the quantisation of buffer sizes into the
  levels of the SHORT BSR.
\<close>

section \<open>Subheaders of variable size\<close>

record NrMacHeaderVs =
  vs_lcid :: u8
  vs_size :: u16

definition NrMacHeaderVs_new :: NrMacHeaderVs where
  "NrMacHeaderVs_new = \<lparr>vs_lcid = 0, vs_size = 0\<rparr>"

definition NrMacHeaderVs_SetLcId :: "u8 \<Rightarrow> NrMacHeaderVs \<Rightarrow> NrMacHeaderVs res" where
  "NrMacHeaderVs_SetLcId lcId h =
     ns_assert (lcId \<in> set (map of_nat [0..<33])) ''m_allowedLcId.find (lcId) != m_allowedLcId.end ()''
       (Inr (h\<lparr>vs_lcid := lcId\<rparr>))"

definition NrMacHeaderVs_SetSize :: "u16 \<Rightarrow> NrMacHeaderVs \<Rightarrow> NrMacHeaderVs" where
  "NrMacHeaderVs_SetSize siz h = h\<lparr>vs_size := siz\<rparr>"

definition NrMacHeaderVs_GetSerializedSize :: "NrMacHeaderVs \<Rightarrow> u32" where
  "NrMacHeaderVs_GetSerializedSize h = (if vs_size h > 127 then 3 else 2)"

definition NrMacHeaderVs_Serialize :: "NrMacHeaderVs \<Rightarrow> u8 list" where
  "NrMacHeaderVs_Serialize h =
     (let firstByte = vs_lcid h AND 0x3F;
          firstByte = (if vs_size h > 127 then firstByte OR 0x40 else firstByte)
      in firstByte #
         (if vs_size h > 127 then [ucast (drop_bit 8 (vs_size h)), ucast (vs_size h AND 0xFF)]
          else [ucast (vs_size h)]))"

text \<open>\<open>ReadNtohU16\<close> and \<open>ReadU8\<close>, then the checks of \<open>Deserialize\<close> on the number of bytes read.\<close>

definition NrMacHeaderVs_Deserialize :: "u8 list \<Rightarrow> (NrMacHeaderVs \<times> u32) res" where
  "NrMacHeaderVs_Deserialize bs =
     (case bs of
        [] \<Rightarrow> Inl (NS_ASSERT ''read outside the buffer'')
      | firstByte # bs \<Rightarrow>
          let lcid = firstByte AND 0x3F;
              lFieldSize = firstByte AND 0xC0
          in res_bind
               (if lFieldSize = 0x40
                then (case bs of
                    b1 # b2 # _ \<Rightarrow> Inr (push_bit 8 (ucast b1) OR ucast b2, 3)
                  | _ \<Rightarrow> Inl (NS_ASSERT ''read outside the buffer''))
                else if lFieldSize = 0x00
                then (case bs of
                    b1 # _ \<Rightarrow> Inr (ucast b1, 2)
                  | _ \<Rightarrow> Inl (NS_ASSERT ''read outside the buffer''))
                else Inl (NS_ABORT ''The author of the code, who lies behind a christmas tree, is guilty''))
               (\<lambda>(siz, readBytes).
                  if siz > 127
                  then ns_assert (readBytes = 3) ''readBytes == 3'' (Inr (\<lparr>vs_lcid = lcid, vs_size = siz\<rparr>, readBytes))
                  else ns_assert (readBytes = 2) ''readBytes == 2'' (Inr (\<lparr>vs_lcid = lcid, vs_size = siz\<rparr>, readBytes))))"

section \<open>The SHORT BSR\<close>

definition SHORT_BSR :: u8 where "SHORT_BSR = 61"

text \<open>\<open>NrMacHeaderFs\<close> writes six bits and reads the whole byte.\<close>

definition NrMacHeaderFs_Serialize :: "u8 \<Rightarrow> u8 list" where
  "NrMacHeaderFs_Serialize lcid = [lcid AND 0x3F]"

definition NrMacHeaderFs_Deserialize :: "u8 list \<Rightarrow> u8 res" where
  "NrMacHeaderFs_Deserialize bs =
     (case bs of [] \<Rightarrow> Inl (NS_ASSERT ''read outside the buffer'') | b # _ \<Rightarrow> Inr b)"

record NrMacShortBsrCe =
  ce_header :: u8
  m_bufferSizeLevel_0 :: u8
  m_bufferSizeLevel_1 :: u8
  m_bufferSizeLevel_2 :: u8
  m_bufferSizeLevel_3 :: u8

definition NrMacShortBsrCe_new :: NrMacShortBsrCe where
  "NrMacShortBsrCe_new = \<lparr>ce_header = SHORT_BSR, m_bufferSizeLevel_0 = 0, m_bufferSizeLevel_1 = 0,
     m_bufferSizeLevel_2 = 0, m_bufferSizeLevel_3 = 0\<rparr>"

definition NrMacShortBsrCe_Serialize :: "NrMacShortBsrCe \<Rightarrow> u8 list res" where
  "NrMacShortBsrCe_Serialize c =
     ns_assert (m_bufferSizeLevel_0 c \<le> 31) ''m_bufferSizeLevel_0 <= 31''
    (ns_assert (m_bufferSizeLevel_1 c \<le> 31) ''m_bufferSizeLevel_1 <= 31''
    (ns_assert (m_bufferSizeLevel_2 c \<le> 31) ''m_bufferSizeLevel_2 <= 31''
    (ns_assert (m_bufferSizeLevel_3 c \<le> 31) ''m_bufferSizeLevel_3 <= 31''
      (Inr (NrMacHeaderFs_Serialize (ce_header c) @
         [m_bufferSizeLevel_0 c, m_bufferSizeLevel_1 c, m_bufferSizeLevel_2 c, m_bufferSizeLevel_3 c])))))"

definition NrMacShortBsrCe_Deserialize :: "u8 list \<Rightarrow> NrMacShortBsrCe res" where
  "NrMacShortBsrCe_Deserialize bs =
     res_bind (NrMacHeaderFs_Deserialize bs) (\<lambda>lcid.
       ns_assert (lcid = SHORT_BSR) ''m_header.GetLcId () == NrMacHeaderFsUl::SHORT_BSR''
        (case tl bs of
           l0 # l1 # l2 # l3 # _ \<Rightarrow>
             Inr \<lparr>ce_header = lcid, m_bufferSizeLevel_0 = l0, m_bufferSizeLevel_1 = l1,
                  m_bufferSizeLevel_2 = l2, m_bufferSizeLevel_3 = l3\<rparr>
         | _ \<Rightarrow> Inl (NS_ASSERT ''read outside the buffer'')))"

definition NrMacShortBsrCe_GetSerializedSize :: "NrMacShortBsrCe \<Rightarrow> u32" where
  "NrMacShortBsrCe_GetSerializedSize c = 1 + 4"

section \<open>Buffer levels\<close>

text \<open>The table of both conversions.\<close>

definition lookupVector :: "u64 list" where
  "lookupVector =
     [0, 10, 14, 20, 28, 38, 53, 74, 102, 142, 198,
      276, 384, 535, 745, 1038, 1446, 2014, 2806, 3909, 5446, 7587,
      10570, 14726, 20516, 28581, 39818, 55474, 77284, 107669, 150000]"

text \<open>The search over the entries from \<open>index\<close> on; past the last entry it would read out of the vector.\<close>

fun find_level :: "u64 list \<Rightarrow> u64 \<Rightarrow> u8 \<Rightarrow> u8 res" where
  "find_level [] bufferSize index = Inl (UB ''lookupVector[index]'')"
| "find_level (x # xs) bufferSize index =
     (if x < bufferSize then find_level xs bufferSize (index + 1) else Inr index)"

definition FromBytesToLevel :: "u64 \<Rightarrow> u8 res" where
  "FromBytesToLevel bufferSize =
     ns_assert (last lookupVector = 150000) ''lookupVector.back() == 150000''
       (res_bind
          (if bufferSize > last lookupVector then Inr 31
           else if bufferSize = 0 then Inr 0
           else find_level lookupVector bufferSize 0)
          (\<lambda>index. ns_assert (index \<le> 31) ''index <= 31'' (Inr index)))"

definition FromLevelToBytes :: "u8 \<Rightarrow> u64" where
  "FromLevelToBytes bufferLevel =
     (if unat bufferLevel > length lookupVector - 1 then 150000 * 8 else lookupVector ! unat bufferLevel)"

section \<open>Properties\<close>

lemma vs_first_byte:
  fixes lcid :: u8
  assumes "lcid \<le> 32"
  shows "lcid AND 0x3F = lcid" "lcid AND 0xC0 = 0" "(lcid OR 0x40) AND 0x3F = lcid" "(lcid OR 0x40) AND 0xC0 = 0x40"
proof -
  have n: "narrow 6 lcid" using assms by (intro narrow_less) (simp add: word_le_nat_alt)
  have m: "(0x3F :: u8) = mask 6" "(0xC0 :: u8) = push_bit 6 (mask 2)"
    by (simp_all add: mask_eq_exp_minus_1)
  have b: "bit (0x40 :: int) k \<longleftrightarrow> k = 6" for k
    using bit_exp_iff [of 6 k, where 'a = int] by auto
  show "lcid AND 0x3F = lcid" "lcid AND 0xC0 = 0" "(lcid OR 0x40) AND 0x3F = lcid" "(lcid OR 0x40) AND 0xC0 = 0x40"
    unfolding m using n by - (rule bit_word_eqI; auto simp: bits b)+
qed

lemma vs_size_bytes:
  fixes siz :: u16
  shows "push_bit 8 (ucast (ucast (drop_bit 8 siz) :: u8)) OR ucast (ucast (siz AND 0xFF) :: u8) = siz"
  unfolding masks16 by (rule bit_word_eqI) (auto simp: bits)

lemma vs_small_size:
  assumes "(siz :: u16) \<le> 127"
  shows "(ucast (ucast siz :: u8) :: u16) = siz"
proof -
  have "narrow 7 siz" using assms by (intro narrow_less) (simp add: word_le_nat_alt)
  then show ?thesis by - (rule bit_word_eqI, auto simp: bits)
qed

lemma vs_roundtrip:
  assumes "vs_lcid h \<le> 32"
  shows "NrMacHeaderVs_Deserialize (NrMacHeaderVs_Serialize h @ payload) = Inr (h, NrMacHeaderVs_GetSerializedSize h)"
proof (cases "vs_size h > 127")
  case True
  then show ?thesis using vs_first_byte [OF assms] vs_size_bytes [of "vs_size h"]
    by (simp add: NrMacHeaderVs_Deserialize_def NrMacHeaderVs_Serialize_def NrMacHeaderVs_GetSerializedSize_def
        Let_def del: of_nat_numeral)
next
  case False
  then have small: "vs_size h \<le> 127" by simp
  show ?thesis using vs_first_byte [OF assms] small
    by (simp add: NrMacHeaderVs_Deserialize_def NrMacHeaderVs_Serialize_def NrMacHeaderVs_GetSerializedSize_def
        Let_def not_less [symmetric] vs_small_size [OF small])
qed

lemma vs_length: "length (NrMacHeaderVs_Serialize h) = unat (NrMacHeaderVs_GetSerializedSize h)"
  by (simp add: NrMacHeaderVs_Serialize_def NrMacHeaderVs_GetSerializedSize_def Let_def)

lemma find_level_finds:
  assumes "b \<le> last xs" and "xs \<noteq> []"
  shows "\<exists>k. find_level xs b i = Inr (i + of_nat k) \<and> k < length xs \<and> b \<le> xs ! k \<and> (\<forall>j < k. xs ! j < b)"
  using assms
proof (induction xs arbitrary: i)
  case (Cons x xs)
  show ?case
  proof (cases "x < b")
    case True
    with Cons.prems have "xs \<noteq> []" "b \<le> last xs" by (auto split: if_splits)
    with Cons.IH [of "i + 1"] obtain k where k: "find_level xs b (i + 1) = Inr (i + 1 + of_nat k)"
      "k < length xs" "b \<le> xs ! k" "\<forall>j < k. xs ! j < b" by blast
    have "\<forall>j < Suc k. (x # xs) ! j < b" using True k(4) by (auto simp: less_Suc_eq_0_disj)
    with k True show ?thesis by (intro exI [of _ "Suc k"]) (simp add: ac_simps)
  qed (auto intro: exI [of _ 0])
qed simp

lemma length_lookupVector [simp]: "length lookupVector = 31"
  by (simp add: lookupVector_def)

lemma last_lookupVector [simp]: "last lookupVector = 150000"
  by (simp add: lookupVector_def)

lemma level_of_bytes:
  assumes "b \<le> 150000"
  obtains k where "FromBytesToLevel b = Inr (of_nat k)" "k < 31" "b \<le> lookupVector ! k" "\<forall>j < k. lookupVector ! j < b"
proof (cases "b = 0")
  case True
  have "FromBytesToLevel b = Inr (of_nat 0)" by (simp add: FromBytesToLevel_def True)
  with True show ?thesis using that [of 0] by simp
next
  case False
  have ne: "lookupVector \<noteq> []" by (simp add: lookupVector_def)
  from find_level_finds [of b lookupVector 0] assms ne obtain k where
    k: "find_level lookupVector b 0 = Inr (of_nat k)" "k < 31" "b \<le> lookupVector ! k" "\<forall>j < k. lookupVector ! j < b"
    by auto
  have "(of_nat k :: u8) \<le> 31" using k(2) by (simp add: word_le_nat_alt unat_of_nat)
  then have "FromBytesToLevel b = Inr (of_nat k)" using assms False k(1)
    by (simp add: FromBytesToLevel_def not_less [symmetric])
  with k that show ?thesis by blast
qed

lemma FromLevelToBytes_of_nat: "k < 31 \<Longrightarrow> FromLevelToBytes (of_nat k) = lookupVector ! k"
  by (simp add: FromLevelToBytes_def unat_of_nat)

lemma FromBytesToLevel_big: "150000 < b \<Longrightarrow> FromBytesToLevel b = Inr 31"
  by (simp add: FromBytesToLevel_def)

lemma FromBytesToLevel_total: "\<exists>l. FromBytesToLevel b = Inr l \<and> l \<le> 31"
proof (cases "b \<le> 150000")
  case True
  from level_of_bytes [OF True] obtain k where "FromBytesToLevel b = Inr (of_nat k)" "k < 31" by metis
  then show ?thesis by (auto simp: word_le_nat_alt unat_of_nat)
qed (simp add: FromBytesToLevel_big not_le)

lemma level_covers:
  assumes "b \<le> 1200000" and "FromBytesToLevel b = Inr l"
  shows "b \<le> FromLevelToBytes l"
proof (cases "b \<le> 150000")
  case True
  from level_of_bytes [OF True] obtain k where "FromBytesToLevel b = Inr (of_nat k)" "k < 31" "b \<le> lookupVector ! k"
    by metis
  with assms(2) show ?thesis by (auto simp: FromLevelToBytes_of_nat)
next
  case False
  with assms have "l = 31" by (simp add: FromBytesToLevel_big not_le)
  with assms(1) show ?thesis by (simp add: FromLevelToBytes_def)
qed

lemma level_is_least:
  assumes "FromBytesToLevel b = Inr l" and "l' < l"
  shows "FromLevelToBytes l' < b"
proof (cases "b \<le> 150000")
  case True
  from level_of_bytes [OF True] obtain k where k: "FromBytesToLevel b = Inr (of_nat k)" "k < 31"
    "\<forall>j < k. lookupVector ! j < b" by metis
  with assms have "unat l' < k" by (auto simp: word_less_nat_alt unat_of_nat)
  with k show ?thesis using FromLevelToBytes_of_nat [of "unat l'"] by simp
next
  case False
  with assms have l: "unat l' < 31" by (simp add: FromBytesToLevel_big not_le word_less_nat_alt)
  have "\<forall>x \<in> set lookupVector. x \<le> 150000" by (simp add: lookupVector_def)
  then have "FromLevelToBytes l' \<le> 150000" using l FromLevelToBytes_of_nat [of "unat l'"] by simp
  with False show ?thesis by simp
qed

lemma level_roundtrip:
  assumes "l \<le> 31"
  shows "FromBytesToLevel (FromLevelToBytes l) = Inr l"
proof -
  have "unat l \<in> set [0..<32]" using assms by (simp add: word_le_nat_alt)
  moreover have "\<forall>k \<in> set [0..<32]. FromBytesToLevel (FromLevelToBytes (of_nat k)) = Inr (of_nat k)"
    by (simp add: FromBytesToLevel_def FromLevelToBytes_def lookupVector_def upt_rec)
  ultimately show ?thesis by (metis of_nat_unat ucast_id)
qed

lemma bsr_ce_roundtrip:
  assumes "ce_header c = SHORT_BSR" and "NrMacShortBsrCe_Serialize c = Inr bs"
  shows "NrMacShortBsrCe_Deserialize (bs @ payload) = Inr c" and "length bs = 5"
  using assms
  by (auto simp: NrMacShortBsrCe_Serialize_def NrMacShortBsrCe_Deserialize_def NrMacHeaderFs_Serialize_def
      NrMacHeaderFs_Deserialize_def SHORT_BSR_def res_simps)

end
