(* ===== verification/NrMacLcg.thy ===== *)
theory NrMacLcg
  imports OranPrelude Complex_Main "HOL-Library.AList"
begin

text \<open>
  The bearer requirements (\<open>src/nr/model/nr-eps-bearer.cc\<close>) and the logical channels and logical channel
  groups that the MAC scheduler keeps for every UE (\<open>nr-mac-scheduler-lcg.cc\<close>). An \<open>unordered_map\<close> is an
  association list in the order of its iteration; a new entry is placed at the front, as libstdc++ does for
  a new bucket, and no property depends on the order.
\<close>

section \<open>Bearers\<close>

text \<open>Resource type, priority, delay budget in ms, error loss rate, maximum data burst, averaging window.\<close>

type_synonym Requirements = "u8 \<times> u8 \<times> u16 \<times> real \<times> u32 \<times> u32"

definition GetRequirementsRel11 :: "(u8 \<times> Requirements) list" where
  "GetRequirementsRel11 =
    [(1, (1, 2, 100, 1 / 10 ^ 2, 0, 0)), (2, (1, 4, 150, 1 / 10 ^ 3, 0, 0)),
     (3, (1, 3, 50, 1 / 10 ^ 3, 0, 0)), (4, (1, 5, 300, 1 / 10 ^ 6, 0, 0)),
     (5, (0, 1, 100, 1 / 10 ^ 6, 0, 0)), (6, (0, 6, 300, 1 / 10 ^ 6, 0, 0)),
     (7, (0, 7, 100, 1 / 10 ^ 3, 0, 0)), (8, (0, 8, 300, 1 / 10 ^ 6, 0, 0)),
     (9, (0, 9, 300, 1 / 10 ^ 6, 0, 0))]"

definition GetRequirementsRel15 :: "(u8 \<times> Requirements) list" where
  "GetRequirementsRel15 =
    [(1, (1, 20, 100, 1 / 10 ^ 2, 0, 2000)), (2, (1, 40, 150, 1 / 10 ^ 3, 0, 2000)),
     (3, (1, 30, 50, 1 / 10 ^ 3, 0, 2000)), (4, (1, 50, 300, 1 / 10 ^ 6, 0, 2000)),
     (65, (1, 7, 75, 1 / 10 ^ 2, 0, 2000)), (66, (1, 20, 100, 1 / 10 ^ 2, 0, 2000)),
     (67, (1, 15, 100, 1 / 10 ^ 3, 0, 2000)), (75, (1, 25, 50, 1 / 10 ^ 2, 0, 2000)),
     (5, (0, 10, 100, 1 / 10 ^ 6, 0, 0)), (6, (0, 60, 300, 1 / 10 ^ 6, 0, 0)),
     (7, (0, 70, 100, 1 / 10 ^ 3, 0, 0)), (8, (0, 80, 300, 1 / 10 ^ 6, 0, 0)),
     (9, (0, 90, 300, 1 / 10 ^ 6, 0, 0)), (69, (0, 5, 60, 1 / 10 ^ 6, 0, 0)),
     (70, (0, 55, 200, 1 / 10 ^ 6, 0, 0)), (79, (0, 65, 5, 1 / 10 ^ 2, 0, 0)),
     (80, (0, 68, 10, 1 / 10 ^ 6, 0, 0)), (82, (2, 19, 10, 1 / 10 ^ 4, 255, 2000)),
     (83, (2, 22, 10, 1 / 10 ^ 4, 1358, 2000)), (84, (2, 24, 30, 1 / 10 ^ 5, 1354, 2000)),
     (85, (2, 21, 5, 1 / 10 ^ 5, 255, 2000))]"

definition GetRequirementsRel18 :: "(u8 \<times> Requirements) list" where
  "GetRequirementsRel18 =
    [(1, (1, 20, 100, 1 / 10 ^ 2, 0, 2000)), (2, (1, 40, 150, 1 / 10 ^ 3, 0, 2000)),
     (3, (1, 30, 50, 1 / 10 ^ 3, 0, 2000)), (4, (1, 50, 300, 1 / 10 ^ 6, 0, 2000)),
     (65, (1, 7, 75, 1 / 10 ^ 2, 0, 2000)), (66, (1, 20, 100, 1 / 10 ^ 2, 0, 2000)),
     (67, (1, 15, 100, 1 / 10 ^ 3, 0, 2000)), (75, (1, 25, 50, 1 / 10 ^ 2, 0, 2000)),
     (5, (0, 10, 100, 1 / 10 ^ 6, 0, 0)), (6, (0, 60, 300, 1 / 10 ^ 6, 0, 0)),
     (7, (0, 70, 100, 1 / 10 ^ 3, 0, 0)), (8, (0, 80, 300, 1 / 10 ^ 6, 0, 0)),
     (9, (0, 90, 300, 1 / 10 ^ 6, 0, 0)), (69, (0, 5, 60, 1 / 10 ^ 6, 0, 0)),
     (70, (0, 55, 200, 1 / 10 ^ 6, 0, 0)), (79, (0, 65, 5, 1 / 10 ^ 2, 0, 0)),
     (80, (0, 68, 10, 1 / 10 ^ 6, 0, 0)), (71, (1, 56, 150, 1 / 10 ^ 6, 0, 0)),
     (72, (1, 56, 300, 1 / 10 ^ 4, 0, 0)), (73, (1, 56, 300, 1 / 10 ^ 8, 0, 0)),
     (74, (1, 56, 500, 1 / 10 ^ 8, 0, 0)), (76, (1, 56, 500, 1 / 10 ^ 4, 0, 0)),
     (82, (2, 19, 10, 1 / 10 ^ 4, 255, 2000)), (83, (2, 22, 10, 1 / 10 ^ 4, 1358, 2000)),
     (84, (2, 24, 30, 1 / 10 ^ 5, 1354, 2000)), (85, (2, 21, 5, 1 / 10 ^ 5, 255, 2000)),
     (86, (2, 18, 5, 1 / 10 ^ 4, 1354, 2000)), (87, (2, 25, 5, 1 / 10 ^ 3, 500, 2000)),
     (88, (2, 25, 10, 1 / 10 ^ 3, 1125, 2000)), (89, (2, 25, 15, 1 / 10 ^ 4, 17000, 2000)),
     (90, (2, 25, 20, 1 / 10 ^ 4, 63000, 2000))]"

record NrEpsBearer =
  bearer_qci :: u8
  m_requirements :: "(u8 \<times> Requirements) list"
  m_release :: u8

definition SetRelease :: "u8 \<Rightarrow> NrEpsBearer \<Rightarrow> NrEpsBearer res" where
  "SetRelease release b =
     (if release = 8 \<or> release = 9 \<or> release = 10 \<or> release = 11
      then Inr (b\<lparr>m_requirements := GetRequirementsRel11, m_release := release\<rparr>)
      else if release = 15 then Inr (b\<lparr>m_requirements := GetRequirementsRel15, m_release := release\<rparr>)
      else if release = 18 then Inr (b\<lparr>m_requirements := GetRequirementsRel18, m_release := release\<rparr>)
      else Inl (NS_ABORT ''Not recognized release''))"

text \<open>The constructor sets the attribute \<open>Release\<close>, whose default value is the argument \<open>release\<close> (initially 11).\<close>

definition NrEpsBearer_new :: "u8 \<Rightarrow> u8 \<Rightarrow> NrEpsBearer res" where
  "NrEpsBearer_new release x = SetRelease release \<lparr>bearer_qci = x, m_requirements = [], m_release = 30\<rparr>"

text \<open>\<open>map.at (qci)\<close> throws \<open>std::out_of_range\<close> when the class is not in the table.\<close>

definition requirements_at :: "NrEpsBearer \<Rightarrow> Requirements res" where
  "requirements_at b =
     (case map_of (m_requirements b) (bearer_qci b) of
        None \<Rightarrow> Inl (NS_ABORT ''std::out_of_range'') | Some r \<Rightarrow> Inr r)"

section \<open>Logical channels\<close>

datatype Direction_e = DIR_UL | DIR_DL | DIR_BOTH | NotValid

definition QBT_NON_GBR :: u8 where "QBT_NON_GBR = 0"
definition QBT_GBR :: u8 where "QBT_GBR = 1"
definition QBT_DGBR :: u8 where "QBT_DGBR = 2"

record LogicalChannelConfig =
  m_logicalChannelIdentity :: u8
  m_logicalChannelGroup :: u8
  m_direction :: Direction_e
  conf_qci :: u8
  conf_eRabGuaranteedBitrateDl :: u64

record SchedDlRlcBufferReq =
  req_rnti :: u16
  req_logicalChannelIdentity :: u8
  req_rlcTransmissionQueueSize :: u32
  req_rlcTransmissionQueueHolDelay :: u16
  req_rlcRetransmissionQueueSize :: u32
  req_rlcRetransmissionHolDelay :: u16
  req_rlcStatusPduSize :: u16

record LC =
  lc_id :: u32
  m_rlcTransmissionQueueSize :: u32
  m_rlcTransmissionQueueHolDelay :: u16
  m_rlcRetransmissionHolDelay :: u16
  m_rlcRetransmissionQueueSize :: u32
  m_rlcStatusPduSize :: u16
  m_delayBudget :: Time
  m_PER :: real
  m_resourceType :: u8
  m_qci :: u8
  m_priority :: u8
  m_eRabGuaranteedBitrateDl :: u64

definition LC_new :: "u8 \<Rightarrow> LogicalChannelConfig \<Rightarrow> LC res" where
  "LC_new release conf =
     res_bind (NrEpsBearer_new release (conf_qci conf)) (\<lambda>bearer.
     res_bind (requirements_at bearer) (\<lambda>(resourceType, priority, delayBudgetMs, per, _, _).
       Inr \<lparr>lc_id = ucast (m_logicalChannelIdentity conf), m_rlcTransmissionQueueSize = 0,
            m_rlcTransmissionQueueHolDelay = 0, m_rlcRetransmissionHolDelay = 0,
            m_rlcRetransmissionQueueSize = 0, m_rlcStatusPduSize = 0,
            m_delayBudget = uint delayBudgetMs * 1000000, m_PER = per, m_resourceType = resourceType,
            m_qci = conf_qci conf, m_priority = priority,
            m_eRabGuaranteedBitrateDl = conf_eRabGuaranteedBitrateDl conf\<rparr>))"

definition LC_Update :: "SchedDlRlcBufferReq \<Rightarrow> LC \<Rightarrow> LC res" where
  "LC_Update params lc =
     ns_assert (ucast (req_logicalChannelIdentity params) = lc_id lc) ''params.m_logicalChannelIdentity == m_id''
       (Inr (lc\<lparr>m_rlcTransmissionQueueSize := req_rlcTransmissionQueueSize params,
                m_rlcRetransmissionQueueSize := req_rlcRetransmissionQueueSize params,
                m_rlcStatusPduSize := req_rlcStatusPduSize params,
                m_rlcRetransmissionHolDelay := req_rlcRetransmissionHolDelay params,
                m_rlcTransmissionQueueHolDelay := req_rlcTransmissionQueueHolDelay params\<rparr>))"

definition LC_GetTotalSize :: "LC \<Rightarrow> u32" where
  "LC_GetTotalSize lc =
     m_rlcTransmissionQueueSize lc + m_rlcRetransmissionQueueSize lc + ucast (m_rlcStatusPduSize lc)"

section \<open>Logical channel groups\<close>

record LCG =
  lcg_id :: u8
  m_lcMap :: "(u8 \<times> LC) list"

definition LCG_new :: "u8 \<Rightarrow> LCG" where
  "LCG_new lcg = \<lparr>lcg_id = lcg, m_lcMap = []\<rparr>"

definition LCG_Contains :: "u8 \<Rightarrow> LCG \<Rightarrow> bool" where
  "LCG_Contains lcId g = (map_of (m_lcMap g) lcId \<noteq> None)"

definition LCG_NumOfLC :: "LCG \<Rightarrow> u32" where
  "LCG_NumOfLC g = of_nat (length (m_lcMap g))"

definition LCG_Insert :: "LC \<Rightarrow> LCG \<Rightarrow> LCG res" where
  "LCG_Insert lc g =
     ns_assert (\<not> LCG_Contains (ucast (lc_id lc)) g) ''!Contains (lc->m_id)''
       (Inr (g\<lparr>m_lcMap := (ucast (lc_id lc), lc) # m_lcMap g\<rparr>))"

definition lc_at :: "u8 \<Rightarrow> LCG \<Rightarrow> LC res" where
  "lc_at lcId g = (case map_of (m_lcMap g) lcId of None \<Rightarrow> Inl (NS_ABORT ''std::out_of_range'') | Some lc \<Rightarrow> Inr lc)"

text \<open>\<open>UpdateInfo\<close> with the report of an RLC entity (downlink) and with the size of a whole group (uplink).\<close>

definition LCG_UpdateInfo :: "SchedDlRlcBufferReq \<Rightarrow> LCG \<Rightarrow> LCG res" where
  "LCG_UpdateInfo params g =
     ns_assert (LCG_Contains (req_logicalChannelIdentity params) g) ''Contains (params.m_logicalChannelIdentity)''
       (res_bind (lc_at (req_logicalChannelIdentity params) g) (\<lambda>lc.
        res_bind (LC_Update params lc) (\<lambda>lc.
          Inr (g\<lparr>m_lcMap := AList.update (req_logicalChannelIdentity params) lc (m_lcMap g)\<rparr>))))"

definition LCG_UpdateInfo_ul :: "u32 \<Rightarrow> LCG \<Rightarrow> LCG res" where
  "LCG_UpdateInfo_ul lcgQueueSize g =
     abort_if (length (m_lcMap g) > 1) ''m_lcMap.size() > 1''
       (if m_lcMap g = [] then Inl (UB ''division by zero'')
        else let lcIdPart = lcgQueueSize div of_nat (length (m_lcMap g))
             in Inr (g\<lparr>m_lcMap := map (\<lambda>(k, lc). (k, lc\<lparr>m_rlcTransmissionQueueSize := lcIdPart\<rparr>)) (m_lcMap g)\<rparr>))"

definition LCG_GetTotalSize :: "LCG \<Rightarrow> u32" where
  "LCG_GetTotalSize g = fold (\<lambda>(k, lc) totalSize. totalSize + LC_GetTotalSize lc) (m_lcMap g) 0"

definition LCG_GetTotalSizeOfLC :: "u8 \<Rightarrow> LCG \<Rightarrow> u32 res" where
  "LCG_GetTotalSizeOfLC lcId g =
     abort_if (m_lcMap g = []) ''m_lcMap.empty()'' (res_bind (lc_at lcId g) (\<lambda>lc. Inr (LC_GetTotalSize lc)))"

definition LCG_GetLCId :: "LCG \<Rightarrow> u8 list" where
  "LCG_GetLCId g = map fst (m_lcMap g)"

definition LCG_GetActiveLCIds :: "LCG \<Rightarrow> u8 list res" where
  "LCG_GetActiveLCIds g =
     for_each (\<lambda>ret lcId. res_bind (LCG_GetTotalSizeOfLC lcId g) (\<lambda>total.
       Inr (if total > 0 then ret @ [lcId] else ret))) (map fst (m_lcMap g)) []"

definition LCG_GetQci :: "u8 \<Rightarrow> LCG \<Rightarrow> u8 res" where
  "LCG_GetQci lcId g = res_bind (lc_at lcId g) (\<lambda>lc. Inr (m_qci lc))"

definition LCG_GetLC :: "u8 \<Rightarrow> LCG \<Rightarrow> LC res" where
  "LCG_GetLC lcId g =
     ns_assert (m_lcMap g \<noteq> []) ''!m_lcMap.empty ()''
       (res_bind (LCG_GetTotalSizeOfLC lcId g) (\<lambda>total.
          ns_assert (total > 0) ''GetTotalSizeOfLC (lcId) > 0'' (lc_at lcId g)))"

text \<open>The update of one channel by \<open>AssignedData\<close>; the differences are of 32-bit unsigned numbers.\<close>

definition assigned_queue :: "u8 \<Rightarrow> u32 \<Rightarrow> string \<Rightarrow> u32 \<Rightarrow> u32" where
  "assigned_queue lcId siz type queue =
     (let rlcOverhead = (if lcId = 1 \<and> type = ''DL'' then 4 else 2);
          queue = (if siz - rlcOverhead \<ge> queue then 0 else queue - (siz - rlcOverhead));
          queue = (if type = ''UL'' \<and> queue > 0 \<and> queue < 12 then 12 else queue)
      in if type = ''DL'' \<and> queue > 0 \<and> queue < 10 then 10 else queue)"

definition LC_AssignedData :: "u8 \<Rightarrow> u32 \<Rightarrow> string \<Rightarrow> LC \<Rightarrow> LC" where
  "LC_AssignedData lcId siz type lc =
     (if m_rlcStatusPduSize lc > 0 \<and> siz \<ge> ucast (m_rlcStatusPduSize lc)
      then lc\<lparr>m_rlcStatusPduSize := 0\<rparr>
      else if m_rlcRetransmissionQueueSize lc > 0 \<and> siz \<ge> m_rlcRetransmissionQueueSize lc
      then lc\<lparr>m_rlcRetransmissionQueueSize := 0\<rparr>
      else if m_rlcTransmissionQueueSize lc > 0
      then lc\<lparr>m_rlcTransmissionQueueSize := assigned_queue lcId siz type (m_rlcTransmissionQueueSize lc)\<rparr>
      else lc)"

definition LCG_AssignedData :: "u8 \<Rightarrow> u32 \<Rightarrow> string \<Rightarrow> LCG \<Rightarrow> LCG res" where
  "LCG_AssignedData lcId siz type g =
     ns_assert (m_lcMap g \<noteq> []) ''!m_lcMap.empty ()''
       (res_bind (lc_at lcId g) (\<lambda>lc.
          Inr (g\<lparr>m_lcMap := AList.update lcId (LC_AssignedData lcId siz type lc) (m_lcMap g)\<rparr>)))"

definition LCG_ReleaseLC :: "u8 \<Rightarrow> LCG \<Rightarrow> LCG" where
  "LCG_ReleaseLC lcId g = g\<lparr>m_lcMap := AList.delete lcId (m_lcMap g)\<rparr>"

end
