(* ===== verification/NrMacLcRr.thy ===== *)
theory NrMacLcRr
  imports NrMacLcg "HOL-Library.Product_Lexorder"
begin

text \<open>
  The distribution of a transport block over the logical channels of a UE in round robin
  (\<open>src/nr/model/nr-mac-scheduler-lc-rr.cc\<close>). The loop of the code is shown to end and to compute a
  max-min fair distribution of exactly the bytes of the block.
\<close>

section \<open>The algorithm\<close>

record Assignation =
  a_lcg :: u8
  a_lcId :: u8
  a_bytes :: u32

text \<open>An entry of \<open>activeLc\<close>: the group and the channel, the unallocated and the allocated bytes.\<close>

type_synonym active = "(u8 \<times> u8) \<times> u32 \<times> u32"

definition collect_lc :: "u8 \<Rightarrow> LCG \<Rightarrow> active list \<Rightarrow> u8 \<Rightarrow> active list res" where
  "collect_lc lcgId g activeLc lcId =
     res_bind (LCG_GetTotalSizeOfLC lcId g) (\<lambda>total.
       Inr (if total > 0 then smap_put (lcgId, lcId) (total, 0) activeLc else activeLc))"

definition collect_active :: "(u8 \<times> LCG) list \<Rightarrow> active list res" where
  "collect_active ueLCG =
     for_each (\<lambda>activeLc (lcgId, g). for_each (collect_lc lcgId g) (LCG_GetLCId g) activeLc) ueLCG []"

definition num_active :: "active list \<Rightarrow> nat" where
  "num_active m = length (filter (\<lambda>(k, un, al). un > 0) m)"

text \<open>The block of a round: an equal share, capped by the smallest remaining buffer, of at least one byte.\<close>

definition assign_block_size :: "active list \<Rightarrow> u32 \<Rightarrow> u32" where
  "assign_block_size m tbs =
     (let numActive = num_active m;
          assignBlockSize = (if numActive > 0 then of_nat (unat tbs div numActive) else 1);
          assignBlockSize = fold (\<lambda>(k, un, al) b. if un > 0 then min b un else b) m assignBlockSize
      in max assignBlockSize 1)"

text \<open>The loop that hands a block to every channel of a round, with the \<open>break\<close> when nothing is left.\<close>

fun distribute :: "nat \<Rightarrow> u32 \<Rightarrow> active list \<Rightarrow> u32 \<Rightarrow> active list \<times> u32" where
  "distribute numActive blk [] tbs = ([], tbs)"
| "distribute numActive blk ((k, un, al) # m) tbs =
     (if un = 0 \<and> numActive > 0
      then let (m', tbs') = distribute numActive blk m tbs in ((k, un, al) # m', tbs')
      else if tbs - blk = 0 then ((k, un - blk, al + blk) # m, 0)
      else let (m', tbs') = distribute numActive blk m (tbs - blk) in ((k, un - blk, al + blk) # m', tbs'))"

definition round_robin_turn :: "active list \<Rightarrow> u32 \<Rightarrow> active list \<times> u32" where
  "round_robin_turn m tbs = distribute (num_active m) (assign_block_size m tbs) m tbs"

section \<open>A turn\<close>

text \<open>The channels that a turn serves, and what a turn needs of its block.\<close>

definition served :: "nat \<Rightarrow> active list \<Rightarrow> nat" where
  "served n m = length (filter (\<lambda>(k, un, al). \<not> (un = 0 \<and> n > 0)) m)"

definition block_ok :: "nat \<Rightarrow> u32 \<Rightarrow> active list \<Rightarrow> u32 \<Rightarrow> bool" where
  "block_ok n blk m tbs \<longleftrightarrow> blk > 0 \<and> tbs > 0 \<and> (blk = 1 \<or> unat blk * served n m \<le> unat tbs)"

lemma served_simps [simp]:
  "served n [] = 0"
  "served n ((k, un, al) # m) = (if un = 0 \<and> n > 0 then served n m else Suc (served n m))"
  by (auto simp: served_def)

lemma unat_pos: "(0 :: 'a :: len word) < w \<longleftrightarrow> 0 < unat w"
  by (simp add: word_less_nat_alt)

lemma block_ok_next:
  assumes "block_ok n blk ((k, un, al) # m) tbs" and "\<not> (un = 0 \<and> n > 0)" and "tbs - blk \<noteq> 0"
  shows "block_ok n blk m (tbs - blk)" and "unat (tbs - blk) = unat tbs - unat blk" and "blk \<le> tbs"
proof -
  have "blk > 0" "tbs > 0" "blk = 1 \<or> unat blk * Suc (served n m) \<le> unat tbs"
    using assms(1,2) by (auto simp: block_ok_def)
  then have le: "blk \<le> tbs" by (auto simp: word_le_nat_alt word_less_nat_alt)
  then show "blk \<le> tbs" and u: "unat (tbs - blk) = unat tbs - unat blk"
    by (simp_all add: unat_sub)
  show "block_ok n blk m (tbs - blk)"
    using assms le by (auto simp: block_ok_def u word_gt_0)
qed

lemma distribute_tbs:
  "block_ok n blk m tbs \<Longrightarrow> unat (snd (distribute n blk m tbs)) = unat tbs - unat blk * served n m"
proof (induction n blk m tbs rule: distribute.induct)
  case (2 n blk k un al m tbs)
  consider (skip) "un = 0 \<and> n > 0" | (stop) "\<not> (un = 0 \<and> n > 0)" "tbs - blk = 0"
    | (go) "\<not> (un = 0 \<and> n > 0)" "tbs - blk \<noteq> 0" by blast
  then show ?case
  proof cases
    case skip
    have "block_ok n blk m tbs" using "2.prems" skip by (simp add: block_ok_def)
    with "2.IH"(1) skip show ?thesis by (simp add: split_beta)
  next
    case stop
    then have "tbs = blk" by simp
    with stop(1) show ?thesis by auto
  next
    case go
    note n = block_ok_next [OF "2.prems" go]
    with "2.IH"(2) go show ?thesis by (auto simp: split_beta)
  qed
qed simp

text \<open>What a turn does to an entry: in the last turn the bytes may not suffice for every channel.\<close>

fun turn_rel :: "nat \<Rightarrow> u32 \<Rightarrow> bool \<Rightarrow> active \<Rightarrow> active \<Rightarrow> bool" where
  "turn_rel n blk short (k, un, al) (k', un', al') \<longleftrightarrow> k' = k \<and>
     (if un = 0 \<and> n > 0 then un' = un \<and> al' = al
      else un' = un - blk \<and> unat al' = unat al + unat blk \<or> short \<and> un' = un \<and> al' = al)"

definition allocated :: "active list \<Rightarrow> nat" where
  "allocated m = (\<Sum>(k, un, al)\<leftarrow>m. unat al)"

lemma allocated_simps [simp]:
  "allocated [] = 0" "allocated ((k, un, al) # m) = unat al + allocated m"
  by (simp_all add: allocated_def)

lemma turn_rel_refl: "short \<or> served n m = 0 \<Longrightarrow> list_all2 (turn_rel n blk short) m m"
  by (induction m) (auto split: if_splits)

lemma distribute_ok:
  assumes "block_ok n blk m tbs" and "allocated m + unat tbs < 2 ^ 32" and "distribute n blk m tbs = (m', tbs')"
  shows "allocated m' + unat tbs' = allocated m + unat tbs"
    and "list_all2 (turn_rel n blk (unat tbs < unat blk * served n m)) m m'"
proof -
  have "allocated m' + unat tbs' = allocated m + unat tbs \<and>
      list_all2 (turn_rel n blk (unat tbs < unat blk * served n m)) m m'"
    using assms
  proof (induction n blk m tbs arbitrary: m' tbs' rule: distribute.induct)
    case (2 n blk k un al m tbs)
    consider (skip) "un = 0 \<and> n > 0" | (stop) "\<not> (un = 0 \<and> n > 0)" "tbs - blk = 0"
      | (go) "\<not> (un = 0 \<and> n > 0)" "tbs - blk \<noteq> 0" by blast
    then show ?case
    proof cases
      case skip
      have "block_ok n blk m tbs" using "2.prems"(1) skip by (simp add: block_ok_def)
      with "2.IH"(1) "2.prems"(2,3) skip show ?thesis by (fastforce split: prod.splits)
    next
      case stop
      then have "tbs = blk" by simp
      moreover from this have "unat (al + blk) = unat al + unat blk"
        using "2.prems"(2) by (simp add: unat_word_ariths)
      ultimately show ?thesis using "2.prems"(1,3) stop
        by (auto simp: block_ok_def word_gt_0 unat_gt_0 split: if_splits intro!: turn_rel_refl)
    next
      case go
      note nxt = block_ok_next [OF "2.prems"(1) go]
      obtain m1 tbs1 where d: "distribute n blk m (tbs - blk) = (m1, tbs1)" by fastforce
      have ub: "unat blk \<le> unat tbs" using nxt(3) by (simp add: word_le_nat_alt)
      then have al: "unat (al + blk) = unat al + unat blk"
        using "2.prems"(2) by (simp add: unat_word_ariths)
      have m': "m' = (k, un - blk, al + blk) # m1" "tbs' = tbs1"
        using "2.prems"(3) go d by (auto split: if_splits)
      have "allocated m + unat (tbs - blk) < 2 ^ 32" using "2.prems"(2) nxt(2) by simp
      with "2.IH"(2) [OF go nxt(1) _ d]
      have IH: "allocated m1 + unat tbs1 = allocated m + unat (tbs - blk)"
        "list_all2 (turn_rel n blk (unat (tbs - blk) < unat blk * served n m)) m m1" by auto
      have "(unat (tbs - blk) < unat blk * served n m) = (unat tbs < unat blk * Suc (served n m))"
        using ub nxt(2) by auto
      with IH go al ub nxt(2) show ?thesis by (auto simp: m')
    qed
  qed simp
  then show "allocated m' + unat tbs' = allocated m + unat tbs"
    and "list_all2 (turn_rel n blk (unat tbs < unat blk * served n m)) m m'" by auto
qed

text \<open>The block of a turn suits it, and no channel with data is given more than it has.\<close>

abbreviation cap :: "active list \<Rightarrow> u32 \<Rightarrow> u32" where
  "cap m b \<equiv> fold (\<lambda>(k, un, al) b. if un > 0 then min b un else b) m b"

lemma cap_le: "cap m b \<le> b"
proof (induction m arbitrary: b)
  case (Cons a m)
  obtain k un al where a: "a = (k, un, al)" by (cases a)
  have "cap m (if un > 0 then min b un else b) \<le> (if un > 0 then min b un else b)" by (rule Cons.IH)
  also have "\<dots> \<le> b" by simp
  finally show ?case by (simp add: a)
qed simp

lemma cap_le_entry: "(k, un, al) \<in> set m \<Longrightarrow> un > 0 \<Longrightarrow> cap m b \<le> un"
proof (induction m arbitrary: b)
  case (Cons a m)
  show ?case
  proof (cases "(k, un, al) = a")
    case True
    have "cap m (min b un) \<le> min b un" by (rule cap_le)
    with True Cons.prems(2) show ?thesis by (auto simp: min_def split: if_splits)
  next
    case False
    obtain k' un' al' where a: "a = (k', un', al')" by (cases a)
    from False Cons.prems have "(k, un, al) \<in> set m" by auto
    from Cons.IH [OF this Cons.prems(2)] show ?thesis by (simp add: a)
  qed
qed simp

lemma block_le_entry:
  assumes "(k, un, al) \<in> set m" and "un > 0"
  shows "assign_block_size m tbs \<le> un"
proof -
  have "1 \<le> un" using assms(2) by (simp add: word_le_nat_alt word_less_nat_alt)
  then show ?thesis using cap_le_entry [OF assms] by (simp add: assign_block_size_def Let_def)
qed

lemma served_num_active: "served (num_active m) m = (if num_active m > 0 then num_active m else length m)"
proof (cases "num_active m > 0")
  case True
  then have "served (num_active m) m = length (filter (\<lambda>(k, un, al). un > 0) m)"
    by (simp add: served_def word_gt_0 case_prod_beta)
  with True show ?thesis by (simp add: num_active_def)
qed (simp add: served_def case_prod_beta)

lemma block_ok_turn:
  assumes "tbs > 0"
  shows "block_ok (num_active m) (assign_block_size m tbs) m tbs"
proof -
  let ?n = "num_active m" and ?blk = "assign_block_size m tbs"
  have pos: "?blk > 0"
    by (simp add: assign_block_size_def Let_def max_def word_le_nat_alt word_less_nat_alt)
  show ?thesis
  proof (cases "?n > 0")
    case True
    let ?b = "of_nat (unat tbs div ?n) :: u32"
    have b: "unat ?b = unat tbs div ?n"
    proof -
      have "unat tbs div ?n \<le> unat tbs" by simp
      also have "\<dots> < 2 ^ 32" using unsigned_less [of tbs] by simp
      finally show ?thesis by (simp add: unat_of_nat)
    qed
    have "?blk = 1 \<or> ?blk \<le> ?b"
      using cap_le [of m ?b] True by (auto simp: assign_block_size_def Let_def max_def)
    moreover have "unat ?blk * ?n \<le> unat tbs" if "?blk \<le> ?b"
    proof -
      have "unat ?blk * ?n \<le> (unat tbs div ?n) * ?n" using that b by (simp add: word_le_nat_alt)
      also have "\<dots> \<le> unat tbs" by simp
      finally show ?thesis .
    qed
    ultimately show ?thesis using pos assms True by (auto simp: block_ok_def served_num_active)
  next
    case False
    then have "?blk = 1" using cap_le [of m 1] by (simp add: assign_block_size_def Let_def)
    with assms show ?thesis by (simp add: block_ok_def)
  qed
qed

section \<open>The loop\<close>

lemma turn_decreases:
  assumes "m \<noteq> []" and "tbs > 0"
  shows "unat (snd (round_robin_turn m tbs)) < unat tbs"
proof -
  note ok = block_ok_turn [OF assms(2), of m]
  have "served (num_active m) m > 0" using assms(1) by (simp add: served_num_active)
  moreover have "unat (assign_block_size m tbs) > 0" "unat tbs > 0"
    using ok by (simp_all add: block_ok_def word_less_nat_alt)
  ultimately show ?thesis by (simp add: round_robin_turn_def distribute_tbs [OF ok])
qed

text \<open>\<open>while (tbs > 0)\<close>; the code returns before the loop when there is no active channel.\<close>

function round_robin :: "active list \<Rightarrow> u32 \<Rightarrow> active list" where
  "round_robin m tbs =
     (if tbs > 0 \<and> m \<noteq> [] then let (m', tbs') = round_robin_turn m tbs in round_robin m' tbs' else m)"
  by auto
termination
proof (relation "measure (\<lambda>(m, tbs). unat tbs)")
  fix m tbs x m' tbs'
  assume t: "tbs > 0 \<and> m \<noteq> []" "x = round_robin_turn m tbs" "(m', tbs') = x"
  then have "snd (round_robin_turn m tbs) = tbs'" by (metis snd_conv)
  with turn_decreases [of m tbs] t(1) show "((m', tbs'), m, tbs) \<in> measure (\<lambda>(m, tbs). unat tbs)" by simp
qed simp

declare round_robin.simps [simp del]

definition assignation :: "active \<Rightarrow> Assignation" where
  "assignation = (\<lambda>((lcg, lcId), un, al). \<lparr>a_lcg = lcg, a_lcId = lcId, a_bytes = al\<rparr>)"

definition RR_AssignBytesToLC :: "(u8 \<times> LCG) list \<Rightarrow> u32 \<Rightarrow> Assignation list res" where
  "RR_AssignBytesToLC ueLCG tbs =
     res_bind (collect_active ueLCG) (\<lambda>activeLc.
       Inr (if activeLc = [] then [] else map assignation (round_robin activeLc tbs)))"

definition RR_AssignBytesToDlLC :: "(u8 \<times> LCG) list \<Rightarrow> u32 \<Rightarrow> Time \<Rightarrow> Assignation list res" where
  "RR_AssignBytesToDlLC ueLCG tbs slotPeriod = RR_AssignBytesToLC ueLCG tbs"

definition RR_AssignBytesToUlLC :: "(u8 \<times> LCG) list \<Rightarrow> u32 \<Rightarrow> Assignation list res" where
  "RR_AssignBytesToUlLC ueLCG tbs = RR_AssignBytesToLC ueLCG tbs"


section \<open>Fairness\<close>

text \<open>
  The demands are the sizes of the queues. As long as a channel wants data, every channel has its demand or
  the level \<open>L\<close>; afterwards the counters of unallocated bytes wrap around, and every channel has \<open>M\<close> bytes on
  top of its demand.
\<close>

fun filled :: "nat \<Rightarrow> nat \<Rightarrow> active \<Rightarrow> bool" where
  "filled L d (k, un, al) \<longleftrightarrow> unat al = min d L \<and> unat un = d - min d L"

fun surplus :: "nat \<Rightarrow> nat \<Rightarrow> active \<Rightarrow> bool" where
  "surplus M d (k, un, al) \<longleftrightarrow> unat al = d + M \<and> un = - of_nat M"

definition in_phase :: "nat list \<Rightarrow> active list \<Rightarrow> bool" where
  "in_phase ds m \<longleftrightarrow> (\<exists>L. list_all2 (filled L) ds m) \<or> (\<exists>M. list_all2 (surplus M) ds m)"

fun about_filled :: "nat \<Rightarrow> nat \<Rightarrow> active \<Rightarrow> bool" where
  "about_filled L d (k, un, al) \<longleftrightarrow> min d L \<le> unat al \<and> unat al \<le> min d (Suc L)"

fun about_surplus :: "nat \<Rightarrow> nat \<Rightarrow> active \<Rightarrow> bool" where
  "about_surplus M d (k, un, al) \<longleftrightarrow> d + M \<le> unat al \<and> unat al \<le> d + Suc M"

definition fairly_shared :: "nat list \<Rightarrow> active list \<Rightarrow> bool" where
  "fairly_shared ds m \<longleftrightarrow> (\<exists>L. list_all2 (about_filled L) ds m) \<or> (\<exists>M. list_all2 (about_surplus M) ds m)"

lemma filled_imp_about: "filled L d e \<Longrightarrow> about_filled L d e"
  by (cases e) auto

lemma surplus_imp_about: "surplus M d e \<Longrightarrow> about_surplus M d e"
  by (cases e) auto

lemma in_phase_fair: "in_phase ds m \<Longrightarrow> fairly_shared ds m"
  unfolding in_phase_def fairly_shared_def by (blast intro: list_all2_mono filled_imp_about surplus_imp_about)

lemma all2_trans_set:
  assumes "list_all2 P ds m" and "list_all2 Q m m'"
    and "\<And>d e e'. P d e \<Longrightarrow> Q e e' \<Longrightarrow> e \<in> set m \<Longrightarrow> R d e'"
  shows "list_all2 R ds m'"
  using assms by (auto simp: list_all2_conv_all_nth)

lemma num_active_0: "num_active m = 0 \<longleftrightarrow> (\<forall>(k, un, al) \<in> set m. un = 0)"
  by (auto simp: num_active_def filter_empty_conv word_gt_0)

text \<open>One turn from a filled state: a full turn raises the level, a short one stays within one byte of it.\<close>

lemma turn_filled:
  assumes "list_all2 (filled L) ds m" and "num_active m > 0"
    and "list_all2 (turn_rel (num_active m) blk short) m m'"
    and cap: "\<forall>(k, un, al) \<in> set m. un > 0 \<longrightarrow> blk \<le> un"
  shows "\<not> short \<Longrightarrow> list_all2 (filled (L + unat blk)) ds m'"
    and "blk = 1 \<Longrightarrow> list_all2 (about_filled L) ds m'"
proof -
  have step: "(\<not> short \<longrightarrow> filled (L + unat blk) d e') \<and> (blk = 1 \<longrightarrow> about_filled L d e')"
    if "filled L d e" "turn_rel (num_active m) blk short e e'" "e \<in> set m" for d e e'
  proof -
    obtain k un al where e: "e = (k, un, al)" by (cases e)
    obtain k' un' al' where e': "e' = (k', un', al')" by (cases e')
    show ?thesis
    proof (cases "un = 0")
      case True
      with that assms(2) show ?thesis by (auto simp: e e')
    next
      case False
      then have "blk \<le> un" using cap that(3) by (auto simp: e word_gt_0)
      then have "unat (un - blk) = unat un - unat blk" "unat blk \<le> unat un"
        by (simp_all add: unat_sub word_le_nat_alt)
      moreover have "0 < unat un" using False by (simp add: unat_gt_0)
      ultimately show ?thesis using that False by (auto simp: e e' min_def split: if_splits)
    qed
  qed
  show "\<not> short \<Longrightarrow> list_all2 (filled (L + unat blk)) ds m'"
    by (rule all2_trans_set [OF assms(1,3)]) (use step in blast)
  show "blk = 1 \<Longrightarrow> list_all2 (about_filled L) ds m'"
    by (rule all2_trans_set [OF assms(1,3)]) (use step in blast)
qed

lemma turn_surplus:
  assumes "list_all2 (surplus M) ds m"
    and "list_all2 (turn_rel (num_active m) blk short) m m'"
    and "num_active m = 0 \<or> (\<forall>(k, un, al) \<in> set m. un \<noteq> 0)"
  shows "\<not> short \<Longrightarrow> list_all2 (surplus (M + unat blk)) ds m'"
    and "blk = 1 \<Longrightarrow> list_all2 (about_surplus M) ds m'"
proof -
  have step: "(\<not> short \<longrightarrow> surplus (M + unat blk) d e') \<and> (blk = 1 \<longrightarrow> about_surplus M d e')"
    if "surplus M d e" "turn_rel (num_active m) blk short e e'" "e \<in> set m" for d e e'
  proof -
    obtain k un al where e: "e = (k, un, al)" by (cases e)
    obtain k' un' al' where e': "e' = (k', un', al')" by (cases e')
    have "\<not> (un = 0 \<and> num_active m > 0)" using assms(3) that(3) by (auto simp: e)
    with that show ?thesis by (auto simp: e e')
  qed
  show "\<not> short \<Longrightarrow> list_all2 (surplus (M + unat blk)) ds m'"
    by (rule all2_trans_set [OF assms(1,2)]) (use step in blast)
  show "blk = 1 \<Longrightarrow> list_all2 (about_surplus M) ds m'"
    by (rule all2_trans_set [OF assms(1,2)]) (use step in blast)
qed

lemma filled_done:
  assumes "list_all2 (filled L) ds m" and "num_active m = 0"
  shows "list_all2 (surplus 0) ds m"
proof -
  have "surplus 0 (ds ! i) (m ! i)" if "i < length m" for i
  proof -
    obtain k un al where e: "m ! i = (k, un, al)" by (cases "m ! i")
    have "un = 0" using assms(2) nth_mem [OF that] by (auto simp: num_active_0 e)
    moreover have "filled L (ds ! i) (m ! i)" using assms(1) that by (auto simp: list_all2_conv_all_nth)
    ultimately show ?thesis by (auto simp: e min_def split: if_splits)
  qed
  with assms(1) show ?thesis by (simp add: list_all2_conv_all_nth)
qed

lemma surplus_active:
  assumes "list_all2 (surplus M) ds m"
  shows "num_active m = 0 \<or> (\<forall>(k, un, al) \<in> set m. un \<noteq> 0)"
proof (cases "(of_nat M :: u32) = 0")
  case True
  have "\<forall>(k, un, al) \<in> set m. un = 0" using assms True
    by (fastforce simp: list_all2_conv_all_nth in_set_conv_nth)
  then show ?thesis by (simp add: num_active_0)
next
  case False
  have "\<forall>(k, un, al) \<in> set m. un \<noteq> 0" using assms False
    by (fastforce simp: list_all2_conv_all_nth in_set_conv_nth)
  then show ?thesis by simp
qed

lemma turn_in_phase:
  assumes "in_phase ds m" and "tbs > 0" and "allocated m + unat tbs < 2 ^ 32"
    and "round_robin_turn m tbs = (m', tbs')"
  shows "tbs' > 0 \<Longrightarrow> in_phase ds m'" and "fairly_shared ds m'"
proof -
  let ?n = "num_active m" and ?blk = "assign_block_size m tbs"
  let ?short = "unat tbs < unat ?blk * served ?n m"
  note ok = block_ok_turn [OF assms(2), of m]
  have d: "distribute ?n ?blk m tbs = (m', tbs')" using assms(4) by (simp add: round_robin_turn_def)
  have rel: "list_all2 (turn_rel ?n ?blk ?short) m m'" by (rule distribute_ok(2) [OF ok assms(3) d])
  have one: "?blk = 1" if ?short using ok that by (auto simp: block_ok_def)
  have tbs': "unat tbs' = unat tbs - unat ?blk * served ?n m" using distribute_tbs [OF ok] d by simp
  from assms(1) filled_done consider
      (fill) L where "list_all2 (filled L) ds m" "?n > 0" | (over) M where "list_all2 (surplus M) ds m"
    unfolding in_phase_def by blast
  then have "(\<not> ?short \<longrightarrow> in_phase ds m') \<and> (?short \<longrightarrow> fairly_shared ds m')"
  proof cases
    case fill
    have cap: "\<forall>(k, un, al) \<in> set m. un > 0 \<longrightarrow> ?blk \<le> un" using block_le_entry by blast
    from turn_filled [OF fill rel cap] one show ?thesis unfolding in_phase_def fairly_shared_def by blast
  next
    case over
    from turn_surplus [OF over rel surplus_active [OF over]] one show ?thesis
      unfolding in_phase_def fairly_shared_def by blast
  qed
  then show "fairly_shared ds m'" and "tbs' > 0 \<Longrightarrow> in_phase ds m'"
    using in_phase_fair tbs' by (auto simp: word_less_nat_alt)
qed

lemma round_robin_0 [simp]: "round_robin m 0 = m"
  by (subst round_robin.simps) simp

lemma round_robin_fair:
  assumes "in_phase ds m" and "allocated m + unat tbs < 2 ^ 32" and "m \<noteq> []"
  shows "fairly_shared ds (round_robin m tbs)" and "allocated (round_robin m tbs) = allocated m + unat tbs"
proof -
  have "fairly_shared ds (round_robin m tbs) \<and> allocated (round_robin m tbs) = allocated m + unat tbs"
    using assms
  proof (induction m tbs rule: round_robin.induct)
    case (1 m tbs)
    show ?case
    proof (cases "tbs > 0")
      case True
      obtain m' tbs' where t: "round_robin_turn m tbs = (m', tbs')" by fastforce
      note p = turn_in_phase [OF "1.prems"(1) True "1.prems"(2) t]
      have d: "distribute (num_active m) (assign_block_size m tbs) m tbs = (m', tbs')"
        using t by (simp add: round_robin_turn_def)
      note a = distribute_ok [OF block_ok_turn [OF True] "1.prems"(2) d]
      have ne: "m' \<noteq> []" using a(2) "1.prems"(3) by auto
      have r: "round_robin m tbs = round_robin m' tbs'"
        using True "1.prems"(3) t by (simp add: round_robin.simps [of m tbs])
      show ?thesis
      proof (cases "tbs' > 0")
        case True2: True
        have "allocated m' + unat tbs' < 2 ^ 32" using a(1) "1.prems"(2) by simp
        with "1.IH" True "1.prems"(3) t p(1) True2 ne a(1) show ?thesis by (auto simp: r)
      next
        case False
        then have "tbs' = 0" by (simp add: word_gt_0)
        with p(2) a(1) show ?thesis by (simp add: r)
      qed
    next
      case False
      then have "tbs = 0" by (simp add: word_gt_0)
      with in_phase_fair "1.prems"(1) show ?thesis by simp
    qed
  qed
  then show "fairly_shared ds (round_robin m tbs)" and "allocated (round_robin m tbs) = allocated m + unat tbs" by auto
qed

section \<open>The active channels\<close>

text \<open>The groups of a UE are keyed by distinct identities, and so are the channels of a group.\<close>

definition groups_ok :: "(u8 \<times> LCG) list \<Rightarrow> bool" where
  "groups_ok ueLCG \<longleftrightarrow> distinct (map fst ueLCG) \<and> (\<forall>(l, g) \<in> set ueLCG. distinct (map fst (m_lcMap g)))"

definition demand_of :: "LCG \<Rightarrow> u8 \<Rightarrow> u32" where
  "demand_of g c = (case map_of (m_lcMap g) c of None \<Rightarrow> 0 | Some lc \<Rightarrow> LC_GetTotalSize lc)"

definition demand :: "(u8 \<times> LCG) list \<Rightarrow> u8 \<times> u8 \<Rightarrow> u32" where
  "demand ueLCG = (\<lambda>(l, c). case map_of ueLCG l of None \<Rightarrow> 0 | Some g \<Rightarrow> demand_of g c)"

lemma GetTotalSizeOfLC_known:
  assumes "c \<in> fst ` set (m_lcMap g)"
  shows "LCG_GetTotalSizeOfLC c g = Inr (demand_of g c)"
proof -
  from assms obtain lc where "map_of (m_lcMap g) c = Some lc" by (metis map_of_eq_None_iff option.exhaust)
  moreover have "m_lcMap g \<noteq> []" using assms by auto
  ultimately show ?thesis by (simp add: LCG_GetTotalSizeOfLC_def lc_at_def demand_of_def)
qed

lemma collect_lcs:
  assumes "set cs \<subseteq> fst ` set (m_lcMap g)" and "smap_ok m"
  shows "\<exists>m'. for_each (collect_lc l g) cs m = Inr m' \<and> smap_ok m' \<and>
    map_of m' = (\<lambda>k. if fst k = l \<and> snd k \<in> set cs \<and> demand_of g (snd k) > 0
                      then Some (demand_of g (snd k), 0) else map_of m k)"
  using assms
proof (induction cs arbitrary: m)
  case (Cons c cs)
  let ?m = "if demand_of g c > 0 then smap_put (l, c) (demand_of g c, 0) m else m"
  have ok: "smap_ok ?m" using Cons.prems(2) by simp
  have step: "collect_lc l g m c = Inr ?m"
    using Cons.prems(1) by (simp add: collect_lc_def GetTotalSizeOfLC_known)
  have "set cs \<subseteq> fst ` set (m_lcMap g)" using Cons.prems(1) by simp
  from Cons.IH [OF this ok] obtain m' where m': "for_each (collect_lc l g) cs ?m = Inr m'" "smap_ok m'"
    "map_of m' = (\<lambda>k. if fst k = l \<and> snd k \<in> set cs \<and> demand_of g (snd k) > 0
        then Some (demand_of g (snd k), 0) else map_of ?m k)" by blast
  have "map_of ?m = (if demand_of g c > 0 then (map_of m)((l, c) \<mapsto> (demand_of g c, 0)) else map_of m)"
    using Cons.prems(2) by simp
  with m' step show ?case by (intro exI [of _ m']) (auto simp: fun_eq_iff)
qed simp

lemma collect_groups:
  assumes "smap_ok m" and "distinct (map fst gs)" and "\<forall>l c. map_of gs l \<noteq> None \<longrightarrow> map_of m (l, c) = None"
  shows "\<exists>m'. for_each (\<lambda>activeLc (lcgId, g). for_each (collect_lc lcgId g) (LCG_GetLCId g) activeLc) gs m = Inr m' \<and>
    smap_ok m' \<and> map_of m' = (\<lambda>k. if demand gs k > 0 then Some (demand gs k, 0) else map_of m k)"
  using assms
proof (induction gs arbitrary: m)
  case (Cons lg gs)
  obtain l g where lg: "lg = (l, g)" by (cases lg)
  have "set (LCG_GetLCId g) \<subseteq> fst ` set (m_lcMap g)" by (simp add: LCG_GetLCId_def)
  from collect_lcs [OF this Cons.prems(1), of l] obtain m1 where
    m1: "for_each (collect_lc l g) (LCG_GetLCId g) m = Inr m1" "smap_ok m1"
      "map_of m1 = (\<lambda>k. if fst k = l \<and> snd k \<in> set (LCG_GetLCId g) \<and> demand_of g (snd k) > 0
         then Some (demand_of g (snd k), 0) else map_of m k)" by blast
  have l: "map_of gs l = None" using Cons.prems(2) by (simp add: lg map_of_eq_None_iff)
  have "\<forall>l' c. map_of gs l' \<noteq> None \<longrightarrow> map_of m1 (l', c) = None"
    using Cons.prems(3) l by (auto simp: m1(3) lg)
  from Cons.IH [OF m1(2) _ this] Cons.prems(2) obtain m' where
    m': "for_each (\<lambda>activeLc (lcgId, g). for_each (collect_lc lcgId g) (LCG_GetLCId g) activeLc) gs m1 = Inr m'"
      "smap_ok m'" "map_of m' = (\<lambda>k. if demand gs k > 0 then Some (demand gs k, 0) else map_of m1 k)" by auto
  have known: "demand_of g c > 0 \<Longrightarrow> c \<in> set (LCG_GetLCId g)" for c
    by (auto simp: demand_of_def LCG_GetLCId_def dest: map_of_SomeD split: option.splits intro: rev_image_eqI)
  have "map_of m' k = (if demand (lg # gs) k > 0 then Some (demand (lg # gs) k, 0) else map_of m k)" for k
    using l known by (cases k) (auto simp: m'(3) m1(3) lg demand_def)
  with m' m1(1) show ?case by (auto simp: lg)
qed (simp add: demand_def)

lemma collect_active_ok:
  assumes "groups_ok ueLCG"
  obtains m where "collect_active ueLCG = Inr m" and "smap_ok m"
    and "map_of m = (\<lambda>k. if demand ueLCG k > 0 then Some (demand ueLCG k, 0) else None)"
proof -
  have "distinct (map fst ueLCG)" using assms by (simp add: groups_ok_def)
  from collect_groups [OF smap_ok_Nil this] obtain m where
    "collect_active ueLCG = Inr m" "smap_ok m"
    "map_of m = (\<lambda>k. if demand ueLCG k > 0 then Some (demand ueLCG k, 0) else map_of [] k)"
    unfolding collect_active_def by auto
  then show ?thesis using that [of m] by (simp add: fun_eq_iff)
qed

section \<open>The distribution\<close>

definition bytes_total :: "Assignation list \<Rightarrow> nat" where
  "bytes_total asg = (\<Sum>a\<leftarrow>asg. unat (a_bytes a))"

definition a_key :: "Assignation \<Rightarrow> u8 \<times> u8" where
  "a_key a = (a_lcg a, a_lcId a)"

lemma assignation_simps [simp]:
  "a_key (assignation (k, un, al)) = k" "a_bytes (assignation (k, un, al)) = al"
  by (simp_all add: assignation_def a_key_def split: prod.splits)

lemma bytes_total_assignation: "bytes_total (map assignation m) = allocated m"
  by (induction m) (auto simp: bytes_total_def allocated_def)

lemma round_robin_keys: "map fst (round_robin m tbs) = map fst m"
proof (induction m tbs rule: round_robin.induct)
  case (1 m tbs)
  have keys: "map fst (fst (distribute n b m t)) = map fst m" for n b m t
    by (induction n b m t rule: distribute.induct) (auto simp: split_beta)
  show ?case
  proof (cases "tbs > 0 \<and> m \<noteq> []")
    case True
    then have "round_robin m tbs = round_robin (fst (round_robin_turn m tbs)) (snd (round_robin_turn m tbs))"
      by (simp add: round_robin.simps [of m tbs] split_beta)
    with "1.IH" True keys show ?thesis by (simp add: round_robin_turn_def)
  qed (subst round_robin.simps, auto)
qed

text \<open>The sum of the demands of the active channels, and a distribution that is max-min fair up to one byte.\<close>

definition total_demand :: "(u8 \<times> LCG) list \<Rightarrow> Assignation list \<Rightarrow> nat" where
  "total_demand ueLCG asg = (\<Sum>a\<leftarrow>asg. unat (demand ueLCG (a_key a)))"

definition max_min_fair :: "(u8 \<times> LCG) list \<Rightarrow> Assignation list \<Rightarrow> bool" where
  "max_min_fair ueLCG asg \<longleftrightarrow>
     (\<exists>level. \<forall>a \<in> set asg. let d = unat (demand ueLCG (a_key a)) in
        min d level \<le> unat (a_bytes a) \<and> unat (a_bytes a) \<le> min d (Suc level))"

definition surplus_shared :: "(u8 \<times> LCG) list \<Rightarrow> Assignation list \<Rightarrow> bool" where
  "surplus_shared ueLCG asg \<longleftrightarrow>
     (\<exists>share. \<forall>a \<in> set asg. let d = unat (demand ueLCG (a_key a)) in
        d + share \<le> unat (a_bytes a) \<and> unat (a_bytes a) \<le> d + Suc share)"

lemma sum_list_le_eq:
  assumes "\<forall>x \<in> set xs. f x \<le> (g x :: nat)" and "(\<Sum>x\<leftarrow>xs. g x) \<le> (\<Sum>x\<leftarrow>xs. f x)"
  shows "\<forall>x \<in> set xs. f x = g x"
  using assms
proof (induction xs)
  case (Cons a xs)
  have "(\<Sum>x\<leftarrow>xs. f x) \<le> (\<Sum>x\<leftarrow>xs. g x)" and "f a \<le> g a"
    using Cons.prems(1) by (auto intro: sum_list_mono)
  with Cons.prems(2) have "f a = g a" "(\<Sum>x\<leftarrow>xs. g x) \<le> (\<Sum>x\<leftarrow>xs. f x)" by auto
  with Cons.IH Cons.prems(1) show ?case by simp
qed simp

lemma max_min_cases:
  assumes "max_min_fair ueLCG asg \<or> surplus_shared ueLCG asg"
  shows "bytes_total asg \<le> total_demand ueLCG asg \<Longrightarrow> max_min_fair ueLCG asg"
    and "total_demand ueLCG asg \<le> bytes_total asg \<Longrightarrow> surplus_shared ueLCG asg"
proof -
  let ?b = "\<lambda>a. unat (a_bytes a)" and ?d = "\<lambda>a. unat (demand ueLCG (a_key a))"
  have sums: "bytes_total asg = (\<Sum>a\<leftarrow>asg. ?b a)" "total_demand ueLCG asg = (\<Sum>a\<leftarrow>asg. ?d a)"
    by (simp_all add: bytes_total_def total_demand_def)
  show "max_min_fair ueLCG asg" if le: "bytes_total asg \<le> total_demand ueLCG asg"
  proof (rule ccontr)
    assume no: "\<not> max_min_fair ueLCG asg"
    with assms have "\<forall>a \<in> set asg. ?d a \<le> ?b a" by (fastforce simp: surplus_shared_def Let_def)
    then have eq: "\<forall>a \<in> set asg. ?d a = ?b a" using sum_list_le_eq [of asg ?d ?b] le sums by simp
    have "?d a \<le> total_demand ueLCG asg" if "a \<in> set asg" for a
      unfolding sums(2) using that by (intro member_le_sum_list) auto
    then have "max_min_fair ueLCG asg" unfolding max_min_fair_def Let_def
      by (intro exI [of _ "total_demand ueLCG asg"]) (use eq in fastforce)
    with no show False ..
  qed
  show "surplus_shared ueLCG asg" if ge: "total_demand ueLCG asg \<le> bytes_total asg"
  proof (rule ccontr)
    assume no: "\<not> surplus_shared ueLCG asg"
    with assms have "\<forall>a \<in> set asg. ?b a \<le> ?d a" by (fastforce simp: max_min_fair_def Let_def)
    then have eq: "\<forall>a \<in> set asg. ?b a = ?d a" using sum_list_le_eq [of asg ?b ?d] ge sums by simp
    have "surplus_shared ueLCG asg" unfolding surplus_shared_def Let_def
      by (rule exI [of _ 0]) (use eq in simp)
    with no show False ..
  qed
qed

lemma all2_demands:
  assumes "list_all2 R (map (\<lambda>(k, _). unat (demand gs k)) m) m'" and "map fst m' = map fst m"
  shows "\<forall>(k, un, al) \<in> set m'. R (unat (demand gs k)) (k, un, al)"
proof -
  have "R (unat (demand gs (fst (m' ! i)))) (m' ! i)" if i: "i < length m'" for i
  proof -
    have "length m = length m'" using assms(1) by (simp add: list_all2_conv_all_nth)
    moreover from this i have "fst (m ! i) = fst (m' ! i)" by (metis assms(2) nth_map)
    ultimately show ?thesis using assms(1) i by (auto simp: list_all2_conv_all_nth split_beta dest!: spec [of _ i])
  qed
  then show ?thesis by (force simp: in_set_conv_nth)
qed

lemma round_robin_assignations:
  fixes tbs :: u32
  assumes ok: "smap_ok m" and m: "map_of m = (\<lambda>k. if demand gs k > 0 then Some (demand gs k, 0) else None)"
    and "m \<noteq> []"
  defines "asg \<equiv> map assignation (round_robin m tbs)"
  shows "bytes_total asg = unat tbs" and "max_min_fair gs asg \<or> surplus_shared gs asg"
    and "distinct (map a_key asg)" and "a_key ` set asg = {k. demand gs k > 0}"
proof -
  let ?ds = "map (\<lambda>(k, _). unat (demand gs k)) m"
  have dist: "distinct (map fst m)" by (rule smap_ok_distinct [OF ok])
  have entry: "un = demand gs k \<and> al = 0" if "(k, un, al) \<in> set m" for k un al
    using map_of_is_SomeI [OF dist that] by (simp add: m split: if_splits)
  have zero: "allocated m = 0" unfolding allocated_def using entry by (fastforce simp: sum_list_eq_0_iff)
  have "list_all2 (filled 0) ?ds m"
    unfolding list_all2_conv_all_nth using entry by (fastforce simp: in_set_conv_nth split: prod.splits)
  then have phase: "in_phase ?ds m" by (auto simp: in_phase_def)
  have small: "allocated m + unat tbs < 2 ^ 32" using zero unsigned_less [of tbs] by simp
  note rr = round_robin_fair [OF phase small assms(3)]
  show "bytes_total asg = unat tbs" using rr(2) zero by (simp add: asg_def bytes_total_assignation)
  have "map a_key asg = map fst (round_robin m tbs)" by (auto simp: asg_def)
  then have keys: "map a_key asg = map fst m" by (simp add: round_robin_keys)
  then show "distinct (map a_key asg)" using dist by simp
  have "a_key ` set asg = fst ` set m" using keys by (metis set_map)
  also have "\<dots> = dom (map_of m)" by (simp add: dom_map_of_conv_image_fst)
  finally show "a_key ` set asg = {k. demand gs k > 0}" by (simp add: m dom_def)
  from rr(1) consider L where "list_all2 (about_filled L) ?ds (round_robin m tbs)"
    | M where "list_all2 (about_surplus M) ?ds (round_robin m tbs)" unfolding fairly_shared_def by blast
  then show "max_min_fair gs asg \<or> surplus_shared gs asg"
  proof cases
    case (1 L)
    from all2_demands [OF 1 round_robin_keys] have "max_min_fair gs asg"
      unfolding max_min_fair_def asg_def by (intro exI [of _ L]) (auto simp: Let_def)
    then show ?thesis ..
  next
    case (2 M)
    from all2_demands [OF 2 round_robin_keys] have "surplus_shared gs asg"
      unfolding surplus_shared_def asg_def by (intro exI [of _ M]) (auto simp: Let_def)
    then show ?thesis ..
  qed
qed

lemma RR_AssignBytesToLC_fair:
  assumes "groups_ok ueLCG"
  obtains asg where "RR_AssignBytesToLC ueLCG tbs = Inr asg"
    and "distinct (map a_key asg)" and "a_key ` set asg = {k. demand ueLCG k > 0}"
    and "asg \<noteq> [] \<Longrightarrow> bytes_total asg = unat tbs"
    and "asg \<noteq> [] \<Longrightarrow> bytes_total asg \<le> total_demand ueLCG asg \<Longrightarrow> max_min_fair ueLCG asg"
    and "asg \<noteq> [] \<Longrightarrow> total_demand ueLCG asg \<le> bytes_total asg \<Longrightarrow> surplus_shared ueLCG asg"
proof -
  from collect_active_ok [OF assms] obtain m where m: "collect_active ueLCG = Inr m" "smap_ok m"
    "map_of m = (\<lambda>k. if demand ueLCG k > 0 then Some (demand ueLCG k, 0) else None)" by blast
  show ?thesis
  proof (cases "m = []")
    case True
    with m(3) have "{k. demand ueLCG k > 0} = {}" by (auto simp: fun_eq_iff split: if_splits)
    with True m(1) show ?thesis using that [of "[]"] by (simp add: RR_AssignBytesToLC_def)
  next
    case False
    note a = round_robin_assignations [OF m(2,3) False, of tbs]
    show ?thesis
    proof (rule that)
      show "RR_AssignBytesToLC ueLCG tbs = Inr (map assignation (round_robin m tbs))"
        using m(1) False by (simp add: RR_AssignBytesToLC_def)
    qed (use a max_min_cases [OF a(2)] in \<open>simp_all\<close>)
  qed
qed

section \<open>Main property\<close>

definition example_lc :: "u8 \<Rightarrow> u32 \<Rightarrow> LC" where
  "example_lc lcId queue =
     \<lparr>lc_id = ucast lcId, m_rlcTransmissionQueueSize = queue, m_rlcTransmissionQueueHolDelay = 0,
      m_rlcRetransmissionHolDelay = 0, m_rlcRetransmissionQueueSize = 0, m_rlcStatusPduSize = 0,
      m_delayBudget = 300000000, m_PER = 0, m_resourceType = QBT_NON_GBR, m_qci = 9, m_priority = 9,
      m_eRabGuaranteedBitrateDl = 0\<rparr>"

definition example_groups :: "(u8 \<times> LCG) list" where
  "example_groups =
     [(2, \<lparr>lcg_id = 2, m_lcMap = [(5, example_lc 5 1000), (4, example_lc 4 0)]\<rparr>),
      (1, \<lparr>lcg_id = 1, m_lcMap = [(3, example_lc 3 100), (1, example_lc 1 10)]\<rparr>)]"

text \<open>
  C11: the round-robin distribution of a transport block never fails and ends. It serves exactly the
  logical channels that have data, each once, and hands out exactly the bytes of the block: when the block
  does not cover the queues the distribution is max-min fair up to one byte (a channel gets its whole queue or
  the common level), and when it does, every channel gets its queue and the rest is shared equally up to one
  byte, although the counters of unallocated bytes wrap around there.
\<close>

theorem rr_assigns_fairly:
  assumes "groups_ok ueLCG"
  shows "\<exists>asg. RR_AssignBytesToLC ueLCG tbs = Inr asg \<and>
    distinct (map a_key asg) \<and> a_key ` set asg = {k. demand ueLCG k > 0} \<and>
    (asg \<noteq> [] \<longrightarrow> bytes_total asg = unat tbs \<and>
       (unat tbs \<le> total_demand ueLCG asg \<longrightarrow> max_min_fair ueLCG asg) \<and>
       (total_demand ueLCG asg \<le> unat tbs \<longrightarrow> surplus_shared ueLCG asg))"
  using RR_AssignBytesToLC_fair [OF assms, of tbs] by metis

lemma example_groups_ok: "groups_ok example_groups"
  by (simp add: groups_ok_def example_groups_def)

definition res_is :: "'a \<Rightarrow> 'a res \<Rightarrow> bool" where
  "res_is x r = (case r of Inl e \<Rightarrow> False | Inr y \<Rightarrow> y = x)"

lemma res_isD: "res_is x r \<Longrightarrow> r = Inr x"
  by (cases r) (simp_all add: res_is_def)

lemma example_assignations:
  "RR_AssignBytesToLC example_groups 301 = Inr
     [\<lparr>a_lcg = 1, a_lcId = 1, a_bytes = 10\<rparr>, \<lparr>a_lcg = 1, a_lcId = 3, a_bytes = 100\<rparr>, \<lparr>a_lcg = 2, a_lcId = 5, a_bytes = 191\<rparr>]"
  by (rule res_isD) code_simp

theorem rr_assigns_fairly_witness:
  "\<exists>asg. RR_AssignBytesToLC example_groups 301 = Inr asg \<and> asg \<noteq> [] \<and>
     bytes_total asg = 301 \<and> max_min_fair example_groups asg"
proof -
  from rr_assigns_fairly [OF example_groups_ok, of 301] obtain asg where
    asg: "RR_AssignBytesToLC example_groups 301 = Inr asg"
      "asg \<noteq> [] \<longrightarrow> bytes_total asg = unat (301 :: u32) \<and>
         (unat (301 :: u32) \<le> total_demand example_groups asg \<longrightarrow> max_min_fair example_groups asg)" by blast
  have "asg \<noteq> []" "301 \<le> total_demand example_groups asg"
    using asg(1) example_assignations
    by (auto simp: total_demand_def demand_def demand_of_def a_key_def example_groups_def example_lc_def LC_GetTotalSize_def)
  with asg show ?thesis by auto
qed

end
