(* ===== verification/NrMacLcQos.thy ===== *)
theory NrMacLcQos
  imports NrMacLcRr
begin

text \<open>
  The distribution of a transport block over the logical channels of a UE by QoS class
  (\<open>src/nr/model/nr-mac-scheduler-lc-qos.cc\<close>): channels with a guaranteed bit rate first, the rest of the
  block in equal shares.
\<close>

section \<open>Downlink\<close>

definition UINT64_MAX :: u64 where "UINT64_MAX = 2 ^ 64 - 1"

definition is_gbr :: "LC \<Rightarrow> bool" where
  "is_gbr lc \<longleftrightarrow> (m_resourceType lc = QBT_DGBR \<or> m_resourceType lc = QBT_GBR) \<and>
     m_eRabGuaranteedBitrateDl lc \<noteq> UINT64_MAX"

type_synonym lc_key = "u8 \<times> u8"

definition collect_qos_lc :: "u8 \<Rightarrow> LCG \<Rightarrow> lc_key list \<times> lc_key list \<times> u64 \<Rightarrow> u8 \<Rightarrow> (lc_key list \<times> lc_key list \<times> u64) res" where
  "collect_qos_lc lcg g = (\<lambda>(gbrActiveLCs, restActiveLCs, sumErab) lcId.
     res_bind (LCG_GetLC lcId g) (\<lambda>lc.
       let (gbrActiveLCs, sumErab) =
         (if is_gbr lc then (gbrActiveLCs @ [(lcg, lcId)], sumErab + m_eRabGuaranteedBitrateDl lc div 8)
          else (gbrActiveLCs, sumErab))
       in Inr (gbrActiveLCs, restActiveLCs @ [(lcg, lcId)], sumErab)))"

definition collect_qos :: "(u8 \<times> LCG) list \<Rightarrow> (lc_key list \<times> lc_key list \<times> u64) res" where
  "collect_qos ueLCG =
     for_each (\<lambda>acc (lcg, g). res_bind (LCG_GetActiveLCIds g) (\<lambda>ueActiveLCs.
       for_each (collect_qos_lc lcg g) ueActiveLCs acc)) ueLCG ([], [], 0)"

text \<open>The nested loops over the groups and the channels of a list, in the order in which the code visits them.\<close>

definition visits :: "(u8 \<times> LCG) list \<Rightarrow> lc_key list \<Rightarrow> (u8 \<times> LCG \<times> u8) list" where
  "visits ueLCG lcs = concat (map (\<lambda>(lcg, g). map (\<lambda>lc. (lcg, g, snd lc)) (filter (\<lambda>lc. fst lc = lcg) lcs)) ueLCG)"

text \<open>
  \<open>static_cast<uint32_t> (slotPeriod.GetSeconds () * (bitrate / 8))\<close>: the product of doubles is a product of
  reals here; the conversion of a number outside the 32-bit range is undefined.
\<close>

definition gbr_bytes :: "Time \<Rightarrow> u64 \<Rightarrow> u32 res" where
  "gbr_bytes slotPeriod bitrate =
     (let bytes = \<lfloor>of_int slotPeriod / (10 ^ 9 :: real) * of_nat (unat (bitrate div 8))\<rfloor>
      in if 0 \<le> bytes \<and> bytes < 2 ^ 32 then Inr (word_of_int bytes)
         else Inl (UB ''double to uint32_t''))"

definition assign_gbr_lc :: "Time \<Rightarrow> (u8 \<times> u32) list \<times> u32 \<Rightarrow> u8 \<times> LCG \<times> u8 \<Rightarrow> ((u8 \<times> u32) list \<times> u32) res" where
  "assign_gbr_lc slotPeriod = (\<lambda>(gbrList, bytesLeftToBeAssigned) (lcg, g, lcId).
     res_bind (LCG_GetLC lcId g) (\<lambda>lc.
       ns_assert (m_eRabGuaranteedBitrateDl lc \<noteq> UINT64_MAX) ''LC is not guaranteed bit rate!''
         (res_bind (gbr_bytes slotPeriod (m_eRabGuaranteedBitrateDl lc)) (\<lambda>guaranteed.
            let bytes = min guaranteed (LC_GetTotalSize lc);
                bytesAssigned = (if bytes \<ge> bytesLeftToBeAssigned then bytesLeftToBeAssigned else bytes)
            in ns_assert (bytesLeftToBeAssigned \<ge> bytesAssigned) ''bytesLeftToBeAssigned >= bytesAssigned''
                 (Inr (gbrList @ [(lcId, bytesAssigned)], bytesLeftToBeAssigned - bytesAssigned))))))"

definition assign_gbr :: "(u8 \<times> LCG) list \<Rightarrow> u32 \<Rightarrow> Time \<Rightarrow> lc_key list \<Rightarrow> u64 \<Rightarrow> ((u8 \<times> u32) list \<times> u32) res" where
  "assign_gbr ueLCG tbs slotPeriod gbrActiveLCs sumErab =
     (if length gbrActiveLCs > 1 \<and> sumErab \<ge> ucast tbs
      then if tbs > 0
           then let bytesPerLcGbr = of_nat (unat tbs div length gbrActiveLCs)
                in Inr (map (\<lambda>(lcg, g, lcId). (lcId, bytesPerLcGbr)) (visits ueLCG gbrActiveLCs), 0)
           else Inr ([], tbs)
      else if gbrActiveLCs \<noteq> []
      then for_each (assign_gbr_lc slotPeriod) (visits ueLCG gbrActiveLCs) ([], tbs)
      else Inr ([], tbs))"

text \<open>The search for the channel in the list of the GBR channels, which adds the share to its first entry.\<close>

fun add_to_gbr :: "u8 \<Rightarrow> u32 \<Rightarrow> (u8 \<times> u32) list \<Rightarrow> (u8 \<times> u32) list option" where
  "add_to_gbr lcId bytesPerLc [] = None"
| "add_to_gbr lcId bytesPerLc ((k, bytes) # gbrList) =
     (if k = lcId then Some ((k, bytes + bytesPerLc) # gbrList)
      else map_option (Cons (k, bytes)) (add_to_gbr lcId bytesPerLc gbrList))"

definition assign_rest_lc :: "u32 \<Rightarrow> u8 \<times> LCG \<times> u8 \<Rightarrow> (u8 \<times> u32) list \<times> Assignation list \<Rightarrow> (u8 \<times> u32) list \<times> Assignation list" where
  "assign_rest_lc bytesPerLc = (\<lambda>(lcg, g, lcId) (gbrList, ret).
     case (if lcg = 1 then add_to_gbr lcId bytesPerLc gbrList else None) of
       Some gbrList' \<Rightarrow> (gbrList', ret)
     | None \<Rightarrow> (gbrList, ret @ [\<lparr>a_lcg = lcg, a_lcId = lcId, a_bytes = bytesPerLc\<rparr>]))"

definition QoS_AssignBytesToDlLC :: "(u8 \<times> LCG) list \<Rightarrow> u32 \<Rightarrow> Time \<Rightarrow> Assignation list res" where
  "QoS_AssignBytesToDlLC ueLCG tbs slotPeriod =
     res_bind (collect_qos ueLCG) (\<lambda>(gbrActiveLCs, restActiveLCs, sumErab).
     res_bind (assign_gbr ueLCG tbs slotPeriod gbrActiveLCs sumErab) (\<lambda>(gbrList, bytesLeftToBeAssigned).
       let (gbrList, ret) =
         (if restActiveLCs \<noteq> [] \<and> bytesLeftToBeAssigned > 0
          then fold (assign_rest_lc (of_nat (unat bytesLeftToBeAssigned div length restActiveLCs)))
                 (visits ueLCG restActiveLCs) (gbrList, [])
          else (gbrList, []))
       in Inr (ret @ map (\<lambda>(lcId, bytes). \<lparr>a_lcg = 1, a_lcId = lcId, a_bytes = bytes\<rparr>) gbrList)))"

section \<open>Uplink\<close>

definition count_lc :: "LCG \<Rightarrow> u32 \<Rightarrow> u8 \<Rightarrow> u32 res" where
  "count_lc g activeLc lcId =
     res_bind (LCG_GetTotalSizeOfLC lcId g) (\<lambda>total. Inr (if total > 0 then activeLc + 1 else activeLc))"

definition assign_ul_lc :: "u8 \<Rightarrow> LCG \<Rightarrow> u32 \<Rightarrow> Assignation list \<Rightarrow> u8 \<Rightarrow> Assignation list res" where
  "assign_ul_lc lcg g amountPerLC ret lcId =
     res_bind (LCG_GetTotalSizeOfLC lcId g) (\<lambda>total.
       Inr (if total > 0 then ret @ [\<lparr>a_lcg = lcg, a_lcId = lcId, a_bytes = amountPerLC\<rparr>] else ret))"

definition QoS_AssignBytesToUlLC :: "(u8 \<times> LCG) list \<Rightarrow> u32 \<Rightarrow> Assignation list res" where
  "QoS_AssignBytesToUlLC ueLCG tbs =
     res_bind (for_each (\<lambda>activeLc (lcg, g). for_each (count_lc g) (LCG_GetLCId g) activeLc) ueLCG 0) (\<lambda>activeLc.
       if activeLc = 0 then Inr []
       else let amountPerLC = tbs div activeLc
            in for_each (\<lambda>ret (lcg, g). for_each (assign_ul_lc lcg g amountPerLC) (LCG_GetLCId g) ret) ueLCG [])"

section \<open>The block is never exceeded\<close>

lemma visits_length:
  assumes "distinct (map fst ueLCG)"
  shows "length (visits ueLCG lcs) \<le> length lcs"
  using assms
proof (induction ueLCG arbitrary: lcs)
  case (Cons lg ueLCG)
  obtain l g where lg: "lg = (l, g)" by (cases lg)
  have others: "visits ueLCG lcs = visits ueLCG (filter (\<lambda>lc. fst lc \<noteq> l) lcs)"
  proof -
    have "filter (\<lambda>lc. fst lc = l') lcs = filter (\<lambda>lc. fst lc = l') (filter (\<lambda>lc. fst lc \<noteq> l) lcs)"
      if "(l', g') \<in> set ueLCG" for l' g'
    proof -
      have "l' \<noteq> l" using that Cons.prems by (force simp: lg)
      then show ?thesis by (auto intro: filter_cong)
    qed
    then show ?thesis unfolding visits_def by (intro arg_cong [where f = concat] map_cong) auto
  qed
  have "length (visits (lg # ueLCG) lcs) = length (filter (\<lambda>lc. fst lc = l) lcs) + length (visits ueLCG lcs)"
    by (simp add: visits_def lg)
  also have "\<dots> \<le> length (filter (\<lambda>lc. fst lc = l) lcs) + length (filter (\<lambda>lc. fst lc \<noteq> l) lcs)"
    using Cons.IH [of "filter (\<lambda>lc. fst lc \<noteq> l) lcs"] Cons.prems others by simp
  also have "\<dots> = length lcs" by (rule sum_length_filter_compl)
  finally show ?case .
qed (simp add: visits_def)

definition gbr_total :: "(u8 \<times> u32) list \<Rightarrow> nat" where
  "gbr_total gbrList = (\<Sum>(k, bytes)\<leftarrow>gbrList. unat bytes)"

lemma gbr_total_simps [simp]:
  "gbr_total [] = 0" "gbr_total ((k, b) # gs) = unat b + gbr_total gs" "gbr_total (xs @ ys) = gbr_total xs + gbr_total ys"
  by (simp_all add: gbr_total_def)

lemma bytes_total_simps [simp]:
  "bytes_total [] = 0" "bytes_total (a # as) = unat (a_bytes a) + bytes_total as"
  "bytes_total (as @ bs) = bytes_total as + bytes_total bs"
  by (simp_all add: bytes_total_def)

lemma assign_gbr_lc_total:
  assumes "assign_gbr_lc slotPeriod (gs, left) v = Inr (gs', left')"
  shows "gbr_total gs' + unat left' = gbr_total gs + unat left"
  using assms unfolding assign_gbr_lc_def
  by (auto simp: res_simps Let_def unat_sub word_le_nat_alt split: if_splits prod.splits)

lemma assign_gbr_loop_total:
  assumes "for_each (assign_gbr_lc slotPeriod) vs (gs, left) = Inr (gs', left')"
  shows "gbr_total gs' + unat left' = gbr_total gs + unat left"
proof -
  have "(\<lambda>(gs', left'). gbr_total gs' + unat left' = gbr_total gs + unat left) (gs', left')"
    by (rule for_each_invariant [OF assms]) (auto dest: assign_gbr_lc_total)
  then show ?thesis by simp
qed

lemma unat_u32: "unat (w :: u32) < 2 ^ 32"
  using unsigned_less [of w, where 'a = nat] by simp

lemma share_le:
  assumes "k \<le> n" and "n > 0"
  shows "unat (of_nat (unat (w :: u32) div n) :: u32) * k \<le> unat w"
proof -
  have "unat w div n < 2 ^ 32" using unat_u32 [of w] by (meson div_le_dividend le_less_trans)
  then have "unat (of_nat (unat w div n) :: u32) * k = (unat w div n) * k" by (simp add: unat_of_nat)
  also have "\<dots> \<le> (unat w div n) * n" using assms(1) by simp
  also have "\<dots> \<le> unat w" by simp
  finally show ?thesis .
qed

lemma gbr_total_const: "gbr_total (map (\<lambda>(lcg, g, lcId). (lcId, b)) vs) = unat b * length vs"
  by (induction vs) (auto simp: gbr_total_def)

lemma assign_gbr_total:
  assumes "distinct (map fst ueLCG)" and "assign_gbr ueLCG tbs slotPeriod gbr sumErab = Inr (gs, left)"
  shows "gbr_total gs + unat left \<le> unat tbs"
proof -
  have "gbr_total (map (\<lambda>(lcg, g, lcId). (lcId, of_nat (unat tbs div length gbr) :: u32)) (visits ueLCG gbr)) \<le> unat tbs"
    if "length gbr > Suc 0"
    unfolding gbr_total_const using that visits_length [OF assms(1), of gbr] by (intro share_le) auto
  moreover have "gbr_total gs + unat left = unat tbs"
    if "for_each (assign_gbr_lc slotPeriod) (visits ueLCG gbr) ([], tbs) = Inr (gs, left)"
    using assign_gbr_loop_total [OF that] by simp
  ultimately show ?thesis using assms(2) unfolding assign_gbr_def Let_def by (auto split: if_splits)
qed

lemma add_to_gbr_total:
  "add_to_gbr lcId b gs = Some gs' \<Longrightarrow> gbr_total gs + unat b < 2 ^ 32 \<Longrightarrow> gbr_total gs' = gbr_total gs + unat b"
proof (induction gs arbitrary: gs')
  case (Cons kb gs)
  obtain k c where kb: "kb = (k, c)" by (cases kb)
  have "unat (c + b) = unat c + unat b" using Cons.prems(2) by (simp add: kb unat_word_ariths)
  with Cons show ?case by (auto simp: kb split: if_splits)
qed simp

lemma assign_rest_total:
  assumes "gbr_total gs + bytes_total ret + unat b * length vs < 2 ^ 32"
    and "fold (assign_rest_lc b) vs (gs, ret) = (gs', ret')"
  shows "gbr_total gs' + bytes_total ret' = gbr_total gs + bytes_total ret + unat b * length vs"
  using assms
proof (induction vs arbitrary: gs ret)
  case (Cons v vs)
  obtain l g c where v: "v = (l, g, c)" by (cases v)
  obtain gs1 ret1 where one: "assign_rest_lc b v (gs, ret) = (gs1, ret1)" by fastforce
  have sum1: "gbr_total gs1 + bytes_total ret1 = gbr_total gs + bytes_total ret + unat b"
    using one Cons.prems(1) add_to_gbr_total
    by (auto simp: assign_rest_lc_def v split: if_splits option.splits)
  show ?case using Cons.IH [of gs1 ret1] Cons.prems sum1 by (simp add: one)
qed simp

lemma bytes_total_gbr: "bytes_total (map (\<lambda>(lcId, bytes). \<lparr>a_lcg = 1, a_lcId = lcId, a_bytes = bytes\<rparr>) gs) = gbr_total gs"
  by (induction gs) auto

lemma QoS_within_block:
  assumes "distinct (map fst ueLCG)" and "QoS_AssignBytesToDlLC ueLCG tbs slotPeriod = Inr asg"
  shows "bytes_total asg \<le> unat tbs"
proof -
  from assms(2) obtain gbr rest sumErab gs left where
    c: "collect_qos ueLCG = Inr (gbr, rest, sumErab)"
      "assign_gbr ueLCG tbs slotPeriod gbr sumErab = Inr (gs, left)"
    unfolding QoS_AssignBytesToDlLC_def by (auto simp: res_simps)
  note g = assign_gbr_total [OF assms(1) c(2)]
  have tbs: "unat tbs < 2 ^ 32" by (rule unat_u32)
  show ?thesis
  proof (cases "rest \<noteq> [] \<and> left > 0")
    case True
    let ?b = "of_nat (unat left div length rest) :: u32"
    obtain gs' ret where f: "fold (assign_rest_lc ?b) (visits ueLCG rest) (gs, []) = (gs', ret)" by fastforce
    have share: "unat ?b * length (visits ueLCG rest) \<le> unat left"
      using True visits_length [OF assms(1)] by (intro share_le) auto
    have "gbr_total gs' + bytes_total ret = gbr_total gs + unat ?b * length (visits ueLCG rest)"
      using assign_rest_total [OF _ f] g share tbs by simp
    moreover have "asg = ret @ map (\<lambda>(lcId, bytes). \<lparr>a_lcg = 1, a_lcId = lcId, a_bytes = bytes\<rparr>) gs'"
      using assms(2) c True f by (simp add: QoS_AssignBytesToDlLC_def)
    ultimately show ?thesis using g share by (simp add: bytes_total_gbr)
  next
    case False
    then have "asg = map (\<lambda>(lcId, bytes). \<lparr>a_lcg = 1, a_lcId = lcId, a_bytes = bytes\<rparr>) gs"
      using assms(2) c by (auto simp: QoS_AssignBytesToDlLC_def)
    with g show ?thesis by (simp add: bytes_total_gbr)
  qed
qed

section \<open>The distribution does not fail\<close>

lemma for_each_filter:
  assumes "\<And>x s. x \<in> set xs \<Longrightarrow> body s x = Inr (if P x then s @ [f x] else s)"
  shows "for_each body xs s = Inr (s @ map f (filter P xs))"
  using assms by (induction xs arbitrary: s) auto

lemma GetActiveLCIds_ok:
  "LCG_GetActiveLCIds g = Inr (filter (\<lambda>c. demand_of g c > 0) (map fst (m_lcMap g)))"
proof -
  have "for_each (\<lambda>ret lcId. res_bind (LCG_GetTotalSizeOfLC lcId g) (\<lambda>total.
      Inr (if total > 0 then ret @ [lcId] else ret))) (map fst (m_lcMap g)) [] =
    Inr ([] @ map id (filter (\<lambda>c. demand_of g c > 0) (map fst (m_lcMap g))))"
    by (rule for_each_filter) (simp add: GetTotalSizeOfLC_known)
  then show ?thesis by (simp add: LCG_GetActiveLCIds_def)
qed

lemma GetLC_ok:
  assumes "demand_of g c > 0"
  obtains lc where "(c, lc) \<in> set (m_lcMap g)" and "LCG_GetLC c g = Inr lc"
proof -
  from assms obtain lc where lc: "map_of (m_lcMap g) c = Some lc"
    by (auto simp: demand_of_def split: option.splits)
  then have mem: "(c, lc) \<in> set (m_lcMap g)" by (rule map_of_SomeD)
  then have "c \<in> fst ` set (m_lcMap g)" "m_lcMap g \<noteq> []" by force+
  with assms lc have "LCG_GetLC c g = Inr lc"
    by (simp add: LCG_GetLC_def GetTotalSizeOfLC_known lc_at_def)
  with mem that show ?thesis by blast
qed

text \<open>The channels that the first pass puts into the list of GBR channels.\<close>

definition gbr_known :: "(u8 \<times> LCG) list \<Rightarrow> lc_key list \<Rightarrow> bool" where
  "gbr_known ueLCG gbr \<longleftrightarrow> (\<forall>(l, c) \<in> set gbr. \<exists>g lc. (l, g) \<in> set ueLCG \<and> (c, lc) \<in> set (m_lcMap g) \<and>
     LCG_GetLC c g = Inr lc \<and> is_gbr lc)"

lemma collect_qos_lcs_ok:
  assumes "(l, g) \<in> set ueLCG" and "\<forall>c \<in> set cs. demand_of g c > 0" and "gbr_known ueLCG (fst acc)"
  shows "\<exists>acc'. for_each (collect_qos_lc l g) cs acc = Inr acc' \<and> gbr_known ueLCG (fst acc')"
  using assms(2,3)
proof (induction cs arbitrary: acc)
  case (Cons c cs)
  obtain gbr rest sumErab where acc: "acc = (gbr, rest, sumErab)" by (cases acc)
  from Cons.prems(1) obtain lc where lc: "(c, lc) \<in> set (m_lcMap g)" "LCG_GetLC c g = Inr lc"
    using GetLC_ok [of g c] by auto
  let ?acc = "(if is_gbr lc then gbr @ [(l, c)] else gbr, rest @ [(l, c)],
               if is_gbr lc then sumErab + m_eRabGuaranteedBitrateDl lc div 8 else sumErab)"
  have step: "collect_qos_lc l g acc c = Inr ?acc"
    by (simp add: collect_qos_lc_def acc lc(2))
  have "gbr_known ueLCG (fst ?acc)" using Cons.prems(2) lc assms(1) by (auto simp: acc gbr_known_def)
  with Cons.IH [of ?acc] Cons.prems(1) step show ?case by simp
qed auto

lemma collect_qos_ok:
  obtains gbr rest sumErab where "collect_qos ueLCG = Inr (gbr, rest, sumErab)" and "gbr_known ueLCG gbr"
proof -
  have "\<exists>acc'. for_each (\<lambda>acc (lcg, g). res_bind (LCG_GetActiveLCIds g) (\<lambda>ids.
      for_each (collect_qos_lc lcg g) ids acc)) gs acc = Inr acc' \<and> gbr_known ueLCG (fst acc')"
    if "set gs \<subseteq> set ueLCG" "gbr_known ueLCG (fst acc)" for gs acc
    using that
  proof (induction gs arbitrary: acc)
    case (Cons lg gs)
    obtain l g where lg: "lg = (l, g)" by (cases lg)
    have mem: "(l, g) \<in> set ueLCG" using Cons.prems(1) by (simp add: lg)
    from collect_qos_lcs_ok [OF mem _ Cons.prems(2), of "filter (\<lambda>c. demand_of g c > 0) (map fst (m_lcMap g))"]
    obtain acc1 where a1: "for_each (collect_qos_lc l g) (filter (\<lambda>c. demand_of g c > 0) (map fst (m_lcMap g))) acc = Inr acc1"
      "gbr_known ueLCG (fst acc1)" by auto
    with Cons.IH [of acc1] Cons.prems(1) show ?case by (simp add: lg GetActiveLCIds_ok)
  qed auto
  from this [of ueLCG "([], [], 0)"] show ?thesis
    using that by (fastforce simp: collect_qos_def gbr_known_def)
qed

text \<open>Slots of at most a second and guaranteed rates of less than 34 Gb/s keep the conversion in range.\<close>

definition rates_ok :: "Time \<Rightarrow> (u8 \<times> LCG) list \<Rightarrow> bool" where
  "rates_ok slotPeriod ueLCG \<longleftrightarrow> 0 \<le> slotPeriod \<and> slotPeriod \<le> 10 ^ 9 \<and>
     (\<forall>(l, g) \<in> set ueLCG. \<forall>(c, lc) \<in> set (m_lcMap g). is_gbr lc \<longrightarrow> m_eRabGuaranteedBitrateDl lc < 2 ^ 35)"

lemma gbr_bytes_ok:
  assumes "0 \<le> slotPeriod" and "slotPeriod \<le> 10 ^ 9" and "bitrate < 2 ^ 35"
  shows "\<exists>b. gbr_bytes slotPeriod bitrate = Inr b"
proof -
  define n where "n = unat (bitrate div 8)"
  let ?x = "of_int slotPeriod / (10 ^ 9 :: real)"
  have "unat bitrate < 2 ^ 35" using assms(3) by (simp add: word_less_nat_alt)
  then have n: "n < 2 ^ 32" by (simp add: n_def unat_div)
  have x: "0 \<le> ?x" "?x \<le> 1" using assms(1,2) by simp_all
  have "?x * of_nat n \<le> of_nat n" using x by (intro mult_left_le_one_le) simp_all
  also have "(of_nat n :: real) < 2 ^ 32" using n by (metis of_nat_less_numeral_power_cancel_iff)
  finally have "\<lfloor>?x * of_nat n\<rfloor> < 2 ^ 32" by (simp add: floor_less_iff)
  moreover have "0 \<le> \<lfloor>?x * of_nat n\<rfloor>" using x(1) by simp
  ultimately show ?thesis by (simp add: gbr_bytes_def Let_def flip: n_def)
qed

lemma visits_mem: "(l, g, c) \<in> set (visits ueLCG lcs) \<longleftrightarrow> (l, g) \<in> set ueLCG \<and> (l, c) \<in> set lcs"
  by (force simp: visits_def)

lemma assign_gbr_ok:
  assumes "distinct (map fst ueLCG)" and "rates_ok slotPeriod ueLCG" and "gbr_known ueLCG gbr"
  shows "\<exists>r. assign_gbr ueLCG tbs slotPeriod gbr sumErab = Inr r"
proof -
  have step: "\<exists>t. assign_gbr_lc slotPeriod s v = Inr t" if v: "v \<in> set (visits ueLCG gbr)" for s v
  proof -
    obtain l g c where lgc: "v = (l, g, c)" by (cases v)
    with v have "(l, g) \<in> set ueLCG" "(l, c) \<in> set gbr" by (simp_all add: visits_mem)
    moreover from this(2) assms(3) obtain g' lc where
      lc: "(l, g') \<in> set ueLCG" "(c, lc) \<in> set (m_lcMap g')" "LCG_GetLC c g' = Inr lc" "is_gbr lc"
      by (auto simp: gbr_known_def)
    ultimately have "g' = g" using assms(1) by (metis eq_key_imp_eq_value)
    moreover from assms(2) lc have "0 \<le> slotPeriod" "slotPeriod \<le> 10 ^ 9" "m_eRabGuaranteedBitrateDl lc < 2 ^ 35"
      by (auto simp: rates_ok_def)
    then have "\<exists>b. gbr_bytes slotPeriod (m_eRabGuaranteedBitrateDl lc) = Inr b" by (rule gbr_bytes_ok)
    ultimately show ?thesis using lc(3,4)
      by (cases s) (auto simp: assign_gbr_lc_def lgc is_gbr_def Let_def ns_assert_def not_le
          intro: min.coboundedI1 min.coboundedI2 less_imp_le split: if_splits)
  qed
  have "\<exists>t. for_each (assign_gbr_lc slotPeriod) vs s = Inr t" if "set vs \<subseteq> set (visits ueLCG gbr)" for vs s
    using that
  proof (induction vs arbitrary: s)
    case (Cons v vs)
    with step [of v s] show ?case by auto
  qed simp
  then show ?thesis by (auto simp: assign_gbr_def Let_def)
qed

lemma QoS_AssignBytesToDlLC_ok:
  assumes "distinct (map fst ueLCG)" and "rates_ok slotPeriod ueLCG"
  shows "\<exists>asg. QoS_AssignBytesToDlLC ueLCG tbs slotPeriod = Inr asg"
proof -
  obtain gbr rest sumErab where c: "collect_qos ueLCG = Inr (gbr, rest, sumErab)" "gbr_known ueLCG gbr"
    by (rule collect_qos_ok)
  from assign_gbr_ok [OF assms c(2), of tbs sumErab] c(1) show ?thesis
    by (auto simp: QoS_AssignBytesToDlLC_def split: prod.splits)
qed

section \<open>The uplink in closed form\<close>

definition active_keys :: "(u8 \<times> LCG) list \<Rightarrow> lc_key list" where
  "active_keys gs = concat (map (\<lambda>(l, g). map (Pair l) (filter (\<lambda>c. demand_of g c > 0) (LCG_GetLCId g))) gs)"

lemma active_keys_simps [simp]:
  "active_keys [] = []"
  "active_keys ((l, g) # gs) = map (Pair l) (filter (\<lambda>c. demand_of g c > 0) (LCG_GetLCId g)) @ active_keys gs"
  by (simp_all add: active_keys_def)

lemma known_LCId: "c \<in> set (LCG_GetLCId g) \<Longrightarrow> LCG_GetTotalSizeOfLC c g = Inr (demand_of g c)"
  by (simp add: LCG_GetLCId_def GetTotalSizeOfLC_known)

lemma count_lcs: "set cs \<subseteq> set (LCG_GetLCId g) \<Longrightarrow>
    for_each (count_lc g) cs n = Inr (n + of_nat (length (filter (\<lambda>c. demand_of g c > 0) cs)))"
  by (induction cs arbitrary: n) (auto simp: count_lc_def known_LCId ac_simps)

lemma count_groups:
  "for_each (\<lambda>n (l, g). for_each (count_lc g) (LCG_GetLCId g) n) gs n = Inr (n + of_nat (length (active_keys gs)))"
  by (induction gs arbitrary: n) (auto simp: count_lcs ac_simps)

lemma assign_ul_groups:
  "for_each (\<lambda>ret (l, g). for_each (assign_ul_lc l g amount) (LCG_GetLCId g) ret) gs ret =
     Inr (ret @ map (\<lambda>(l, c). \<lparr>a_lcg = l, a_lcId = c, a_bytes = amount\<rparr>) (active_keys gs))"
proof (induction gs arbitrary: ret)
  case (Cons lg gs)
  obtain l g where lg: "lg = (l, g)" by (cases lg)
  have "for_each (assign_ul_lc l g amount) (LCG_GetLCId g) ret =
      Inr (ret @ map (\<lambda>c. \<lparr>a_lcg = l, a_lcId = c, a_bytes = amount\<rparr>) (filter (\<lambda>c. demand_of g c > 0) (LCG_GetLCId g)))"
    by (rule for_each_filter) (simp add: assign_ul_lc_def known_LCId)
  with Cons show ?case by (simp add: lg comp_def)
qed simp

lemma demand_group:
  assumes "distinct (map fst gs)" and "(l, g) \<in> set gs"
  shows "demand gs (l, c) = demand_of g c"
  using assms by (simp add: demand_def)

lemma demand_of_known: "demand_of g c > 0 \<Longrightarrow> c \<in> set (LCG_GetLCId g)"
  by (auto simp: demand_of_def LCG_GetLCId_def dest: map_of_SomeD split: option.splits intro: rev_image_eqI)

lemma active_keys_set:
  assumes "distinct (map fst gs)"
  shows "set (active_keys gs) = {k. demand gs k > 0}"
proof -
  have "(l, c) \<in> set (active_keys gs) \<longleftrightarrow> (\<exists>g. (l, g) \<in> set gs \<and> demand_of g c > 0)" for l c
    by (induction gs) (auto simp: image_iff demand_of_known)
  moreover have "demand gs (l, c) > 0 \<longleftrightarrow> (\<exists>g. (l, g) \<in> set gs \<and> demand_of g c > 0)" for l c
    using assms by (auto simp: demand_def split: option.splits dest: map_of_SomeD eq_key_imp_eq_value)
  ultimately show ?thesis by auto
qed

lemma active_keys_distinct: "groups_ok gs \<Longrightarrow> distinct (active_keys gs)"
proof (induction gs)
  case (Cons lg gs)
  obtain l g where lg: "lg = (l, g)" by (cases lg)
  have ok: "groups_ok gs" "distinct (LCG_GetLCId g)" "l \<notin> fst ` set gs"
    using Cons.prems by (auto simp: groups_ok_def lg LCG_GetLCId_def)
  have "(l, c) \<notin> set (active_keys gs)" for c using ok(3) by (induction gs) auto
  with ok Cons.IH show ?case by (auto simp: lg distinct_map inj_on_def)
qed simp

lemma active_keys_length:
  assumes "groups_ok gs"
  shows "length (active_keys gs) < 2 ^ 32"
proof -
  have "length (active_keys gs) = card (set (active_keys gs))"
    using active_keys_distinct [OF assms] by (simp add: distinct_card)
  also have "\<dots> \<le> card (UNIV :: lc_key set)" by (rule card_mono) simp_all
  also have "\<dots> = 65536" by (simp add: card_prod card_word)
  finally show ?thesis by simp
qed

lemma QoS_AssignBytesToUlLC_ok:
  assumes "groups_ok gs"
  obtains asg where "QoS_AssignBytesToUlLC gs tbs = Inr asg" and "distinct (map a_key asg)"
    and "a_key ` set asg = {k. demand gs k > 0}" and "bytes_total asg \<le> unat tbs"
proof -
  let ?ks = "active_keys gs"
  let ?n = "of_nat (length ?ks) :: u32"
  let ?asg = "map (\<lambda>(l, c). \<lparr>a_lcg = l, a_lcId = c, a_bytes = tbs div ?n\<rparr>) ?ks"
  have n: "unat ?n = length ?ks" using active_keys_length [OF assms] by (simp add: unat_of_nat)
  have ul: "QoS_AssignBytesToUlLC gs tbs = Inr ?asg"
  proof (cases "?n = 0")
    case True
    with n have "?ks = []" by simp
    then show ?thesis by (simp add: QoS_AssignBytesToUlLC_def count_groups)
  qed (simp add: QoS_AssignBytesToUlLC_def count_groups assign_ul_groups)
  have keys: "map a_key ?asg = ?ks" by (rule map_idI [THEN trans [rotated]]) (auto simp: a_key_def comp_def intro!: map_cong)
  have "bytes_total ?asg = unat (tbs div ?n) * length ?ks"
    by (induction ?ks) (auto simp: bytes_total_def sum_list_triv comp_def case_prod_beta)
  also have "\<dots> \<le> unat tbs" using n by (simp add: unat_div)
  finally have total: "bytes_total ?asg \<le> unat tbs" .
  have "a_key ` set ?asg = set (map a_key ?asg)" by (simp only: set_map)
  then have "a_key ` set ?asg = set ?ks" unfolding keys .
  moreover have "distinct (map fst gs)" using assms by (simp add: groups_ok_def)
  ultimately have "a_key ` set ?asg = {k. demand gs k > 0}" by (simp add: active_keys_set)
  with that [OF ul _ _ total] keys active_keys_distinct [OF assms] show ?thesis by simp
qed

section \<open>The interface of the uplink algorithms\<close>

text \<open>
  What the scheduler relies on in \<open>AssignBytesToUlLC\<close>: for groups with distinct identities it returns, serves
  every channel with data once and nothing else, and stays within the transport block.
\<close>

locale ul_lc_algorithm =
  fixes AssignBytesToUlLC :: "(u8 \<times> LCG) list \<Rightarrow> u32 \<Rightarrow> Assignation list res"
  assumes ul_total: "groups_ok gs \<Longrightarrow> \<exists>asg. AssignBytesToUlLC gs tbs = Inr asg"
    and ul_keys: "groups_ok gs \<Longrightarrow> AssignBytesToUlLC gs tbs = Inr asg \<Longrightarrow>
      distinct (map a_key asg) \<and> a_key ` set asg = {k. demand gs k > 0}"
    and ul_bytes: "groups_ok gs \<Longrightarrow> AssignBytesToUlLC gs tbs = Inr asg \<Longrightarrow> bytes_total asg \<le> unat tbs"

interpretation rr_ul: ul_lc_algorithm RR_AssignBytesToUlLC
proof
  fix gs tbs assume g: "groups_ok gs"
  obtain asg' where a: "RR_AssignBytesToUlLC gs tbs = Inr asg'" "distinct (map a_key asg')"
    "a_key ` set asg' = {k. demand gs k > 0}" "bytes_total asg' \<le> unat tbs"
    unfolding RR_AssignBytesToUlLC_def
    by (rule RR_AssignBytesToLC_fair [OF g, of tbs]) (metis bytes_total_simps(1) order_refl zero_le)
  show "\<exists>asg. RR_AssignBytesToUlLC gs tbs = Inr asg" using a(1) by blast
  fix asg assume "RR_AssignBytesToUlLC gs tbs = Inr asg"
  with a show "distinct (map a_key asg) \<and> a_key ` set asg = {k. demand gs k > 0}" and "bytes_total asg \<le> unat tbs"
    by auto
qed

interpretation qos_ul: ul_lc_algorithm QoS_AssignBytesToUlLC
proof
  fix gs tbs assume g: "groups_ok gs"
  obtain asg' where a: "QoS_AssignBytesToUlLC gs tbs = Inr asg'" "distinct (map a_key asg')"
    "a_key ` set asg' = {k. demand gs k > 0}" "bytes_total asg' \<le> unat tbs"
    by (rule QoS_AssignBytesToUlLC_ok [OF g])
  show "\<exists>asg. QoS_AssignBytesToUlLC gs tbs = Inr asg" using a(1) by blast
  fix asg assume "QoS_AssignBytesToUlLC gs tbs = Inr asg"
  with a show "distinct (map a_key asg) \<and> a_key ` set asg = {k. demand gs k > 0}" and "bytes_total asg \<le> unat tbs"
    by auto
qed


section \<open>Properties of the QoS distribution\<close>

text \<open>
  C36: the QoS distribution of a downlink block never fails and never hands out more bytes than the block has, for
  slots of at most a second and guaranteed rates below 2 ^ 35 bit/s: neither in the branch for the guaranteed
  rates nor when the rest of the block is added to the shares of the guaranteed channels.
\<close>

theorem qos_within_block:
  assumes "distinct (map fst ueLCG)" and "rates_ok slotPeriod ueLCG"
  shows "\<exists>asg. QoS_AssignBytesToDlLC ueLCG tbs slotPeriod = Inr asg \<and> bytes_total asg \<le> unat tbs"
  using QoS_AssignBytesToDlLC_ok [OF assms] QoS_within_block [OF assms(1)] by blast

text \<open>Two channels of a voice class with 8000 bit/s each and one without a guaranteed rate.\<close>

definition example_qos :: "(u8 \<times> LCG) list" where
  "example_qos =
     [(1, \<lparr>lcg_id = 1, m_lcMap = [(3, (example_lc 3 40)\<lparr>m_resourceType := QBT_GBR, m_eRabGuaranteedBitrateDl := 8000\<rparr>),
                                  (4, (example_lc 4 40)\<lparr>m_resourceType := QBT_GBR, m_eRabGuaranteedBitrateDl := 8000\<rparr>)]\<rparr>),
      (2, \<lparr>lcg_id = 2, m_lcMap = [(5, example_lc 5 10000)]\<rparr>)]"

lemma example_qos_ok: "distinct (map fst example_qos)" "rates_ok 1000000 example_qos"
  by (simp_all add: example_qos_def rates_ok_def example_lc_def)

theorem qos_within_block_witness:
  "\<exists>asg. QoS_AssignBytesToDlLC example_qos 5000 1000000 = Inr asg \<and> bytes_total asg \<le> 5000"
  using qos_within_block [OF example_qos_ok, of 5000] by simp


end
