(* ===== verification/NrMacHarq.thy ===== *)
theory NrMacHarq
  imports OranPrelude "HOL-Library.AList"
begin

text \<open>
  The HARQ processes of a UE at the MAC scheduler (\<open>src/nr/model/nr-mac-harq-process.h\<close>,
  \<open>nr-mac-harq-vector.h\<close>, \<open>nr-mac-harq-vector.cc\<close>): a pool of processes with identities, a counter of the
  active ones, and the laws by which the scheduler uses it.
\<close>

section \<open>Processes\<close>

text \<open>The fields of \<open>DciInfoElementTdma\<close> that the modelled code reads.\<close>

record Dci =
  dci_rnti :: u16
  dci_symStart :: u8
  dci_numSym :: u8
  dci_tbSize :: u32
  dci_ndi :: u8
  dci_rv :: u8
  dci_harqProcess :: u8

datatype HarqStatus = HARQ_INACTIVE | WAITING_FEEDBACK | RECEIVED_FEEDBACK

record HarqProcess =
  m_active :: bool
  m_status :: HarqStatus
  m_timer :: u8
  m_dciElement :: "Dci option"
  m_rlcPduInfo :: "(u8 \<times> u32) list"

definition HarqProcess_default :: HarqProcess where
  "HarqProcess_default = \<lparr>m_active = False, m_status = HARQ_INACTIVE, m_timer = 0, m_dciElement = None, m_rlcPduInfo = []\<rparr>"

definition HarqProcess_new :: "bool \<Rightarrow> HarqStatus \<Rightarrow> u8 \<Rightarrow> Dci \<Rightarrow> HarqProcess" where
  "HarqProcess_new active status timer dci =
     \<lparr>m_active = active, m_status = status, m_timer = timer, m_dciElement = Some dci, m_rlcPduInfo = []\<rparr>"

definition HarqProcess_Erase :: "HarqProcess \<Rightarrow> HarqProcess" where
  "HarqProcess_Erase p = p\<lparr>m_active := False, m_status := HARQ_INACTIVE, m_timer := 0, m_dciElement := None, m_rlcPduInfo := []\<rparr>"

section \<open>The vector of processes\<close>

record HarqVector =
  hv_map :: "(u8 \<times> HarqProcess) list"
  m_maxSize :: u8
  m_usedSize :: u8

definition HarqVector_new :: HarqVector where
  "HarqVector_new = \<lparr>hv_map = [], m_maxSize = 0, m_usedSize = 0\<rparr>"

definition emplace :: "'k \<Rightarrow> 'v \<Rightarrow> ('k \<times> 'v) list \<Rightarrow> ('k \<times> 'v) list" where
  "emplace k v m = (if map_of m k = None then (k, v) # m else m)"

definition SetMaxSize :: "u8 \<Rightarrow> HarqVector \<Rightarrow> HarqVector" where
  "SetMaxSize siz v =
     v\<lparr>m_maxSize := siz,
       hv_map := fold (\<lambda>i m. emplace (of_nat i) HarqProcess_default m) [0..<unat siz] (hv_map v)\<rparr>"

definition count_active :: "(u8 \<times> HarqProcess) list \<Rightarrow> nat" where
  "count_active m = length (filter (\<lambda>(k, p). m_active p) m)"

definition harq_at :: "u8 \<Rightarrow> HarqVector \<Rightarrow> HarqProcess res" where
  "harq_at harqId v = (case map_of (hv_map v) harqId of None \<Rightarrow> Inl (NS_ABORT ''std::out_of_range'') | Some p \<Rightarrow> Inr p)"

definition harq_put :: "u8 \<Rightarrow> HarqProcess \<Rightarrow> HarqVector \<Rightarrow> HarqVector" where
  "harq_put harqId p v = v\<lparr>hv_map := AList.update harqId p (hv_map v)\<rparr>"

definition HarqVector_Erase :: "u8 \<Rightarrow> HarqVector \<Rightarrow> HarqVector res" where
  "HarqVector_Erase harqId v =
     res_bind (harq_at harqId v) (\<lambda>p.
       let v = (harq_put harqId (HarqProcess_Erase p) v)\<lparr>m_usedSize := m_usedSize v - 1\<rparr>
       in ns_assert (of_nat (count_active (hv_map v)) = (ucast (m_usedSize v) :: u32)) ''count == m_usedSize'' (Inr v))"

definition FirstAvailableId :: "HarqVector \<Rightarrow> u8" where
  "FirstAvailableId v = (case filter (\<lambda>(k, p). \<not> m_active p) (hv_map v) of [] \<Rightarrow> 255 | (k, p) # _ \<Rightarrow> k)"

text \<open>\<open>Insert\<close> returns whether the element was stored, its identity and the vector.\<close>

definition HarqVector_Insert :: "HarqProcess \<Rightarrow> HarqVector \<Rightarrow> (bool \<times> u8 option \<times> HarqVector) res" where
  "HarqVector_Insert element v =
     (if m_usedSize v \<ge> m_maxSize v then Inr (False, None, v)
      else abort_if (\<not> m_active element) ''element.m_active == false''
       (let harqId = FirstAvailableId v
        in if harqId = 255 then Inr (False, Some harqId, v)
           else res_bind (harq_at harqId v) (\<lambda>p.
             abort_if (m_active p) ''at(*id).m_active == true''
               (let v = harq_put harqId element v
                in abort_if (FirstAvailableId v = harqId) ''FirstAvailableId () == *id''
                     (Inr (True, Some harqId, v\<lparr>m_usedSize := m_usedSize v + 1\<rparr>))))))"

definition HarqVector_Exist :: "u8 \<Rightarrow> HarqVector \<Rightarrow> bool" where
  "HarqVector_Exist harqId v = (map_of (hv_map v) harqId \<noteq> None)"

definition HarqVector_Get :: "u8 \<Rightarrow> HarqVector \<Rightarrow> HarqProcess res" where
  "HarqVector_Get harqId v =
     ns_assert (HarqVector_Exist harqId v) ''Exist (id)'' (harq_at harqId v)"

definition CanInsert :: "HarqVector \<Rightarrow> bool" where
  "CanInsert v = (m_usedSize v < m_maxSize v)"

section \<open>Well-formed vectors\<close>

definition process_ok :: "HarqProcess \<Rightarrow> bool" where
  "process_ok p \<longleftrightarrow>
     (m_active p \<longleftrightarrow> m_status p \<noteq> HARQ_INACTIVE) \<and>
     (m_active p \<longrightarrow> (case m_dciElement p of None \<Rightarrow> False | Some dci \<Rightarrow> dci_rv dci < 4))"

definition harq_ok :: "HarqVector \<Rightarrow> bool" where
  "harq_ok v \<longleftrightarrow> distinct (map fst (hv_map v)) \<and> set (map fst (hv_map v)) = set (map of_nat [0..<unat (m_maxSize v)]) \<and>
     unat (m_usedSize v) = count_active (hv_map v) \<and> (\<forall>(k, p) \<in> set (hv_map v). process_ok p)"

lemma count_active_simps [simp]:
  "count_active [] = 0" "count_active ((k, p) # m) = (if m_active p then Suc (count_active m) else count_active m)"
  by (simp_all add: count_active_def)

lemma count_active_update:
  assumes "map_of m k = Some p"
  shows "count_active (AList.update k q m) + (if m_active p then 1 else 0) = count_active m + (if m_active q then 1 else 0)"
  using assms by (induction m) (auto split: if_splits)

lemma update_set:
  assumes "map_of m k = Some p" and "distinct (map fst m)" and "(k', q') \<in> set (AList.update k q m)"
  shows "(k', q') = (k, q) \<or> (k' \<noteq> k \<and> (k', q') \<in> set m)"
  using assms by (induction m) (auto simp: image_iff split: if_splits dest: map_of_SomeD)

lemma update_keys: "map_of m k = Some p \<Longrightarrow> map fst (AList.update k q m) = map fst m"
  by (induction m) (auto split: if_splits)

text \<open>Writing a well-formed process back keeps the vector well-formed, with the counter that the change asks for.\<close>

lemma harq_put_ok:
  assumes "harq_ok v" and "map_of (hv_map v) k = Some p" and "process_ok q"
    and "unat n + (if m_active p then 1 else 0) = unat (m_usedSize v) + (if m_active q then 1 else 0)"
  shows "harq_ok ((harq_put k q v)\<lparr>m_usedSize := n\<rparr>)"
proof -
  have d: "distinct (map fst (hv_map v))" using assms(1) by (simp add: harq_ok_def)
  have "process_ok q'" if "(k', q') \<in> set (AList.update k q (hv_map v))" for k' q'
    using update_set [OF assms(2) d that] assms(1,3) by (auto simp: harq_ok_def)
  with assms count_active_update [OF assms(2), of q] update_keys [OF assms(2), of q] show ?thesis
    by (auto simp: harq_ok_def harq_put_def)
qed

lemma count_active_length: "count_active m \<le> length m"
  by (simp add: count_active_def)

lemma harq_ok_length:
  assumes "harq_ok v"
  shows "length (hv_map v) = unat (m_maxSize v)"
proof -
  have inj: "inj_on (of_nat :: nat \<Rightarrow> u8) {0..<unat (m_maxSize v)}"
  proof (rule inj_onI)
    fix i j assume "i \<in> {0..<unat (m_maxSize v)}" "j \<in> {0..<unat (m_maxSize v)}" "(of_nat i :: u8) = of_nat j"
    moreover have "unat (m_maxSize v) < 256" using unsigned_less [of "m_maxSize v", where 'a = nat] by simp
    ultimately show "i = j" by (simp add: word_of_nat_eq_iff take_bit_nat_eq_self)
  qed
  have "length (hv_map v) = card (set (map fst (hv_map v)))"
    using assms by (metis distinct_card harq_ok_def length_map)
  also have "\<dots> = card ((of_nat :: nat \<Rightarrow> u8) ` {0..<unat (m_maxSize v)})"
    using assms by (simp add: harq_ok_def)
  also have "\<dots> = unat (m_maxSize v)" using card_image [OF inj] by simp
  finally show ?thesis .
qed

lemma harq_ok_key:
  assumes "harq_ok v" and "(k, p) \<in> set (hv_map v)"
  shows "k < m_maxSize v"
proof -
  have "k \<in> set (map fst (hv_map v))" using assms(2) by force
  then obtain i where "k = of_nat i" "i < unat (m_maxSize v)" using assms(1) by (auto simp: harq_ok_def)
  moreover have "unat (m_maxSize v) < 256" using unsigned_less [of "m_maxSize v", where 'a = nat] by simp
  ultimately show ?thesis by (simp add: word_less_nat_alt unat_of_nat)
qed

lemma HarqVector_Erase_ok:
  assumes "harq_ok v" and "map_of (hv_map v) k = Some p" and "m_active p"
  obtains v' where "HarqVector_Erase k v = Inr v'" and "harq_ok v'"
    and "map_of (hv_map v') = (map_of (hv_map v))(k \<mapsto> HarqProcess_Erase p)" and "m_maxSize v' = m_maxSize v"
    and "unat (m_usedSize v') + 1 = unat (m_usedSize v)"
proof -
  let ?v = "(harq_put k (HarqProcess_Erase p) v)\<lparr>m_usedSize := m_usedSize v - 1\<rparr>"
  have inact: "\<not> m_active (HarqProcess_Erase p)" "process_ok (HarqProcess_Erase p)"
    by (simp_all add: HarqProcess_Erase_def process_ok_def)
  have "count_active (hv_map v) > 0"
    using count_active_update [OF assms(2), of "HarqProcess_Erase p"] assms(3) inact(1) by simp
  then have pos: "unat (m_usedSize v) > 0" using assms(1) by (simp add: harq_ok_def)
  then have "1 \<le> m_usedSize v" by (simp add: word_le_nat_alt)
  then have used: "unat (m_usedSize v - 1) + 1 = unat (m_usedSize v)" using pos by (simp add: unat_sub)
  have ok: "harq_ok ?v" by (rule harq_put_ok [OF assms(1,2) inact(2)]) (use used assms(3) inact in simp)
  then have "unat (m_usedSize ?v) = count_active (hv_map ?v)" by (simp add: harq_ok_def)
  then have "of_nat (count_active (hv_map ?v)) = (ucast (m_usedSize ?v) :: u32)" by (metis of_nat_unat)
  then have "HarqVector_Erase k v = Inr ?v"
    using assms(2) by (simp add: HarqVector_Erase_def harq_at_def)
  with ok used that [of ?v] show ?thesis by (simp add: harq_put_def update_conv')
qed

lemma FirstAvailableId_free:
  assumes "harq_ok v" and "CanInsert v"
  obtains p where "map_of (hv_map v) (FirstAvailableId v) = Some p" and "\<not> m_active p" and "FirstAvailableId v \<noteq> 255"
proof -
  have "count_active (hv_map v) < length (hv_map v)"
    using assms harq_ok_length [OF assms(1)] by (simp add: harq_ok_def CanInsert_def word_less_nat_alt)
  then have "filter (\<lambda>(k, p). \<not> m_active p) (hv_map v) \<noteq> []"
    using sum_length_filter_compl [of "\<lambda>(k, p). m_active p" "hv_map v"]
    by (auto simp: count_active_def split_def)
  then obtain k p rest where f: "filter (\<lambda>(k, p). \<not> m_active p) (hv_map v) = (k, p) # rest"
    by (metis list.exhaust prod.exhaust)
  then have "(k, p) \<in> set (filter (\<lambda>(k, p). \<not> m_active p) (hv_map v))" by simp
  then have mem: "(k, p) \<in> set (hv_map v)" "\<not> m_active p" by simp_all
  have id: "FirstAvailableId v = k" using f by (simp add: FirstAvailableId_def)
  have "map_of (hv_map v) k = Some p" using assms(1) mem(1) by (simp add: harq_ok_def)
  moreover have "k \<noteq> 255"
    using harq_ok_key [OF assms(1) mem(1)] unsigned_less [of "m_maxSize v", where 'a = nat]
    by (auto simp: word_less_nat_alt)
  ultimately show ?thesis using that id mem(2) by metis
qed

lemma HarqVector_Insert_ok:
  assumes "harq_ok v" and "CanInsert v" and "process_ok e" and "m_active e"
  obtains k p v' where "HarqVector_Insert e v = Inr (True, Some k, v')" and "harq_ok v'"
    and "map_of (hv_map v) k = Some p" and "\<not> m_active p" and "k < m_maxSize v"
    and "map_of (hv_map v') = (map_of (hv_map v))(k \<mapsto> e)" and "m_maxSize v' = m_maxSize v"
    and "unat (m_usedSize v') = unat (m_usedSize v) + 1"
proof -
  obtain p where p: "map_of (hv_map v) (FirstAvailableId v) = Some p" "\<not> m_active p" "FirstAvailableId v \<noteq> 255"
    using FirstAvailableId_free [OF assms(1,2)] by blast
  let ?k = "FirstAvailableId v"
  let ?v = "(harq_put ?k e v)\<lparr>m_usedSize := m_usedSize v + 1\<rparr>"
  have "unat (m_usedSize v) < unat (m_maxSize v)" using assms(2) by (simp add: CanInsert_def word_less_nat_alt)
  moreover have "unat (m_maxSize v) < 256" using unsigned_less [of "m_maxSize v", where 'a = nat] by simp
  ultimately have used: "unat (m_usedSize v + 1) = unat (m_usedSize v) + 1" by (simp add: unat_word_ariths)
  have ok: "harq_ok ?v" by (rule harq_put_ok [OF assms(1) p(1) assms(3)]) (use used p(2) assms(4) in simp)
  have "distinct (map fst (AList.update ?k e (hv_map v)))" using ok by (simp add: harq_ok_def harq_put_def)
  moreover have "map_of (AList.update ?k e (hv_map v)) ?k = Some e" by (simp add: update_conv')
  ultimately have only: "q = e" if "(?k, q) \<in> set (AList.update ?k e (hv_map v))" for q
    using that map_of_is_SomeI by fastforce
  have "FirstAvailableId (harq_put ?k e v) \<noteq> ?k"
  proof
    assume eq: "FirstAvailableId (harq_put ?k e v) = ?k"
    then obtain q rest where "filter (\<lambda>(k, p). \<not> m_active p) (hv_map (harq_put ?k e v)) = (?k, q) # rest"
      using p(3) unfolding FirstAvailableId_def [of "harq_put ?k e v"] by (auto split: list.splits)
    then have "(?k, q) \<in> set (filter (\<lambda>(k, p). \<not> m_active p) (hv_map (harq_put ?k e v)))" by simp
    then have "(?k, q) \<in> set (hv_map (harq_put ?k e v))" "\<not> m_active q" by simp_all
    with only [of q] assms(4) show False by (simp add: harq_put_def)
  qed
  then have "HarqVector_Insert e v = Inr (True, Some ?k, ?v)"
    using assms(2,4) p by (simp add: HarqVector_Insert_def CanInsert_def harq_at_def Let_def harq_put_def)
  moreover have "?k < m_maxSize v" using harq_ok_key [OF assms(1)] p(1) by (blast dest: map_of_SomeD)
  ultimately show ?thesis using that ok used p by (simp add: harq_put_def update_conv')
qed

definition blank_processes :: "nat \<Rightarrow> (u8 \<times> HarqProcess) list" where
  "blank_processes n = fold (\<lambda>i m. emplace (of_nat i) HarqProcess_default m) [0..<n] []"

lemma blank_processes_simps [simp]:
  "blank_processes 0 = []"
  "blank_processes (Suc n) = emplace (of_nat n) HarqProcess_default (blank_processes n)"
  by (simp_all add: blank_processes_def)

lemma blank_processes_ok:
  assumes "n < 256"
  shows "map_of (blank_processes n) = (\<lambda>k. if unat k < n then Some HarqProcess_default else None) \<and>
    distinct (map fst (blank_processes n))"
  using assms
proof (induction n)
  case (Suc n)
  then have IH: "map_of (blank_processes n) = (\<lambda>k. if unat k < n then Some HarqProcess_default else None)"
    "distinct (map fst (blank_processes n))" by auto
  have u: "unat (of_nat n :: u8) = n" using Suc.prems by (simp add: unat_of_nat)
  have k: "k = of_nat n \<longleftrightarrow> unat k = n" for k :: u8 using u by (metis unat_eq_nat_uint word_unat_eq_iff)
  have none: "map_of (blank_processes n) (of_nat n) = None" unfolding IH(1) by (simp add: u)
  then have "map_of (blank_processes (Suc n)) = (map_of (blank_processes n))(of_nat n \<mapsto> HarqProcess_default)"
    by (simp add: emplace_def)
  then have "map_of (blank_processes (Suc n)) = (\<lambda>k. if unat k < Suc n then Some HarqProcess_default else None)"
    unfolding IH(1) by (auto simp: fun_eq_iff k less_Suc_eq)
  moreover have "distinct (map fst (blank_processes (Suc n)))"
    using none IH(2) by (simp add: emplace_def map_of_eq_None_iff)
  ultimately show ?case ..
qed simp

lemma SetMaxSize_ok: "harq_ok (SetMaxSize siz HarqVector_new)"
proof -
  let ?m = "blank_processes (unat siz)"
  have siz: "unat siz < 256" using unsigned_less [of siz, where 'a = nat] by simp
  have e: "map_of ?m = (\<lambda>k. if unat k < unat siz then Some HarqProcess_default else None)" "distinct (map fst ?m)"
    using blank_processes_ok [OF siz] by auto
  have "set (map fst ?m) = dom (map_of ?m)" by (simp add: dom_map_of_conv_image_fst)
  also have "\<dots> = {k. unat k < unat siz}" unfolding e(1) by (auto split: if_splits)
  also have "\<dots> = of_nat ` {0..<unat siz}"
  proof -
    have "k \<in> of_nat ` {0..<unat siz}" if "unat k < unat siz" for k :: u8
      using that by (intro image_eqI [of _ _ "unat k"]) simp_all
    moreover have "unat (of_nat i :: u8) < unat siz" if "i < unat siz" for i
      using that siz by (simp add: unat_of_nat)
    ultimately show ?thesis by auto
  qed
  finally have keys: "set (map fst ?m) = of_nat ` {0..<unat siz}" .
  have blank: "p = HarqProcess_default" if "(k, p) \<in> set ?m" for k p
    using map_of_is_SomeI [OF e(2) that] unfolding e(1) by (simp split: if_splits)
  have "count_active ?m = 0" using blank by (fastforce simp: count_active_def filter_empty_conv HarqProcess_default_def)
  moreover have "process_ok HarqProcess_default" by (simp add: process_ok_def HarqProcess_default_def)
  then have "\<forall>(k, p) \<in> set ?m. process_ok p" using blank by auto
  moreover have "SetMaxSize siz HarqVector_new = \<lparr>hv_map = ?m, m_maxSize = siz, m_usedSize = 0\<rparr>"
    by (simp add: SetMaxSize_def HarqVector_new_def blank_processes_def)
  ultimately show ?thesis using e(2) keys by (simp add: harq_ok_def)
qed

end
