(* ===== verification/NrMacScheduler.thy ===== *)
theory NrMacScheduler
  imports NrMacCe NrMacLcQos NrMacHarq
begin

text \<open>
  The registry of UEs of the NR MAC scheduler (\<open>src/nr/model/nr-mac-scheduler-ns3.cc\<close>,
  \<open>nr-mac-scheduler-ue-info.cc\<close>) with the sounding offsets (\<open>nr-mac-scheduler-srs-default.cc\<close>): the
  configuration of UEs and logical channels, the reports of the RLC entities and of the UEs, the scheduling
  requests, the HARQ feedback, and the bookkeeping of a transport block that is given to a UE. The choice of
  symbols and resource blocks for a DCI is not part of this theory: the DCI is an argument.
\<close>

section \<open>State\<close>

type_synonym BeamId = "u16 \<times> real"

record NrMacSchedulerUeInfo =
  ue_rnti :: u16
  m_beamId :: BeamId
  m_dlLCG :: "(u8 \<times> LCG) list"
  m_ulLCG :: "(u8 \<times> LCG) list"
  m_dlHarq :: HarqVector
  m_ulHarq :: HarqVector
  m_dlMcs :: u8
  m_startMcsDlUe :: u8
  m_ulMcs :: u8
  m_srsPeriodicity :: u32
  m_srsOffset :: u32

definition UeInfo_new :: "u16 \<Rightarrow> BeamId \<Rightarrow> NrMacSchedulerUeInfo" where
  "UeInfo_new rnti beamId =
     \<lparr>ue_rnti = rnti, m_beamId = beamId, m_dlLCG = [], m_ulLCG = [], m_dlHarq = HarqVector_new,
      m_ulHarq = HarqVector_new, m_dlMcs = 0, m_startMcsDlUe = 0, m_ulMcs = 0, m_srsPeriodicity = 0, m_srsOffset = 0\<rparr>"

record Srs =
  m_periodicity :: u32
  m_availableOffsetValues :: "u32 list"

text \<open>A feedback on a HARQ process, with the value of \<open>IsReceivedOk\<close>.\<close>

record HarqInfo =
  fb_rnti :: u16
  fb_harqProcessId :: u8
  fb_receivedOk :: bool

record Scheduler =
  m_ueMap :: "(u16 \<times> NrMacSchedulerUeInfo) list"
  m_schedulerSrs :: Srs
  m_srList :: "u16 list"
  m_dlHarqToRetransmit :: "HarqInfo list"
  m_ulHarqToRetransmit :: "HarqInfo list"
  m_startMcsDl :: u8
  m_startMcsUl :: u8
  m_enableHarqReTx :: bool
  numHarqProcess :: u8
  bearerRelease :: u8

definition ue_put :: "u16 \<Rightarrow> NrMacSchedulerUeInfo \<Rightarrow> Scheduler \<Rightarrow> Scheduler" where
  "ue_put rnti ue s = s\<lparr>m_ueMap := AList.update rnti ue (m_ueMap s)\<rparr>"

section \<open>Sounding offsets\<close>

definition StandardPeriodicity :: "u32 list" where
  "StandardPeriodicity = [2, 4, 5, 8, 10, 16, 20, 32, 40, 64, 80, 160, 320, 640, 1280, 2560]"

text \<open>\<open>AddUe\<close> returns the offset and the periodicity, or an invalid value when no offset is left.\<close>

definition Srs_AddUe :: "Srs \<Rightarrow> (u32 \<times> u32) option \<times> Srs" where
  "Srs_AddUe r =
     (if m_availableOffsetValues r = [] then (None, r)
      else (Some (last (m_availableOffsetValues r), m_periodicity r),
            r\<lparr>m_availableOffsetValues := butlast (m_availableOffsetValues r)\<rparr>))"

definition Srs_RemoveUe :: "u32 \<Rightarrow> Srs \<Rightarrow> Srs" where
  "Srs_RemoveUe offset r = r\<lparr>m_availableOffsetValues := m_availableOffsetValues r @ [offset]\<rparr>"

definition SetStartingPeriodicity :: "u32 \<Rightarrow> Srs \<Rightarrow> Srs res" where
  "SetStartingPeriodicity start r =
     abort_if (m_availableOffsetValues r \<noteq> []) ''We already started giving offset to UEs, you cannot alter the periodicity''
      (abort_if (start \<notin> set StandardPeriodicity) ''please use a standard value''
        (Inr (r\<lparr>m_periodicity := start, m_availableOffsetValues := map of_nat [0..<unat start]\<rparr>)))"

text \<open>\<open>ShuffleOffsets\<close> with the permutation that the random variable gives, as the list of the old positions.\<close>

definition ShuffleOffsets :: "nat list \<Rightarrow> Srs \<Rightarrow> Srs" where
  "ShuffleOffsets perm r = r\<lparr>m_availableOffsetValues := map ((!) (m_availableOffsetValues r)) perm\<rparr>"

definition assign_srs :: "Srs \<times> (u16 \<times> NrMacSchedulerUeInfo) list \<Rightarrow> u16 \<times> NrMacSchedulerUeInfo \<Rightarrow> (Srs \<times> (u16 \<times> NrMacSchedulerUeInfo) list) res" where
  "assign_srs = (\<lambda>(r, ues) (rnti, ue).
     let (srs, r) = Srs_AddUe r
     in case srs of
          None \<Rightarrow> Inl (NS_ASSERT ''srs.m_isValid'')
        | Some (offset, periodicity) \<Rightarrow>
            Inr (r, ues @ [(rnti, ue\<lparr>m_srsPeriodicity := periodicity, m_srsOffset := offset\<rparr>)]))"

definition ReassignSrsValue :: "(u16 \<times> NrMacSchedulerUeInfo) list \<Rightarrow> Srs \<Rightarrow> (Srs \<times> (u16 \<times> NrMacSchedulerUeInfo) list) res" where
  "ReassignSrsValue ueMap r = for_each assign_srs ueMap (r, [])"

text \<open>\<open>std::upper_bound\<close> and \<open>std::lower_bound\<close> on the sorted table; the result is the success and the new state.\<close>

definition IncreasePeriodicity :: "(u16 \<times> NrMacSchedulerUeInfo) list \<Rightarrow> Srs \<Rightarrow> (bool \<times> Srs \<times> (u16 \<times> NrMacSchedulerUeInfo) list) res" where
  "IncreasePeriodicity ueMap r =
     (let r = r\<lparr>m_availableOffsetValues := []\<rparr>
      in case dropWhile (\<lambda>p. p \<le> m_periodicity r) StandardPeriodicity of
           [] \<Rightarrow> Inr (False, r, ueMap)
         | p # _ \<Rightarrow> res_bind (SetStartingPeriodicity p r) (\<lambda>r.
             res_bind (ReassignSrsValue ueMap r) (\<lambda>(r, ueMap). Inr (True, r, ueMap))))"

definition DecreasePeriodicity :: "(u16 \<times> NrMacSchedulerUeInfo) list \<Rightarrow> Srs \<Rightarrow> (bool \<times> Srs \<times> (u16 \<times> NrMacSchedulerUeInfo) list) res" where
  "DecreasePeriodicity ueMap r =
     (let r = r\<lparr>m_availableOffsetValues := []\<rparr>
      in case dropWhile (\<lambda>p. p < m_periodicity r) StandardPeriodicity of
           [] \<Rightarrow> Inr (False, r, ueMap)
         | p # _ \<Rightarrow> res_bind (SetStartingPeriodicity p r) (\<lambda>r.
             res_bind (ReassignSrsValue ueMap r) (\<lambda>(r, ueMap). Inr (True, r, ueMap))))"

definition IsMaxSrsReached :: "Srs \<Rightarrow> bool" where
  "IsMaxSrsReached r \<longleftrightarrow> m_periodicity r = last StandardPeriodicity \<and> m_availableOffsetValues r = []"

section \<open>UEs\<close>

definition DoCschedUeConfigReq :: "u16 \<Rightarrow> BeamId \<Rightarrow> Scheduler \<Rightarrow> Scheduler res" where
  "DoCschedUeConfigReq rnti beamId s =
     (case map_of (m_ueMap s) rnti of
        Some ue \<Rightarrow> Inr (ue_put rnti (ue\<lparr>m_beamId := beamId\<rparr>) s)
      | None \<Rightarrow>
          let ue = UeInfo_new rnti beamId;
              ue = ue\<lparr>m_dlHarq := SetMaxSize (numHarqProcess s) (m_dlHarq ue),
                      m_ulHarq := SetMaxSize (numHarqProcess s) (m_ulHarq ue),
                      m_dlMcs := m_startMcsDl s, m_startMcsDlUe := m_startMcsDl s, m_ulMcs := m_startMcsUl s\<rparr>;
              ueMap = (rnti, ue) # m_ueMap s;
              (srs, r) = Srs_AddUe (m_schedulerSrs s)
          in case srs of
               None \<Rightarrow> res_bind (IncreasePeriodicity ueMap r) (\<lambda>(ret, r, ueMap).
                 ns_assert ret ''ret'' (Inr (s\<lparr>m_ueMap := ueMap, m_schedulerSrs := r\<rparr>)))
             | Some (offset, periodicity) \<Rightarrow>
                 Inr (s\<lparr>m_ueMap := (rnti, ue\<lparr>m_srsPeriodicity := periodicity, m_srsOffset := offset\<rparr>) # m_ueMap s,
                        m_schedulerSrs := r\<rparr>))"

definition DoCschedUeReleaseReq :: "u16 \<Rightarrow> Scheduler \<Rightarrow> Scheduler res" where
  "DoCschedUeReleaseReq rnti s =
     (case map_of (m_ueMap s) rnti of
        None \<Rightarrow> Inl (NS_ABORT ''itUe == m_ueMap.end ()'')
      | Some ue \<Rightarrow> Inr (s\<lparr>m_schedulerSrs := Srs_RemoveUe (m_srsOffset ue) (m_schedulerSrs s),
                           m_ueMap := AList.delete rnti (m_ueMap s)\<rparr>))"

section \<open>Logical channels\<close>

text \<open>The group of a configuration, created when it does not exist.\<close>

definition find_or_create :: "LogicalChannelConfig \<Rightarrow> (u8 \<times> LCG) list \<Rightarrow> LCG \<times> (u8 \<times> LCG) list" where
  "find_or_create conf groups =
     (case map_of groups (m_logicalChannelGroup conf) of
        Some g \<Rightarrow> (g, groups)
      | None \<Rightarrow> let g = LCG_new (m_logicalChannelGroup conf) in (g, (m_logicalChannelGroup conf, g) # groups))"

definition config_dl :: "u8 \<Rightarrow> LogicalChannelConfig \<Rightarrow> (u8 \<times> LCG) list \<Rightarrow> (u8 \<times> LCG) list res" where
  "config_dl release conf groups =
     (let (g, groups) = find_or_create conf groups
      in res_bind (LC_new release conf) (\<lambda>lc.
         res_bind (LCG_Insert lc g) (\<lambda>g. Inr (AList.update (m_logicalChannelGroup conf) g groups))))"

definition config_ul :: "u8 \<Rightarrow> LogicalChannelConfig \<Rightarrow> (u8 \<times> LCG) list \<Rightarrow> (u8 \<times> LCG) list res" where
  "config_ul release conf groups =
     (let (g, groups) = find_or_create conf groups
      in if LCG_NumOfLC g = 0
         then res_bind (LC_new release conf) (\<lambda>lc.
              res_bind (LCG_Insert lc g) (\<lambda>g. Inr (AList.update (m_logicalChannelGroup conf) g groups)))
         else Inr groups)"

definition config_lc :: "u8 \<Rightarrow> NrMacSchedulerUeInfo \<Rightarrow> LogicalChannelConfig \<Rightarrow> NrMacSchedulerUeInfo res" where
  "config_lc release ue conf =
     res_bind (if m_direction conf = DIR_DL \<or> m_direction conf = DIR_BOTH
               then config_dl release conf (m_dlLCG ue) else Inr (m_dlLCG ue)) (\<lambda>dl.
     res_bind (if m_direction conf = DIR_UL \<or> m_direction conf = DIR_BOTH
               then config_ul release conf (m_ulLCG ue) else Inr (m_ulLCG ue)) (\<lambda>ul.
       Inr (ue\<lparr>m_dlLCG := dl, m_ulLCG := ul\<rparr>)))"

definition DoCschedLcConfigReq :: "u16 \<Rightarrow> LogicalChannelConfig list \<Rightarrow> Scheduler \<Rightarrow> Scheduler res" where
  "DoCschedLcConfigReq rnti confs s =
     (case map_of (m_ueMap s) rnti of
        None \<Rightarrow> Inl (NS_ABORT ''itUe == m_ueMap.end ()'')
      | Some ue \<Rightarrow> res_bind (for_each (config_lc (bearerRelease s)) confs ue) (\<lambda>ue. Inr (ue_put rnti ue s)))"

text \<open>The groups that become empty are erased; the search starts again after each of them.\<close>

definition release_in :: "u8 \<Rightarrow> (u8 \<times> LCG) list \<Rightarrow> (u8 \<times> LCG) list" where
  "release_in lcid groups = filter (\<lambda>(k, g). LCG_GetLCId g \<noteq> []) (map (\<lambda>(k, g). (k, LCG_ReleaseLC lcid g)) groups)"

definition UeInfo_ReleaseLC :: "u8 \<Rightarrow> NrMacSchedulerUeInfo \<Rightarrow> NrMacSchedulerUeInfo" where
  "UeInfo_ReleaseLC lcid ue = ue\<lparr>m_dlLCG := release_in lcid (m_dlLCG ue), m_ulLCG := release_in lcid (m_ulLCG ue)\<rparr>"

definition release_lc :: "u16 \<Rightarrow> Scheduler \<Rightarrow> u8 \<Rightarrow> Scheduler res" where
  "release_lc rnti s lcid =
     (case map_of (m_ueMap s) rnti of
        None \<Rightarrow> Inl (NS_ABORT ''itUe == m_ueMap.end ()'')
      | Some ue \<Rightarrow> Inr (ue_put rnti (UeInfo_ReleaseLC lcid ue) s))"

definition DoCschedLcReleaseReq :: "u16 \<Rightarrow> u8 list \<Rightarrow> Scheduler \<Rightarrow> Scheduler res" where
  "DoCschedLcReleaseReq rnti lcIds s = for_each (release_lc rnti) lcIds s"

section \<open>Reports\<close>

fun update_dl :: "SchedDlRlcBufferReq \<Rightarrow> (u8 \<times> LCG) list \<Rightarrow> (u8 \<times> LCG) list res" where
  "update_dl params [] = Inr []"
| "update_dl params ((k, g) # groups) =
     (if LCG_Contains (req_logicalChannelIdentity params) g
      then res_bind (LCG_UpdateInfo params g) (\<lambda>g. Inr ((k, g) # groups))
      else res_bind (update_dl params groups) (\<lambda>groups. Inr ((k, g) # groups)))"

definition DoSchedDlRlcBufferReq :: "SchedDlRlcBufferReq \<Rightarrow> Scheduler \<Rightarrow> Scheduler res" where
  "DoSchedDlRlcBufferReq params s =
     (case map_of (m_ueMap s) (req_rnti params) of
        None \<Rightarrow> Inl (NS_ABORT ''itUe == m_ueMap.end ()'')
      | Some ue \<Rightarrow> res_bind (update_dl params (m_dlLCG ue)) (\<lambda>dl.
          Inr (ue_put (req_rnti params) (ue\<lparr>m_dlLCG := dl\<rparr>) s)))"

datatype MacCeType = BSR | PHR | CRNTI

record MacCeElement =
  ce_rnti :: u16
  m_macCeType :: MacCeType
  m_bufferStatus :: "u8 list"

definition update_ul :: "u8 list \<Rightarrow> (u8 \<times> LCG) list \<Rightarrow> u8 \<Rightarrow> (u8 \<times> LCG) list res" where
  "update_ul bufferStatus groups lcg =
     (if unat lcg \<ge> length bufferStatus then Inl (NS_ABORT ''std::out_of_range'')
      else let bufSize = ucast (FromLevelToBytes (bufferStatus ! unat lcg)) :: u32
           in case map_of groups lcg of
                None \<Rightarrow> Inr groups
              | Some g \<Rightarrow> res_bind (LCG_UpdateInfo_ul bufSize g) (\<lambda>g. Inr (AList.update lcg g groups)))"

definition BSRReceivedFromUe :: "MacCeElement \<Rightarrow> Scheduler \<Rightarrow> Scheduler res" where
  "BSRReceivedFromUe bsr s =
     ns_assert (m_macCeType bsr = BSR) ''bsr.m_macCeType == MacCeElement::BSR''
      (case map_of (m_ueMap s) (ce_rnti bsr) of
         None \<Rightarrow> Inl (NS_ABORT ''itUe == m_ueMap.end ()'')
       | Some ue \<Rightarrow> res_bind (for_each (update_ul (m_bufferStatus bsr)) [0, 1, 2, 3] (m_ulLCG ue)) (\<lambda>ul.
           Inr (ue_put (ce_rnti bsr) (ue\<lparr>m_ulLCG := ul\<rparr>) s)))"

definition DoSchedUlMacCtrlInfoReq :: "MacCeElement list \<Rightarrow> Scheduler \<Rightarrow> Scheduler res" where
  "DoSchedUlMacCtrlInfoReq macCeList s =
     for_each (\<lambda>s element. if m_macCeType element = BSR then BSRReceivedFromUe element s else Inr s) macCeList s"

definition DoSchedUlSrInfoReq :: "u16 list \<Rightarrow> Scheduler \<Rightarrow> Scheduler res" where
  "DoSchedUlSrInfoReq srList s =
     (let merged = fold (\<lambda>ue l. if ue \<in> set l then l else l @ [ue]) srList (m_srList s)
      in ns_assert (length merged \<ge> length srList) ''m_srList.size() >= params.m_srList.size()''
           (Inr (s\<lparr>m_srList := merged\<rparr>)))"

definition sr_group :: "u8 \<times> LCG \<Rightarrow> (u8 \<times> LCG) res" where
  "sr_group = (\<lambda>(k, g). res_bind (LCG_UpdateInfo_ul 12 g) (\<lambda>g. Inr (k, g)))"

fun map_res :: "('a \<Rightarrow> 'b res) \<Rightarrow> 'a list \<Rightarrow> 'b list res" where
  "map_res f [] = Inr []"
| "map_res f (x # xs) = res_bind (f x) (\<lambda>y. res_bind (map_res f xs) (\<lambda>ys. Inr (y # ys)))"

definition schedule_sr :: "Scheduler \<Rightarrow> u16 \<Rightarrow> Scheduler res" where
  "schedule_sr s rnti =
     (case map_of (m_ueMap s) rnti of
        None \<Rightarrow> Inl (NS_ABORT ''std::out_of_range'')
      | Some ue \<Rightarrow> res_bind (map_res sr_group (m_ulLCG ue)) (\<lambda>ul. Inr (ue_put rnti (ue\<lparr>m_ulLCG := ul\<rparr>) s)))"

text \<open>\<open>DoScheduleUlSr\<close> with the list that \<open>DoScheduleUl\<close> passes and clears.\<close>

definition DoScheduleUlSr :: "Scheduler \<Rightarrow> Scheduler res" where
  "DoScheduleUlSr s = res_bind (for_each schedule_sr (m_srList s) s) (\<lambda>s. Inr (s\<lparr>m_srList := []\<rparr>))"

section \<open>HARQ feedback\<close>

definition reset_process :: "u8 \<Rightarrow> HarqVector \<Rightarrow> u8 \<Rightarrow> HarqVector res" where
  "reset_process numHarq v processId =
     res_bind (harq_at processId v) (\<lambda>process.
       if m_status process = HARQ_INACTIVE then Inr v
       else if m_timer process < numHarq
       then Inr (harq_put processId (process\<lparr>m_timer := m_timer process + 1\<rparr>) v)
       else HarqVector_Erase processId v)"

definition ResetExpiredHARQ :: "u8 \<Rightarrow> HarqVector \<Rightarrow> HarqVector res" where
  "ResetExpiredHARQ numHarq v = for_each (reset_process numHarq) (map fst (hv_map v)) v"

text \<open>The HARQ vector of a direction, as \<open>GetDlHarqVector\<close> and \<open>GetUlHarqVector\<close> give it by reference.\<close>

datatype direction = DL | UL

definition GetHarqVector :: "direction \<Rightarrow> NrMacSchedulerUeInfo \<Rightarrow> HarqVector" where
  "GetHarqVector dir ue = (case dir of DL \<Rightarrow> m_dlHarq ue | UL \<Rightarrow> m_ulHarq ue)"

definition PutHarqVector :: "direction \<Rightarrow> HarqVector \<Rightarrow> NrMacSchedulerUeInfo \<Rightarrow> NrMacSchedulerUeInfo" where
  "PutHarqVector dir v ue = (case dir of DL \<Rightarrow> ue\<lparr>m_dlHarq := v\<rparr> | UL \<Rightarrow> ue\<lparr>m_ulHarq := v\<rparr>)"

definition ResetAllExpired :: "direction \<Rightarrow> Scheduler \<Rightarrow> Scheduler res" where
  "ResetAllExpired dir s =
     res_bind (map_res (\<lambda>(rnti, ue). res_bind (ResetExpiredHARQ (numHarqProcess s) (GetHarqVector dir ue)) (\<lambda>v.
        Inr (rnti, PutHarqVector dir v ue))) (m_ueMap s)) (\<lambda>ueMap. Inr (s\<lparr>m_ueMap := ueMap\<rparr>))"

definition MergeHARQ :: "HarqInfo list \<Rightarrow> HarqInfo list \<Rightarrow> HarqInfo list \<times> HarqInfo list" where
  "MergeHARQ existingFeedbacks inFeedbacks = (existingFeedbacks @ inFeedbacks, [])"

text \<open>The process of a feedback, found through two iterators that the code does not check.\<close>

definition feedback_process :: "direction \<Rightarrow> Scheduler \<Rightarrow> HarqInfo \<Rightarrow> HarqProcess res" where
  "feedback_process dir s fb =
     (case map_of (m_ueMap s) (fb_rnti fb) of
        None \<Rightarrow> Inl (UB ''m_ueMap.find (rnti)->second'')
      | Some ue \<Rightarrow> (case map_of (hv_map (GetHarqVector dir ue)) (fb_harqProcessId fb) of
            None \<Rightarrow> Inl (UB ''Find (harqProcessId)->second'') | Some p \<Rightarrow> Inr p))"

text \<open>Late feedbacks are dropped in both directions, duplicated ones only in the downlink.\<close>

definition filter_feedback ::
  "direction \<Rightarrow> Scheduler \<Rightarrow> HarqInfo list \<times> (u16 \<times> u8) list \<Rightarrow> HarqInfo \<Rightarrow> (HarqInfo list \<times> (u16 \<times> u8) list) res" where
  "filter_feedback dir s = (\<lambda>(kept, seen) fb.
     res_bind (feedback_process dir s fb) (\<lambda>process.
       if \<not> m_active process then Inr (kept, seen)
       else if dir = DL \<and> (fb_rnti fb, fb_harqProcessId fb) \<in> set seen then Inr (kept, seen)
       else Inr (kept @ [fb], (fb_rnti fb, fb_harqProcessId fb) # seen)))"

definition process_feedback :: "direction \<Rightarrow> Scheduler \<times> HarqInfo list \<Rightarrow> HarqInfo \<Rightarrow> (Scheduler \<times> HarqInfo list) res" where
  "process_feedback dir = (\<lambda>(s, kept) fb.
     case map_of (m_ueMap s) (fb_rnti fb) of
       None \<Rightarrow> Inl (UB ''m_ueMap.find (rnti)->second'')
     | Some ue \<Rightarrow>
         let v = GetHarqVector dir ue; harqId = fb_harqProcessId fb
         in res_bind (HarqVector_Get harqId v) (\<lambda>process.
            abort_if (\<not> m_active process) ''Received feedback for a process which is not active''
             (case m_dciElement process of
                None \<Rightarrow> Inl (NS_ABORT ''ueProcess.m_dciElement == nullptr'')
              | Some dci \<Rightarrow>
                  ns_assert (dci_rv dci < 4) ''ueProcess.m_dciElement->m_rv < 4''
                   (let maxHarqReTx = (if m_enableHarqReTx s then 3 else 0)
                    in if fb_receivedOk fb \<or> dci_rv dci = maxHarqReTx
                       then res_bind (HarqVector_Erase harqId v) (\<lambda>v.
                         Inr (ue_put (fb_rnti fb) (PutHarqVector dir v ue) s, kept))
                       else Inr (ue_put (fb_rnti fb) (PutHarqVector dir
                              (harq_put harqId (process\<lparr>m_status := RECEIVED_FEEDBACK\<rparr>) v) ue) s, kept @ [fb])))))"

definition ProcessHARQFeedbacks :: "direction \<Rightarrow> HarqInfo list \<Rightarrow> Scheduler \<Rightarrow> (Scheduler \<times> HarqInfo list) res" where
  "ProcessHARQFeedbacks dir harqInfo s = for_each (process_feedback dir) harqInfo (s, [])"

text \<open>
  \<open>DoSchedDlTriggerReq\<close> and \<open>DoSchedUlTriggerReq\<close> up to the call of \<open>ScheduleDl\<close> and \<open>ScheduleUl\<close>, without the
  refresh of the CQI tables; the result is the list of feedbacks that these functions are given.
\<close>

definition trigger_harq :: "direction \<Rightarrow> HarqInfo list \<Rightarrow> Scheduler \<Rightarrow> (Scheduler \<times> HarqInfo list) res" where
  "trigger_harq dir harqInfoList s =
     res_bind (ResetAllExpired dir s) (\<lambda>s.
       let toRetransmit = (case dir of DL \<Rightarrow> m_dlHarqToRetransmit s | UL \<Rightarrow> m_ulHarqToRetransmit s)
       in if harqInfoList \<noteq> [] \<or> toRetransmit \<noteq> []
          then let (feedback, toRetransmit) = MergeHARQ toRetransmit harqInfoList;
                   s = (case dir of DL \<Rightarrow> s\<lparr>m_dlHarqToRetransmit := toRetransmit\<rparr>
                                  | UL \<Rightarrow> s\<lparr>m_ulHarqToRetransmit := toRetransmit\<rparr>)
               in res_bind (for_each (filter_feedback dir s) feedback ([], [])) (\<lambda>(feedback, seen).
                    ProcessHARQFeedbacks dir feedback s)
          else Inr (s, []))"

section \<open>Bookkeeping of a transport block\<close>

text \<open>
  The part of \<open>DoScheduleDlData\<close> and of \<open>DoScheduleUlData\<close> for a UE that was given a DCI: a HARQ process is
  taken, the block is distributed over the logical channels, and the queues are updated.
\<close>

definition take_process :: "direction \<Rightarrow> Dci \<Rightarrow> NrMacSchedulerUeInfo \<Rightarrow> (u8 \<times> NrMacSchedulerUeInfo) res" where
  "take_process dir dci ue =
     (let v = GetHarqVector dir ue
      in abort_if (\<not> CanInsert v) ''UE does not have HARQ space''
          (res_bind (HarqVector_Insert (HarqProcess_new True WAITING_FEEDBACK 0 dci) v) (\<lambda>(stored, harqId, v).
             case harqId of
               None \<Rightarrow> Inl (UB ''uninitialised id'')
             | Some harqId \<Rightarrow> res_bind (HarqVector_Get harqId v) (\<lambda>p.
                 Inr (harqId, PutHarqVector dir (harq_put harqId
                   (p\<lparr>m_dciElement := map_option (\<lambda>d. d\<lparr>dci_harqProcess := harqId\<rparr>) (m_dciElement p)\<rparr>) v) ue)))))"

definition assigned_in :: "string \<Rightarrow> (u8 \<times> LCG) list \<Rightarrow> u8 \<Rightarrow> u8 \<Rightarrow> u32 \<Rightarrow> (u8 \<times> LCG) list res" where
  "assigned_in type groups lcgId lcId bytes =
     (case map_of groups lcgId of
        None \<Rightarrow> Inl (NS_ABORT ''std::out_of_range'')
      | Some g \<Rightarrow> res_bind (LCG_AssignedData lcId bytes type g) (\<lambda>g. Inr (AList.update lcgId g groups)))"

definition assign_dl :: "u8 \<Rightarrow> NrMacSchedulerUeInfo \<times> (u8 \<times> u32) list \<Rightarrow> Assignation \<Rightarrow> (NrMacSchedulerUeInfo \<times> (u8 \<times> u32) list) res" where
  "assign_dl harqId = (\<lambda>(ue, rlcPduInfo) byteDistribution.
     ns_assert (a_bytes byteDistribution \<ge> 3) ''byteDistribution.m_bytes >= 3''
      (let bytes = a_bytes byteDistribution - 3; newRlcPdu = (a_lcId byteDistribution, bytes)
       in res_bind (HarqVector_Get harqId (m_dlHarq ue)) (\<lambda>process.
          res_bind (assigned_in ''DL'' (m_dlLCG ue) (a_lcg byteDistribution) (a_lcId byteDistribution) bytes) (\<lambda>dl.
            Inr (ue\<lparr>m_dlHarq := harq_put harqId (process\<lparr>m_rlcPduInfo := m_rlcPduInfo process @ [newRlcPdu]\<rparr>) (m_dlHarq ue),
                    m_dlLCG := dl\<rparr>, rlcPduInfo @ [newRlcPdu])))))"

definition ScheduleDlBlock ::
  "((u8 \<times> LCG) list \<Rightarrow> u32 \<Rightarrow> Assignation list res) \<Rightarrow> Dci \<Rightarrow> NrMacSchedulerUeInfo \<Rightarrow> (NrMacSchedulerUeInfo \<times> (u8 \<times> u32) list) res" where
  "ScheduleDlBlock AssignBytesToDlLC dci ue =
     res_bind (take_process DL dci ue) (\<lambda>(harqId, ue).
     res_bind (AssignBytesToDlLC (m_dlLCG ue) (dci_tbSize dci)) (\<lambda>distributedBytes.
     res_bind (for_each (assign_dl harqId) distributedBytes (ue, [])) (\<lambda>(ue, rlcPduInfo).
       abort_if (rlcPduInfo = []) ''slotInfo.m_rlcPduInfo.empty ()'' (Inr (ue, rlcPduInfo)))))"

definition assign_ul :: "(u8 \<times> LCG) list \<Rightarrow> Assignation \<Rightarrow> (u8 \<times> LCG) list res" where
  "assign_ul groups byteDistribution =
     assigned_in ''UL'' groups (a_lcg byteDistribution) (a_lcId byteDistribution) (a_bytes byteDistribution)"

definition ScheduleUlBlock ::
  "((u8 \<times> LCG) list \<Rightarrow> u32 \<Rightarrow> Assignation list res) \<Rightarrow> Dci \<Rightarrow> NrMacSchedulerUeInfo \<Rightarrow> NrMacSchedulerUeInfo res" where
  "ScheduleUlBlock AssignBytesToUlLC dci ue =
     res_bind (take_process UL dci ue) (\<lambda>(harqId, ue).
     res_bind (AssignBytesToUlLC (m_ulLCG ue) (dci_tbSize dci)) (\<lambda>distributedBytes.
     res_bind (for_each assign_ul distributedBytes (m_ulLCG ue)) (\<lambda>ul.
       ns_assert (distributedBytes \<noteq> []) ''assignedToLC'' (Inr (ue\<lparr>m_ulLCG := ul\<rparr>)))))"

section \<open>The order of the beams\<close>

text \<open>
  \<open>NrMacSchedulerHarqRr::GetBeamOrderRR\<close>: the round-robin queue, the set of the beams in it, and the active
  beams in the order of the map. The vector \<open>ret\<close> is written at the index of the loop.
\<close>

record HarqRr =
  m_rrBeams :: "BeamId list"
  m_rrBeamsSet :: "BeamId list"

fun beam_loop :: "nat \<Rightarrow> nat \<Rightarrow> BeamId list \<Rightarrow> BeamId list \<Rightarrow> BeamId list \<Rightarrow> (BeamId list \<times> BeamId list) res" where
  "beam_loop i 0 active rrBeams ret = Inr (ret, rrBeams)"
| "beam_loop i (Suc n) active rrBeams ret =
     (case rrBeams of
        [] \<Rightarrow> Inl (UB ''m_rrBeams.front ()'')
      | b # rest \<Rightarrow>
          if b \<in> set active
          then if i < length ret then beam_loop (Suc i) n active (rest @ [b]) (ret[i := b])
               else Inl (UB ''ret[i]'')
          else beam_loop (Suc i) n active (rest @ [b]) ret)"

definition GetBeamOrderRR :: "BeamId list \<Rightarrow> HarqRr \<Rightarrow> (BeamId list \<times> HarqRr) res" where
  "GetBeamOrderRR active q =
     (let q = fold (\<lambda>b q. if b \<in> set (m_rrBeamsSet q) then q
                          else q\<lparr>m_rrBeams := m_rrBeams q @ [b], m_rrBeamsSet := b # m_rrBeamsSet q\<rparr>) active q
      in res_bind (beam_loop 0 (length (m_rrBeams q)) active (m_rrBeams q) (replicate (length active) (0, 0)))
           (\<lambda>(ret, rrBeams). Inr (ret, q\<lparr>m_rrBeams := rrBeams\<rparr>)))"

end
