(* ===== verification/NrSfnSf.thy ===== *)
theory NrSfnSf
  imports NrRlcHeader
begin

text \<open>
  The slot numbers of the NR module (\<open>src/nr/model/sfnsf.cc\<close>): frame, subframe and slot with the numerology,
  their encodings into 64 bits, and the addition of slots.
\<close>

section \<open>Model\<close>

record SfnSf =
  m_frameNum :: u32
  m_subframeNum :: u8
  m_slotNum :: u8
  m_numerology :: u8

definition SfnSf_default :: SfnSf where
  "SfnSf_default = \<lparr>m_frameNum = 0, m_subframeNum = 0, m_slotNum = 0, m_numerology = 255\<rparr>"

definition SfnSf_new :: "u32 \<Rightarrow> u8 \<Rightarrow> u8 \<Rightarrow> u8 \<Rightarrow> SfnSf res" where
  "SfnSf_new frameNum sfNum slotNum numerology =
     abort_if (numerology > 5) ''Numerology > 5 unsupported''
       (Inr \<lparr>m_frameNum = frameNum, m_subframeNum = sfNum, m_slotNum = slotNum, m_numerology = numerology\<rparr>)"

definition GetSubframesPerFrame :: u32 where
  "GetSubframesPerFrame = 10"

definition GetSlotPerSubframe :: "SfnSf \<Rightarrow> u32" where
  "GetSlotPerSubframe x = push_bit (unat (m_numerology x)) 1"

definition encoding_ok :: "SfnSf \<Rightarrow> 'a res \<Rightarrow> 'a res" where
  "encoding_ok x r =
     ns_assert (m_numerology x < 7) ''m_numerology < 7''
    (ns_assert (m_slotNum x < 64) ''m_slotNum < 64''
    (ns_assert (m_subframeNum x < 10) ''m_subframeNum < 10''
    (ns_assert (m_frameNum x < 16777215) ''m_frameNum < 16777215'' r)))"

definition GetEncoding :: "SfnSf \<Rightarrow> u64 res" where
  "GetEncoding x = encoding_ok x
     (Inr (push_bit 24 (ucast (m_frameNum x)) OR push_bit 16 (ucast (m_subframeNum x)) OR
           push_bit 8 (ucast (m_slotNum x)) OR push_bit 5 (ucast (m_numerology x))))"

definition GetEncodingWithSymStartRnti :: "u8 \<Rightarrow> u16 \<Rightarrow> SfnSf \<Rightarrow> u64 res" where
  "GetEncodingWithSymStartRnti symStart rnti x =
     ns_assert (symStart < 14) ''symStart < 14'' (encoding_ok x
       (Inr (push_bit 48 (ucast rnti) OR push_bit 24 (ucast (m_frameNum x)) OR push_bit 16 (ucast (m_subframeNum x)) OR
             push_bit 8 (ucast (m_slotNum x)) OR push_bit 5 (ucast (m_numerology x)) OR ucast symStart)))"

definition FromEncoding :: "u64 \<Rightarrow> SfnSf" where
  "FromEncoding sfn =
     \<lparr>m_frameNum = ucast (drop_bit 24 (sfn AND 0x0000FFFFFF000000)),
      m_subframeNum = ucast (drop_bit 16 (sfn AND 0x0000000000FF0000)),
      m_slotNum = ucast (drop_bit 8 (sfn AND 0x000000000000FF00)),
      m_numerology = ucast (drop_bit 5 (sfn AND 0x00000000000000E0))\<rparr>"

text \<open>The products are computed in 32 bits and added to a 64-bit number.\<close>

definition Normalize :: "SfnSf \<Rightarrow> u64" where
  "Normalize x = ucast (m_slotNum x) + ucast (ucast (m_subframeNum x) * GetSlotPerSubframe x) +
     ucast (m_frameNum x * GetSubframesPerFrame * GetSlotPerSubframe x)"

definition Add :: "u32 \<Rightarrow> SfnSf \<Rightarrow> SfnSf res" where
  "Add slotN x =
     ns_assert (m_numerology x \<le> 5) ''Numerology invalid''
      (let subframes = ucast (m_subframeNum x) + (ucast (m_slotNum x) + slotN) div GetSlotPerSubframe x
       in Inr (x\<lparr>m_frameNum := m_frameNum x + subframes div GetSubframesPerFrame,
                 m_subframeNum := ucast (subframes mod GetSubframesPerFrame),
                 m_slotNum := ucast ((ucast (m_slotNum x) + slotN) mod GetSlotPerSubframe x)\<rparr>))"

definition sfn_less :: "SfnSf \<Rightarrow> SfnSf \<Rightarrow> bool res" where
  "sfn_less x y =
     ns_assert (m_numerology y = m_numerology x) ''Numerology does not match''
      (Inr (m_frameNum x < m_frameNum y \<or>
            m_frameNum x = m_frameNum y \<and> m_subframeNum x < m_subframeNum y \<or>
            m_frameNum x = m_frameNum y \<and> m_subframeNum x = m_subframeNum y \<and> m_slotNum x < m_slotNum y))"

definition sfn_eq :: "SfnSf \<Rightarrow> SfnSf \<Rightarrow> bool res" where
  "sfn_eq x y =
     ns_assert (m_numerology y = m_numerology x) ''Numerology does not match''
      (Inr (m_frameNum x = m_frameNum y \<and> m_subframeNum x = m_subframeNum y \<and> m_slotNum x = m_slotNum y))"

definition sfn_le :: "SfnSf \<Rightarrow> SfnSf \<Rightarrow> bool res" where
  "sfn_le x y = res_bind (sfn_less x y) (\<lambda>b. if b then Inr True else sfn_eq x y)"

section \<open>Slots as numbers\<close>

text \<open>Well-formed slot numbers, and the number of slots that they stand for.\<close>

definition sfn_ok :: "SfnSf \<Rightarrow> bool" where
  "sfn_ok x \<longleftrightarrow> m_numerology x \<le> 5 \<and> unat (m_subframeNum x) < 10 \<and> unat (m_slotNum x) < 2 ^ unat (m_numerology x)"

definition slots :: "SfnSf \<Rightarrow> nat" where
  "slots x = (unat (m_frameNum x) * 10 + unat (m_subframeNum x)) * 2 ^ unat (m_numerology x) + unat (m_slotNum x)"

lemma numerology_cases:
  assumes "sfn_ok x"
  shows "unat (m_numerology x) \<le> 5" "2 ^ unat (m_numerology x) \<le> (32 :: nat)"
proof -
  show le: "unat (m_numerology x) \<le> 5" using assms by (simp add: sfn_ok_def word_le_nat_alt)
  have "(2 :: nat) ^ unat (m_numerology x) \<le> 2 ^ 5" using le by (intro power_increasing) simp_all
  then show "2 ^ unat (m_numerology x) \<le> (32 :: nat)" by simp
qed

lemma unat_slots_per_subframe:
  assumes "sfn_ok x"
  shows "unat (GetSlotPerSubframe x) = 2 ^ unat (m_numerology x)"
proof -
  have "GetSlotPerSubframe x = of_nat (2 ^ unat (m_numerology x))" by (simp add: GetSlotPerSubframe_def push_bit_eq_mult)
  moreover have "unat (of_nat (2 ^ unat (m_numerology x)) :: u32) = 2 ^ unat (m_numerology x)"
    by (subst unat_of_nat) (use numerology_cases [OF assms] in simp)
  ultimately show ?thesis by simp
qed

lemma unat_ucast_byte:
  "unat (ucast (b :: u8) :: u32) = unat b" "unat (ucast (b :: u8) :: u64) = unat b" "unat (ucast (w :: u32) :: u64) = unat w"
proof -
  have "unat b < 2 ^ 8" "unat w < 2 ^ 32" using unsigned_less [of b, where 'a = nat] unsigned_less [of w, where 'a = nat] by simp_all
  then show "unat (ucast b :: u32) = unat b" "unat (ucast b :: u64) = unat b" "unat (ucast w :: u64) = unat w"
    by (simp_all add: unsigned_ucast_eq take_bit_nat_eq_self)
qed

lemma div_mult_split:
  fixes f s l n :: nat
  assumes "0 < k"
  shows "((f + (s + (l + n) div k) div 10) * 10 + (s + (l + n) div k) mod 10) * k + (l + n) mod k = (f * 10 + s) * k + l + n"
proof -
  have "(f + (s + (l + n) div k) div 10) * 10 + (s + (l + n) div k) mod 10 = f * 10 + (s + (l + n) div k)"
    by (simp add: add_mult_distrib)
  also have "(f * 10 + (s + (l + n) div k)) * k + (l + n) mod k = (f * 10 + s) * k + ((l + n) div k * k + (l + n) mod k)"
    by (simp add: add_mult_distrib)
  also have "(l + n) div k * k + (l + n) mod k = l + n" by simp
  finally show ?thesis by simp
qed

lemma le_times: "0 < k \<Longrightarrow> m \<le> m * (k :: nat)"
  by simp

lemma Add_slots:
  assumes "sfn_ok x" and "slots x + unat n < 2 ^ 32"
  obtains y where "Add n x = Inr y" and "sfn_ok y" and "slots y = slots x + unat n" and "m_numerology y = m_numerology x"
proof -
  let ?k = "2 ^ unat (m_numerology x) :: nat"
  let ?f = "unat (m_frameNum x)" and ?s = "unat (m_subframeNum x)" and ?l = "unat (m_slotNum x)"
  have small: "?s < 10" "?l < ?k" "?k \<le> 32" "0 < ?k" "m_numerology x \<le> 5"
    using assms(1) numerology_cases [OF assms(1)] by (auto simp: sfn_ok_def)
  have fr: "?f * 10 + ?s \<le> slots x" "?l \<le> slots x" "?l + unat n < 2 ^ 32"
    using assms(2) by (auto simp: slots_def intro: order_trans [of _ "(?f * 10 + ?s) * ?k"])
  have ln: "unat (ucast (m_slotNum x) + n :: u32) = ?l + unat n"
    using fr(3) by (simp add: unat_word_ariths unat_ucast_byte)
  define q where "q = (?l + unat n) div ?k"
  have q: "unat ((ucast (m_slotNum x) + n) div GetSlotPerSubframe x :: u32) = q"
    by (simp add: unat_div ln unat_slots_per_subframe [OF assms(1)] q_def)
  have sum: "(?f * 10 + ?s + q) * ?k \<le> slots x + unat n"
  proof -
    have "q * ?k \<le> ?l + unat n" by (simp add: q_def)
    then show ?thesis by (simp add: slots_def add_mult_distrib)
  qed
  moreover have "?f * 10 + ?s + q \<le> (?f * 10 + ?s + q) * ?k" by (rule le_times) (rule small(4))
  ultimately have fsq: "?f * 10 + ?s + q < 2 ^ 32" using assms(2) by linarith
  have sq: "unat (ucast (m_subframeNum x) + (ucast (m_slotNum x) + n) div GetSlotPerSubframe x :: u32) = ?s + q"
    by (subst unat_word_ariths(1)) (simp only: q unat_ucast_byte, use fsq in simp)
  have u10: "unat GetSubframesPerFrame = 10" by (simp add: GetSubframesPerFrame_def)
  define L W :: u32 where "L = ucast (m_slotNum x) + n" and "W = ucast (m_subframeNum x) + L div GetSlotPerSubframe x"
  have uL: "unat L = ?l + unat n" and uW: "unat W = ?s + q" using ln sq by (simp_all add: L_def W_def)
  show ?thesis
  proof (rule that)
    let ?y = "x\<lparr>m_frameNum := m_frameNum x + W div GetSubframesPerFrame, m_subframeNum := ucast (W mod GetSubframesPerFrame),
       m_slotNum := ucast (L mod GetSlotPerSubframe x)\<rparr>"
    show "Add n x = Inr ?y" using small(5) by (simp add: Add_def Let_def L_def W_def)
    have f: "unat (m_frameNum ?y) = ?f + (?s + q) div 10"
      using fsq by (simp add: unat_word_ariths unat_div uW u10)
    have s: "unat (m_subframeNum ?y) = (?s + q) mod 10"
      by (simp add: unsigned_ucast_eq take_bit_eq_mod unat_mod uW u10)
    have "(?l + unat n) mod ?k < ?k" using small(4) by simp
    then have "(?l + unat n) mod ?k < 256" using small(3) by linarith
    then have l: "unat (m_slotNum ?y) = (?l + unat n) mod ?k"
      by (simp add: unsigned_ucast_eq take_bit_eq_mod unat_mod uL unat_slots_per_subframe [OF assms(1)])
    show "slots ?y = slots x + unat n"
      using div_mult_split [OF small(4), of ?f ?s ?l "unat n"] unfolding slots_def f s l q_def by simp
    show "sfn_ok ?y" using s l small by (simp add: sfn_ok_def)
  qed simp
qed

lemma slots_inject:
  assumes "sfn_ok x" and "sfn_ok y" and "m_numerology x = m_numerology y" and "slots x = slots y"
  shows "x = y"
proof -
  let ?k = "2 ^ unat (m_numerology x) :: nat"
  have b: "unat (m_slotNum x) < ?k" "unat (m_slotNum y) < ?k" "unat (m_subframeNum x) < 10" "unat (m_subframeNum y) < 10"
    using assms(1-3) by (simp_all add: sfn_ok_def)
  have "slots x div ?k = slots y div ?k" "slots x mod ?k = slots y mod ?k" using assms(4) by simp_all
  then have l: "unat (m_slotNum x) = unat (m_slotNum y)"
    and fs: "unat (m_frameNum x) * 10 + unat (m_subframeNum x) = unat (m_frameNum y) * 10 + unat (m_subframeNum y)"
    using b(1,2) assms(3) by (simp_all add: slots_def)
  from fs have "(unat (m_frameNum x) * 10 + unat (m_subframeNum x)) div 10 = (unat (m_frameNum y) * 10 + unat (m_subframeNum y)) div 10"
    by simp
  then have "unat (m_frameNum x) = unat (m_frameNum y)" using b(3,4) by simp
  with fs l assms(3) show ?thesis by (cases x; cases y) (simp add: word_unat_eq_iff)
qed

lemma Normalize_slots:
  assumes "sfn_ok x" and "slots x < 2 ^ 32"
  shows "unat (Normalize x) = slots x"
proof -
  let ?k = "2 ^ unat (m_numerology x) :: nat"
  let ?f = "unat (m_frameNum x)" and ?s = "unat (m_subframeNum x)" and ?l = "unat (m_slotNum x)"
  have parts: "?f * 10 * ?k \<le> slots x" "?s * ?k \<le> slots x" "slots x = ?l + ?s * ?k + ?f * 10 * ?k"
    by (simp_all add: slots_def add_mult_distrib)
  have "?f * 10 \<le> ?f * 10 * ?k" by simp
  then have f10: "?f * 10 < 2 ^ 32" using parts(1) assms(2) by linarith
  have u10: "unat GetSubframesPerFrame = 10" by (simp add: GetSubframesPerFrame_def)
  have a: "unat (m_frameNum x * GetSubframesPerFrame * GetSlotPerSubframe x) = ?f * 10 * ?k"
    using parts(1) assms(2) f10 by (simp add: unat_word_ariths u10 unat_slots_per_subframe [OF assms(1)])
  have b: "unat (ucast (m_subframeNum x) * GetSlotPerSubframe x :: u32) = ?s * ?k"
    using parts(2) assms(2) by (simp add: unat_word_ariths unat_slots_per_subframe [OF assms(1)] unat_ucast_byte)
  define A B :: u32 where "A = m_frameNum x * GetSubframesPerFrame * GetSlotPerSubframe x"
    and "B = ucast (m_subframeNum x) * GetSlotPerSubframe x"
  have "Normalize x = ucast (m_slotNum x) + ucast B + ucast A" by (simp add: Normalize_def A_def B_def)
  moreover have "unat A = ?f * 10 * ?k" "unat B = ?s * ?k" using a b by (simp_all add: A_def B_def)
  ultimately show ?thesis using parts(3) assms(2)
    by (simp add: unat_word_ariths unat_ucast_byte)
qed

lemma sfn_eq_slots:
  assumes "sfn_ok x" and "sfn_ok y" and "m_numerology y = m_numerology x"
  shows "sfn_eq x y = Inr (slots x = slots y)"
proof -
  have "(m_frameNum x = m_frameNum y \<and> m_subframeNum x = m_subframeNum y \<and> m_slotNum x = m_slotNum y) \<longleftrightarrow> slots x = slots y"
    using slots_inject [OF assms(1,2)] assms(3) by (auto simp: slots_def)
  then show ?thesis by (simp add: sfn_eq_def assms(3))
qed

lemma block_less:
  fixes a b c d k :: nat
  assumes "b < k" and "d < k"
  shows "a * k + b < c * k + d \<longleftrightarrow> a < c \<or> a = c \<and> b < d"
proof -
  have "a * k + b < c * k + d" if "a < c"
  proof -
    have "a * k + k \<le> c * k" using that by (metis Suc_leI add.commute mult_Suc mult_le_mono1)
    then show ?thesis using assms by linarith
  qed
  moreover have "\<not> a * k + b < c * k + d" if "c < a"
  proof -
    have "c * k + k \<le> a * k" using that by (metis Suc_leI add.commute mult_Suc mult_le_mono1)
    then show ?thesis using assms by linarith
  qed
  ultimately show ?thesis by (cases a c rule: linorder_cases) auto
qed

lemma block_unique:
  fixes a b c d :: nat
  assumes "b < 10" and "d < 10"
  shows "a * 10 + b = c * 10 + d \<longleftrightarrow> a = c \<and> b = d"
proof
  assume "a * 10 + b = c * 10 + d"
  then have "(a * 10 + b) div 10 = (c * 10 + d) div 10" "(a * 10 + b) mod 10 = (c * 10 + d) mod 10" by simp_all
  then show "a = c \<and> b = d" using assms by simp
qed simp

lemma sfn_less_slots:
  assumes "sfn_ok x" and "sfn_ok y" and "m_numerology y = m_numerology x"
  shows "sfn_less x y = Inr (slots x < slots y)"
proof -
  have "slots x < slots y \<longleftrightarrow> m_frameNum x < m_frameNum y \<or>
      m_frameNum x = m_frameNum y \<and> m_subframeNum x < m_subframeNum y \<or>
      m_frameNum x = m_frameNum y \<and> m_subframeNum x = m_subframeNum y \<and> m_slotNum x < m_slotNum y"
  proof -
    let ?k = "2 ^ unat (m_numerology x) :: nat"
    have b: "unat (m_slotNum x) < ?k" "unat (m_slotNum y) < ?k" "unat (m_subframeNum x) < 10" "unat (m_subframeNum y) < 10"
      using assms by (simp_all add: sfn_ok_def)
    show ?thesis
      unfolding slots_def assms(3) block_less [OF b(1,2)] block_less [OF b(3,4)] block_unique [OF b(3,4)]
      by (simp add: word_less_nat_alt word_unat_eq_iff conj_disj_distribL conj_assoc)
  qed
  then show ?thesis by (simp add: sfn_less_def assms(3))
qed

lemma Add_Add:
  assumes "sfn_ok x" and "slots x + unat m + unat n < 2 ^ 32"
  shows "res_bind (Add m x) (Add n) = Add (m + n) x"
proof -
  have mn: "unat (m + n) = unat m + unat n" using assms(2) by (simp add: unat_word_ariths)
  obtain y where y: "Add m x = Inr y" "sfn_ok y" "slots y = slots x + unat m" "m_numerology y = m_numerology x"
    using Add_slots [OF assms(1), of m] assms(2) by auto
  obtain z where z: "Add n y = Inr z" "sfn_ok z" "slots z = slots y + unat n" "m_numerology z = m_numerology y"
    using Add_slots [OF y(2), of n] assms(2) y(3) by auto
  obtain w where w: "Add (m + n) x = Inr w" "sfn_ok w" "slots w = slots x + unat (m + n)" "m_numerology w = m_numerology x"
    using Add_slots [OF assms(1), of "m + n"] assms(2) mn by auto
  have "z = w" using slots_inject [OF z(2) w(2)] y z w mn by simp
  with y z w show ?thesis by simp
qed

lemma encoded_fields:
  fixes f :: u32 and s l m b :: u8 and r :: u16
  assumes "narrow 24 f" and "narrow 3 m" and "narrow 5 b"
  defines "c \<equiv> push_bit 48 (ucast r) OR push_bit 24 (ucast f) OR push_bit 16 (ucast s) OR
    push_bit 8 (ucast l) OR push_bit 5 (ucast m) OR ucast b :: u64"
  shows "ucast (drop_bit 24 (c AND 0x0000FFFFFF000000)) = f" "ucast (drop_bit 16 (c AND 0x0000000000FF0000)) = s"
    "ucast (drop_bit 8 (c AND 0x000000000000FF00)) = l" "ucast (drop_bit 5 (c AND 0x00000000000000E0)) = m"
proof -
  have m: "(0x0000FFFFFF000000 :: u64) = push_bit 24 (mask 24)" "(0x0000000000FF0000 :: u64) = push_bit 16 (mask 8)"
    "(0x000000000000FF00 :: u64) = push_bit 8 (mask 8)" "(0x00000000000000E0 :: u64) = push_bit 5 (mask 3)"
    by (simp_all add: mask_eq_exp_minus_1)
  have byte: "bit (w :: u8) k \<Longrightarrow> k < 8" for w k using bit_imp_le_length [of w k] by simp
  show "ucast (drop_bit 24 (c AND 0x0000FFFFFF000000)) = f"
    unfolding m c_def by (rule bit_word_eqI) (use assms(1-3) in \<open>auto simp: bits dest: byte\<close>)
  show "ucast (drop_bit 16 (c AND 0x0000000000FF0000)) = s"
    unfolding m c_def by (rule bit_word_eqI) (use assms(1-3) in \<open>auto simp: bits dest: byte\<close>)
  show "ucast (drop_bit 8 (c AND 0x000000000000FF00)) = l"
    unfolding m c_def by (rule bit_word_eqI) (use assms(1-3) in \<open>auto simp: bits dest: byte\<close>)
  show "ucast (drop_bit 5 (c AND 0x00000000000000E0)) = m"
    unfolding m c_def by (rule bit_word_eqI) (use assms(1-3) in \<open>auto simp: bits dest: byte\<close>)
qed

section \<open>Properties\<close>



text \<open>
  The encodings of slot numbers in 64 bits can be read back: every well-formed slot number below frame 16777215
  survives both encodings, whatever symbol and RNTI go into the second.
\<close>

theorem sfn_encoding_roundtrip:
  assumes "sfn_ok x" and "m_frameNum x < 16777215" and "symStart < 14"
  shows "\<exists>c d. GetEncoding x = Inr c \<and> FromEncoding c = x \<and>
    GetEncodingWithSymStartRnti symStart rnti x = Inr d \<and> FromEncoding d = x"
proof -
  have ok: "m_numerology x < 7" "m_slotNum x < 64" "m_subframeNum x < 10"
    using assms(1) numerology_cases [OF assms(1)] by (auto simp: sfn_ok_def word_less_nat_alt word_le_nat_alt)
  have n: "narrow 24 (m_frameNum x)" "narrow 3 (m_numerology x)" "narrow 5 symStart"
    using assms(2,3) ok(1) by (auto intro!: narrow_less simp: word_less_nat_alt)
  have "FromEncoding (push_bit 24 (ucast (m_frameNum x)) OR push_bit 16 (ucast (m_subframeNum x)) OR
      push_bit 8 (ucast (m_slotNum x)) OR push_bit 5 (ucast (m_numerology x))) = x"
    using encoded_fields [OF n(1,2), of 0 0] by (simp add: FromEncoding_def narrow_def)
  moreover have "FromEncoding (push_bit 48 (ucast rnti) OR push_bit 24 (ucast (m_frameNum x)) OR push_bit 16 (ucast (m_subframeNum x)) OR
      push_bit 8 (ucast (m_slotNum x)) OR push_bit 5 (ucast (m_numerology x)) OR ucast symStart) = x"
    using encoded_fields [OF n] by (simp add: FromEncoding_def)
  ultimately show ?thesis using ok assms(2,3)
    by (simp add: GetEncoding_def GetEncodingWithSymStartRnti_def encoding_ok_def)
qed

end
