(* ===== verification/NrUeMac.thy ===== *)
theory NrUeMac
  imports OranReporter NrMacScheduler NrSfnSf
begin

text \<open>
  The MAC of the UE (\<open>src/nr/model/nr-ue-mac.cc\<close>): the buffer reports of the RLC entities, the machine of
  scheduling requests, the distribution of an uplink grant over the logical channels, the buffer status report
  in the grant, HARQ retransmissions, and the random access procedure.

  The RLC entity of a logical channel is a value of type \<open>'r\<close> in \<open>m_lcInfoMap\<close>; the functions that call it take its
  operations as arguments. An operation of an entity returns the entity and its calls to the MAC in their order,
  which the MAC then executes. The calls to the physical layer and to the RRC, scheduled events and the trace
  \<open>ReportBufferStatus\<close>, to which the O-RAN reporter listens, are entries of the list \<open>out\<close>.
\<close>

section \<open>State\<close>

datatype SrBsrMachine = SR_INACTIVE | TO_SEND | SR_ACTIVE

record TransmitPduParameters =
  tp_pdu :: "u8 list"
  tp_rnti :: u16
  tp_lcid :: u8
  tp_harqProcessId :: u8

datatype mac_call = TransmitPdu_call TransmitPduParameters | BufferStatusReport_call BufferStatusReportParameters

text \<open>A packet for the physical layer with the RNTI and the LCID of its \<open>NrRadioBearerTag\<close>.\<close>

record mac_pdu =
  mp_bytes :: "u8 list"
  mp_rnti :: u16
  mp_lcid :: u8

datatype mac_out =
    SendMacPdu mac_pdu SfnSf u8 u16
  | SendSrMessage u16
  | SendRachPreamble u8 u8
  | ReportBufferStatus BufferStatusReportParameters
  | SetTemporaryCellRnti u16
  | NotifyRandomAccessSuccessful
  | NotifyRandomAccessFailed
  | ScheduleStartWaiting Time
  | ScheduleRaResponseTimeout Time bool
  | CancelRaResponseTimeout

record UlHarqProcessInfo =
  m_pktBurst :: "mac_pdu list option"
  m_lcidList :: "u8 list"

record 'r LcInfo =
  logicalChannelGroup :: u8
  macSapUser :: 'r

record RachConfig =
  numberOfRaPreambles :: u8
  preambleTransMax :: u8
  raResponseWindowSize :: u8

record 'r UeMac =
  m_currentSlot :: SfnSf
  m_numHarqProcess :: u8
  m_ulDci :: "Dci option"
  m_ulDciSfnsf :: SfnSf
  m_ulDciTotalUsed :: u32
  m_ulBsrReceived :: "(u8 \<times> BufferStatusReportParameters) list"
  m_srState :: SrBsrMachine
  m_raPreambleId :: u8
  m_raRnti :: u8
  m_miUlHarqProcessesPacket :: "UlHarqProcessInfo list"
  m_miUlHarqProcessesPacketTimer :: "u8 list"
  m_lcInfoMap :: "(u8 \<times> 'r LcInfo) list"
  mac_rnti :: u16
  m_waitingForRaResponse :: bool
  m_rachConfigured :: bool
  m_rachConfig :: RachConfig
  m_preambleTransmissionCounter :: u8
  out :: "mac_out list"

definition emit_out :: "mac_out \<Rightarrow> 'r UeMac \<Rightarrow> 'r UeMac" where
  "emit_out x s = s\<lparr>out := out s @ [x]\<rparr>"

definition resize :: "nat \<Rightarrow> 'a \<Rightarrow> 'a list \<Rightarrow> 'a list" where
  "resize n d xs = take n xs @ replicate (n - length xs) d"

definition SetNumHarqProcess :: "u8 \<Rightarrow> 'r UeMac \<Rightarrow> 'r UeMac" where
  "SetNumHarqProcess n s =
     s\<lparr>m_numHarqProcess := n,
       m_miUlHarqProcessesPacket := map (\<lambda>i. case m_pktBurst i of None \<Rightarrow> i\<lparr>m_pktBurst := Some []\<rparr> | Some b \<Rightarrow> i)
         (resize (unat n) \<lparr>m_pktBurst = None, m_lcidList = []\<rparr> (m_miUlHarqProcessesPacket s)),
       m_miUlHarqProcessesPacketTimer := resize (unat n) 0 (m_miUlHarqProcessesPacketTimer s)\<rparr>"

definition NrUeMac_new :: "RachConfig \<Rightarrow> 'r UeMac" where
  "NrUeMac_new rc = SetNumHarqProcess 16
     \<lparr>m_currentSlot = SfnSf_default, m_numHarqProcess = 20, m_ulDci = None, m_ulDciSfnsf = SfnSf_default,
      m_ulDciTotalUsed = 0, m_ulBsrReceived = [], m_srState = SR_INACTIVE, m_raPreambleId = 0, m_raRnti = 0,
      m_miUlHarqProcessesPacket = [], m_miUlHarqProcessesPacketTimer = [], m_lcInfoMap = [], mac_rnti = 65535,
      m_waitingForRaResponse = True, m_rachConfigured = False, m_rachConfig = rc, m_preambleTransmissionCounter = 0, out = []\<rparr>"

definition UeMac_SetRnti :: "u16 \<Rightarrow> 'r UeMac \<Rightarrow> 'r UeMac" where
  "UeMac_SetRnti rnti s = s\<lparr>mac_rnti := rnti\<rparr>"

section \<open>Buffer reports and scheduling requests\<close>

text \<open>\<open>txQueueSize + retxQueueSize + statusPduSize\<close>, in 32 bits.\<close>

definition bsr_total :: "BufferStatusReportParameters \<Rightarrow> u32" where
  "bsr_total b = bsr_txQueueSize b + bsr_retxQueueSize b + ucast (bsr_statusPduSize b)"

definition GetTotalBufSize :: "'r UeMac \<Rightarrow> u32" where
  "GetTotalBufSize s = fold (\<lambda>(k, b) ret. ret + bsr_total b) (m_ulBsrReceived s) 0"

text \<open>The conditions of the branch read \<open>m_ulDci\<close> only behind \<open>expBsrTimer\<close> and the state \<open>ACTIVE\<close>.\<close>

definition sr_needed :: "BufferStatusReportParameters \<Rightarrow> 'r UeMac \<Rightarrow> bool res" where
  "sr_needed params s =
     (if m_srState s = SR_INACTIVE then Inr True
      else if bsr_expBsrTimer params \<and> m_srState s = SR_ACTIVE
      then (case m_ulDci s of
          None \<Rightarrow> Inl (UB ''m_ulDci->m_harqProcess'')
        | Some dci \<Rightarrow> Inr (dci_harqProcess dci > 0 \<and> dci_rv dci = 3 \<or> dci_harqProcess dci = 0))
      else Inr False)"

definition UeMac_DoTransmitBufferStatusReport :: "BufferStatusReportParameters \<Rightarrow> 'r UeMac \<Rightarrow> 'r UeMac res" where
  "UeMac_DoTransmitBufferStatusReport params s =
     (let s = emit_out (ReportBufferStatus params) s;
          s = s\<lparr>m_ulBsrReceived := AList.update (bsr_lcid params) params (m_ulBsrReceived s)\<rparr>
      in res_bind (sr_needed params s) (\<lambda>needed. Inr (if needed then s\<lparr>m_srState := TO_SEND\<rparr> else s)))"

definition SendSR :: "'r UeMac \<Rightarrow> 'r UeMac" where
  "SendSR s = (if mac_rnti s = 0 then s else emit_out (SendSrMessage (mac_rnti s)) s)"

text \<open>The timers of the HARQ buffers are never decremented (\<open>ignore HARQ timeout\<close>).\<close>

definition refresh_process :: "u8 \<Rightarrow> UlHarqProcessInfo \<Rightarrow> UlHarqProcessInfo" where
  "refresh_process timer i =
     (case m_pktBurst i of
        None \<Rightarrow> i
      | Some b \<Rightarrow> if timer = 0 \<and> sum_list (map (length \<circ> mp_bytes) b) > 0
                then i\<lparr>m_pktBurst := Some [], m_lcidList := []\<rparr> else i)"

definition RefreshHarqProcessesPacketBuffer :: "'r UeMac \<Rightarrow> 'r UeMac" where
  "RefreshHarqProcessesPacketBuffer s =
     s\<lparr>m_miUlHarqProcessesPacket :=
        map (\<lambda>(t, i). refresh_process t i) (zip (m_miUlHarqProcessesPacketTimer s) (m_miUlHarqProcessesPacket s))\<rparr>"

definition DoSlotIndication :: "SfnSf \<Rightarrow> 'r UeMac \<Rightarrow> 'r UeMac" where
  "DoSlotIndication sfn s =
     (let s = RefreshHarqProcessesPacketBuffer (s\<lparr>m_currentSlot := sfn\<rparr>)
      in if m_srState s = TO_SEND then (SendSR s)\<lparr>m_srState := SR_ACTIVE\<rparr> else s)"

section \<open>Transmission\<close>

text \<open>\<open>m_ulDci->...\<close>; a null pointer has no value.\<close>

definition with_dci :: "'r UeMac \<Rightarrow> (Dci \<Rightarrow> 'a res) \<Rightarrow> 'a res" where
  "with_dci s f = (case m_ulDci s of None \<Rightarrow> Inl (UB ''m_ulDci'') | Some dci \<Rightarrow> f dci)"

definition UeMac_DoTransmitPdu :: "TransmitPduParameters \<Rightarrow> 'r UeMac \<Rightarrow> 'r UeMac res" where
  "UeMac_DoTransmitPdu params s =
     (case m_ulDci s of
        None \<Rightarrow> Inr s
      | Some dci \<Rightarrow>
          let h = unat (tp_harqProcessId params)
          in ns_assert (dci_harqProcess dci = tp_harqProcessId params) ''m_ulDci->m_harqProcess == params.harqProcessId''
             (if h \<ge> length (m_miUlHarqProcessesPacket s) \<or> h \<ge> length (m_miUlHarqProcessesPacketTimer s)
              then Inl (NS_ABORT ''std::out_of_range'')
              else res_bind (NrMacHeaderVs_SetLcId (tp_lcid params) NrMacHeaderVs_new) (\<lambda>header.
                let header = NrMacHeaderVs_SetSize (of_nat (length (tp_pdu params))) header;
                    pdu = \<lparr>mp_bytes = NrMacHeaderVs_Serialize header @ tp_pdu params, mp_rnti = tp_rnti params, mp_lcid = tp_lcid params\<rparr>;
                    i = m_miUlHarqProcessesPacket s ! h;
                    burst = (case m_pktBurst i of None \<Rightarrow> [] | Some b \<Rightarrow> b);
                    s = s\<lparr>m_miUlHarqProcessesPacket := (m_miUlHarqProcessesPacket s)
                            [h := \<lparr>m_pktBurst = Some (burst @ [pdu]), m_lcidList = m_lcidList i @ [tp_lcid params]\<rparr>],
                          m_miUlHarqProcessesPacketTimer := (m_miUlHarqProcessesPacketTimer s)[h := m_numHarqProcess s],
                          m_ulDciTotalUsed := m_ulDciTotalUsed s + of_nat (length (mp_bytes pdu))\<rparr>
                in ns_assert (m_ulDciTotalUsed s \<le> dci_tbSize dci) ''We used more data than the DCI allowed us.''
                     (Inr (emit_out (SendMacPdu pdu (m_ulDciSfnsf s) (dci_symStart dci) (dci_rnti dci)) s)))))"

definition exec_call :: "'r UeMac \<Rightarrow> mac_call \<Rightarrow> 'r UeMac res" where
  "exec_call s c = (case c of TransmitPdu_call p \<Rightarrow> UeMac_DoTransmitPdu p s
     | BufferStatusReport_call b \<Rightarrow> UeMac_DoTransmitBufferStatusReport b s)"

text \<open>
  \<open>m_lcInfoMap.at (lcid).macSapUser->NotifyTxOpportunity\<close>. The callers hold references into \<open>m_ulBsrReceived\<close>, which
  an insertion could invalidate.
\<close>

type_synonym 'r tx_operation = "u32 \<Rightarrow> u8 \<Rightarrow> 'r \<Rightarrow> ('r \<times> mac_call list) res"

definition notify_rlc :: "'r tx_operation \<Rightarrow> u8 \<Rightarrow> u32 \<Rightarrow> u8 \<Rightarrow> 'r UeMac \<Rightarrow> 'r UeMac res" where
  "notify_rlc NotifyTxOpportunity lcid bytes harqId s =
     (case map_of (m_lcInfoMap s) lcid of
        None \<Rightarrow> Inl (NS_ABORT ''std::out_of_range'')
      | Some i \<Rightarrow> res_bind (NotifyTxOpportunity bytes harqId (macSapUser i)) (\<lambda>(r, calls).
          res_bind (for_each exec_call calls
              (s\<lparr>m_lcInfoMap := AList.update lcid (i\<lparr>macSapUser := r\<rparr>) (m_lcInfoMap s)\<rparr>)) (\<lambda>t.
            if map fst (m_ulBsrReceived t) = map fst (m_ulBsrReceived s) then Inr t
            else Inl (UB ''reference into m_ulBsrReceived''))))"

text \<open>The entry of a channel, which the loops over \<open>m_ulBsrReceived\<close> read and change by reference.\<close>

definition bsr_change :: "(BufferStatusReportParameters \<Rightarrow> BufferStatusReportParameters) \<Rightarrow> u8 \<Rightarrow> 'r UeMac \<Rightarrow> 'r UeMac" where
  "bsr_change f k s = s\<lparr>m_ulBsrReceived := map (\<lambda>(k', b). if k' = k then (k', f b) else (k', b)) (m_ulBsrReceived s)\<rparr>"

definition clear_status :: "BufferStatusReportParameters \<Rightarrow> BufferStatusReportParameters" where
  "clear_status b = BufferStatusReportParameters (bsr_rnti b) (bsr_lcid b) (bsr_txQueueSize b) (bsr_txQueueHolDelay b)
     (bsr_retxQueueSize b) (bsr_retxQueueHolDelay b) 0 (bsr_expBsrTimer b)"

definition take_retx :: "u32 \<Rightarrow> BufferStatusReportParameters \<Rightarrow> BufferStatusReportParameters" where
  "take_retx bytes b = BufferStatusReportParameters (bsr_rnti b) (bsr_lcid b) (bsr_txQueueSize b) (bsr_txQueueHolDelay b)
     (bsr_retxQueueSize b - min bytes (bsr_retxQueueSize b)) (bsr_retxQueueHolDelay b) (bsr_statusPduSize b) (bsr_expBsrTimer b)"

definition take_tx :: "u32 \<Rightarrow> BufferStatusReportParameters \<Rightarrow> BufferStatusReportParameters" where
  "take_tx bytes b = BufferStatusReportParameters (bsr_rnti b) (bsr_lcid b) (bsr_txQueueSize b - min bytes (bsr_txQueueSize b))
     (bsr_txQueueHolDelay b) (bsr_retxQueueSize b) (bsr_retxQueueHolDelay b) (bsr_statusPduSize b) (bsr_expBsrTimer b)"

definition bsr_at :: "u8 \<Rightarrow> 'r UeMac \<Rightarrow> BufferStatusReportParameters res" where
  "bsr_at k s = (case map_of (m_ulBsrReceived s) k of None \<Rightarrow> Inl (UB ''m_ulBsrReceived'') | Some b \<Rightarrow> Inr b)"

definition send_status :: "'r tx_operation \<Rightarrow> 'r UeMac \<times> bool \<times> bool \<Rightarrow> u8 \<Rightarrow> ('r UeMac \<times> bool \<times> bool) res" where
  "send_status NotifyTxOpportunity = (\<lambda>(s, hasStatusPdu, sentOneStatusPdu) k.
     res_bind (bsr_at k s) (\<lambda>bsr. with_dci s (\<lambda>dci.
       if bsr_statusPduSize bsr > 0
       then if m_ulDciTotalUsed s + ucast (bsr_statusPduSize bsr) \<le> dci_tbSize dci
            then res_bind (notify_rlc NotifyTxOpportunity (bsr_lcid bsr) (ucast (bsr_statusPduSize bsr)) (dci_harqProcess dci) s) (\<lambda>s.
              Inr (bsr_change clear_status k s, True, True))
            else Inr (s, True, sentOneStatusPdu)
       else Inr (s, hasStatusPdu, sentOneStatusPdu))))"

definition SendNewStatusData :: "'r tx_operation \<Rightarrow> 'r UeMac \<Rightarrow> 'r UeMac res" where
  "SendNewStatusData NotifyTxOpportunity s =
     res_bind (for_each (send_status NotifyTxOpportunity) (map fst (m_ulBsrReceived s)) (s, False, False))
       (\<lambda>(s, hasStatusPdu, sentOneStatusPdu).
          abort_if (hasStatusPdu \<and> \<not> sentOneStatusPdu) ''The TBS does not allow us to send one status PDU'' (Inr s))"

text \<open>The body of the loops of \<open>SendRetxData\<close> and \<open>SendTxData\<close>, which differ in the queue that they decrease.\<close>

definition send_share ::
  "'r tx_operation \<Rightarrow> (BufferStatusReportParameters \<Rightarrow> BufferStatusReportParameters) \<Rightarrow> u32 \<Rightarrow> u32 \<Rightarrow> 'r UeMac \<Rightarrow> u8 \<Rightarrow> 'r UeMac res" where
  "send_share NotifyTxOpportunity sent usefulTbs bytesPerLcId s k =
     res_bind (bsr_at k s) (\<lambda>bsr.
       if m_ulDciTotalUsed s + bytesPerLcId \<le> usefulTbs
       then with_dci s (\<lambda>dci.
         res_bind (notify_rlc NotifyTxOpportunity (bsr_lcid bsr) bytesPerLcId (dci_harqProcess dci) s) (\<lambda>s.
           Inr (bsr_change sent k s)))
       else Inr s)"

definition SendRetxData :: "'r tx_operation \<Rightarrow> u32 \<Rightarrow> u32 \<Rightarrow> 'r UeMac \<Rightarrow> 'r UeMac res" where
  "SendRetxData NotifyTxOpportunity usefulTbs activeLcsRetx s =
     (if activeLcsRetx = 0 then Inr s
      else let bytesPerLcId = usefulTbs div activeLcsRetx
           in for_each (send_share NotifyTxOpportunity (take_retx bytesPerLcId) usefulTbs bytesPerLcId)
                (map fst (m_ulBsrReceived s)) s)"

definition SendTxData :: "'r tx_operation \<Rightarrow> u32 \<Rightarrow> u32 \<Rightarrow> 'r UeMac \<Rightarrow> 'r UeMac res" where
  "SendTxData NotifyTxOpportunity usefulTbs activeTx s =
     (if activeTx = 0 then Inr s
      else let bytesPerLcId = usefulTbs div activeTx
           in for_each (send_share NotifyTxOpportunity (take_tx bytesPerLcId) usefulTbs bytesPerLcId)
                (map fst (m_ulBsrReceived s)) s)"

definition count_u16 :: "('a \<Rightarrow> bool) \<Rightarrow> 'a list \<Rightarrow> u16" where
  "count_u16 P xs = of_nat (length (filter P xs))"

text \<open>A phase of \<open>SendNewData\<close>: the rest of the grant without the SHORT BSR and the subheaders, if it is worth it.\<close>

definition send_phase :: "(u32 \<Rightarrow> u32 \<Rightarrow> 'r UeMac \<Rightarrow> 'r UeMac res) \<Rightarrow> string \<Rightarrow> u16 \<Rightarrow> 'r UeMac \<Rightarrow> 'r UeMac res" where
  "send_phase SendData msg active s =
     with_dci s (\<lambda>dci.
       ns_assert (m_ulDciTotalUsed s + 5 \<le> dci_tbSize dci) msg
        (let usefulTbs = dci_tbSize dci - m_ulDciTotalUsed s - 5
         in if active > 0 \<and> usefulTbs > 0 \<and> \<not> ucast active * 10 > usefulTbs
            then SendData (usefulTbs - ucast active * 3) (ucast active) s else Inr s))"

definition reset_burst :: "mac_pdu list option \<Rightarrow> 'r UeMac \<Rightarrow> 'r UeMac res" where
  "reset_burst b s = with_dci s (\<lambda>dci.
     let h = unat (dci_harqProcess dci)
     in if h \<ge> length (m_miUlHarqProcessesPacket s) then Inl (NS_ABORT ''std::out_of_range'')
        else Inr (s\<lparr>m_miUlHarqProcessesPacket := (m_miUlHarqProcessesPacket s)[h := \<lparr>m_pktBurst = b, m_lcidList = []\<rparr>]\<rparr>))"

definition SendNewData :: "'r tx_operation \<Rightarrow> 'r UeMac \<Rightarrow> 'r UeMac res" where
  "SendNewData NotifyTxOpportunity s =
     res_bind (reset_burst (Some []) s) (\<lambda>s.
     res_bind (SendNewStatusData NotifyTxOpportunity s) (\<lambda>s.
       let activeLcsRetx = count_u16 (\<lambda>(k, b). bsr_retxQueueSize b > 0) (m_ulBsrReceived s);
           activeLcsTx = count_u16 (\<lambda>(k, b). bsr_txQueueSize b > 0) (m_ulBsrReceived s)
       in res_bind (send_phase (SendRetxData NotifyTxOpportunity) ''no room for the SHORT_BSR after the StatusPDU'' activeLcsRetx s) (\<lambda>s.
          res_bind (send_phase (SendTxData NotifyTxOpportunity) ''no room for the SHORT_BSR after RETX'' activeLcsTx s) (\<lambda>s.
            if m_ulDciTotalUsed s = 0 then reset_burst None s else Inr s))))"

section \<open>The buffer status report\<close>

definition add_to_queue :: "(u8 \<times> 'r LcInfo) list \<Rightarrow> u32 list \<Rightarrow> u8 \<times> BufferStatusReportParameters \<Rightarrow> u32 list res" where
  "add_to_queue lcInfoMap queue = (\<lambda>(lcid, b).
     case map_of lcInfoMap lcid of
       None \<Rightarrow> Inl (NS_ASSERT ''lcInfoMapIt != m_lcInfoMap.end ()'')
     | Some i \<Rightarrow>
         ns_assert (lcid \<noteq> 0 \<or> bsr_txQueueSize b = 0 \<and> bsr_retxQueueSize b = 0 \<and> bsr_statusPduSize b = 0)
           ''BSR should not be used for LCID 0''
          (let lcg = unat (logicalChannelGroup i)
           in if lcg \<ge> length queue then Inl (NS_ABORT ''std::out_of_range'')
              else let q = queue ! lcg + bsr_total b;
                       q = (if q \<noteq> 0 then q + 5 else q);
                       q = (if bsr_txQueueSize b > 0 then q + 3 else q);
                       q = (if bsr_retxQueueSize b > 0 then q + 3 else q)
                   in Inr (queue[lcg := q])))"

definition bsr_queues :: "'r UeMac \<Rightarrow> u32 list res" where
  "bsr_queues s = for_each (add_to_queue (m_lcInfoMap s)) (m_ulBsrReceived s) [0, 0, 0, 0]"

definition level_at :: "u32 list \<Rightarrow> nat \<Rightarrow> u8 res" where
  "level_at queue k = FromBytesToLevel (ucast (queue ! k))"

definition bsr_pdu :: "u16 \<Rightarrow> u32 list \<Rightarrow> mac_pdu res" where
  "bsr_pdu rnti queue =
     res_bind (level_at queue 0) (\<lambda>l0. res_bind (level_at queue 1) (\<lambda>l1.
     res_bind (level_at queue 2) (\<lambda>l2. res_bind (level_at queue 3) (\<lambda>l3.
     res_bind (NrMacShortBsrCe_Serialize (NrMacShortBsrCe_new\<lparr>m_bufferSizeLevel_0 := l0, m_bufferSizeLevel_1 := l1,
         m_bufferSizeLevel_2 := l2, m_bufferSizeLevel_3 := l3\<rparr>)) (\<lambda>bytes.
       Inr \<lparr>mp_bytes = bytes, mp_rnti = rnti, mp_lcid = SHORT_BSR\<rparr>)))))"

definition SendBufferStatusReport :: "SfnSf \<Rightarrow> u8 \<Rightarrow> 'r UeMac \<Rightarrow> 'r UeMac res" where
  "SendBufferStatusReport dataSfn symStart s =
     (if mac_rnti s = 0 \<or> m_ulBsrReceived s = [] then Inr s
      else res_bind (bsr_queues s) (\<lambda>queue.
        res_bind (bsr_pdu (mac_rnti s) queue) (\<lambda>p. with_dci s (\<lambda>dci.
          let s = s\<lparr>m_ulDciTotalUsed := m_ulDciTotalUsed s + of_nat (length (mp_bytes p))\<rparr>
          in ns_assert (m_ulDciTotalUsed s \<le> dci_tbSize dci) ''We used more data than the DCI allowed us.''
               (Inr (emit_out (SendMacPdu p dataSfn symStart (dci_rnti dci)) s))))))"

section \<open>Grants\<close>

definition TransmitRetx :: "'r UeMac \<Rightarrow> 'r UeMac res" where
  "TransmitRetx s = with_dci s (\<lambda>dci.
     let h = unat (dci_harqProcess dci)
     in if h \<ge> length (m_miUlHarqProcessesPacket s) then Inl (NS_ABORT ''std::out_of_range'')
        else case m_pktBurst (m_miUlHarqProcessesPacket s ! h) of
            None \<Rightarrow> Inr s
          | Some pb \<Rightarrow> ns_assert (pb \<noteq> []) ''pb->GetNPackets () > 0''
              (if h \<ge> length (m_miUlHarqProcessesPacketTimer s) then Inl (NS_ABORT ''std::out_of_range'')
               else Inr ((fold (\<lambda>p. emit_out (SendMacPdu p (m_ulDciSfnsf s) (dci_symStart dci) (dci_rnti dci))) pb s)
                 \<lparr>m_miUlHarqProcessesPacketTimer := (m_miUlHarqProcessesPacketTimer s)[h := m_numHarqProcess s]\<rparr>)))"

definition ProcessUlDci :: "'r tx_operation \<Rightarrow> Dci \<Rightarrow> u32 \<Rightarrow> 'r UeMac \<Rightarrow> 'r UeMac res" where
  "ProcessUlDci NotifyTxOpportunity dci kDelay s =
     res_bind (Add kDelay (m_currentSlot s)) (\<lambda>dataSfn.
       let s = s\<lparr>m_ulDciSfnsf := dataSfn, m_ulDciTotalUsed := 0, m_ulDci := Some dci\<rparr>
       in if dci_ndi dci = 0
          then res_bind (TransmitRetx s) (SendBufferStatusReport dataSfn (dci_symStart dci))
          else if dci_ndi dci = 1
          then res_bind (SendNewData NotifyTxOpportunity s) (\<lambda>s.
               res_bind (SendBufferStatusReport dataSfn (dci_symStart dci) s) (\<lambda>s.
                 if GetTotalBufSize s = 0
                 then let s = s\<lparr>m_srState := SR_INACTIVE\<rparr>
                      in if m_ulDciTotalUsed s = 0
                         then UeMac_DoTransmitPdu \<lparr>tp_pdu = [], tp_rnti = mac_rnti s, tp_lcid = 3,
                                tp_harqProcessId = dci_harqProcess dci\<rparr> s
                         else Inr s
                 else Inr s))
          else Inr s)"

section \<open>Reception\<close>

type_synonym 'r rx_operation = "u8 list \<Rightarrow> 'r \<Rightarrow> ('r \<times> mac_call list) res"

definition UeMac_DoReceivePhyPdu :: "'r rx_operation \<Rightarrow> mac_pdu \<Rightarrow> 'r UeMac \<Rightarrow> 'r UeMac res" where
  "UeMac_DoReceivePhyPdu ReceivePdu p s =
     (if mp_rnti p \<noteq> mac_rnti s then Inr s
      else res_bind (NrMacHeaderVs_Deserialize (mp_bytes p)) (\<lambda>(header, n).
        let payload = drop (unat n) (mp_bytes p)
        in case map_of (m_lcInfoMap s) (vs_lcid header) of
             None \<Rightarrow> Inr s
           | Some i \<Rightarrow> if length payload > 0
               then res_bind (ReceivePdu payload (macSapUser i)) (\<lambda>(r, calls).
                 for_each exec_call calls
                   (s\<lparr>m_lcInfoMap := AList.update (vs_lcid header) (i\<lparr>macSapUser := r\<rparr>) (m_lcInfoMap s)\<rparr>))
               else Inr s))"

section \<open>Logical channels\<close>

definition AddLc :: "u8 \<Rightarrow> u8 \<Rightarrow> 'r \<Rightarrow> 'r UeMac \<Rightarrow> 'r UeMac res" where
  "AddLc lcId lcg msu s =
     ns_assert (map_of (m_lcInfoMap s) lcId = None) ''cannot add channel because LCID is already present''
       (Inr (s\<lparr>m_lcInfoMap := AList.update lcId \<lparr>logicalChannelGroup = lcg, macSapUser = msu\<rparr> (m_lcInfoMap s)\<rparr>))"

definition DoRemoveLc :: "u8 \<Rightarrow> 'r UeMac \<Rightarrow> 'r UeMac res" where
  "DoRemoveLc lcId s =
     ns_assert (map_of (m_lcInfoMap s) lcId \<noteq> None) ''could not find LCID''
       (Inr (s\<lparr>m_lcInfoMap := AList.delete lcId (m_lcInfoMap s), m_ulBsrReceived := AList.delete lcId (m_ulBsrReceived s)\<rparr>))"

definition DoReset :: "'r UeMac \<Rightarrow> 'r UeMac" where
  "DoReset s = emit_out CancelRaResponseTimeout
     (s\<lparr>m_lcInfoMap := filter (\<lambda>(k, i). k = 0) (m_lcInfoMap s), mac_rnti := 0, m_rachConfigured := False, m_ulBsrReceived := []\<rparr>)"

section \<open>Random access\<close>

text \<open>\<open>g_raPreambleId\<close> is a counter that all UEs share; the functions take and return it.\<close>

definition SendRaPreamble :: "Time \<Rightarrow> bool \<Rightarrow> u8 \<Rightarrow> 'r UeMac \<Rightarrow> 'r UeMac \<times> u8" where
  "SendRaPreamble slotPeriod contention g s =
     (let (preamble, g) =
        (if contention
         then let preamble = g; g = g + 1; preambleOverflow = (if preamble = 255 then 1 else 0)
              in (preamble + preambleOverflow, g + preambleOverflow)
         else (m_raPreambleId s, g));
          s = s\<lparr>m_raPreambleId := preamble, m_raRnti := 1\<rparr>;
          s = emit_out (SendRachPreamble preamble 1) s;
          s = emit_out (ScheduleStartWaiting slotPeriod) s
      in (emit_out (ScheduleRaResponseTimeout (slotPeriod * (6 + int (unat (raResponseWindowSize (m_rachConfig s))))) contention) s, g))"

text \<open>The preamble that the random variable draws is overwritten by \<open>SendRaPreamble\<close>.\<close>

definition RandomlySelectAndSendRaPreamble :: "Time \<Rightarrow> u8 \<Rightarrow> u8 \<Rightarrow> 'r UeMac \<Rightarrow> ('r UeMac \<times> u8) res" where
  "RandomlySelectAndSendRaPreamble slotPeriod draw g s =
     ns_assert (m_rachConfigured s) ''RACH not configured''
       (Inr (SendRaPreamble slotPeriod True g (s\<lparr>m_raPreambleId := draw\<rparr>)))"

definition DoStartContentionBasedRandomAccessProcedure :: "Time \<Rightarrow> u8 \<Rightarrow> u8 \<Rightarrow> 'r UeMac \<Rightarrow> ('r UeMac \<times> u8) res" where
  "DoStartContentionBasedRandomAccessProcedure = RandomlySelectAndSendRaPreamble"

definition DoStartNonContentionBasedRandomAccessProcedure :: "Time \<Rightarrow> u16 \<Rightarrow> u8 \<Rightarrow> u8 \<Rightarrow> u8 \<Rightarrow> 'r UeMac \<Rightarrow> ('r UeMac \<times> u8) res" where
  "DoStartNonContentionBasedRandomAccessProcedure slotPeriod rnti preambleId prachMask g s =
     ns_assert (prachMask = 0) ''only PRACH MASK = 0 is supported''
       (Inr (SendRaPreamble slotPeriod False g
         (s\<lparr>mac_rnti := rnti, m_raPreambleId := preambleId, m_preambleTransmissionCounter := 0\<rparr>)))"

definition StartWaitingForRaResponse :: "'r UeMac \<Rightarrow> 'r UeMac" where
  "StartWaitingForRaResponse s = s\<lparr>m_waitingForRaResponse := True\<rparr>"

definition DoConfigureRach :: "RachConfig \<Rightarrow> 'r UeMac \<Rightarrow> 'r UeMac" where
  "DoConfigureRach rc s = s\<lparr>m_rachConfig := rc, m_rachConfigured := True\<rparr>"

text \<open>The counter is 8 bits wide, the comparison is made in \<open>int\<close>.\<close>

definition RaResponseTimeout :: "Time \<Rightarrow> bool \<Rightarrow> u8 \<Rightarrow> u8 \<Rightarrow> 'r UeMac \<Rightarrow> ('r UeMac \<times> u8) res" where
  "RaResponseTimeout slotPeriod contention draw g s =
     (let s = s\<lparr>m_waitingForRaResponse := False, m_preambleTransmissionCounter := m_preambleTransmissionCounter s + 1\<rparr>
      in if unat (m_preambleTransmissionCounter s) = unat (preambleTransMax (m_rachConfig s)) + 1
         then Inr (emit_out NotifyRandomAccessFailed s, g)
         else if contention then RandomlySelectAndSendRaPreamble slotPeriod draw g s
         else Inr (SendRaPreamble slotPeriod contention g s))"

text \<open>
  \<open>NotifyRandomAccessSuccessful\<close> calls the RRC of the UE, which answers with the RRC connection request in the buffer of
  channel 0 before it returns; what it does to the MAC is the argument \<open>rrc\<close>.
\<close>

definition RecvRaResponse :: "'r tx_operation \<Rightarrow> ('r UeMac \<Rightarrow> 'r UeMac res) \<Rightarrow> Dci \<Rightarrow> u32 \<Rightarrow> 'r UeMac \<Rightarrow> 'r UeMac res" where
  "RecvRaResponse NotifyTxOpportunity rrc ulMsg3Dci k2Delay s =
     (let s = emit_out CancelRaResponseTimeout (s\<lparr>m_waitingForRaResponse := False\<rparr>)
      in res_bind (Add k2Delay (m_currentSlot s)) (\<lambda>sfn.
         let s = s\<lparr>mac_rnti := dci_rnti ulMsg3Dci, m_ulDciSfnsf := sfn, m_ulDciTotalUsed := 0, m_ulDci := Some ulMsg3Dci\<rparr>;
             s = emit_out (SetTemporaryCellRnti (mac_rnti s)) s;
             s = emit_out NotifyRandomAccessSuccessful s
         in res_bind (rrc s) (\<lambda>s.
            ns_assert (map_of (m_lcInfoMap s) 0 \<noteq> None) ''LC0 not mapped to this UE MAC''
             (case map_of (m_ulBsrReceived s) 0 of
                None \<Rightarrow> Inr s
              | Some b \<Rightarrow>
                  if bsr_txQueueSize b > 0
                  then ns_assert (dci_tbSize ulMsg3Dci > bsr_txQueueSize b) ''segmentation of Message 3 is not allowed''
                    (res_bind (notify_rlc NotifyTxOpportunity 0 (dci_tbSize ulMsg3Dci) 0 s) (\<lambda>s.
                       Inr (s\<lparr>m_ulBsrReceived := AList.delete 0 (m_ulBsrReceived s)\<rparr>)))
                  else Inr s))))"

record Rar =
  rar_raPreambleId :: u8
  rar_ulMsg3Dci :: Dci
  rar_k2Delay :: u32

definition receive_rar :: "'r tx_operation \<Rightarrow> ('r UeMac \<Rightarrow> 'r UeMac res) \<Rightarrow> 'r UeMac \<Rightarrow> Rar \<Rightarrow> 'r UeMac res" where
  "receive_rar NotifyTxOpportunity rrc s r =
     (if rar_raPreambleId r = m_raPreambleId s then RecvRaResponse NotifyTxOpportunity rrc (rar_ulMsg3Dci r) (rar_k2Delay r) s else Inr s)"

datatype ue_control = UL_DCI Dci u32 | RAR "Rar list" | OTHER_CONTROL

definition UeMac_DoReceiveControlMessage :: "'r tx_operation \<Rightarrow> ('r UeMac \<Rightarrow> 'r UeMac res) \<Rightarrow> ue_control \<Rightarrow> 'r UeMac \<Rightarrow> 'r UeMac res" where
  "UeMac_DoReceiveControlMessage NotifyTxOpportunity rrc msg s =
     (case msg of
        UL_DCI dci kDelay \<Rightarrow> ProcessUlDci NotifyTxOpportunity dci kDelay s
      | RAR rars \<Rightarrow> if m_waitingForRaResponse s then for_each (receive_rar NotifyTxOpportunity rrc) rars s else Inr s
      | OTHER_CONTROL \<Rightarrow> Inr s)"

end
