(* ===== verification/NrGnbMac.thy ===== *)
theory NrGnbMac
  imports NrUeMac
begin

text \<open>
  The MAC of the gNB (\<open>src/nr/model/nr-gnb-mac.cc\<close>) with its scheduler: what it hands to the scheduler in a slot, the
  PDUs and control elements that it receives, the transport blocks that it fills, and the random access preambles.
  The bandwidth part manager (\<open>bwp-manager-gnb.cc\<close>) returns a control element or a scheduling request to the MAC
  from which it came.
\<close>

section \<open>State\<close>

datatype VarTtiType = SRS | DATA | CTRL | MSG3

record VarTtiAllocInfo =
  vt_type :: VarTtiType
  vt_format :: direction
  vt_dci :: Dci
  vt_rlcPduInfo :: "(u8 \<times> u32) list"

record NrMacPduInfo =
  pi_sfnSf :: SfnSf
  pi_dci :: Dci
  pi_used :: u32

record NrDlHarqProcessInfo =
  dl_pktBurst :: "mac_pdu list"
  dl_lcidList :: "u8 list"

record NcRaPreambleInfo =
  nc_rnti :: u16
  expiryTime :: Time

text \<open>Channel reports pass through the MAC; only the precoding matrix of \<open>DlCqiInfo\<close> is left out.\<close>

datatype DlCqiType = WB | SB

record DlCqiInfo =
  cqi_rnti :: u16
  cqi_ri :: u8
  cqi_cqiType :: DlCqiType
  cqi_wbCqi :: u8
  cqi_wbPmi :: u64
  cqi_sbCqis :: "u8 list"
  cqi_sbPmis :: "u64 list"
  cqi_mcs :: u8

datatype UlCqiType = UlCqi_SRS | UlCqi_PUSCH | UlCqi_PUCCH_1 | UlCqi_PUCCH_2 | UlCqi_PRACH

record UlCqiReport =
  ulcqi_sfnSf :: SfnSf
  ulcqi_symStart :: u8
  ulcqi_sinr :: "real list"
  ulcqi_type :: UlCqiType

record RachListElement =
  rach_rnti :: u16
  m_estimatedSize :: u16

text \<open>
  What leaves the MAC: PDUs and allocations for the physical layer, and the requests for those parts of the scheduler
  that are not in \<^typ>\<open>Scheduler\<close>. The others are applied to it.
\<close>

datatype gnb_out =
    Gnb_SendMacPdu mac_pdu SfnSf u8 u16
  | SetSlotAllocInfo "VarTtiAllocInfo list"
  | SchedDlCqiInfoReq SfnSf "DlCqiInfo list"
  | SchedUlCqiInfoReq UlCqiReport
  | SchedDlRachInfoReq "RachListElement list"
  | SchedDlTriggerReq SfnSf "HarqInfo list"
  | SchedUlTriggerReq SfnSf "HarqInfo list"
  | CschedCellConfigReq u16
  | DlHarqFeedback HarqInfo
  | SrReq u16

record 'r GnbMac =
  g_currentSlot :: SfnSf
  g_bwpId :: u16
  g_numHarqProcess :: u8
  m_macPduMap :: "(u32 \<times> NrMacPduInfo) list"
  m_dlCqiReceived :: "DlCqiInfo list"
  m_ulCqiReceived :: "UlCqiReport list"
  m_ulCeReceived :: "MacCeElement list"
  m_numberOfRaPreambles :: u8
  m_preambleTransMax :: u8
  m_raResponseWindowSize :: u8
  m_allocatedNcRaPreambleMap :: "(u8 \<times> NcRaPreambleInfo) list"
  m_receivedRachPreambleCount :: "(u8 \<times> u32) list"
  m_rlcAttached :: "(u16 \<times> (u8 \<times> 'r) list) list"
  m_dlHarqInfoReceived :: "HarqInfo list"
  m_ulHarqInfoReceived :: "HarqInfo list"
  m_miDlHarqProcessesPackets :: "(u16 \<times> NrDlHarqProcessInfo list) list"
  m_srRntiList :: "u16 list"
  m_rapIdRntiMap :: "(u8 \<times> u32) list"
  m_bandwidthInRbg :: u16
  m_numRbPerRbg :: u32
  m_sched :: Scheduler
  gout :: "gnb_out list"

definition gnb_emit :: "gnb_out \<Rightarrow> 'r GnbMac \<Rightarrow> 'r GnbMac" where
  "gnb_emit x s = s\<lparr>gout := gout s @ [x]\<rparr>"

definition NrGnbMac_new :: "u16 \<Rightarrow> Scheduler \<Rightarrow> 'r GnbMac" where
  "NrGnbMac_new bwpId sched =
     \<lparr>g_currentSlot = SfnSf_default, g_bwpId = bwpId, g_numHarqProcess = 16, m_macPduMap = [], m_dlCqiReceived = [],
      m_ulCqiReceived = [], m_ulCeReceived = [], m_numberOfRaPreambles = 52, m_preambleTransMax = 50,
      m_raResponseWindowSize = 3, m_allocatedNcRaPreambleMap = [], m_receivedRachPreambleCount = [], m_rlcAttached = [],
      m_dlHarqInfoReceived = [], m_ulHarqInfoReceived = [], m_miDlHarqProcessesPackets = [], m_srRntiList = [],
      m_rapIdRntiMap = [], m_bandwidthInRbg = 0, m_numRbPerRbg = 1, m_sched = sched, gout = []\<rparr>"

text \<open>\<open>m_numRbPerRbg\<close> starts as -1 and the attribute's default sets it to 1 in the constructor.\<close>

definition SetNumRbPerRbg :: "u32 \<Rightarrow> 'r GnbMac \<Rightarrow> 'r GnbMac res" where
  "SetNumRbPerRbg rbgSize s =
     abort_if (m_numRbPerRbg s \<noteq> -1) ''This attribute can not be reconfigured'' (Inr (s\<lparr>m_numRbPerRbg := rbgSize\<rparr>))"

definition Gnb_SetNumHarqProcess :: "u8 \<Rightarrow> 'r GnbMac \<Rightarrow> 'r GnbMac" where
  "Gnb_SetNumHarqProcess n s = s\<lparr>g_numHarqProcess := n\<rparr>"

definition SetNumberOfRaPreambles :: "u8 \<Rightarrow> 'r GnbMac \<Rightarrow> 'r GnbMac" where
  "SetNumberOfRaPreambles n s = s\<lparr>m_numberOfRaPreambles := n\<rparr>"

definition SetPreambleTransMax :: "u8 \<Rightarrow> 'r GnbMac \<Rightarrow> 'r GnbMac" where
  "SetPreambleTransMax n s = s\<lparr>m_preambleTransMax := n\<rparr>"

definition SetRaResponseWindowSize :: "u8 \<Rightarrow> 'r GnbMac \<Rightarrow> 'r GnbMac" where
  "SetRaResponseWindowSize n s = s\<lparr>m_raResponseWindowSize := n\<rparr>"

definition DoGetRachConfig :: "'r GnbMac \<Rightarrow> RachConfig" where
  "DoGetRachConfig s = \<lparr>numberOfRaPreambles = m_numberOfRaPreambles s, preambleTransMax = m_preambleTransMax s,
     raResponseWindowSize = m_raResponseWindowSize s\<rparr>"

definition SetCurrentSfn :: "SfnSf \<Rightarrow> 'r GnbMac \<Rightarrow> 'r GnbMac" where
  "SetCurrentSfn sfnSf s = s\<lparr>g_currentSlot := sfnSf\<rparr>"

text \<open>A request that the scheduler serves.\<close>

definition on_sched :: "(Scheduler \<Rightarrow> Scheduler res) \<Rightarrow> 'r GnbMac \<Rightarrow> 'r GnbMac res" where
  "on_sched request s = res_bind (request (m_sched s)) (\<lambda>sched. Inr (s\<lparr>m_sched := sched\<rparr>))"

definition DoConfigureMac :: "u32 \<Rightarrow> 'r GnbMac \<Rightarrow> 'r GnbMac res" where
  "DoConfigureMac rbNum s =
     (if m_numRbPerRbg s = 0 then Inl (UB ''division by zero'')
      else let s = s\<lparr>m_bandwidthInRbg := ucast (rbNum div m_numRbPerRbg s)\<rparr>
           in Inr (gnb_emit (CschedCellConfigReq (m_bandwidthInRbg s)) s))"

section \<open>UEs and logical channels\<close>

definition Gnb_DoAddUe :: "(u16 \<Rightarrow> BeamId) \<Rightarrow> u16 \<Rightarrow> 'r GnbMac \<Rightarrow> 'r GnbMac res" where
  "Gnb_DoAddUe GetBeamId rnti s =
     ns_assert (map_of (m_rlcAttached s) rnti = None) ''element already present, RNTI already existed''
      (res_bind (on_sched (DoCschedUeConfigReq rnti (GetBeamId rnti)) (s\<lparr>m_rlcAttached := (rnti, []) # m_rlcAttached s\<rparr>)) (\<lambda>s.
        let buf = replicate (unat (g_numHarqProcess s)) \<lparr>dl_pktBurst = [], dl_lcidList = []\<rparr>
        in Inr (case map_of (m_miDlHarqProcessesPackets s) rnti of
             None \<Rightarrow> s\<lparr>m_miDlHarqProcessesPackets := (rnti, buf) # m_miDlHarqProcessesPackets s\<rparr>
           | Some b \<Rightarrow> s)))"

definition forget_preambles :: "u16 \<Rightarrow> 'r GnbMac \<Rightarrow> 'r GnbMac" where
  "forget_preambles rnti s =
     (let mine = map fst (filter (\<lambda>(k, i). nc_rnti i = rnti) (m_allocatedNcRaPreambleMap s))
      in s\<lparr>m_receivedRachPreambleCount := filter (\<lambda>(k, n). k \<notin> set mine) (m_receivedRachPreambleCount s),
           m_allocatedNcRaPreambleMap := filter (\<lambda>(k, i). nc_rnti i \<noteq> rnti) (m_allocatedNcRaPreambleMap s)\<rparr>)"

definition Gnb_DoRemoveUe :: "u16 \<Rightarrow> 'r GnbMac \<Rightarrow> 'r GnbMac res" where
  "Gnb_DoRemoveUe rnti s =
     res_bind (on_sched (DoCschedUeReleaseReq rnti) s) (\<lambda>s.
       Inr (forget_preambles rnti (s\<lparr>m_miDlHarqProcessesPackets := AList.delete rnti (m_miDlHarqProcessesPackets s),
         m_rlcAttached := AList.delete rnti (m_rlcAttached s)\<rparr>)))"

definition Gnb_DoAddLc :: "u16 \<Rightarrow> LogicalChannelConfig \<Rightarrow> 'r \<Rightarrow> 'r GnbMac \<Rightarrow> 'r GnbMac res" where
  "Gnb_DoAddLc rnti lcinfo msu s =
     (case map_of (m_rlcAttached s) rnti of
        None \<Rightarrow> Inl (NS_ASSERT ''RNTI not found'')
      | Some entities \<Rightarrow>
          let lcid = m_logicalChannelIdentity lcinfo;
              s = (case map_of entities lcid of
                     None \<Rightarrow> s\<lparr>m_rlcAttached := AList.update rnti ((lcid, msu) # entities) (m_rlcAttached s)\<rparr>
                   | Some r \<Rightarrow> s)
          in if lcid \<noteq> 0 then on_sched (DoCschedLcConfigReq rnti [lcinfo\<lparr>m_direction := DIR_BOTH\<rparr>]) s else Inr s)"

definition Gnb_DoReleaseLc :: "u16 \<Rightarrow> u8 \<Rightarrow> 'r GnbMac \<Rightarrow> 'r GnbMac res" where
  "Gnb_DoReleaseLc rnti lcid s =
     (case map_of (m_rlcAttached s) rnti of
        None \<Rightarrow> Inl (UB ''rntiIt'')
      | Some entities \<Rightarrow> on_sched (DoCschedLcReleaseReq rnti [lcid])
          (s\<lparr>m_rlcAttached := AList.update rnti (AList.delete lcid entities) (m_rlcAttached s)\<rparr>))"

definition UeUpdateConfigurationReq :: "(u16 \<Rightarrow> BeamId) \<Rightarrow> u16 \<Rightarrow> 'r GnbMac \<Rightarrow> 'r GnbMac res" where
  "UeUpdateConfigurationReq GetBeamId rnti s = on_sched (DoCschedUeConfigReq rnti (GetBeamId rnti)) s"

text \<open>The report of a beam names the UE by the low byte of its RNTI.\<close>

definition BeamChangeReport :: "BeamId \<Rightarrow> u8 \<Rightarrow> 'r GnbMac \<Rightarrow> 'r GnbMac res" where
  "BeamChangeReport beamId rnti s = on_sched (DoCschedUeConfigReq (ucast rnti) beamId) s"

section \<open>Reception\<close>

definition DoReportMacCeToScheduler :: "MacCeElement \<Rightarrow> 'r GnbMac \<Rightarrow> 'r GnbMac" where
  "DoReportMacCeToScheduler bsr s = s\<lparr>m_ulCeReceived := m_ulCeReceived s @ [bsr]\<rparr>"

definition DoReportSrToScheduler :: "u16 \<Rightarrow> 'r GnbMac \<Rightarrow> 'r GnbMac" where
  "DoReportSrToScheduler rnti s = gnb_emit (SrReq rnti) (s\<lparr>m_srRntiList := m_srRntiList s @ [rnti]\<rparr>)"

text \<open>The manager with the bandwidth parts \<open>providers\<close>; the part that it looks up is the one of the calling MAC.\<close>

definition DoUlReceiveMacCe :: "u8 list \<Rightarrow> MacCeElement \<Rightarrow> u8 \<Rightarrow> 'r GnbMac \<Rightarrow> 'r GnbMac res" where
  "DoUlReceiveMacCe providers bsr componentCarrierId s =
     ns_assert (m_macCeType bsr = BSR) ''Received a Control Message not allowed''
      (ns_assert (componentCarrierId \<in> set providers) ''Mac sap provider does not exist.''
        (Inr (DoReportMacCeToScheduler bsr s)))"

definition DoUlReceiveSr :: "u8 list \<Rightarrow> u16 \<Rightarrow> u8 \<Rightarrow> 'r GnbMac \<Rightarrow> 'r GnbMac res" where
  "DoUlReceiveSr providers rnti componentCarrierId s =
     abort_if (componentCarrierId \<notin> set providers) ''it == m_ccmMacSapProviderMap.end ()'' (Inr (DoReportSrToScheduler rnti s))"

definition ReceiveBsrMessage :: "u8 list \<Rightarrow> MacCeElement \<Rightarrow> 'r GnbMac \<Rightarrow> 'r GnbMac res" where
  "ReceiveBsrMessage providers bsr s = DoUlReceiveMacCe providers bsr (ucast (g_bwpId s)) s"

text \<open>The operations of the scheduler that the RLC entities of the gNB reach through the MAC.\<close>

definition Gnb_DoTransmitBufferStatusReport :: "BufferStatusReportParameters \<Rightarrow> 'r GnbMac \<Rightarrow> 'r GnbMac res" where
  "Gnb_DoTransmitBufferStatusReport params s =
     on_sched (DoSchedDlRlcBufferReq \<lparr>req_rnti = bsr_rnti params, req_logicalChannelIdentity = bsr_lcid params,
       req_rlcTransmissionQueueSize = bsr_txQueueSize params, req_rlcTransmissionQueueHolDelay = bsr_txQueueHolDelay params,
       req_rlcRetransmissionQueueSize = bsr_retxQueueSize params, req_rlcRetransmissionHolDelay = bsr_retxQueueHolDelay params,
       req_rlcStatusPduSize = bsr_statusPduSize params\<rparr>) s"

definition tbMapKey :: "u16 \<Rightarrow> u8 \<Rightarrow> u32" where
  "tbMapKey rnti harqId = (push_bit 8 (ucast rnti AND 0xFFFF)) OR (ucast harqId AND 0xFF)"

definition change_dl_process ::
  "failure \<Rightarrow> u16 \<Rightarrow> u8 \<Rightarrow> (NrDlHarqProcessInfo \<Rightarrow> NrDlHarqProcessInfo) \<Rightarrow> 'r GnbMac \<Rightarrow> 'r GnbMac res" where
  "change_dl_process missing rnti harqId f s =
     (case map_of (m_miDlHarqProcessesPackets s) rnti of
        None \<Rightarrow> Inl missing
      | Some buf \<Rightarrow> if unat harqId \<ge> length buf then Inl (NS_ABORT ''std::out_of_range'')
          else Inr (s\<lparr>m_miDlHarqProcessesPackets :=
            AList.update rnti (buf[unat harqId := f (buf ! unat harqId)]) (m_miDlHarqProcessesPackets s)\<rparr>))"

definition Gnb_DoTransmitPdu :: "TransmitPduParameters \<Rightarrow> 'r GnbMac \<Rightarrow> 'r GnbMac res" where
  "Gnb_DoTransmitPdu params s =
     (let key = tbMapKey (tp_rnti params) (tp_harqProcessId params)
      in case map_of (m_macPduMap s) key of
           None \<Rightarrow> Inl (NS_ABORT ''No MAC PDU storage element found for this TB UID/RNTI'')
         | Some info \<Rightarrow> res_bind (NrMacHeaderVs_SetLcId (tp_lcid params) NrMacHeaderVs_new) (\<lambda>header.
             let header = NrMacHeaderVs_SetSize (of_nat (length (tp_pdu params))) header;
                 pdu = \<lparr>mp_bytes = NrMacHeaderVs_Serialize header @ tp_pdu params, mp_rnti = tp_rnti params, mp_lcid = tp_lcid params\<rparr>
             in res_bind (change_dl_process (UB ''harqIt'') (tp_rnti params) (tp_harqProcessId params)
                  (\<lambda>i. i\<lparr>dl_pktBurst := dl_pktBurst i @ [pdu]\<rparr>) s) (\<lambda>s.
                let info = info\<lparr>pi_used := pi_used info + of_nat (length (mp_bytes pdu))\<rparr>;
                    s = s\<lparr>m_macPduMap := AList.update key info (m_macPduMap s)\<rparr>
                in ns_assert (dci_tbSize (pi_dci info) \<ge> pi_used info) ''DCI total used''
                     (Inr (gnb_emit (Gnb_SendMacPdu pdu (pi_sfnSf info) (dci_symStart (pi_dci info)) (tp_rnti params)) s)))))"

definition gnb_call :: "'r GnbMac \<Rightarrow> mac_call \<Rightarrow> 'r GnbMac res" where
  "gnb_call s c = (case c of TransmitPdu_call p \<Rightarrow> Gnb_DoTransmitPdu p s
     | BufferStatusReport_call b \<Rightarrow> Gnb_DoTransmitBufferStatusReport b s)"

text \<open>The entity of a channel runs an operation, and the MAC serves the calls that it makes.\<close>

definition run_entity ::
  "('r \<Rightarrow> ('r \<times> mac_call list) res) \<Rightarrow> u16 \<Rightarrow> u8 \<Rightarrow> 'r \<Rightarrow> (u8 \<times> 'r) list \<Rightarrow> 'r GnbMac \<Rightarrow> 'r GnbMac res" where
  "run_entity operation rnti lcid r entities s =
     res_bind (operation r) (\<lambda>(r, cs).
       for_each gnb_call cs (s\<lparr>m_rlcAttached := AList.update rnti (AList.update lcid r entities) (m_rlcAttached s)\<rparr>))"

definition Gnb_DoReceivePhyPdu :: "u8 list \<Rightarrow> 'r rx_operation \<Rightarrow> mac_pdu \<Rightarrow> 'r GnbMac \<Rightarrow> 'r GnbMac res" where
  "Gnb_DoReceivePhyPdu providers ReceivePdu p s =
     (case map_of (m_rlcAttached s) (mp_rnti p) of
        None \<Rightarrow> Inl (NS_ASSERT ''could not find RNTI'')
      | Some entities \<Rightarrow> res_bind (NrMacHeaderFs_Deserialize (mp_bytes p)) (\<lambda>lcid.
          if lcid = SHORT_BSR
          then res_bind (NrMacShortBsrCe_Deserialize (mp_bytes p)) (\<lambda>c.
            ReceiveBsrMessage providers \<lparr>ce_rnti = mp_rnti p, m_macCeType = BSR, m_bufferStatus =
              [m_bufferSizeLevel_0 c, m_bufferSizeLevel_1 c, m_bufferSizeLevel_2 c, m_bufferSizeLevel_3 c]\<rparr> s)
          else res_bind (NrMacHeaderVs_Deserialize (mp_bytes p)) (\<lambda>(header, n).
            let payload = drop (unat n) (mp_bytes p)
            in case map_of entities (vs_lcid header) of
                 None \<Rightarrow> Inr s
               | Some r \<Rightarrow> if length payload > 0 then run_entity (ReceivePdu payload) (mp_rnti p) (vs_lcid header) r entities s
                          else Inr s)))"

definition DoUlCqiReport :: "UlCqiReport \<Rightarrow> 'r GnbMac \<Rightarrow> 'r GnbMac" where
  "DoUlCqiReport ulcqi s = s\<lparr>m_ulCqiReceived := m_ulCqiReceived s @ [ulcqi]\<rparr>"

definition DoUlHarqFeedback :: "HarqInfo \<Rightarrow> 'r GnbMac \<Rightarrow> 'r GnbMac" where
  "DoUlHarqFeedback params s = s\<lparr>m_ulHarqInfoReceived := m_ulHarqInfoReceived s @ [params]\<rparr>"

definition DoDlHarqFeedback :: "HarqInfo \<Rightarrow> 'r GnbMac \<Rightarrow> 'r GnbMac res" where
  "DoDlHarqFeedback params s =
     ns_assert (map_of (m_miDlHarqProcessesPackets s) (fb_rnti params) \<noteq> None) ''it != m_miDlHarqProcessesPackets.end ()''
      (res_bind (if fb_receivedOk params
                 then change_dl_process (UB ''it'') (fb_rnti params) (fb_harqProcessId params) (\<lambda>i. i\<lparr>dl_pktBurst := []\<rparr>) s
                 else Inr s) (\<lambda>s.
         let s = gnb_emit (DlHarqFeedback params) s
         in Inr (s\<lparr>m_dlHarqInfoReceived := m_dlHarqInfoReceived s @ [params]\<rparr>)))"

datatype gnb_control = SR_message u16 | DL_CQI_message DlCqiInfo | DL_HARQ_message HarqInfo | OTHER_message

definition Gnb_DoReceiveControlMessage :: "u8 list \<Rightarrow> gnb_control \<Rightarrow> 'r GnbMac \<Rightarrow> 'r GnbMac res" where
  "Gnb_DoReceiveControlMessage providers msg s =
     (case msg of
        SR_message rnti \<Rightarrow> DoUlReceiveSr providers rnti (ucast (g_bwpId s)) s
      | DL_CQI_message cqi \<Rightarrow> ns_assert (cqi_rnti cqi \<noteq> 0) ''cqiElement.m_rnti != 0''
          (Inr (s\<lparr>m_dlCqiReceived := m_dlCqiReceived s @ [cqi]\<rparr>))
      | DL_HARQ_message fb \<Rightarrow> DoDlHarqFeedback fb s
      | OTHER_message \<Rightarrow> Inr s)"

section \<open>Random access\<close>

definition ReceiveRachPreamble :: "u32 \<Rightarrow> 'r GnbMac \<Rightarrow> 'r GnbMac" where
  "ReceiveRachPreamble raId s =
     (let k = ucast raId;
          n = (case map_of (m_receivedRachPreambleCount s) k of None \<Rightarrow> 0 | Some n \<Rightarrow> n)
      in s\<lparr>m_receivedRachPreambleCount := smap_put k (n + 1) (m_receivedRachPreambleCount s)\<rparr>)"

text \<open>
  \<open>AllocateTemporaryCellRnti\<close> is the RRC of the gNB, which adds the UE to the MAC before it returns. The map of the
  preambles has 8-bit keys, to which the RNTI is converted; an entry that exists is kept.
\<close>

definition process_preamble ::
  "('r GnbMac \<Rightarrow> (u16 \<times> 'r GnbMac) res) \<Rightarrow> 'r GnbMac \<times> RachListElement list \<Rightarrow> u8 \<times> u32 \<Rightarrow> ('r GnbMac \<times> RachListElement list) res" where
  "process_preamble AllocateTemporaryCellRnti = (\<lambda>(s, rachList) (k, n).
     ns_assert (n \<noteq> 0) ''it->second != 0''
      (if n > 1 then Inr (s, rachList)
       else res_bind (case map_of (m_allocatedNcRaPreambleMap s) k of
               Some i \<Rightarrow> Inr (nc_rnti i, s)
             | None \<Rightarrow> AllocateTemporaryCellRnti s) (\<lambda>(rnti, s).
           let key = ucast rnti
           in Inr (case map_of (m_rapIdRntiMap s) key of
                     None \<Rightarrow> s\<lparr>m_rapIdRntiMap := (key, ucast k) # m_rapIdRntiMap s\<rparr>
                   | Some j \<Rightarrow> s,
                   rachList @ [\<lparr>rach_rnti = rnti, m_estimatedSize = 144\<rparr>]))))"

definition ProcessRaPreambles :: "('r GnbMac \<Rightarrow> (u16 \<times> 'r GnbMac) res) \<Rightarrow> 'r GnbMac \<Rightarrow> 'r GnbMac res" where
  "ProcessRaPreambles AllocateTemporaryCellRnti s =
     res_bind (for_each (process_preamble AllocateTemporaryCellRnti) (m_receivedRachPreambleCount s) (s, [])) (\<lambda>(s, rachList).
       Inr (gnb_emit (SchedDlRachInfoReq rachList) (s\<lparr>m_receivedRachPreambleCount := []\<rparr>)))"

definition HasMsg3Allocations :: "VarTtiAllocInfo list \<Rightarrow> bool" where
  "HasMsg3Allocations varTtis \<longleftrightarrow> (\<exists>v \<in> set varTtis. vt_type v = MSG3)"

definition rar_of :: "'r GnbMac \<Rightarrow> Rar list \<Rightarrow> VarTtiAllocInfo \<Rightarrow> Rar list res" where
  "rar_of s rars v =
     (if vt_type v = MSG3
      then (case map_of (m_rapIdRntiMap s) (ucast (dci_rnti (vt_dci v))) of
              None \<Rightarrow> Inl (NS_ABORT ''itRaPreambleId == m_rapIdRntiMap.end ()'')
            | Some preamble \<Rightarrow> Inr (rars @ [\<lparr>rar_raPreambleId = ucast preamble, rar_ulMsg3Dci = vt_dci v, rar_k2Delay = 100\<rparr>]))
      else Inr rars)"

definition DoBuildRarList :: "VarTtiAllocInfo list \<Rightarrow> Rar list \<Rightarrow> 'r GnbMac \<Rightarrow> (Rar list \<times> 'r GnbMac) res" where
  "DoBuildRarList varTtis buildRarList s =
     (if \<not> HasMsg3Allocations varTtis then Inr (buildRarList, s)
      else res_bind (for_each (rar_of s) varTtis buildRarList) (\<lambda>rars.
        Inr (rars, if rars \<noteq> [] then s\<lparr>m_rapIdRntiMap := []\<rparr> else s)))"

text \<open>The loop over the preambles from \<open>m_numberOfRaPreambles\<close> on; the fuel is the number of preambles below 64.\<close>

fun find_preamble ::
  "nat \<Rightarrow> (u16 \<Rightarrow> bool) \<Rightarrow> Time \<Rightarrow> (u8 \<times> NcRaPreambleInfo) list \<Rightarrow> u8 \<Rightarrow> u8 option" where
  "find_preamble 0 IsRandomAccessCompleted now m k = None"
| "find_preamble (Suc n) IsRandomAccessCompleted now m k =
     (if k \<ge> 64 then None
      else case map_of m k of
          None \<Rightarrow> Some k
        | Some i \<Rightarrow> if expiryTime i < now \<and> IsRandomAccessCompleted (nc_rnti i) then Some k
                   else find_preamble n IsRandomAccessCompleted now m (k + 1))"

definition DoAllocateNcRaPreamble :: "(u16 \<Rightarrow> bool) \<Rightarrow> Time \<Rightarrow> u16 \<Rightarrow> 'r GnbMac \<Rightarrow> u8 option \<times> 'r GnbMac" where
  "DoAllocateNcRaPreamble IsRandomAccessCompleted now rnti s =
     (case find_preamble (64 - unat (m_numberOfRaPreambles s)) IsRandomAccessCompleted now (m_allocatedNcRaPreambleMap s)
         (m_numberOfRaPreambles s) of
        None \<Rightarrow> (None, s)
      | Some k \<Rightarrow>
          let expiryIntervalMs = (ucast (m_preambleTransMax s) :: u32) * (ucast (m_raResponseWindowSize s) + 5);
              info = \<lparr>nc_rnti = rnti, expiryTime = now + int (unat expiryIntervalMs) * 1000000\<rparr>
          in (Some k, s\<lparr>m_allocatedNcRaPreambleMap := smap_put k info (m_allocatedNcRaPreambleMap s)\<rparr>))"

section \<open>Slots\<close>

definition DoSlotDlIndication :: "(u16 \<Rightarrow> BeamId) \<Rightarrow> SfnSf \<Rightarrow> 'r GnbMac \<Rightarrow> 'r GnbMac res" where
  "DoSlotDlIndication GetBeamId sfnSf s =
     (let s = gnb_emit (SchedDlCqiInfoReq sfnSf (m_dlCqiReceived s)) s;
          harqInfo = m_dlHarqInfoReceived s;
          s = s\<lparr>m_dlCqiReceived := [], m_dlHarqInfoReceived := []\<rparr>
      in res_bind (for_each (\<lambda>s (rnti, entities). on_sched (DoCschedUeConfigReq rnti (GetBeamId rnti)) s) (m_rlcAttached s) s)
           (\<lambda>s. Inr (gnb_emit (SchedDlTriggerReq sfnSf harqInfo) s)))"

definition DoSlotUlIndication :: "('r GnbMac \<Rightarrow> (u16 \<times> 'r GnbMac) res) \<Rightarrow> SfnSf \<Rightarrow> 'r GnbMac \<Rightarrow> 'r GnbMac res" where
  "DoSlotUlIndication AllocateTemporaryCellRnti sfnSf s =
     res_bind (if m_receivedRachPreambleCount s \<noteq> [] then ProcessRaPreambles AllocateTemporaryCellRnti s else Inr s) (\<lambda>s.
       let s = (fold (\<lambda>i. gnb_emit (SchedUlCqiInfoReq i)) (m_ulCqiReceived s) s)\<lparr>m_ulCqiReceived := []\<rparr>;
           srList = m_srRntiList s;
           s = s\<lparr>m_srRntiList := []\<rparr>
       in res_bind (on_sched (DoSchedUlSrInfoReq srList) s) (\<lambda>s.
          res_bind (if m_ulCeReceived s \<noteq> []
                    then on_sched (DoSchedUlMacCtrlInfoReq (m_ulCeReceived s)) (s\<lparr>m_ulCeReceived := []\<rparr>) else Inr s) (\<lambda>s.
            let harqInfo = m_ulHarqInfoReceived s
            in Inr (gnb_emit (SchedUlTriggerReq sfnSf harqInfo) (s\<lparr>m_ulHarqInfoReceived := []\<rparr>)))))"

section \<open>Transport blocks\<close>

definition tx_opportunity :: "'r tx_operation \<Rightarrow> u16 \<Rightarrow> u8 \<Rightarrow> 'r GnbMac \<Rightarrow> u8 \<times> u32 \<Rightarrow> 'r GnbMac res" where
  "tx_opportunity NotifyTxOpportunity rnti harqId s = (\<lambda>(lcid, bytes).
     case map_of (m_rlcAttached s) rnti of
       None \<Rightarrow> Inl (NS_ASSERT ''could not find RNTI'')
     | Some entities \<Rightarrow> (case map_of entities lcid of
           None \<Rightarrow> Inl (NS_ASSERT ''could not find LCID'')
         | Some r \<Rightarrow> res_bind (run_entity (NotifyTxOpportunity bytes harqId) rnti lcid r entities s)
             (change_dl_process (UB ''harqIt'') rnti harqId (\<lambda>i. i\<lparr>dl_lcidList := dl_lcidList i @ [lcid]\<rparr>))))"

definition send_new_block :: "'r tx_operation \<Rightarrow> SfnSf \<Rightarrow> VarTtiAllocInfo \<Rightarrow> 'r GnbMac \<Rightarrow> 'r GnbMac res" where
  "send_new_block NotifyTxOpportunity sfnSf v s =
     (let dci = vt_dci v; rnti = dci_rnti dci; harqId = dci_harqProcess dci; key = tbMapKey rnti harqId
      in ns_assert (vt_rlcPduInfo v \<noteq> []) ''!rlcPduInfo.empty ()''
          (if map_of (m_macPduMap s) key \<noteq> None then Inl (NS_ABORT ''MAC PDU map element exists'')
           else let s = s\<lparr>m_macPduMap := (key, \<lparr>pi_sfnSf = sfnSf, pi_dci = dci, pi_used = 0\<rparr>) # m_macPduMap s\<rparr>
                in res_bind (change_dl_process (NS_ASSERT ''harqIt != m_miDlHarqProcessesPackets.end ()'') rnti harqId
                     (\<lambda>i. \<lparr>dl_pktBurst = [], dl_lcidList = []\<rparr>) s) (\<lambda>s.
                   res_bind (for_each (tx_opportunity NotifyTxOpportunity rnti harqId) (vt_rlcPduInfo v) s) (\<lambda>s.
                     Inr (s\<lparr>m_macPduMap := AList.delete key (m_macPduMap s)\<rparr>)))))"

definition resend_block :: "SfnSf \<Rightarrow> Dci \<Rightarrow> 'r GnbMac \<Rightarrow> 'r GnbMac res" where
  "resend_block sfnSf dci s =
     (if dci_tbSize dci > 0
      then (case map_of (m_miDlHarqProcessesPackets s) (dci_rnti dci) of
              None \<Rightarrow> Inl (NS_ASSERT ''it != m_miDlHarqProcessesPackets.end ()'')
            | Some buf \<Rightarrow> if unat (dci_harqProcess dci) \<ge> length buf then Inl (NS_ABORT ''std::out_of_range'')
                else Inr (fold (\<lambda>p. gnb_emit (Gnb_SendMacPdu p sfnSf (dci_symStart dci) (dci_rnti dci)))
                  (dl_pktBurst (buf ! unat (dci_harqProcess dci))) s))
      else Inr s)"

text \<open>An allocation of the slot; those of the uplink are only traced.\<close>

definition indicate :: "'r tx_operation \<Rightarrow> SfnSf \<Rightarrow> 'r GnbMac \<Rightarrow> VarTtiAllocInfo \<Rightarrow> 'r GnbMac res" where
  "indicate NotifyTxOpportunity sfnSf s v =
     (if vt_type v \<noteq> CTRL \<and> vt_format v = DL
      then abort_if (map_of (m_rlcAttached s) (dci_rnti (vt_dci v)) = None) ''Scheduled UE not attached''
        (if dci_ndi (vt_dci v) = 1 then send_new_block NotifyTxOpportunity sfnSf v s else resend_block sfnSf (vt_dci v) s)
      else Inr s)"

definition DoSchedConfigIndication :: "'r tx_operation \<Rightarrow> SfnSf \<Rightarrow> VarTtiAllocInfo list \<Rightarrow> 'r GnbMac \<Rightarrow> 'r GnbMac res" where
  "DoSchedConfigIndication NotifyTxOpportunity sfnSf varTtis s =
     ns_assert (m_numerology sfnSf = m_numerology (g_currentSlot s)) ''ind.m_sfnSf.GetNumerology() == m_currentSlot.GetNumerology()''
      (let sorted = sort_key (\<lambda>v. dci_symStart (vt_dci v)) varTtis
       in for_each (indicate NotifyTxOpportunity sfnSf) sorted (gnb_emit (SetSlotAllocInfo sorted) s))"

section \<open>Facts\<close>

lemma emit_cqis [simp]:
  "fold (\<lambda>i. gnb_emit (SchedUlCqiInfoReq i)) is s = s\<lparr>gout := gout s @ map SchedUlCqiInfoReq is\<rparr>"
  by (induction "is" arbitrary: s) (simp_all add: gnb_emit_def)

end
