(* ===== verification/NrRlcUm.thy ===== *)
theory NrRlcUm
  imports NrRlcHeader
begin

text \<open>
  The RLC entity in unacknowledged mode (\<open>src/nr/model/nr-rlc-um.cc\<close>), which carries the uplink traffic
  that the O-RAN module measures and steers: the transmission buffer, the concatenation and segmentation of
  SDUs into PDUs of the size that the MAC grants, the reordering window of the receiver, and the reassembly
  of SDUs. A packet is its bytes. Calls to the layers above and below and trace sources are entries of the
  list \<open>calls\<close>. A timer is the flag whether its event is pending; the simulator decides when it expires.
\<close>

section \<open>State\<close>

type_synonym bytes = "u8 list"

datatype SduStatus = FULL_SDU | FIRST_SEGMENT | MIDDLE_SEGMENT | LAST_SEGMENT | ANY_SEGMENT

text \<open>A packet in the transmission buffer with its \<open>NrRlcSduStatusTag\<close>.\<close>

record segment =
  seg_data :: bytes
  seg_status :: SduStatus

text \<open>A PDU with the sender time stamp of its \<open>NrRlcTag\<close>.\<close>

record rlc_pdu =
  pdu_bytes :: bytes
  pdu_tag :: "Time option"

datatype ReassemblingState = NONE | WAITING_S0_FULL | WAITING_SI_SF

datatype sap_call =
    ReceivePdcpPdu bytes
  | TransmitPdu rlc_pdu
  | BufferStatusReport u32 u16 bool
  | TxDropTrace bytes
  | TxPduTrace u32
  | RxPduTrace u32 Time

record um =
  m_maxTxBufferSize :: u32
  m_txBufferSize :: u32
  m_txBuffer :: "(segment \<times> Time) list"
  m_rxBuffer :: "(u16 \<times> rlc_pdu) list"
  m_sdusBuffer :: "bytes list"
  m_sequenceNumber :: SequenceNumber10
  m_vrUr :: SequenceNumber10
  m_vrUx :: SequenceNumber10
  m_vrUh :: SequenceNumber10
  m_windowSize :: u16
  m_reorderingTimer :: bool
  m_bsrTimer :: bool
  m_enablePdcpDiscarding :: bool
  m_discardTimerMs :: u32
  m_packetDelayBudgetMs :: u16
  m_outOfOrderDelivery :: bool
  m_reassemblingState :: ReassemblingState
  m_keepS0 :: "bytes option"
  m_expectedSeqNumber :: SequenceNumber10
  m_expBsrTimer :: bool
  calls :: "sap_call list"

definition NrRlcUm_new :: "u16 \<Rightarrow> um" where
  "NrRlcUm_new packetDelayBudgetMs =
     \<lparr>m_maxTxBufferSize = 100000, m_txBufferSize = 0, m_txBuffer = [], m_rxBuffer = [], m_sdusBuffer = [],
      m_sequenceNumber = SN 0, m_vrUr = SN 0, m_vrUx = SN 0, m_vrUh = SN 0, m_windowSize = 512,
      m_reorderingTimer = False, m_bsrTimer = False, m_enablePdcpDiscarding = True, m_discardTimerMs = 0,
      m_packetDelayBudgetMs = packetDelayBudgetMs, m_outOfOrderDelivery = False,
      m_reassemblingState = WAITING_S0_FULL, m_keepS0 = None, m_expectedSeqNumber = SN 0,
      m_expBsrTimer = False, calls = []\<rparr>"

definition emit :: "sap_call \<Rightarrow> um \<Rightarrow> um" where
  "emit c s = s\<lparr>calls := calls s @ [c]\<rparr>"

definition GetSize :: "bytes \<Rightarrow> u32" where
  "GetSize p = of_nat (length p)"

definition GetMilliSeconds :: "Time \<Rightarrow> int" where
  "GetMilliSeconds t = t sdiv 1000000"

section \<open>Transmission\<close>

definition DoTransmitBufferStatusReport :: "Time \<Rightarrow> um \<Rightarrow> um" where
  "DoTransmitBufferStatusReport now s =
     (let (holDelay, queueSize) =
        (case m_txBuffer s of [] \<Rightarrow> (0, 0)
         | (p, waitingSince) # _ \<Rightarrow> (now - waitingSince, m_txBufferSize s + 2 * of_nat (length (m_txBuffer s))))
      in emit (BufferStatusReport queueSize (word_of_int (GetMilliSeconds holDelay)) (m_expBsrTimer s))
           (s\<lparr>m_expBsrTimer := False\<rparr>))"

text \<open>
  The decision of \<open>EnablePdcpDiscarding\<close>: the head-of-line delay exceeds the discard timer. The code traces
  the packet as dropped and goes on to store it.
\<close>

definition discard_timer_exceeded :: "Time \<Rightarrow> um \<Rightarrow> bool" where
  "discard_timer_exceeded now s =
     (let headOfLineDelayInMs = (case m_txBuffer s of
            [] \<Rightarrow> (0 :: u32)
          | (q, waitingSince) # rest \<Rightarrow> word_of_int (GetMilliSeconds (now - waitingSince)));
          discardTimerMs = (if m_discardTimerMs s > 0 then m_discardTimerMs s else ucast (m_packetDelayBudgetMs s))
      in headOfLineDelayInMs > discardTimerMs)"

definition store_pdcp_pdu :: "Time \<Rightarrow> bytes \<Rightarrow> um \<Rightarrow> um" where
  "store_pdcp_pdu now p s =
     s\<lparr>m_txBuffer := m_txBuffer s @ [(\<lparr>seg_data = p, seg_status = FULL_SDU\<rparr>, now)],
       m_txBufferSize := m_txBufferSize s + GetSize p\<rparr>"

definition DoTransmitPdcpPdu :: "Time \<Rightarrow> bytes \<Rightarrow> um \<Rightarrow> um" where
  "DoTransmitPdcpPdu now p s =
     (let stored =
        (if m_txBufferSize s + GetSize p \<le> m_maxTxBufferSize s
         then store_pdcp_pdu now p
           (if m_enablePdcpDiscarding s \<and> discard_timer_exceeded now s then emit (TxDropTrace p) s else s)
         else emit (TxDropTrace p) s)
      in (DoTransmitBufferStatusReport now stored)\<lparr>m_bsrTimer := False\<rparr>)"

text \<open>
  The segmentation of the first packet: the part of \<open>currSegmentSize\<close> bytes that goes into the data field
  and the status of the part that is given back.
\<close>

definition split_status :: "SduStatus \<Rightarrow> SduStatus \<times> SduStatus" where
  "split_status status = (case status of
       FULL_SDU \<Rightarrow> (FIRST_SEGMENT, LAST_SEGMENT)
     | LAST_SEGMENT \<Rightarrow> (MIDDLE_SEGMENT, LAST_SEGMENT)
     | _ \<Rightarrow> (status, status))"

definition whole_status :: "SduStatus \<Rightarrow> SduStatus" where
  "whole_status status = (case status of
       FIRST_SEGMENT \<Rightarrow> FULL_SDU | MIDDLE_SEGMENT \<Rightarrow> LAST_SEGMENT | _ \<Rightarrow> status)"

definition cut_first :: "segment \<Rightarrow> Time \<Rightarrow> u32 \<Rightarrow> um \<Rightarrow> segment \<times> um" where
  "cut_first firstSegment firstSegmentTime nextSegmentSize s =
     (let currSegmentSize = min (GetSize (seg_data firstSegment)) nextSegmentSize;
          new = take (unat currSegmentSize) (seg_data firstSegment);
          (newTag, oldTag) = split_status (seg_status firstSegment);
          rest = drop (unat currSegmentSize) (seg_data firstSegment)
      in if rest \<noteq> []
         then (\<lparr>seg_data = new, seg_status = newTag\<rparr>,
           s\<lparr>m_txBuffer := (\<lparr>seg_data = rest, seg_status = oldTag\<rparr>, firstSegmentTime) # m_txBuffer s,
             m_txBufferSize := m_txBufferSize s + GetSize rest\<rparr>)
         else (\<lparr>seg_data = new, seg_status = whole_status newTag\<rparr>, s))"

text \<open>The loop that fills the data field; every further turn takes a packet off the buffer.\<close>

function fill_data_field ::
  "segment \<Rightarrow> Time \<Rightarrow> u32 \<Rightarrow> u32 \<Rightarrow> segment list \<Rightarrow> NrRlcHeader \<Rightarrow> um \<Rightarrow> segment list \<times> NrRlcHeader \<times> um" where
  "fill_data_field firstSegment firstSegmentTime nextSegmentSize nextSegmentId dataField rlcHeader s =
     (let size = GetSize (seg_data firstSegment)
      in if size > 0 \<and> nextSegmentSize > 0
         then if size > nextSegmentSize \<or> size > 2047
           then let (newSegment, s) = cut_first firstSegment firstSegmentTime nextSegmentSize s
             in (dataField @ [newSegment], PushExtensionBit DATA_FIELD_FOLLOWS rlcHeader, s)
           else if nextSegmentSize - size \<le> 2 \<or> m_txBuffer s = []
           then (dataField @ [firstSegment], PushExtensionBit DATA_FIELD_FOLLOWS rlcHeader, s)
           else fill_data_field (fst (hd (m_txBuffer s))) (snd (hd (m_txBuffer s)))
             (nextSegmentSize - ((if nextSegmentId mod 2 \<noteq> 0 then 2 else 1) + size)) (nextSegmentId + 1)
             (dataField @ [firstSegment])
             (PushLengthIndicator (ucast size) (PushExtensionBit E_LI_FIELDS_FOLLOWS rlcHeader))
             (s\<lparr>m_txBufferSize := m_txBufferSize s - GetSize (seg_data (fst (hd (m_txBuffer s)))),
                m_txBuffer := tl (m_txBuffer s)\<rparr>)
         else (dataField, rlcHeader, s))"
  by pat_completeness auto
termination
  by (relation "measure (\<lambda>(f, t, n, i, d, h, s). length (m_txBuffer s))") auto

declare fill_data_field.simps [simp del]

definition framing_info :: "segment list \<Rightarrow> u8" where
  "framing_info dataField =
     ((if seg_status (hd dataField) = FULL_SDU \<or> seg_status (hd dataField) = FIRST_SEGMENT
       then FIRST_BYTE else NO_FIRST_BYTE) OR
      (if seg_status (last dataField) = FULL_SDU \<or> seg_status (last dataField) = LAST_SEGMENT
       then LAST_BYTE else NO_LAST_BYTE))"

text \<open>
  \<open>AddHeader\<close> makes room for \<open>GetSerializedSize\<close> bytes in front of the packet and lets \<open>Serialize\<close> write
  from there; a header of more bytes than its 16-bit size overwrites the start of the packet.
\<close>

definition AddHeader :: "NrRlcHeader \<Rightarrow> bytes \<Rightarrow> bytes res" where
  "AddHeader h packet =
     res_bind (Serialize h) (\<lambda>header.
       if length header < GetSerializedSize h then Inl (UB ''uninitialised bytes'')
       else if length header > GetSerializedSize h + length packet then Inl (NS_ASSERT ''write outside the buffer'')
       else Inr (header @ drop (length header - GetSerializedSize h) packet))"

definition DoNotifyTxOpportunity :: "Time \<Rightarrow> u32 \<Rightarrow> um \<Rightarrow> um res" where
  "DoNotifyTxOpportunity now txOpBytes s =
     (if txOpBytes \<le> 2 then Inr s
      else case m_txBuffer s of
          [] \<Rightarrow> Inr s
        | (firstSegment, firstSegmentTime) # rest \<Rightarrow>
            let s = s\<lparr>m_txBufferSize := m_txBufferSize s - GetSize (seg_data firstSegment), m_txBuffer := rest\<rparr>;
                (dataField, rlcHeader, s) =
                  fill_data_field firstSegment firstSegmentTime (txOpBytes - 2) 1 [] NrRlcHeader_new s;
                rlcHeader = SetSequenceNumber (m_sequenceNumber s) rlcHeader;
                s = s\<lparr>m_sequenceNumber := sn_incr (m_sequenceNumber s)\<rparr>
            in if dataField = [] then Inl (UB ''dataField.begin() of an empty vector'')
               else res_bind (AddHeader (SetFramingInfo (framing_info dataField) rlcHeader)
                   (concat (map seg_data dataField))) (\<lambda>packet.
                 let s = emit (TransmitPdu \<lparr>pdu_bytes = packet, pdu_tag = Some now\<rparr>)
                           (emit (TxPduTrace (GetSize packet)) s)
                 in Inr (if m_txBuffer s \<noteq> [] then s\<lparr>m_bsrTimer := True\<rparr> else s)))"

definition ExpireBsrTimer :: "Time \<Rightarrow> um \<Rightarrow> um" where
  "ExpireBsrTimer now s =
     (let s = s\<lparr>m_bsrTimer := False\<rparr>
      in if m_txBuffer s \<noteq> []
         then (DoTransmitBufferStatusReport now (s\<lparr>m_expBsrTimer := True\<rparr>))\<lparr>m_bsrTimer := True\<rparr>
         else s)"

definition DoNotifyHarqDeliveryFailure :: "um \<Rightarrow> um" where
  "DoNotifyHarqDeliveryFailure s = s"

section \<open>Reassembly\<close>

text \<open>The list of SDUs and segments of a PDU, appended to \<open>m_sdusBuffer\<close>.\<close>

function split_sdus :: "NrRlcHeader \<Rightarrow> bytes \<Rightarrow> bytes list \<Rightarrow> bytes list res" where
  "split_sdus rlcHeader packet sdusBuffer =
     (case PopExtensionBit rlcHeader of
        Inl e \<Rightarrow> Inl e
      | Inr (extensionBit, h) \<Rightarrow>
          if extensionBit = 0 then Inr (sdusBuffer @ [packet])
          else (case PopLengthIndicator h of
              Inl e \<Rightarrow> Inl e
            | Inr (lengthIndicator, h') \<Rightarrow>
                if length packet < unat lengthIndicator
                then Inl (NS_ASSERT ''m_buffer.GetSize() >= start + length'')
                else let packet' = drop (unat lengthIndicator) packet;
                         sdusBuffer' = sdusBuffer @ [take (unat lengthIndicator) packet]
                     in if extensionBit = 1 then split_sdus h' packet' sdusBuffer' else Inr sdusBuffer'))"
  by pat_completeness auto
termination
  by (relation "measure (\<lambda>(h, p, b). length (m_extensionBits h))")
    (auto simp: PopExtensionBit_def PopLengthIndicator_def split: list.splits)

declare split_sdus.simps [simp del]

definition deliver :: "bytes \<Rightarrow> um \<Rightarrow> um" where
  "deliver p s = emit (ReceivePdcpPdu p) s"

text \<open>The loops of the reassembly: deliver all of \<open>m_sdusBuffer\<close>, or all but the last, which is kept.\<close>

definition deliver_all :: "um \<Rightarrow> um" where
  "deliver_all s = (fold deliver (m_sdusBuffer s) s)\<lparr>m_sdusBuffer := []\<rparr>"

definition deliver_and_keep :: "um \<Rightarrow> um res" where
  "deliver_and_keep s =
     (if m_sdusBuffer s = [] then Inl (UB ''m_sdusBuffer.front()'')
      else Inr ((fold deliver (butlast (m_sdusBuffer s)) s)
             \<lparr>m_sdusBuffer := [], m_keepS0 := Some (last (m_sdusBuffer s))\<rparr>))"

definition discard_front :: "um \<Rightarrow> um res" where
  "discard_front s =
     (if m_sdusBuffer s = [] then Inl (UB ''m_sdusBuffer.pop_front()'')
      else Inr (s\<lparr>m_sdusBuffer := tl (m_sdusBuffer s)\<rparr>))"

definition append_front :: "um \<Rightarrow> (bytes \<times> um) res" where
  "append_front s =
     (case (m_keepS0 s, m_sdusBuffer s) of
        (None, _) \<Rightarrow> Inl (UB ''m_keepS0 is null'')
      | (Some p, []) \<Rightarrow> Inl (UB ''m_sdusBuffer.front()'')
      | (Some p, d # ds) \<Rightarrow> Inr (p @ d, s\<lparr>m_keepS0 := Some (p @ d), m_sdusBuffer := ds\<rparr>))"

definition discard_and_keep :: "um \<Rightarrow> um res" where
  "discard_and_keep s =
     res_bind (discard_front (s\<lparr>m_reassemblingState :=
         if length (m_sdusBuffer s) = 1 then WAITING_S0_FULL else WAITING_SI_SF\<rparr>))
       (\<lambda>s. if m_sdusBuffer s \<noteq> [] then deliver_and_keep s else Inr s)"

text \<open>
  The inner switches over the framing info: without a kept segment, and with one. The branch of the code for
  losses repeats the first of them.
\<close>

definition reassemble_S0_FULL :: "u8 \<Rightarrow> um \<Rightarrow> um res" where
  "reassemble_S0_FULL framingInfo s =
     (if framingInfo = FIRST_BYTE OR LAST_BYTE
        then Inr (deliver_all (s\<lparr>m_reassemblingState := WAITING_S0_FULL\<rparr>))
      else if framingInfo = FIRST_BYTE OR NO_LAST_BYTE
        then deliver_and_keep (s\<lparr>m_reassemblingState := WAITING_SI_SF\<rparr>)
      else if framingInfo = NO_FIRST_BYTE OR LAST_BYTE
        then res_bind (discard_front (s\<lparr>m_reassemblingState := WAITING_S0_FULL\<rparr>)) (\<lambda>s. Inr (deliver_all s))
      else if framingInfo = NO_FIRST_BYTE OR NO_LAST_BYTE
        then discard_and_keep s
      else Inr s)"

definition reassemble_SI_SF :: "u8 \<Rightarrow> um \<Rightarrow> um res" where
  "reassemble_SI_SF framingInfo s =
     (if framingInfo = NO_FIRST_BYTE OR LAST_BYTE
        then res_bind (append_front (s\<lparr>m_reassemblingState := WAITING_S0_FULL\<rparr>)) (\<lambda>(p, s).
          Inr (deliver_all (deliver p s)))
      else if framingInfo = NO_FIRST_BYTE OR NO_LAST_BYTE
        then res_bind (append_front (s\<lparr>m_reassemblingState := WAITING_SI_SF\<rparr>)) (\<lambda>(p, s').
          if length (m_sdusBuffer s) = 1 then Inr s' else deliver_and_keep (deliver p s'))
      else Inr s)"

text \<open>After a loss the kept segment is dropped first.\<close>

definition reassemble_SI_SF_lost :: "u8 \<Rightarrow> um \<Rightarrow> um res" where
  "reassemble_SI_SF_lost framingInfo s =
     (if framingInfo \<in> {FIRST_BYTE OR LAST_BYTE, FIRST_BYTE OR NO_LAST_BYTE,
         NO_FIRST_BYTE OR LAST_BYTE, NO_FIRST_BYTE OR NO_LAST_BYTE}
      then reassemble_S0_FULL framingInfo (s\<lparr>m_keepS0 := None\<rparr>) else Inr s)"

definition ReassembleAndDeliver :: "bytes \<Rightarrow> um \<Rightarrow> um res" where
  "ReassembleAndDeliver packet s =
     res_bind (Deserialize packet) (\<lambda>rlcHeader.
       let currSeqNumber = h_sequenceNumber rlcHeader;
           expectedSnLost = (\<not> sn_eq currSeqNumber (m_expectedSeqNumber s));
           s = s\<lparr>m_expectedSeqNumber :=
             if expectedSnLost then sn_plus currSeqNumber 1 else sn_incr (m_expectedSeqNumber s)\<rparr>
       in res_bind (split_sdus rlcHeader (drop (GetSerializedSize rlcHeader) packet) (m_sdusBuffer s)) (\<lambda>sdus.
         let s = s\<lparr>m_sdusBuffer := sdus\<rparr>
         in case m_reassemblingState s of
              NONE \<Rightarrow> Inr s
            | WAITING_S0_FULL \<Rightarrow> reassemble_S0_FULL (m_framingInfo rlcHeader) s
            | WAITING_SI_SF \<Rightarrow>
                if expectedSnLost then reassemble_SI_SF_lost (m_framingInfo rlcHeader) s
                else reassemble_SI_SF (m_framingInfo rlcHeader) s))"

section \<open>Reception\<close>

definition window_start :: "um \<Rightarrow> SequenceNumber10" where
  "window_start s = sn_minus (m_vrUh s) (m_windowSize s)"

definition IsInsideReorderingWindow :: "SequenceNumber10 \<Rightarrow> um \<Rightarrow> (bool \<times> um) res" where
  "IsInsideReorderingWindow seqNumber s =
     (let s = s\<lparr>m_vrUh := SetModulusBase (window_start s) (m_vrUh s)\<rparr>;
          seqNumber = SetModulusBase (window_start s) seqNumber
      in res_bind (sn_le (window_start s) seqNumber) (\<lambda>a.
         if a then res_bind (sn_lt seqNumber (m_vrUh s)) (\<lambda>b. Inr (b, s)) else Inr (False, s)))"

text \<open>The loop over the reception buffer in the order of its keys.\<close>

fun reassemble_outside :: "(u16 \<times> rlc_pdu) list \<Rightarrow> um \<Rightarrow> um res" where
  "reassemble_outside [] s = Inr s"
| "reassemble_outside ((sn, p) # rest) s =
     res_bind (IsInsideReorderingWindow (SN sn) s) (\<lambda>(inside, s).
       if inside then Inr s
       else res_bind (ReassembleAndDeliver (pdu_bytes p) s) (\<lambda>s.
         reassemble_outside rest (s\<lparr>m_rxBuffer := rest\<rparr>)))"

definition ReassembleOutsideWindow :: "um \<Rightarrow> um res" where
  "ReassembleOutsideWindow s = reassemble_outside (m_rxBuffer s) s"

text \<open>
  The loop of \<open>ReassembleSnInterval\<close> with the number of turns it may take; at the bound of 1024 turns
  the result is an error.
\<close>

fun reassemble_interval :: "nat \<Rightarrow> SequenceNumber10 \<Rightarrow> SequenceNumber10 \<Rightarrow> um \<Rightarrow> um res" where
  "reassemble_interval 0 reassembleSn highSeqNumber s =
     res_bind (sn_lt reassembleSn highSeqNumber) (\<lambda>less. if less then Inl (UB ''endless loop'') else Inr s)"
| "reassemble_interval (Suc n) reassembleSn highSeqNumber s =
     res_bind (sn_lt reassembleSn highSeqNumber) (\<lambda>less.
       if \<not> less then Inr s
       else case map_of (m_rxBuffer s) (m_value reassembleSn) of
           None \<Rightarrow> reassemble_interval n (sn_incr reassembleSn) highSeqNumber s
         | Some p \<Rightarrow> res_bind (ReassembleAndDeliver (pdu_bytes p) s) (\<lambda>s.
             reassemble_interval n (sn_incr reassembleSn) highSeqNumber
               (s\<lparr>m_rxBuffer := filter (\<lambda>kv. fst kv \<noteq> m_value reassembleSn) (m_rxBuffer s)\<rparr>)))"

definition ReassembleSnInterval :: "SequenceNumber10 \<Rightarrow> SequenceNumber10 \<Rightarrow> um \<Rightarrow> um res" where
  "ReassembleSnInterval lowSeqNumber highSeqNumber s = reassemble_interval 1024 lowSeqNumber highSeqNumber s"

text \<open>
  The searches for the first sequence number that is not in the reception buffer: over \<open>uint16_t\<close> when a
  PDU is received, over 10-bit sequence numbers when the timer expires. The first argument bounds the turns.
\<close>

fun missing_u16 :: "nat \<Rightarrow> (u16 \<times> rlc_pdu) list \<Rightarrow> u16 \<Rightarrow> u16 res" where
  "missing_u16 0 rxBuffer newVrUr = Inl (UB ''endless loop'')"
| "missing_u16 (Suc n) rxBuffer newVrUr =
     (if map_of rxBuffer newVrUr = None then Inr newVrUr else missing_u16 n rxBuffer (newVrUr + 1))"

fun missing_sn :: "nat \<Rightarrow> (u16 \<times> rlc_pdu) list \<Rightarrow> SequenceNumber10 \<Rightarrow> SequenceNumber10 res" where
  "missing_sn 0 rxBuffer newVrUr = Inl (UB ''endless loop'')"
| "missing_sn (Suc n) rxBuffer newVrUr =
     (if map_of rxBuffer (m_value newVrUr) = None then Inr newVrUr else missing_sn n rxBuffer (sn_incr newVrUr))"

text \<open>
  The actions of \<open>DoReceivePdu\<close>, in their order: the test for duplicates and late PDUs, the update of the
  window, the advance of VR(UR), and the reordering timer.
\<close>

definition pdu_is_discarded :: "SequenceNumber10 \<Rightarrow> um \<Rightarrow> bool res" where
  "pdu_is_discarded seqNumber s =
     res_bind (sn_lt (m_vrUr s) seqNumber) (\<lambda>a.
     res_bind (if a then sn_lt seqNumber (m_vrUh s) else Inr False) (\<lambda>b.
       if b \<and> map_of (m_rxBuffer s) (m_value seqNumber) \<noteq> None then Inr True
       else res_bind (sn_le (window_start s) seqNumber) (\<lambda>c.
         if c then sn_lt seqNumber (m_vrUr s) else Inr False)))"

definition update_window :: "SequenceNumber10 \<Rightarrow> um \<Rightarrow> um res" where
  "update_window seqNumber s =
     res_bind (IsInsideReorderingWindow seqNumber s) (\<lambda>(inside, s).
       if inside then Inr s
       else res_bind (ReassembleOutsideWindow (s\<lparr>m_vrUh := sn_plus seqNumber 1\<rparr>)) (\<lambda>s.
         res_bind (IsInsideReorderingWindow (m_vrUr s) s) (\<lambda>(inside, s).
           Inr (if inside then s else s\<lparr>m_vrUr := window_start s\<rparr>))))"

definition advance_vrUr :: "um \<Rightarrow> um res" where
  "advance_vrUr s =
     (if map_of (m_rxBuffer s) (m_value (m_vrUr s)) = None then Inr s
      else res_bind (missing_u16 1025 (m_rxBuffer s) (m_value (m_vrUr s) + 1)) (\<lambda>newVrUr.
        let oldVrUr = m_vrUr s;
            s = s\<lparr>m_vrUr := sn_assign (m_vrUr s) newVrUr\<rparr>
        in ReassembleSnInterval oldVrUr (m_vrUr s) s))"

definition reordering_timer :: "um \<Rightarrow> um res" where
  "reordering_timer s =
     res_bind
       (if m_reorderingTimer s
        then res_bind (sn_le (m_vrUx s) (m_vrUr s)) (\<lambda>a.
          if a then Inr (s\<lparr>m_reorderingTimer := False\<rparr>)
          else res_bind (IsInsideReorderingWindow (m_vrUx s) s) (\<lambda>(inside, s).
            Inr (if \<not> inside \<and> \<not> sn_eq (m_vrUx s) (m_vrUh s) then s\<lparr>m_reorderingTimer := False\<rparr> else s)))
        else Inr s)
       (\<lambda>s. if m_reorderingTimer s then Inr s
         else res_bind (sn_gt (m_vrUh s) (m_vrUr s)) (\<lambda>g.
           Inr (if g then s\<lparr>m_reorderingTimer := True, m_vrUx := m_vrUh s\<rparr> else s)))"

definition DoReceivePdu :: "Time \<Rightarrow> rlc_pdu \<Rightarrow> um \<Rightarrow> um res" where
  "DoReceivePdu now p s =
     (case pdu_tag p of
        None \<Rightarrow> Inl (NS_ASSERT ''NrRlcTag is missing'')
      | Some senderTimestamp \<Rightarrow>
          let s = emit (RxPduTrace (GetSize (pdu_bytes p)) (now - senderTimestamp)) s
          in res_bind (Deserialize (pdu_bytes p)) (\<lambda>rlcHeader.
            let s = s\<lparr>m_vrUr := SetModulusBase (window_start s) (m_vrUr s)\<rparr>;
                s = s\<lparr>m_vrUh := SetModulusBase (window_start s) (m_vrUh s)\<rparr>;
                seqNumber = SetModulusBase (window_start s) (h_sequenceNumber rlcHeader)
            in res_bind (pdu_is_discarded seqNumber s) (\<lambda>discarded.
              if discarded then Inr s
              else
                let s = s\<lparr>m_rxBuffer := smap_put (m_value seqNumber) p (m_rxBuffer s)\<rparr>
                in res_bind (if m_outOfOrderDelivery s then ReassembleOutsideWindow s else Inr s) (\<lambda>s.
                   res_bind (update_window seqNumber s) (\<lambda>s.
                   res_bind (advance_vrUr s) (\<lambda>s.
                     let s = s\<lparr>m_vrUr := SetModulusBase (window_start s) (m_vrUr s)\<rparr>;
                         s = s\<lparr>m_vrUx := SetModulusBase (window_start s) (m_vrUx s)\<rparr>;
                         s = s\<lparr>m_vrUh := SetModulusBase (window_start s) (m_vrUh s)\<rparr>
                     in reordering_timer s))))))"

definition ExpireReorderingTimer :: "um \<Rightarrow> um res" where
  "ExpireReorderingTimer s =
     (let s = s\<lparr>m_reorderingTimer := False\<rparr>
      in res_bind (missing_sn 1025 (m_rxBuffer s) (m_vrUx s)) (\<lambda>newVrUr.
        let oldVrUr = m_vrUr s;
            s = s\<lparr>m_vrUr := newVrUr\<rparr>
        in res_bind (ReassembleSnInterval oldVrUr (m_vrUr s) s) (\<lambda>s.
           res_bind (sn_gt (m_vrUh s) (m_vrUr s)) (\<lambda>g.
             Inr (if g then s\<lparr>m_reorderingTimer := True, m_vrUx := m_vrUh s\<rparr> else s)))))"

text \<open>\<open>DoDispose\<close> cancels both timers.\<close>

definition DoDispose_um :: "um \<Rightarrow> um" where
  "DoDispose_um s = s\<lparr>m_reorderingTimer := False, m_bsrTimer := False\<rparr>"

end
