(* ===== verification/NrRlcSender.thy ===== *)
theory NrRlcSender
  imports NrRlcUm
begin

text \<open>
  Correctness of the transmitting side: the buffer accounting, the partition of the buffered SDUs into the
  data field of a PDU, and that a PDU never exceeds the bytes that the MAC grants and decodes to what the
  buffer held.
\<close>

section \<open>Headers under construction\<close>

definition open_header :: "u16 list \<Rightarrow> NrRlcHeader" where
  "open_header lis = NrRlcHeader_new\<lparr>
     m_headerLength := if lis = [] then 0 else of_nat (2 + li_bytes (length lis - 1)),
     m_extensionBits := replicate (length lis) 1, m_lengthIndicators := lis\<rparr>"

definition closed_header :: "u16 list \<Rightarrow> NrRlcHeader" where
  "closed_header lis = NrRlcHeader_new\<lparr>m_headerLength := of_nat (2 + li_bytes (length lis)),
     m_extensionBits := ext_bits (length lis), m_lengthIndicators := lis\<rparr>"

lemma li_bytes_Suc: "li_bytes (Suc k) = li_bytes k + (if even k then 2 else 1)"
  by (cases "even k") (auto simp: li_bytes_def elim!: evenE oddE)

lemma open_header_Nil: "NrRlcHeader_new = open_header []"
  by (simp add: open_header_def NrRlcHeader_new_def)

lemma close_header: "PushExtensionBit DATA_FIELD_FOLLOWS (open_header lis) = closed_header lis"
  by (cases "length lis")
    (auto simp: PushExtensionBit_def open_header_def closed_header_def DATA_FIELD_FOLLOWS_def ext_bits_def Let_def
      li_bytes_Suc NrRlcHeader_new_def)

lemma extend_header:
  "PushLengthIndicator li (PushExtensionBit E_LI_FIELDS_FOLLOWS (open_header lis)) = open_header (lis @ [li])"
  by (cases "length lis")
    (auto simp: PushExtensionBit_def PushLengthIndicator_def open_header_def E_LI_FIELDS_FOLLOWS_def Let_def
      li_bytes_Suc NrRlcHeader_new_def replicate_append_same)

section \<open>The partition of the buffer\<close>

definition data_size :: "(segment \<times> Time) list \<Rightarrow> nat" where
  "data_size q = (\<Sum>e\<leftarrow>q. length (seg_data (fst e)))"

lemma data_size_simps [simp]:
  "data_size [] = 0" "data_size (e # q) = length (seg_data (fst e)) + data_size q"
  "data_size (q @ q') = data_size q + data_size q'"
  by (simp_all add: data_size_def)

text \<open>
  The data field takes whole packets from the front of the buffer and perhaps a part of the next one, whose
  remainder stays as its last segment.
\<close>

definition tx_split :: "(segment \<times> Time) list \<Rightarrow> segment list \<Rightarrow> (segment \<times> Time) list \<Rightarrow> bool" where
  "tx_split q segs q' =
     ((\<exists>whole. q = whole @ q' \<and> segs = map fst whole) \<or>
      (\<exists>whole g t rest a b. q = whole @ (g, t) # rest \<and> seg_data g = a @ b \<and> a \<noteq> [] \<and> b \<noteq> [] \<and>
         segs = map fst whole @
           [\<lparr>seg_data = a, seg_status = (if seg_status g = FULL_SDU then FIRST_SEGMENT else MIDDLE_SEGMENT)\<rparr>] \<and>
         q' = (\<lparr>seg_data = b, seg_status = LAST_SEGMENT\<rparr>, t) # rest))"

definition seg_ok :: "segment \<Rightarrow> bool" where
  "seg_ok g = (seg_data g \<noteq> [] \<and> length (seg_data g) < 2 ^ 32 \<and>
     (seg_status g = FULL_SDU \<or> seg_status g = LAST_SEGMENT))"

lemma tx_split_Cons: "tx_split q segs q' \<Longrightarrow> tx_split ((f, t) # q) (f # segs) q'"
  unfolding tx_split_def
  apply (elim disjE exE conjE)
   apply (rule disjI1, rule_tac x = "(f, t) # whole" in exI, simp)
  apply (rule disjI2, rule_tac x = "(f, t) # whole" in exI, auto)
  done

lemma unat_GetSize [simp]: "length p < 2 ^ 32 \<Longrightarrow> unat (GetSize p) = length p"
  by (simp add: GetSize_def unat_of_nat)

lemma id_parity: "(of_nat (Suc k) :: u32) mod 2 \<noteq> 0 \<longleftrightarrow> even k"
proof -
  have "unat ((of_nat (Suc k) :: u32) mod 2) = Suc k mod 2 ^ 32 mod 2"
    unfolding unat_mod unat_of_nat by simp
  also have "\<dots> = Suc k mod 2" by (rule mod_mod_cancel) simp
  finally have "unat ((of_nat (Suc k) :: u32) mod 2) = Suc k mod 2" .
  then show ?thesis by (simp add: unat_eq_0 [symmetric]) presburger
qed

lemma unat_minus_size:
  assumes "length p \<le> 2047" and "length p \<le> unat nss" and "unat nss - length p > 2"
    and "k = (if even j then 2 else 1 :: nat)"
  shows "unat (nss - ((if of_nat (Suc j) mod 2 \<noteq> (0 :: u32) then 2 else 1) + GetSize p)) = unat nss - (k + length p)"
proof -
  have "(if of_nat (Suc j) mod 2 \<noteq> (0 :: u32) then 2 else 1) + GetSize p = of_nat (k + length p)"
    unfolding id_parity GetSize_def assms(4) by simp
  moreover have "unat (of_nat (k + length p) :: u32) = k + length p"
    unfolding unat_of_nat using assms by simp
  ultimately show ?thesis using assms by (simp add: unat_sub word_le_nat_alt split: if_splits)
qed

lemma cut_first_split:
  assumes "seg_ok f" and "0 < n" and "m_txBufferSize s = of_nat (data_size (m_txBuffer s))"
    and "length (seg_data f) > n \<or> length (seg_data f) > 2047" and "n = unat nss"
  shows "\<exists>seg q'. cut_first f t nss s = (seg, s\<lparr>m_txBuffer := q', m_txBufferSize := of_nat (data_size q')\<rparr>) \<and>
    tx_split ((f, t) # m_txBuffer s) [seg] q' \<and> seg_data seg \<noteq> [] \<and> length (seg_data seg) \<le> n"
proof -
  let ?d = "seg_data f" and ?m = "unat (min (GetSize (seg_data f)) nss)"
  have m: "?m = min (length ?d) n" using assms(1,5) by (simp add: seg_ok_def min_def word_le_nat_alt)
  show ?thesis
  proof (cases "length ?d \<le> n")
    case True
    have "cut_first f t nss s = (f, s)"
      using assms(1) True by (auto simp: cut_first_def Let_def m seg_ok_def split_status_def whole_status_def)
    moreover have "tx_split ((f, t) # m_txBuffer s) [f] (m_txBuffer s)"
      unfolding tx_split_def by (rule disjI1, rule exI [of _ "[(f, t)]"]) simp
    ultimately show ?thesis using assms True by (force simp: seg_ok_def)
  next
    case False
    let ?seg = "\<lparr>seg_data = take n ?d, seg_status = (if seg_status f = FULL_SDU then FIRST_SEGMENT else MIDDLE_SEGMENT)\<rparr>"
    let ?q = "(\<lparr>seg_data = drop n ?d, seg_status = LAST_SEGMENT\<rparr>, t) # m_txBuffer s"
    have size: "m_txBufferSize s + GetSize (drop n ?d) = of_nat (data_size ?q)"
      by (simp add: GetSize_def assms(3) add.commute)
    have "cut_first f t nss s = (?seg, s\<lparr>m_txBuffer := ?q, m_txBufferSize := of_nat (data_size ?q)\<rparr>)"
      unfolding size [symmetric] using assms(1) False
      by (auto simp: cut_first_def Let_def m seg_ok_def split_status_def)
    moreover have "tx_split ((f, t) # m_txBuffer s) [?seg] ?q"
      unfolding tx_split_def
      by (rule disjI2, rule exI [of _ "[]"], rule exI [of _ f], rule exI [of _ t], rule exI [of _ "m_txBuffer s"],
          rule exI [of _ "take n ?d"], rule exI [of _ "drop n ?d"]) (use assms(2) False in auto)
    ultimately show ?thesis using assms(2) False by force
  qed
qed

text \<open>
  One PDU: with \<open>j\<close> length indicators so far and \<open>n\<close> bytes left, the loop adds segments whose bytes and
  length indicators fit into the \<open>n\<close> bytes.
\<close>

definition fills :: "nat \<Rightarrow> nat \<Rightarrow> segment list \<Rightarrow> bool" where
  "fills j n segs = (segs \<noteq> [] \<and> (\<forall>g \<in> set segs. seg_data g \<noteq> []) \<and>
     (\<forall>g \<in> set (butlast segs). length (seg_data g) \<le> 2047) \<and>
     (\<Sum>g\<leftarrow>segs. length (seg_data g)) + li_bytes (j + length segs - 1) \<le> n + li_bytes j)"

definition indicators :: "segment list \<Rightarrow> u16 list" where
  "indicators segs = map (\<lambda>g. of_nat (length (seg_data g))) (butlast segs)"

lemma fills_Cons:
  assumes "fills (Suc j) n' segs" and "seg_data f \<noteq> []" and "length (seg_data f) \<le> 2047"
    and "n' + (if even j then 2 else 1) + length (seg_data f) \<le> n"
  shows "fills j n (f # segs)" and "indicators (f # segs) = of_nat (length (seg_data f)) # indicators segs"
  using assms by (auto simp: fills_def indicators_def li_bytes_Suc)

lemma fill_data_field_splits:
  assumes "seg_ok f" and "\<forall>e \<in> set (m_txBuffer s). seg_ok (fst e)" and "0 < unat nss"
    and "m_txBufferSize s = of_nat (data_size (m_txBuffer s))"
  shows "\<exists>segs q'. fill_data_field f t nss (of_nat (Suc (length lis))) df (open_header lis) s =
      (df @ segs, closed_header (lis @ indicators segs),
       s\<lparr>m_txBuffer := q', m_txBufferSize := of_nat (data_size q')\<rparr>) \<and>
    tx_split ((f, t) # m_txBuffer s) segs q' \<and> fills (length lis) (unat nss) segs"
  using assms
proof (induction "length (m_txBuffer s)" arbitrary: f t nss lis df s rule: less_induct)
  case less
  note f = less.prems(1) [unfolded seg_ok_def]
  note step = fill_data_field.simps [of f t nss _ df "open_header lis" s]
  consider (cut) "length (seg_data f) > unat nss \<or> length (seg_data f) > 2047"
    | (final) "length (seg_data f) \<le> unat nss" "length (seg_data f) \<le> 2047"
        "unat nss - length (seg_data f) \<le> 2 \<or> m_txBuffer s = []"
    | (more) "length (seg_data f) \<le> unat nss" "length (seg_data f) \<le> 2047"
        "unat nss - length (seg_data f) > 2" "m_txBuffer s \<noteq> []"
    by linarith
  then show ?case
  proof cases
    case cut
    obtain seg q' where c: "cut_first f t nss s = (seg, s\<lparr>m_txBuffer := q', m_txBufferSize := of_nat (data_size q')\<rparr>)"
      "tx_split ((f, t) # m_txBuffer s) [seg] q'" "seg_data seg \<noteq> []" "length (seg_data seg) \<le> unat nss"
      using cut_first_split [OF less.prems(1,3,4) cut refl, of t] by auto
    show ?thesis
      by (rule exI [of _ "[seg]"], rule exI [of _ q'])
        (use c f cut less.prems(3) in \<open>simp add: step word_less_nat_alt Let_def close_header indicators_def fills_def\<close>)
  next
    case final
    have "tx_split ((f, t) # m_txBuffer s) [f] (m_txBuffer s)"
      unfolding tx_split_def by (rule disjI1, rule exI [of _ "[(f, t)]"]) simp
    then show ?thesis
      by (intro exI [of _ "[f]"] exI [of _ "m_txBuffer s"])
        (use f final less.prems(3,4) in \<open>simp add: step word_less_nat_alt word_le_nat_alt unat_sub Let_def close_header
           indicators_def fills_def\<close>)
  next
    case more
    obtain g tg q where q: "m_txBuffer s = (g, tg) # q" using more(4) by (cases "m_txBuffer s") auto
    let ?k = "if even (length lis) then 2 else 1 :: nat" and ?d = "length (seg_data f)"
    let ?nss = "nss - ((if of_nat (Suc (length lis)) mod 2 \<noteq> (0 :: u32) then 2 else 1) + GetSize (seg_data f))"
    let ?s = "s\<lparr>m_txBufferSize := m_txBufferSize s - GetSize (seg_data g), m_txBuffer := q\<rparr>"
    have nss: "unat ?nss = unat nss - (?k + ?d)" using more by (intro unat_minus_size) auto
    have ok: "seg_ok g" "\<forall>e \<in> set (m_txBuffer ?s). seg_ok (fst e)" "0 < unat ?nss"
      "m_txBufferSize ?s = of_nat (data_size (m_txBuffer ?s))"
      using less.prems(2,4) more nss by (auto simp: q GetSize_def)
    have "length (m_txBuffer ?s) < length (m_txBuffer s)" by (simp add: q)
    from less.hyps [OF this ok, of tg "lis @ [of_nat ?d]" "df @ [f]"] obtain segs q' where IH:
      "fill_data_field g tg ?nss (of_nat (Suc (length (lis @ [of_nat ?d :: u16])))) (df @ [f]) (open_header (lis @ [of_nat ?d])) ?s =
        ((df @ [f]) @ segs, closed_header ((lis @ [of_nat ?d]) @ indicators segs),
         ?s\<lparr>m_txBuffer := q', m_txBufferSize := of_nat (data_size q')\<rparr>)"
      "tx_split ((g, tg) # q) segs q'" "fills (Suc (length lis)) (unat ?nss) segs"
      by auto
    have "unat nss - (?k + ?d) + ?k + ?d \<le> unat nss" using more by auto
    note fills_Cons [OF IH(3) [unfolded nss] _ more(2) this]
    then have "fills (length lis) (unat nss) (f # segs)" "indicators (f # segs) = of_nat ?d # indicators segs"
      using f by auto
    moreover have "tx_split ((f, t) # m_txBuffer s) (f # segs) q'" unfolding q using IH(2) by (rule tx_split_Cons)
    moreover have "ucast (GetSize (seg_data f)) = (of_nat ?d :: u16)"
      using more(2) by (simp add: GetSize_def unsigned_of_nat take_bit_eq_mod)
    ultimately show ?thesis
      by (intro exI [of _ "f # segs"] exI [of _ q'])
        (use IH(1) f more less.prems(3) q in \<open>simp add: step word_less_nat_alt word_le_nat_alt unat_sub Let_def extend_header\<close>)
  qed
qed

section \<open>The invariant of the transmission buffer\<close>

definition tx_ok :: "um \<Rightarrow> bool" where
  "tx_ok s =
     (m_txBufferSize s = of_nat (data_size (m_txBuffer s)) \<and>
      data_size (m_txBuffer s) \<le> unat (m_maxTxBufferSize s) \<and> unat (m_maxTxBufferSize s) < 2 ^ 31 \<and>
      (\<forall>e \<in> set (m_txBuffer s). seg_ok (fst e)) \<and>
      (\<forall>e \<in> set (tl (m_txBuffer s)). seg_status (fst e) = FULL_SDU) \<and>
      m_value (m_sequenceNumber s) < 1024)"

lemma tx_ok_new: "tx_ok (NrRlcUm_new budget)"
  by (simp add: tx_ok_def NrRlcUm_new_def SN_def)

lemma tx_split_keeps:
  assumes "tx_split q segs q'" and "\<forall>e \<in> set q. seg_ok (fst e)" and "\<forall>e \<in> set (tl q). seg_status (fst e) = FULL_SDU"
  shows "\<forall>e \<in> set q'. seg_ok (fst e)" and "\<forall>e \<in> set (tl q'). seg_status (fst e) = FULL_SDU"
    and "data_size q = data_size q' + (\<Sum>g\<leftarrow>segs. length (seg_data g))" and "length segs \<le> length q"
proof -
  have a: "(\<forall>e \<in> set q'. seg_ok (fst e)) \<and> (\<forall>e \<in> set (tl q'). seg_status (fst e) = FULL_SDU) \<and>
    data_size q = data_size q' + (\<Sum>g\<leftarrow>segs. length (seg_data g)) \<and> length segs \<le> length q"
    using assms(1) unfolding tx_split_def
  proof (elim disjE exE conjE)
    fix whole assume w: "q = whole @ q'" "segs = map fst whole"
    have "set (tl q') \<subseteq> set (tl q)" unfolding w by (cases whole; cases q') auto
    then show ?thesis using assms(2,3) w by (auto simp: data_size_def comp_def)
  next
    fix whole g t rest a b
    assume w: "q = whole @ (g, t) # rest" "seg_data g = a @ b" "a \<noteq> []" "b \<noteq> []"
      "segs = map fst whole @ [\<lparr>seg_data = a, seg_status = (if seg_status g = FULL_SDU then FIRST_SEGMENT else MIDDLE_SEGMENT)\<rparr>]"
      "q' = (\<lparr>seg_data = b, seg_status = LAST_SEGMENT\<rparr>, t) # rest"
    have "set rest \<subseteq> set (tl q)" unfolding w by (cases whole) auto
    then show ?thesis using assms(2,3) w by (auto simp: data_size_def comp_def seg_ok_def)
  qed
  then show "\<forall>e \<in> set q'. seg_ok (fst e)" "\<forall>e \<in> set (tl q'). seg_status (fst e) = FULL_SDU"
    "data_size q = data_size q' + (\<Sum>g\<leftarrow>segs. length (seg_data g))" "length segs \<le> length q"
    by blast+
qed

text \<open>The effect of \<open>DoTransmitPdcpPdu\<close> on the state of the sender.\<close>

definition has_room :: "bytes \<Rightarrow> um \<Rightarrow> bool" where
  "has_room p s = (m_txBufferSize s + GetSize p \<le> m_maxTxBufferSize s)"

lemma DoTransmitPdcpPdu_effect:
  shows "m_txBuffer (DoTransmitPdcpPdu now p s) =
      (if has_room p s then m_txBuffer s @ [(\<lparr>seg_data = p, seg_status = FULL_SDU\<rparr>, now)] else m_txBuffer s)"
    and "m_txBufferSize (DoTransmitPdcpPdu now p s) =
      (if has_room p s then m_txBufferSize s + GetSize p else m_txBufferSize s)"
    and "m_maxTxBufferSize (DoTransmitPdcpPdu now p s) = m_maxTxBufferSize s"
    and "m_sequenceNumber (DoTransmitPdcpPdu now p s) = m_sequenceNumber s"
  by (simp_all add: DoTransmitPdcpPdu_def DoTransmitBufferStatusReport_def store_pdcp_pdu_def emit_def has_room_def
      Let_def split: list.split)

lemma has_room_iff:
  assumes "tx_ok s" and "length p < 2 ^ 31"
  shows "has_room p s \<longleftrightarrow> data_size (m_txBuffer s) + length p \<le> unat (m_maxTxBufferSize s)"
proof -
  have "m_txBufferSize s + GetSize p = of_nat (data_size (m_txBuffer s) + length p)"
    using assms(1) by (simp add: tx_ok_def GetSize_def)
  then have "unat (m_txBufferSize s + GetSize p) = data_size (m_txBuffer s) + length p"
    using assms by (simp add: tx_ok_def unat_of_nat del: of_nat_add)
  then show ?thesis by (simp add: has_room_def word_le_nat_alt)
qed

lemma store_keeps_tx_ok:
  assumes "tx_ok s" and "p \<noteq> []" and "length p < 2 ^ 31"
  shows "tx_ok (DoTransmitPdcpPdu now p s)"
proof (cases "has_room p s")
  case True
  have "\<forall>e \<in> set (tl (m_txBuffer s @ [(\<lparr>seg_data = p, seg_status = FULL_SDU\<rparr>, now)])). seg_status (fst e) = FULL_SDU"
    using assms(1) by (cases "m_txBuffer s") (auto simp: tx_ok_def)
  moreover have "seg_ok \<lparr>seg_data = p, seg_status = FULL_SDU\<rparr>" using assms(2,3) by (simp add: seg_ok_def)
  ultimately show ?thesis
    using True assms(1) has_room_iff [OF assms(1,3)] unfolding tx_ok_def DoTransmitPdcpPdu_effect
    by (auto simp: GetSize_def)
qed (use assms(1) in \<open>simp add: tx_ok_def DoTransmitPdcpPdu_effect\<close>)

section \<open>PDUs\<close>

text \<open>The bytes \<open>b\<close> are a PDU with framing info \<open>fi\<close> and sequence number \<open>sn\<close> that carries \<open>chunks\<close>.\<close>

definition carries :: "bytes \<Rightarrow> u8 \<Rightarrow> u16 \<Rightarrow> bytes list \<Rightarrow> bool" where
  "carries b fi sn chunks =
     (chunks \<noteq> [] \<and> (\<exists>h. Deserialize b = Inr h \<and> m_framingInfo h = fi \<and> h_sequenceNumber h = SN sn \<and>
        (\<forall>buf. split_sdus h (drop (GetSerializedSize h) b) buf = Inr (buf @ chunks))))"

lemma split_sdus_indicators:
  assumes "segs \<noteq> []" and "\<forall>g \<in> set (butlast segs). length (seg_data g) \<le> 2047"
    and "m_extensionBits h = ext_bits (length segs - 1)" and "m_lengthIndicators h = indicators segs"
  shows "split_sdus h (concat (map seg_data segs)) buf = Inr (buf @ map seg_data segs)"
  using assms
proof (induction segs arbitrary: h buf)
  case (Cons g segs)
  show ?case
  proof (cases segs)
    case Nil
    then show ?thesis using Cons.prems by (simp add: split_sdus.simps [of h] PopExtensionBit_def)
  next
    case (Cons g' segs')
    let ?h = "h\<lparr>m_extensionBits := ext_bits (length segs - 1), m_lengthIndicators := indicators segs\<rparr>"
    have h: "m_extensionBits h = 1 # ext_bits (length segs - 1)"
      "m_lengthIndicators h = of_nat (length (seg_data g)) # indicators segs"
      using Cons.prems(3,4) Cons by (auto simp: indicators_def)
    have "split_sdus ?h (concat (map seg_data segs)) (buf @ [seg_data g]) = Inr ((buf @ [seg_data g]) @ map seg_data segs)"
      by (rule Cons.IH) (use Cons.prems Cons in auto)
    moreover have "unat (of_nat (length (seg_data g)) :: u16) = length (seg_data g)"
      using Cons.prems(2) Cons by (simp add: unat_of_nat)
    ultimately show ?thesis
      by (simp add: split_sdus.simps [of h] PopExtensionBit_def PopLengthIndicator_def h)
  qed
qed simp

lemma AddHeader_carries:
  assumes h: "header_ok h" and size: "2 + li_bytes (length (m_lengthIndicators h)) < 65536"
    and segs: "segs \<noteq> []" "\<forall>g \<in> set (butlast segs). length (seg_data g) \<le> 2047" "m_lengthIndicators h = indicators segs"
  shows "\<exists>b. AddHeader h (concat (map seg_data segs)) = Inr b \<and>
    length b = 2 + li_bytes (length segs - 1) + (\<Sum>g\<leftarrow>segs. length (seg_data g)) \<and>
    carries b (m_framingInfo h) (m_value (h_sequenceNumber h)) (map seg_data segs)"
proof -
  let ?p = "concat (map seg_data segs)"
  obtain bs where bs: "Serialize h = Inr bs" "length bs = 2 + li_bytes (length (m_lengthIndicators h))"
    "Deserialize (bs @ ?p) = Inr (h\<lparr>h_sequenceNumber := SN (m_value (h_sequenceNumber h))\<rparr>)"
    using header_roundtrip [OF h, of ?p] by blast
  have g: "GetSerializedSize h = length bs"
  proof -
    have "m_headerLength h = of_nat (length bs)" using h by (simp only: header_ok_def bs(2))
    then show ?thesis using size by (simp only: GetSerializedSize_def bs(2) unat_of_nat) simp
  qed
  have ext: "m_extensionBits h = ext_bits (length segs - 1)"
    using h segs by (simp add: header_ok_def indicators_def)
  let ?h = "h\<lparr>h_sequenceNumber := SN (m_value (h_sequenceNumber h))\<rparr>"
  have "split_sdus ?h ?p buf = Inr (buf @ map seg_data segs)" for buf
    by (rule split_sdus_indicators) (use segs ext in simp_all)
  moreover have "GetSerializedSize ?h = length bs" using g by (simp add: GetSerializedSize_def)
  ultimately have "carries (bs @ ?p) (m_framingInfo h) (m_value (h_sequenceNumber h)) (map seg_data segs)"
    using bs(3) segs(1) by (simp add: carries_def)
  moreover have "length (bs @ ?p) = 2 + li_bytes (length segs - 1) + (\<Sum>g\<leftarrow>segs. length (seg_data g))"
    using bs(2) segs by (simp add: length_concat comp_def indicators_def)
  ultimately show ?thesis using bs(1) g by (simp add: AddHeader_def)
qed

text \<open>The 16-bit header length is enough for the grant or for the buffer.\<close>

definition header_fits :: "u32 \<Rightarrow> um \<Rightarrow> bool" where
  "header_fits n s = (n < 65536 \<or> length (m_txBuffer s) \<le> 43689)"

lemma DoNotifyTxOpportunity_sends:
  assumes "tx_ok s" and "2 < n" and "m_txBuffer s \<noteq> []" and "header_fits n s"
  shows "\<exists>segs q' b timer. DoNotifyTxOpportunity now n s =
      Inr (s\<lparr>m_txBuffer := q', m_txBufferSize := of_nat (data_size q'), m_sequenceNumber := sn_incr (m_sequenceNumber s),
        m_bsrTimer := timer,
        calls := calls s @ [TxPduTrace (GetSize b), TransmitPdu \<lparr>pdu_bytes = b, pdu_tag = Some now\<rparr>]\<rparr>) \<and>
    tx_split (m_txBuffer s) segs q' \<and> segs \<noteq> [] \<and> (\<forall>g \<in> set segs. seg_data g \<noteq> []) \<and> length b \<le> unat n \<and>
    carries b (framing_info segs) (m_value (m_sequenceNumber s)) (map seg_data segs)"
proof -
  obtain f t q where q: "m_txBuffer s = (f, t) # q" using assms(3) by (cases "m_txBuffer s") auto
  let ?s = "s\<lparr>m_txBufferSize := m_txBufferSize s - GetSize (seg_data f), m_txBuffer := q\<rparr>"
  have n: "unat (n - 2) = unat n - 2" "2 < unat n"
    using assms(2) by (simp_all add: unat_sub word_le_nat_alt word_less_nat_alt)
  have "seg_ok f" "\<forall>e \<in> set (m_txBuffer ?s). seg_ok (fst e)" "0 < unat (n - 2)"
    "m_txBufferSize ?s = of_nat (data_size (m_txBuffer ?s))"
    using assms(1) n by (simp_all add: tx_ok_def q GetSize_def)
  from fill_data_field_splits [OF this, of t "[]" "[]"] obtain segs q' where fill:
    "fill_data_field f t (n - 2) 1 [] NrRlcHeader_new ?s =
       (segs, closed_header (indicators segs), ?s\<lparr>m_txBuffer := q', m_txBufferSize := of_nat (data_size q')\<rparr>)"
    and split: "tx_split (m_txBuffer s) segs q'" and fills: "fills 0 (unat n - 2) segs"
    by (auto simp: q n open_header_Nil)
  let ?h = "SetFramingInfo (framing_info segs) (SetSequenceNumber (m_sequenceNumber s) (closed_header (indicators segs)))"
  note fills = fills [unfolded fills_def]
  have fi: "framing_info segs AND 3 = framing_info segs" "framing_info segs < 4"
    by (simp_all add: framing_info_def FIRST_BYTE_def NO_FIRST_BYTE_def LAST_BYTE_def NO_LAST_BYTE_def)
  have len: "2 + li_bytes (length segs - 1) < 65536"
  proof (cases "n < 65536")
    case True
    then have "unat n < 65536" by (simp add: word_less_nat_alt)
    with fills n show ?thesis by auto
  next
    case False
    then have "length segs \<le> 43689" using assms(4) tx_split_keeps(4) [OF split] assms(1)
      by (auto simp: header_fits_def tx_ok_def)
    then show ?thesis by (simp add: li_bytes_def)
  qed
  have h: "header_ok ?h"
    using assms(1) fills fi by (auto simp: header_ok_def SetFramingInfo_def SetSequenceNumber_def closed_header_def
        indicators_def tx_ok_def word_less_nat_alt unat_of_nat)
  have lis: "m_lengthIndicators ?h = indicators segs" "m_framingInfo ?h = framing_info segs"
    "h_sequenceNumber ?h = m_sequenceNumber s"
    by (simp_all add: SetFramingInfo_def SetSequenceNumber_def closed_header_def fi)
  obtain b where b: "AddHeader ?h (concat (map seg_data segs)) = Inr b"
    "length b = 2 + li_bytes (length segs - 1) + (\<Sum>g\<leftarrow>segs. length (seg_data g))"
    "carries b (framing_info segs) (m_value (m_sequenceNumber s)) (map seg_data segs)"
    using AddHeader_carries [OF h _ _ _ lis(1)] fills len lis by (auto simp: indicators_def)
  have "DoNotifyTxOpportunity now n s =
      Inr (s\<lparr>m_txBuffer := q', m_txBufferSize := of_nat (data_size q'), m_sequenceNumber := sn_incr (m_sequenceNumber s),
        m_bsrTimer := (if q' \<noteq> [] then True else m_bsrTimer s),
        calls := calls s @ [TxPduTrace (GetSize b), TransmitPdu \<lparr>pdu_bytes = b, pdu_tag = Some now\<rparr>]\<rparr>)"
    using assms(2) b(1) fills by (simp add: DoNotifyTxOpportunity_def q fill emit_def)
  moreover have "length b \<le> unat n" using fills b(2) n by auto
  ultimately show ?thesis using split fills b(3) by blast
qed

end
