(* ===== verification/NrRlcReceiver.thy ===== *)
theory NrRlcReceiver
  imports NrRlcSender
begin

text \<open>
  Correctness of the receiving side: reassembly refines an abstract machine that joins and drops segments,
  and the reordering of PDUs never runs into a failed assertion, a null pointer or an empty container.
\<close>

section \<open>Delivered SDUs\<close>

definition sdu_of :: "sap_call \<Rightarrow> bytes option" where
  "sdu_of c = (case c of ReceivePdcpPdu p \<Rightarrow> Some p | _ \<Rightarrow> None)"

definition delivered :: "um \<Rightarrow> bytes list" where
  "delivered s = List.map_filter sdu_of (calls s)"

lemma delivered_emit [simp]:
  "delivered (s\<lparr>calls := calls t @ [c]\<rparr>) = delivered t @ (case sdu_of c of None \<Rightarrow> [] | Some p \<Rightarrow> [p])"
  by (simp add: delivered_def List.map_filter_def split: option.split)

lemma fold_deliver: "fold deliver ps s = s\<lparr>calls := calls s @ map ReceivePdcpPdu ps\<rparr>"
  by (induction ps arbitrary: s) (simp_all add: deliver_def emit_def)

lemma map_filter_receive [simp]: "List.map_filter sdu_of (map ReceivePdcpPdu ps) = ps"
  by (induction ps) (simp_all add: List.map_filter_def sdu_of_def)

lemma map_filter_append [simp]: "List.map_filter f (xs @ ys) = List.map_filter f xs @ List.map_filter f ys"
  by (simp add: List.map_filter_def)

section \<open>The abstract reassembly\<close>

text \<open>
  The abstract machine holds the part of an SDU that waits for its continuation, if any. A PDU whose first
  byte continues an SDU extends that part, or, when there is none or PDUs were lost in between, loses its
  first chunk. A PDU whose last byte does not end an SDU leaves its last chunk to wait.
\<close>

definition starts_sdu :: "u8 \<Rightarrow> bool" where
  "starts_sdu fi = (fi AND NO_FIRST_BYTE = 0)"

definition ends_sdu :: "u8 \<Rightarrow> bool" where
  "ends_sdu fi = (fi AND NO_LAST_BYTE = 0)"

definition joined :: "bool \<Rightarrow> bytes option \<Rightarrow> bool \<Rightarrow> bytes list \<Rightarrow> bytes list" where
  "joined lost kept starts chunks =
     (if starts then chunks
      else case kept of
          Some k \<Rightarrow> if lost then tl chunks else (k @ hd chunks) # tl chunks
        | None \<Rightarrow> tl chunks)"

definition absorb :: "bool \<Rightarrow> bytes option \<Rightarrow> bool \<Rightarrow> bool \<Rightarrow> bytes list \<Rightarrow> bytes list \<times> bytes option" where
  "absorb lost kept starts ends chunks =
     (let ps = joined lost kept starts chunks
      in if ends \<or> ps = [] then (ps, None) else (butlast ps, Some (last ps)))"

definition kept_part :: "um \<Rightarrow> bytes option" where
  "kept_part s = (if m_reassemblingState s = WAITING_SI_SF then m_keepS0 s else None)"

definition reassembly_ok :: "um \<Rightarrow> bool" where
  "reassembly_ok s = (m_reassemblingState s \<noteq> NONE \<and> (m_reassemblingState s = WAITING_SI_SF \<longrightarrow> m_keepS0 s \<noteq> None))"

text \<open>Only the variables of the reassembly differ.\<close>

definition same_window :: "um \<Rightarrow> um \<Rightarrow> bool" where
  "same_window s t = (t\<lparr>m_expectedSeqNumber := m_expectedSeqNumber s, m_sdusBuffer := m_sdusBuffer s,
     m_reassemblingState := m_reassemblingState s, m_keepS0 := m_keepS0 s, calls := calls s\<rparr> = s)"

lemma reassembly_frame [simp]:
  "kept_part (s\<lparr>m_expectedSeqNumber := e, m_sdusBuffer := b\<rparr>) = kept_part s"
  "reassembly_ok (s\<lparr>m_expectedSeqNumber := e, m_sdusBuffer := b\<rparr>) = reassembly_ok s"
  "delivered (s\<lparr>m_expectedSeqNumber := e, m_sdusBuffer := b\<rparr>) = delivered s"
  "same_window (s\<lparr>m_expectedSeqNumber := e, m_sdusBuffer := b\<rparr>) t = same_window s t"
  "same_window (s\<lparr>m_keepS0 := k\<rparr>) t = same_window s t"
  by (cases s; cases t; simp add: kept_part_def reassembly_ok_def delivered_def same_window_def)+

lemma less_4: "fi < 4 \<longleftrightarrow> fi = 0 \<or> fi = 1 \<or> fi = 2 \<or> fi = (3 :: u8)"
proof -
  have "unat fi < 4 \<longleftrightarrow> unat fi = 0 \<or> unat fi = 1 \<or> unat fi = 2 \<or> unat fi = 3" by auto
  then show ?thesis by (simp add: word_less_nat_alt word_unat_eq_iff)
qed

lemma Deserialize_framing:
  assumes "Deserialize b = Inr h"
  shows "m_framingInfo h < 4"
proof -
  obtain x y bs where "m_framingInfo h = drop_bit 3 (x AND 0x18)"
    using assms by (auto simp: Deserialize_def Let_def res_simps split: list.splits if_splits)
  moreover have "drop_bit 3 (x AND 0x18) = take_bit 2 (drop_bit 3 x)" for x :: u8
    unfolding masks by (rule bit_word_eqI) (auto simp: bit_simps)
  moreover have "unat (take_bit 2 w) < 4" for w :: u8
    using take_bit_nat_less_exp [of 2 "unat w"] by (simp add: unsigned_take_bit_eq)
  ultimately show ?thesis by (simp add: word_less_nat_alt)
qed

lemmas framing_defs = FIRST_BYTE_def NO_FIRST_BYTE_def LAST_BYTE_def NO_LAST_BYTE_def starts_sdu_def ends_sdu_def

lemmas reassemble_defs = reassemble_S0_FULL_def reassemble_SI_SF_def reassemble_SI_SF_lost_def deliver_all_def
  deliver_and_keep_def discard_front_def discard_and_keep_def append_front_def fold_deliver

definition refines_absorb :: "bool \<Rightarrow> u8 \<Rightarrow> bytes list \<Rightarrow> um \<Rightarrow> um res \<Rightarrow> bool" where
  "refines_absorb lost fi chunks s r =
     (\<exists>t. r = Inr t \<and> m_sdusBuffer t = [] \<and> reassembly_ok t \<and> same_window s t \<and>
       m_expectedSeqNumber t = m_expectedSeqNumber s \<and>
       (delivered t, kept_part t) =
         (let (ps, k) = absorb lost (kept_part s) (starts_sdu fi) (ends_sdu fi) chunks in (delivered s @ ps, k)))"

lemmas refine_simps = refines_absorb_def same_window_def reassembly_ok_def kept_part_def absorb_def joined_def
  delivered_def reassemble_defs framing_defs deliver_def emit_def sdu_of_def

lemma S0_FULL_refines:
  assumes "fi < 4" and "m_sdusBuffer s \<noteq> []" and "kept_part s = None \<or> lost"
  shows "refines_absorb lost fi (m_sdusBuffer s) s (reassemble_S0_FULL fi s)"
proof -
  obtain c cs where b: "m_sdusBuffer s = c # cs" using assms(2) by (cases "m_sdusBuffer s") auto
  from assms(1) consider "fi = 0" | "fi = 1" | "fi = 2" | "fi = 3" by (auto simp: less_4)
  then show ?thesis
    using assms(3) by cases (auto simp: refine_simps b split: option.splits if_splits)
qed

lemma SI_SF_refines:
  assumes "fi < 4" and "m_sdusBuffer s \<noteq> []" and "kept_part s = Some k" and "\<not> starts_sdu fi"
  shows "refines_absorb False fi (m_sdusBuffer s) s (reassemble_SI_SF fi s)"
proof -
  obtain c cs where b: "m_sdusBuffer s = c # cs" using assms(2) by (cases "m_sdusBuffer s") auto
  from assms(1,4) consider "fi = 2" | "fi = 3" by (auto simp: less_4 framing_defs)
  then show ?thesis
    using assms(3) by cases (auto simp: refine_simps b split: option.splits if_splits)
qed

lemma joined_lost: "joined True kept starts chunks = joined True None starts chunks"
  by (simp add: joined_def split: option.split)

lemma SI_SF_lost_refines:
  assumes "fi < 4" and "m_sdusBuffer s \<noteq> []"
  shows "refines_absorb True fi (m_sdusBuffer s) s (reassemble_SI_SF_lost fi s)"
proof -
  have "fi \<in> {FIRST_BYTE OR LAST_BYTE, FIRST_BYTE OR NO_LAST_BYTE, NO_FIRST_BYTE OR LAST_BYTE, NO_FIRST_BYTE OR NO_LAST_BYTE}"
    using assms(1) by (auto simp: less_4 framing_defs)
  moreover have "refines_absorb True fi (m_sdusBuffer s) (s\<lparr>m_keepS0 := None\<rparr>) (reassemble_S0_FULL fi (s\<lparr>m_keepS0 := None\<rparr>))"
    using S0_FULL_refines [OF assms(1), of "s\<lparr>m_keepS0 := None\<rparr>" True] assms(2) by simp
  then have "refines_absorb True fi (m_sdusBuffer s) s (reassemble_S0_FULL fi (s\<lparr>m_keepS0 := None\<rparr>))"
    unfolding refines_absorb_def absorb_def joined_lost [of "kept_part s"] joined_lost [of "kept_part (s\<lparr>m_keepS0 := None\<rparr>)"]
    by (auto simp: delivered_def)
  ultimately show ?thesis by (simp add: reassemble_SI_SF_lost_def)
qed

text \<open>The switch over the reassembling state.\<close>

definition reassemble_switch :: "bool \<Rightarrow> u8 \<Rightarrow> um \<Rightarrow> um res" where
  "reassemble_switch lost fi s = (case m_reassemblingState s of
       NONE \<Rightarrow> Inr s
     | WAITING_S0_FULL \<Rightarrow> reassemble_S0_FULL fi s
     | WAITING_SI_SF \<Rightarrow> if lost then reassemble_SI_SF_lost fi s else reassemble_SI_SF fi s)"

lemma switch_refines:
  assumes "fi < 4" and "m_sdusBuffer s \<noteq> []" and "reassembly_ok s" and "kept_part s = None \<or> lost \<or> \<not> starts_sdu fi"
  shows "refines_absorb lost fi (m_sdusBuffer s) s (reassemble_switch lost fi s)"
proof (cases "m_reassemblingState s")
  case WAITING_S0_FULL
  then show ?thesis using assms S0_FULL_refines by (simp add: reassemble_switch_def kept_part_def)
next
  case WAITING_SI_SF
  then show ?thesis using assms SI_SF_refines SI_SF_lost_refines
    by (auto simp: reassemble_switch_def kept_part_def reassembly_ok_def)
qed (use assms in \<open>simp add: reassembly_ok_def\<close>)

lemma switch_ok:
  assumes "fi < 4" and "m_sdusBuffer s \<noteq> []" and "reassembly_ok s"
  shows "\<exists>t. reassemble_switch lost fi s = Inr t \<and> reassembly_ok t \<and> same_window s t"
proof (cases "kept_part s = None \<or> lost \<or> \<not> starts_sdu fi")
  case True
  then show ?thesis using switch_refines [OF assms True] by (auto simp: refines_absorb_def)
next
  case False
  then have "reassemble_switch lost fi s = Inr s" using assms
    by (auto simp: reassemble_switch_def kept_part_def reassemble_SI_SF_def framing_defs less_4 split: if_splits)
  then show ?thesis using assms by (simp add: same_window_def)
qed

lemma carries_framing: "carries b fi sn chunks \<Longrightarrow> fi < 4"
  using Deserialize_framing by (auto simp: carries_def)

lemma ReassembleAndDeliver_carries:
  assumes "carries b fi sn chunks"
  shows "ReassembleAndDeliver b s =
    (let lost = (sn mod 1024 \<noteq> m_value (m_expectedSeqNumber s))
     in reassemble_switch lost fi (s\<lparr>m_expectedSeqNumber := if lost then sn_plus (SN sn) 1 else sn_incr (m_expectedSeqNumber s),
       m_sdusBuffer := m_sdusBuffer s @ chunks\<rparr>))"
proof -
  obtain h where "Deserialize b = Inr h" "m_framingInfo h = fi" "h_sequenceNumber h = SN sn"
    "\<And>buf. split_sdus h (drop (GetSerializedSize h) b) buf = Inr (buf @ chunks)"
    using assms by (auto simp: carries_def)
  moreover have "m_value (SN sn) = sn mod 1024" by (simp add: SN_def)
  ultimately show ?thesis
    by (simp add: ReassembleAndDeliver_def reassemble_switch_def Let_def sn_eq_def split: ReassemblingState.split)
qed

lemma ReassembleAndDeliver_refines:
  assumes c: "carries b fi sn chunks" and s: "reassembly_ok s" "m_sdusBuffer s = []"
    and k: "kept_part s = None \<or> sn mod 1024 \<noteq> m_value (m_expectedSeqNumber s) \<or> \<not> starts_sdu fi"
  shows "\<exists>t. ReassembleAndDeliver b s = Inr t \<and> m_sdusBuffer t = [] \<and> reassembly_ok t \<and> same_window s t \<and>
    m_value (m_expectedSeqNumber t) = (sn mod 1024 + 1) mod 1024 \<and>
    (delivered t, kept_part t) =
      (let (ps, k) = absorb (sn mod 1024 \<noteq> m_value (m_expectedSeqNumber s)) (kept_part s) (starts_sdu fi) (ends_sdu fi) chunks
       in (delivered s @ ps, k))"
proof -
  define lost where "lost = (sn mod 1024 \<noteq> m_value (m_expectedSeqNumber s))"
  define e where "e = (if lost then sn_plus (SN sn) 1 else sn_incr (m_expectedSeqNumber s))"
  let ?s = "s\<lparr>m_expectedSeqNumber := e, m_sdusBuffer := chunks\<rparr>"
  have "refines_absorb lost fi chunks ?s (reassemble_switch lost fi ?s)"
    using switch_refines [of fi ?s lost] c s k carries_framing [OF c]
    by (auto simp: carries_def lost_def)
  moreover have "ReassembleAndDeliver b s = reassemble_switch lost fi ?s"
    using ReassembleAndDeliver_carries [OF c, of s] s(2) by (simp add: Let_def lost_def e_def)
  moreover have "m_value e = (sn mod 1024 + 1) mod 1024" by (simp add: e_def lost_def sn_plus_def SN_def sn_incr_def)
  ultimately show ?thesis unfolding refines_absorb_def lost_def [symmetric] by auto
qed

lemma ReassembleAndDeliver_ok:
  assumes c: "carries b fi sn chunks" and s: "reassembly_ok s"
  shows "\<exists>t. ReassembleAndDeliver b s = Inr t \<and> reassembly_ok t \<and> same_window s t"
proof -
  let ?lost = "sn mod 1024 \<noteq> m_value (m_expectedSeqNumber s)"
  let ?s = "s\<lparr>m_expectedSeqNumber := if ?lost then sn_plus (SN sn) 1 else sn_incr (m_expectedSeqNumber s),
    m_sdusBuffer := m_sdusBuffer s @ chunks\<rparr>"
  obtain t where "reassemble_switch ?lost fi ?s = Inr t" "reassembly_ok t" "same_window ?s t"
    using switch_ok [OF carries_framing [OF c], of ?s ?lost] c s by (auto simp: carries_def)
  then show ?thesis using ReassembleAndDeliver_carries [OF c, of s] by (simp add: Let_def)
qed

end
