(* ===== verification/NrRlcWindow.thy ===== *)
theory NrRlcWindow
  imports NrRlcReceiver
begin

text \<open>
  Safety of the reordering window: the comparisons of sequence numbers never meet different modulus bases,
  the loops end, and no PDU that decodes makes the receiver fail.
\<close>

section \<open>Sequence number arithmetic\<close>

lemma unat_mod_1024 [simp]: "unat (v mod 1024 :: u16) = unat v mod 1024"
  by (simp add: unat_mod)

lemma sn_ok_simps [simp]:
  "sn_ok (SN v)" "sn_ok (sn_assign a v) = (unat (m_modulusBase a) < 1024)"
  "sn_ok (SetModulusBase b a) = (unat (m_value a) < 1024 \<and> unat (m_value b) < 1024)"
  "sn_ok (sn_plus a v) = (unat (m_modulusBase a) < 1024)" "sn_ok (sn_minus a v) = (unat (m_modulusBase a) < 1024)"
  "sn_ok (sn_incr a) = (unat (m_modulusBase a) < 1024)"
  by (auto simp: sn_ok_def SN_def sn_assign_def SetModulusBase_def sn_plus_def sn_minus_def sn_incr_def)

lemma sn_base [simp]:
  "m_modulusBase (SetModulusBase b a) = m_value b" "m_modulusBase (sn_plus a v) = m_modulusBase a"
  "m_modulusBase (sn_minus a v) = m_modulusBase a" "m_modulusBase (sn_incr a) = m_modulusBase a"
  "m_modulusBase (sn_assign a v) = m_modulusBase a"
  by (simp_all add: SetModulusBase_def sn_plus_def sn_minus_def sn_incr_def sn_assign_def)

lemma sn_value [simp]:
  "m_value (SetModulusBase b a) = m_value a" "m_value (sn_minus a v) = (m_value a - v) mod 1024"
  "m_value (sn_plus a v) = (m_value a + v) mod 1024" "m_value (sn_incr a) = (m_value a + 1) mod 1024"
  "m_value (SN v) = v mod 1024"
  by (simp_all add: SetModulusBase_def sn_minus_def sn_plus_def sn_incr_def SN_def)

lemma sn_okD: "sn_ok a \<Longrightarrow> unat (m_value a) < 1024" "sn_ok a \<Longrightarrow> unat (m_modulusBase a) < 1024"
  by (simp_all add: sn_ok_def)

lemma unat_value_incr: "unat (m_value a) < 1024 \<Longrightarrow> unat ((m_value a + 1) mod 1024) = Suc (unat (m_value a)) mod 1024"
  by (simp add: unat_word_ariths)

lemma mod_dist_Suc:
  assumes "b < 1024" and "v < 1024"
  shows "(Suc v mod 1024 + 1024 - b) mod 1024 = Suc (v + 1024 - b) mod (1024 :: nat)"
proof (cases "v = 1023")
  case True
  have "Suc (v + 1024 - b) = (1024 - b) + 1024" using True assms(1) by simp
  then show ?thesis using True by (simp only: mod_add_self2) simp
next
  case False
  then have "Suc v mod 1024 + 1024 - b = Suc (v + 1024 - b)" using assms by simp
  then show ?thesis by (simp only:)
qed

lemma sn_dist_incr:
  assumes "sn_ok a" and "sn_dist a < 1023"
  shows "sn_dist (sn_incr a) = Suc (sn_dist a)"
proof -
  note ok = sn_okD [OF assms(1)]
  have "sn_dist (sn_incr a) = Suc (unat (m_value a) + 1024 - unat (m_modulusBase a)) mod 1024"
    unfolding sn_dist_def sn_value sn_base unat_value_incr [OF ok(1)] by (rule mod_dist_Suc [OF ok(2,1)])
  then show ?thesis using assms(2) by (simp add: mod_Suc sn_dist_def)
qed

lemma sn_dist_less: "sn_dist a < 1024"
  by (simp add: sn_dist_def)

section \<open>The invariant of the receiver\<close>

definition buffer_ok :: "um \<Rightarrow> bool" where
  "buffer_ok s = (smap_ok (m_rxBuffer s) \<and>
     (\<forall>(k, p) \<in> set (m_rxBuffer s). unat k < 1024 \<and> (\<exists>fi chunks. carries (pdu_bytes p) fi k chunks)))"

definition window_ok :: "um \<Rightarrow> bool" where
  "window_ok s = (buffer_ok s \<and> reassembly_ok s \<and> sn_ok (m_vrUr s) \<and> sn_ok (m_vrUx s) \<and> sn_ok (m_vrUh s))"

definition rx_ok :: "um \<Rightarrow> bool" where
  "rx_ok s = (window_ok s \<and>
     (m_reorderingTimer s \<longrightarrow> (\<forall>v \<in> {m_vrUr s, m_vrUx s, m_vrUh s}. m_modulusBase v = m_value (window_start s))))"

lemma rx_ok_new: "rx_ok (NrRlcUm_new budget)"
  by (simp add: rx_ok_def window_ok_def buffer_ok_def reassembly_ok_def NrRlcUm_new_def)

text \<open>
  What the reassembly of buffered PDUs leaves alone: everything but its own variables, the buffer and the two
  ends of the window.
\<close>

definition frame :: "um \<Rightarrow> um \<Rightarrow> bool" where
  "frame s t = (t\<lparr>m_expectedSeqNumber := m_expectedSeqNumber s, m_sdusBuffer := m_sdusBuffer s,
     m_reassemblingState := m_reassemblingState s, m_keepS0 := m_keepS0 s, calls := calls s,
     m_rxBuffer := m_rxBuffer s, m_vrUr := m_vrUr s, m_vrUh := m_vrUh s\<rparr> = s)"

lemma frame_refl [simp]: "frame s s"
  by (simp add: frame_def)

lemma frame_trans: "frame s t \<Longrightarrow> frame t u \<Longrightarrow> frame s u"
  by (cases s; cases t; cases u) (simp add: frame_def)

lemma frame_same_window: "same_window s t \<Longrightarrow> frame s t \<and> m_vrUr t = m_vrUr s \<and> m_vrUh t = m_vrUh s \<and> m_rxBuffer t = m_rxBuffer s"
  by (cases s; cases t) (simp add: frame_def same_window_def)

lemma frame_sel: "frame s t \<Longrightarrow> m_vrUx t = m_vrUx s \<and> m_reorderingTimer t = m_reorderingTimer s \<and>
    m_windowSize t = m_windowSize s \<and> m_outOfOrderDelivery t = m_outOfOrderDelivery s"
  by (cases s; cases t) (simp add: frame_def)

lemma frame_update [simp]:
  "frame s (t\<lparr>m_vrUh := v\<rparr>) = frame s t" "frame s (t\<lparr>m_vrUr := v\<rparr>) = frame s t" "frame s (t\<lparr>m_rxBuffer := b\<rparr>) = frame s t"
  by (cases s; cases t; simp add: frame_def)+

lemma smap_ok_Cons: "smap_ok (e # m) \<Longrightarrow> smap_ok m"
  by (simp add: smap_ok_def)

lemma smap_ok_filter: "smap_ok m \<Longrightarrow> smap_ok (filter P m)"
  by (simp add: smap_ok_def sorted_wrt_map sorted_wrt_filter)

section \<open>Loops\<close>

lemma IsInside_eq:
  assumes "sn_ok (m_vrUh s)" and "unat (m_value seqNumber) < 1024"
  shows "IsInsideReorderingWindow seqNumber s =
    Inr (sn_dist (SetModulusBase (window_start s) seqNumber) < sn_dist (SetModulusBase (window_start s) (m_vrUh s)),
      s\<lparr>m_vrUh := SetModulusBase (window_start s) (m_vrUh s)\<rparr>)"
proof -
  let ?s = "s\<lparr>m_vrUh := SetModulusBase (window_start s) (m_vrUh s)\<rparr>" and ?q = "SetModulusBase (window_start s) seqNumber"
  have v: "unat (m_value (window_start s)) < 1024" by (simp add: window_start_def)
  have w: "m_value (window_start ?s) = m_value (window_start s)" "SetModulusBase (window_start ?s) seqNumber = ?q"
    by (simp_all add: window_start_def SetModulusBase_def)
  have ok: "sn_ok (window_start ?s)" "sn_ok ?q" "sn_ok (m_vrUh ?s)"
    using assms v sn_okD [OF assms(1)] by (auto simp: window_start_def)
  have b: "m_modulusBase (window_start ?s) = m_modulusBase ?q" "m_modulusBase ?q = m_modulusBase (m_vrUh ?s)"
    by (simp_all add: window_start_def)
  have "sn_dist (window_start ?s) = 0" using w(1) v b by (simp add: sn_dist_def)
  then have "sn_le (window_start ?s) ?q = Inr True" using sn_le_dist [OF ok(1,2) b(1)] by simp
  moreover have "sn_lt ?q (m_vrUh ?s) = Inr (sn_dist ?q < sn_dist (m_vrUh ?s))" by (rule sn_lt_dist [OF ok(2,3) b(2)])
  ultimately show ?thesis by (simp add: IsInsideReorderingWindow_def Let_def w(2))
qed

lemma buffered_pdu_ok:
  assumes "buffer_ok s" and "reassembly_ok s" and "(k, p) \<in> set (m_rxBuffer s)"
  shows "\<exists>t. ReassembleAndDeliver (pdu_bytes p) s = Inr t \<and> reassembly_ok t \<and> same_window s t"
  using assms ReassembleAndDeliver_ok by (fastforce simp: buffer_ok_def)

lemma buffer_ok_subset:
  "buffer_ok s \<Longrightarrow> smap_ok b \<Longrightarrow> set b \<subseteq> set (m_rxBuffer s) \<Longrightarrow> m_rxBuffer t = b \<Longrightarrow> buffer_ok t"
  by (auto simp: buffer_ok_def)

text \<open>A step of the receiver that returns, keeps the invariant of buffer and reassembly, and nothing else.\<close>

definition receives :: "um \<Rightarrow> um res \<Rightarrow> (um \<Rightarrow> bool) \<Rightarrow> bool" where
  "receives s r post = (\<exists>t. r = Inr t \<and> buffer_ok t \<and> reassembly_ok t \<and> frame s t \<and> post t)"

lemma receives_after:
  "receives t r Q \<Longrightarrow> frame s t \<Longrightarrow> (\<And>u. Q u \<Longrightarrow> P u) \<Longrightarrow> receives s r P"
  unfolding receives_def using frame_trans by blast

lemma reassemble_outside_ok:
  assumes "buffer_ok s" and "reassembly_ok s" and "sn_ok (m_vrUh s)" and "m_rxBuffer s = b"
  shows "receives s (reassemble_outside b s) (\<lambda>t. m_vrUr t = m_vrUr s \<and> m_value (m_vrUh t) = m_value (m_vrUh s) \<and>
    sn_ok (m_vrUh t))"
  using assms
proof (induction b arbitrary: s)
  case Nil
  then show ?case by (simp add: receives_def)
next
  case (Cons e b)
  obtain k p where e: "e = (k, p)" by (cases e)
  have kp: "(k, p) \<in> set (m_rxBuffer s)" and k: "unat k < 1024" using Cons.prems by (auto simp: e buffer_ok_def)
  let ?s = "s\<lparr>m_vrUh := SetModulusBase (window_start s) (m_vrUh s)\<rparr>"
  have u: "sn_ok (m_vrUh ?s)" using sn_okD [OF Cons.prems(3)] by (simp add: window_start_def)
  have s: "buffer_ok ?s" "reassembly_ok ?s" "frame s ?s"
    using Cons.prems by (auto simp: buffer_ok_def reassembly_ok_def)
  have inside: "IsInsideReorderingWindow (SN k) s =
    Inr (sn_dist (SetModulusBase (window_start s) (SN k)) < sn_dist (SetModulusBase (window_start s) (m_vrUh s)), ?s)"
    by (rule IsInside_eq [OF Cons.prems(3)]) simp
  obtain t where t: "ReassembleAndDeliver (pdu_bytes p) ?s = Inr t" "reassembly_ok t" "same_window ?s t"
    using buffered_pdu_ok [OF s(1,2), of k p] kp by auto
  note ft = frame_same_window [OF t(3)]
  have "buffer_ok (t\<lparr>m_rxBuffer := b\<rparr>)"
    by (rule buffer_ok_subset [of s b]) (use Cons.prems(1,4) in \<open>auto simp: buffer_ok_def dest: smap_ok_Cons\<close>)
  moreover have "reassembly_ok (t\<lparr>m_rxBuffer := b\<rparr>)" using t(2) by (simp add: reassembly_ok_def)
  moreover have t': "frame s (t\<lparr>m_rxBuffer := b\<rparr>)" using frame_trans [OF s(3)] ft by auto
  ultimately have "receives s (reassemble_outside b (t\<lparr>m_rxBuffer := b\<rparr>)) (\<lambda>t'. m_vrUr t' = m_vrUr s \<and>
      m_value (m_vrUh t') = m_value (m_vrUh s) \<and> sn_ok (m_vrUh t'))"
    using ft u by (intro receives_after [OF Cons.IH t']) auto
  moreover have "receives s (Inr ?s) (\<lambda>t'. m_vrUr t' = m_vrUr s \<and> m_value (m_vrUh t') = m_value (m_vrUh s) \<and> sn_ok (m_vrUh t'))"
    using s u by (simp add: receives_def)
  ultimately show ?case using t(1) by (simp add: e inside)
qed

lemma reassemble_interval_ok:
  assumes "buffer_ok s" and "reassembly_ok s" and "sn_ok a" and "sn_ok b" and "m_modulusBase a = m_modulusBase b"
    and "sn_dist b \<le> sn_dist a + n"
  shows "receives s (reassemble_interval n a b s) (\<lambda>t. m_vrUr t = m_vrUr s \<and> m_vrUh t = m_vrUh s)"
  using assms
proof (induction n arbitrary: a s)
  case 0
  then show ?case by (simp add: sn_lt_dist receives_def)
next
  case (Suc n)
  note lt = sn_lt_dist [OF Suc.prems(3,4,5)]
  show ?case
  proof (cases "sn_dist a < sn_dist b")
    case True
    let ?a = "sn_incr a"
    have d: "sn_dist ?a = Suc (sn_dist a)" using sn_dist_incr [OF Suc.prems(3)] True sn_dist_less [of b] by simp
    have a: "sn_ok ?a" "m_modulusBase ?a = m_modulusBase b" "sn_dist b \<le> sn_dist ?a + n"
      using Suc.prems(3,5,6) d by (auto simp: sn_ok_def [of a])
    show ?thesis
    proof (cases "map_of (m_rxBuffer s) (m_value a)")
      case None
      then show ?thesis using Suc.IH [OF Suc.prems(1,2) a(1) Suc.prems(4) a(2,3)] True by (simp add: lt)
    next
      case (Some p)
      obtain t where t: "ReassembleAndDeliver (pdu_bytes p) s = Inr t" "reassembly_ok t" "same_window s t"
        using buffered_pdu_ok [OF Suc.prems(1,2) map_of_SomeD [OF Some]] by auto
      note ft = frame_same_window [OF t(3)]
      let ?t = "t\<lparr>m_rxBuffer := filter (\<lambda>kv. fst kv \<noteq> m_value a) (m_rxBuffer t)\<rparr>"
      have "buffer_ok ?t"
        by (rule buffer_ok_subset [of s]) (use Suc.prems(1) ft in \<open>auto simp: buffer_ok_def intro!: smap_ok_filter\<close>)
      moreover have "reassembly_ok ?t" using t(2) by (simp add: reassembly_ok_def)
      ultimately have "receives ?t (reassemble_interval n ?a b ?t) (\<lambda>t'. m_vrUr t' = m_vrUr ?t \<and> m_vrUh t' = m_vrUh ?t)"
        using Suc.IH Suc.prems(4) a by blast
      then have "receives s (reassemble_interval n ?a b ?t) (\<lambda>t'. m_vrUr t' = m_vrUr s \<and> m_vrUh t' = m_vrUh s)"
        by (rule receives_after) (use ft in auto)
      then show ?thesis using True Some t(1) by (simp add: lt)
    qed
  qed (use Suc.prems lt in \<open>simp add: receives_def\<close>)
qed

lemma missing_u16_ok:
  assumes "\<forall>k \<in> fst ` set m. unat k < 1024" and "unat v \<le> 1024" and "1025 \<le> unat v + n"
  shows "\<exists>r. missing_u16 n m v = Inr r"
  using assms(2,3)
proof (induction n arbitrary: v)
  case (Suc n)
  show ?case
  proof (cases "map_of m v")
    case (Some p)
    then have "unat v < 1024" using assms(1) by (force dest: map_of_SomeD)
    then have "unat (v + 1) = Suc (unat v)" by (simp add: unat_word_ariths)
    then show ?thesis using Suc \<open>unat v < 1024\<close> Some by simp
  qed simp
qed simp

lemma missing_sn_ok:
  assumes "unat k < 1024" and "map_of m k = None" and "sn_ok v" and "(unat k + 1024 - unat (m_value v)) mod 1024 < n"
  shows "\<exists>r. missing_sn n m v = Inr r \<and> sn_ok r \<and> m_modulusBase r = m_modulusBase v"
  using assms(3,4)
proof (induction n arbitrary: v)
  case (Suc n)
  show ?case
  proof (cases "m_value v = k")
    case False
    let ?d = "\<lambda>v. (unat k + 1024 - unat (m_value v)) mod 1024"
    have v: "unat (m_value v) < 1024" "unat (m_value v) \<noteq> unat k"
      using Suc.prems(1) False by (auto simp: sn_ok_def word_unat_eq_iff)
    have "Suc (?d (sn_incr v)) = ?d v"
      using v assms(1) unat_value_incr [OF v(1)] by (auto simp: mod_if)
    then have "?d (sn_incr v) < n" using Suc.prems(2) by simp
    moreover have "sn_ok (sn_incr v)" using Suc.prems(1) by (simp add: sn_ok_def [of v])
    ultimately show ?thesis using Suc.IH [of "sn_incr v"] Suc.prems(1) by auto
  qed (use assms(2) Suc.prems in simp)
qed simp

section \<open>Reception and expiry\<close>

lemma receives_bind:
  assumes "receives s r Q" and "\<And>t. buffer_ok t \<Longrightarrow> reassembly_ok t \<Longrightarrow> frame s t \<Longrightarrow> Q t \<Longrightarrow> receives s (f t) P"
  shows "receives s (res_bind r f) P"
  using assms unfolding receives_def by force

lemma window_start_value [simp]: "unat (m_value (window_start s)) < 1024"
  by (simp add: window_start_def)

lemma sn_ok_window_start: "sn_ok (m_vrUh s) \<Longrightarrow> sn_ok (window_start s)"
  by (simp add: window_start_def sn_ok_def [of "m_vrUh s"])

lemma ok_vr_update [simp]:
  "buffer_ok (s\<lparr>m_vrUh := v\<rparr>) = buffer_ok s" "buffer_ok (s\<lparr>m_vrUr := v\<rparr>) = buffer_ok s"
  "reassembly_ok (s\<lparr>m_vrUh := v\<rparr>) = reassembly_ok s" "reassembly_ok (s\<lparr>m_vrUr := v\<rparr>) = reassembly_ok s"
  "buffer_ok (s\<lparr>m_vrUx := v\<rparr>) = buffer_ok s" "reassembly_ok (s\<lparr>m_vrUx := v\<rparr>) = reassembly_ok s"
  by (simp_all add: buffer_ok_def reassembly_ok_def)

lemma update_window_ok:
  assumes "buffer_ok s" and "reassembly_ok s" and "sn_ok (m_vrUr s)" and "sn_ok (m_vrUh s)" and "sn_ok x"
  shows "receives s (update_window x s) (\<lambda>t. sn_ok (m_vrUr t) \<and> sn_ok (m_vrUh t))"
proof -
  let ?s = "s\<lparr>m_vrUh := SetModulusBase (window_start s) (m_vrUh s)\<rparr>" and ?t = "s\<lparr>m_vrUh := sn_plus x 1\<rparr>"
  have P: "receives s (Inr ?s) (\<lambda>t. sn_ok (m_vrUr t) \<and> sn_ok (m_vrUh t))"
    using assms sn_okD [OF assms(4)] by (simp add: receives_def)
  have "receives s (ReassembleOutsideWindow ?t) (\<lambda>t. sn_ok (m_vrUr t) \<and> sn_ok (m_vrUh t))"
    unfolding ReassembleOutsideWindow_def
    by (rule receives_after [OF reassemble_outside_ok]) (use assms sn_okD [OF assms(5)] in auto)
  then have "receives s (res_bind (ReassembleOutsideWindow ?t) (\<lambda>s.
      res_bind (IsInsideReorderingWindow (m_vrUr s) s) (\<lambda>(inside, s). Inr (if inside then s else s\<lparr>m_vrUr := window_start s\<rparr>))))
    (\<lambda>t. sn_ok (m_vrUr t) \<and> sn_ok (m_vrUh t))"
  proof (rule receives_bind)
    fix t assume t: "buffer_ok t" "reassembly_ok t" "frame s t" "sn_ok (m_vrUr t) \<and> sn_ok (m_vrUh t)"
    then have "IsInsideReorderingWindow (m_vrUr t) t =
      Inr (sn_dist (SetModulusBase (window_start t) (m_vrUr t)) < sn_dist (SetModulusBase (window_start t) (m_vrUh t)),
        t\<lparr>m_vrUh := SetModulusBase (window_start t) (m_vrUh t)\<rparr>)"
      by (intro IsInside_eq) (simp_all add: sn_okD)
    then show "receives s (res_bind (IsInsideReorderingWindow (m_vrUr t) t) (\<lambda>(inside, s).
        Inr (if inside then s else s\<lparr>m_vrUr := window_start s\<rparr>))) (\<lambda>t. sn_ok (m_vrUr t) \<and> sn_ok (m_vrUh t))"
      using t sn_okD [of "m_vrUh t"] by (auto simp: receives_def intro!: sn_ok_window_start)
  qed
  with P show ?thesis using IsInside_eq [OF assms(4) sn_okD(1) [OF assms(5)]] by (simp add: update_window_def)
qed

lemma buffer_keys: "buffer_ok s \<Longrightarrow> \<forall>k \<in> fst ` set (m_rxBuffer s). unat k < 1024"
  by (auto simp: buffer_ok_def)

lemma advance_vrUr_ok:
  assumes "buffer_ok s" and "reassembly_ok s" and "sn_ok (m_vrUr s)"
  shows "receives s (advance_vrUr s) (\<lambda>t. sn_ok (m_vrUr t) \<and> m_vrUh t = m_vrUh s)"
proof -
  note ur = sn_okD [OF assms(3)]
  have "unat (m_value (m_vrUr s) + 1) = Suc (unat (m_value (m_vrUr s)))" using ur(1) by (simp add: unat_word_ariths)
  then obtain r where r: "missing_u16 1025 (m_rxBuffer s) (m_value (m_vrUr s) + 1) = Inr r"
    using missing_u16_ok [OF buffer_keys [OF assms(1)], of "m_value (m_vrUr s) + 1" 1025] ur(1) by auto
  let ?s = "s\<lparr>m_vrUr := sn_assign (m_vrUr s) r\<rparr>"
  have "receives s (ReassembleSnInterval (m_vrUr s) (m_vrUr ?s) ?s) (\<lambda>t. sn_ok (m_vrUr t) \<and> m_vrUh t = m_vrUh s)"
    unfolding ReassembleSnInterval_def
    by (rule receives_after [OF reassemble_interval_ok])
      (use assms ur sn_dist_less [of "m_vrUr ?s"] in \<open>auto intro: less_imp_le trans_le_add2\<close>)
  moreover have "receives s (Inr s) (\<lambda>t. sn_ok (m_vrUr t) \<and> m_vrUh t = m_vrUh s)" using assms by (simp add: receives_def)
  ultimately show ?thesis by (simp add: advance_vrUr_def r Let_def)
qed

lemma pdu_is_discarded_ok:
  assumes "sn_ok x" and "sn_ok (m_vrUr s)" and "sn_ok (m_vrUh s)"
    and "m_modulusBase (m_vrUr s) = m_modulusBase x" and "m_modulusBase (m_vrUh s) = m_modulusBase x"
  shows "pdu_is_discarded x s = Inr
    (sn_dist (m_vrUr s) < sn_dist x \<and> sn_dist x < sn_dist (m_vrUh s) \<and> map_of (m_rxBuffer s) (m_value x) \<noteq> None \<or>
     sn_dist (window_start s) \<le> sn_dist x \<and> sn_dist x < sn_dist (m_vrUr s))"
proof -
  have "m_modulusBase (window_start s) = m_modulusBase x" using assms(5) by (simp add: window_start_def)
  with assms sn_ok_window_start [OF assms(3)] show ?thesis
    by (auto simp: pdu_is_discarded_def sn_lt_dist sn_le_dist)
qed

definition tx_same :: "um \<Rightarrow> um \<Rightarrow> bool" where
  "tx_same s t = (m_txBuffer t = m_txBuffer s \<and> m_txBufferSize t = m_txBufferSize s \<and>
     m_maxTxBufferSize t = m_maxTxBufferSize s \<and> m_sequenceNumber t = m_sequenceNumber s)"

lemma frame_tx_same: "frame s t \<Longrightarrow> tx_same s t"
  by (cases s; cases t) (simp add: frame_def tx_same_def)

lemma reordering_timer_ok:
  assumes "window_ok s" and b: "\<forall>v \<in> {m_vrUr s, m_vrUx s, m_vrUh s}. m_modulusBase v = m_value (window_start s)"
  shows "\<exists>t. reordering_timer s = Inr t \<and> rx_ok t \<and> tx_same s t"
proof -
  have ok: "sn_ok (m_vrUr s)" "sn_ok (m_vrUx s)" "sn_ok (m_vrUh s)" using assms(1) by (auto simp: window_ok_def)
  have uh: "SetModulusBase (window_start s) (m_vrUh s) = m_vrUh s" using b by (simp add: SetModulusBase_def)
  have "IsInsideReorderingWindow (m_vrUx s) s =
      Inr (sn_dist (SetModulusBase (window_start s) (m_vrUx s)) < sn_dist (m_vrUh s), s)"
    using IsInside_eq [OF ok(3) sn_okD(1) [OF ok(2)]] by (simp add: uh)
  then show ?thesis using assms ok
    by (auto simp: reordering_timer_def sn_le_dist sn_gt_dist rx_ok_def tx_same_def window_ok_def buffer_ok_def
        reassembly_ok_def window_start_def)
qed

text \<open>The part of \<open>DoReceivePdu\<close> after the PDU is placed in the buffer.\<close>

definition process_buffer :: "SequenceNumber10 \<Rightarrow> um \<Rightarrow> um res" where
  "process_buffer seqNumber s =
     res_bind (if m_outOfOrderDelivery s then ReassembleOutsideWindow s else Inr s) (\<lambda>s.
     res_bind (update_window seqNumber s) advance_vrUr)"

definition rebase :: "um \<Rightarrow> um" where
  "rebase s =
     (let s = s\<lparr>m_vrUr := SetModulusBase (window_start s) (m_vrUr s)\<rparr>;
          s = s\<lparr>m_vrUx := SetModulusBase (window_start s) (m_vrUx s)\<rparr>
      in s\<lparr>m_vrUh := SetModulusBase (window_start s) (m_vrUh s)\<rparr>)"

lemma process_buffer_ok:
  assumes "buffer_ok s" and "reassembly_ok s" and "sn_ok (m_vrUr s)" and "sn_ok (m_vrUh s)" and "sn_ok x"
  shows "receives s (process_buffer x s) (\<lambda>t. sn_ok (m_vrUr t) \<and> sn_ok (m_vrUh t))"
  unfolding process_buffer_def
proof (rule receives_bind)
  show "receives s (if m_outOfOrderDelivery s then ReassembleOutsideWindow s else Inr s)
      (\<lambda>t. sn_ok (m_vrUr t) \<and> sn_ok (m_vrUh t))"
    using reassemble_outside_ok [OF assms(1,2,4) refl] assms
    by (auto simp: ReassembleOutsideWindow_def receives_def)
next
  fix t assume t: "buffer_ok t" "reassembly_ok t" "frame s t" "sn_ok (m_vrUr t) \<and> sn_ok (m_vrUh t)"
  show "receives s (res_bind (update_window x t) advance_vrUr) (\<lambda>t. sn_ok (m_vrUr t) \<and> sn_ok (m_vrUh t))"
  proof (rule receives_bind)
    show "receives s (update_window x t) (\<lambda>t. sn_ok (m_vrUr t) \<and> sn_ok (m_vrUh t))"
      by (rule receives_after [OF update_window_ok]) (use t assms in auto)
  next
    fix u assume "buffer_ok u" "reassembly_ok u" "frame s u" "sn_ok (m_vrUr u) \<and> sn_ok (m_vrUh u)"
    then show "receives s (advance_vrUr u) (\<lambda>t. sn_ok (m_vrUr t) \<and> sn_ok (m_vrUh t))"
      by (intro receives_after [OF advance_vrUr_ok]) auto
  qed
qed

lemma rebase_ok:
  assumes "buffer_ok s" and "reassembly_ok s" and "sn_ok (m_vrUr s)" and "sn_ok (m_vrUx s)" and "sn_ok (m_vrUh s)"
  shows "window_ok (rebase s)" and "tx_same s (rebase s)"
    and "\<forall>v \<in> {m_vrUr (rebase s), m_vrUx (rebase s), m_vrUh (rebase s)}. m_modulusBase v = m_value (window_start (rebase s))"
  using assms sn_okD [OF assms(3)] sn_okD [OF assms(4)] sn_okD [OF assms(5)]
  by (simp_all add: rebase_def Let_def window_ok_def tx_same_def window_start_def)

lemma DoReceivePdu_eq:
  assumes "carries (pdu_bytes p) fi sn chunks" and "pdu_tag p = Some t"
  shows "DoReceivePdu now p s =
    (let s = emit (RxPduTrace (GetSize (pdu_bytes p)) (now - t)) s;
         s = s\<lparr>m_vrUr := SetModulusBase (window_start s) (m_vrUr s)\<rparr>;
         s = s\<lparr>m_vrUh := SetModulusBase (window_start s) (m_vrUh s)\<rparr>;
         x = SetModulusBase (window_start s) (SN sn)
     in res_bind (pdu_is_discarded x s) (\<lambda>discarded.
       if discarded then Inr s
       else res_bind (process_buffer x (s\<lparr>m_rxBuffer := smap_put (m_value x) p (m_rxBuffer s)\<rparr>)) (\<lambda>s.
         reordering_timer (rebase s))))"
proof -
  obtain h where "Deserialize (pdu_bytes p) = Inr h" "h_sequenceNumber h = SN sn"
    using assms(1) by (auto simp: carries_def)
  then show ?thesis using assms(2)
    by (simp add: DoReceivePdu_def process_buffer_def rebase_def Let_def res_bind_def split: sum.split)
qed

lemma SN_mod: "SN (sn mod 1024) = SN sn"
  by (simp add: SN_def word_unat_eq_iff)

lemma carries_mod: "carries b fi sn chunks \<Longrightarrow> carries b fi (sn mod 1024) chunks"
  by (simp add: carries_def SN_mod)

lemma buffer_ok_put:
  assumes "buffer_ok s" and "carries (pdu_bytes p) fi sn chunks"
  shows "buffer_ok (s\<lparr>m_rxBuffer := smap_put (sn mod 1024) p (m_rxBuffer s)\<rparr>)"
proof -
  have "set (smap_put k p m) \<subseteq> insert (k, p) (set m)" for k :: u16 and m
    by (induction m) (auto split: if_splits)
  with assms carries_mod [OF assms(2)] show ?thesis by (fastforce simp: buffer_ok_def)
qed

lemma DoReceivePdu_ok:
  assumes "rx_ok s" and c: "carries (pdu_bytes p) fi sn chunks" and "pdu_tag p = Some t0"
  shows "\<exists>t. DoReceivePdu now p s = Inr t \<and> rx_ok t \<and> tx_same s t"
proof -
  let ?e = "emit (RxPduTrace (GetSize (pdu_bytes p)) (now - t0)) s"
  let ?u = "?e\<lparr>m_vrUr := SetModulusBase (window_start ?e) (m_vrUr ?e)\<rparr>"
  let ?s = "?u\<lparr>m_vrUh := SetModulusBase (window_start ?u) (m_vrUh ?u)\<rparr>"
  let ?x = "SetModulusBase (window_start ?s) (SN sn)"
  let ?p = "?s\<lparr>m_rxBuffer := smap_put (m_value ?x) p (m_rxBuffer ?s)\<rparr>"
  have s: "buffer_ok s" "reassembly_ok s" "sn_ok (m_vrUr s)" "sn_ok (m_vrUx s)" "sn_ok (m_vrUh s)"
    using assms(1) by (auto simp: rx_ok_def window_ok_def)
  have ok: "sn_ok ?x" "sn_ok (m_vrUr ?s)" "sn_ok (m_vrUh ?s)" "m_modulusBase (m_vrUr ?s) = m_modulusBase ?x"
    "m_modulusBase (m_vrUh ?s) = m_modulusBase ?x"
    using s(3,5) by (auto simp: sn_okD window_start_def emit_def)
  have same: "rx_ok ?s" "tx_same s ?s" "m_vrUx ?p = m_vrUx s" "tx_same s ?p" "buffer_ok ?s" "reassembly_ok ?p"
    using assms(1) s sn_okD [OF s(3)] sn_okD [OF s(5)]
    by (auto simp: rx_ok_def window_ok_def buffer_ok_def reassembly_ok_def emit_def tx_same_def window_start_def)
  have "buffer_ok ?p" using buffer_ok_put [OF same(5) c] by simp
  then obtain t where t: "process_buffer ?x ?p = Inr t" "buffer_ok t" "reassembly_ok t" "frame ?p t"
    "sn_ok (m_vrUr t)" "sn_ok (m_vrUh t)"
    using process_buffer_ok [of ?p ?x] same(6) ok unfolding receives_def by auto
  have ux: "sn_ok (m_vrUx t)" using frame_sel [OF t(4)] same(3) s(4) by simp
  note rb = rebase_ok [OF t(2,3,5) ux t(6)]
  obtain u where u: "reordering_timer (rebase t) = Inr u" "rx_ok u" "tx_same (rebase t) u"
    using reordering_timer_ok [OF rb(1,3)] by auto
  have "tx_same s u" using u(3) rb(2) frame_tx_same [OF t(4)] same(4) by (simp add: tx_same_def)
  then show ?thesis
    using pdu_is_discarded_ok [OF ok] same(1,2) t(1) u(1,2) by (simp add: DoReceivePdu_eq [OF c assms(3)] Let_def)
qed

lemma ExpireReorderingTimer_ok:
  assumes "rx_ok s" and "m_reorderingTimer s" and "unat k < 1024" and "map_of (m_rxBuffer s) k = None"
  shows "\<exists>t. ExpireReorderingTimer s = Inr t \<and> rx_ok t \<and> tx_same s t"
proof -
  let ?s = "s\<lparr>m_reorderingTimer := False\<rparr>"
  have s: "buffer_ok s" "reassembly_ok s" "sn_ok (m_vrUr s)" "sn_ok (m_vrUx s)" "sn_ok (m_vrUh s)"
    and b: "m_modulusBase (m_vrUr s) = m_value (window_start s)" "m_modulusBase (m_vrUx s) = m_value (window_start s)"
      "m_modulusBase (m_vrUh s) = m_value (window_start s)"
    using assms(1,2) by (auto simp: rx_ok_def window_ok_def)
  obtain r where r: "missing_sn 1025 (m_rxBuffer s) (m_vrUx s) = Inr r" "sn_ok r" "m_modulusBase r = m_modulusBase (m_vrUx s)"
    using missing_sn_ok [OF assms(3,4) s(4), of 1025] by (auto simp: less_trans [OF mod_less_divisor])
  let ?r = "?s\<lparr>m_vrUr := r\<rparr>"
  have "receives ?r (ReassembleSnInterval (m_vrUr s) r ?r) (\<lambda>t. m_vrUr t = m_vrUr ?r \<and> m_vrUh t = m_vrUh ?r)"
    unfolding ReassembleSnInterval_def
    by (rule reassemble_interval_ok)
      (use s b r sn_dist_less [of r] in \<open>auto simp: buffer_ok_def reassembly_ok_def intro: less_imp_le trans_le_add2\<close>)
  then obtain t where t: "ReassembleSnInterval (m_vrUr s) r ?r = Inr t" "buffer_ok t" "reassembly_ok t" "frame ?r t"
    "m_vrUr t = r" "m_vrUh t = m_vrUh s"
    unfolding receives_def by auto
  have sel: "m_vrUx t = m_vrUx s" "m_windowSize t = m_windowSize s" "tx_same s t" "m_reorderingTimer t = False"
    using frame_sel [OF t(4)] frame_tx_same [OF t(4)] by (auto simp: tx_same_def)
  have "sn_gt (m_vrUh t) (m_vrUr t) = Inr (sn_dist (m_vrUr t) < sn_dist (m_vrUh t))"
    using s b r t by (intro sn_gt_dist) auto
  then show ?thesis using s b r t sel
    by (auto simp: ExpireReorderingTimer_def Let_def rx_ok_def window_ok_def buffer_ok_def reassembly_ok_def tx_same_def
        window_start_def)
qed

end
