(* ===== verification/NrRlcLink.thy ===== *)
theory NrRlcLink
  imports NrRlcWindow "HOL-Library.Sublist"
begin

text \<open>
  Two RLC entities joined by a link: SDUs given to the transmitting entity are segmented into whatever
  opportunities the MAC offers, carried as PDUs, and reassembled by the receiving entity. Without loss the
  SDUs come out complete and in order; with loss every SDU that comes out is one that went in.
\<close>

section \<open>The stream of SDUs\<close>

text \<open>
  \<open>resume u ps\<close> are the SDUs to come when \<open>ps\<close> is still to be sent and \<open>u\<close> is the part of the first one that
  has been sent.
\<close>

definition resume :: "bytes option \<Rightarrow> bytes list \<Rightarrow> bytes list" where
  "resume u ps = (case u of None \<Rightarrow> ps | Some k \<Rightarrow> (k @ hd ps) # tl ps)"

definition queue_data :: "(segment \<times> Time) list \<Rightarrow> bytes list" where
  "queue_data q = map seg_data (map fst q)"

lemma queue_data_simps [simp]: "queue_data [] = []" "queue_data (e # q) = seg_data (fst e) # queue_data q"
  "queue_data (q @ q') = queue_data q @ queue_data q'"
  by (simp_all add: queue_data_def)

definition head_is_rest :: "(segment \<times> Time) list \<Rightarrow> bool" where
  "head_is_rest q = (q \<noteq> [] \<and> seg_status (fst (hd q)) = LAST_SEGMENT)"

lemma resume_simps [simp]: "resume None ps = ps" "resume (Some k) (p # ps) = (k @ p) # ps"
  by (simp_all add: resume_def)

lemma resume_append: "ps \<noteq> [] \<Longrightarrow> resume u (ps @ qs) = resume u ps @ qs"
  by (cases ps) (auto simp: resume_def split: option.split)

lemma resume_eq_Nil: "resume u ps = [] \<longleftrightarrow> u = None \<and> ps = []"
  by (simp add: resume_def split: option.split)

lemma resume_cut:
  "resume u (cs @ (a @ b) # ds) =
    butlast (resume u (cs @ [a])) @ (last (resume u (cs @ [a])) @ b) # ds"
  by (cases cs) (auto simp: resume_def butlast_append split: option.split)

lemma joined_resume: "chunks \<noteq> [] \<Longrightarrow> (u = None \<longleftrightarrow> starts) \<Longrightarrow> joined False u starts chunks = resume u chunks"
  by (cases u) (auto simp: joined_def resume_def)

lemma framing_starts: "starts_sdu (framing_info segs) \<longleftrightarrow> seg_status (hd segs) = FULL_SDU \<or> seg_status (hd segs) = FIRST_SEGMENT"
  by (simp add: framing_info_def framing_defs)

lemma framing_ends: "ends_sdu (framing_info segs) \<longleftrightarrow> seg_status (last segs) = FULL_SDU \<or> seg_status (last segs) = LAST_SEGMENT"
  by (simp add: framing_info_def framing_defs)

text \<open>
  A PDU moves the boundary between what has been sent and what is to come: the abstract reassembly of its
  chunks yields the SDUs that it completes and the part of the next one.
\<close>

lemma split_starts:
  assumes "tx_split q segs q'" and "segs \<noteq> []" and "\<forall>e \<in> set q. seg_ok (fst e)"
  shows "starts_sdu (framing_info segs) \<longleftrightarrow> \<not> head_is_rest q"
  using assms(1) unfolding tx_split_def
proof (elim disjE exE conjE)
  fix w assume "q = w @ q'" "segs = map fst w"
  then show ?thesis using assms(2,3) by (cases w) (auto simp: framing_starts head_is_rest_def seg_ok_def)
next
  fix w g t rest a b
  assume "q = w @ (g, t) # rest"
    and "segs = map fst w @ [\<lparr>seg_data = a, seg_status = (if seg_status g = FULL_SDU then FIRST_SEGMENT else MIDDLE_SEGMENT)\<rparr>]"
  then show ?thesis using assms(3) by (cases w) (auto simp: framing_starts head_is_rest_def seg_ok_def)
qed

lemma split_advances:
  assumes split: "tx_split q segs q'" and segs: "segs \<noteq> []"
    and ok: "\<forall>e \<in> set q. seg_ok (fst e)" "\<forall>e \<in> set (tl q). seg_status (fst e) = FULL_SDU"
    and u: "u \<noteq> None \<longleftrightarrow> head_is_rest q"
    and absorb: "absorb False u (starts_sdu (framing_info segs)) (ends_sdu (framing_info segs)) (map seg_data segs) = (ps, u')"
  shows "resume u (queue_data q) = ps @ resume u' (queue_data q') \<and> (u' \<noteq> None \<longleftrightarrow> head_is_rest q')"
proof -
  let ?r = "resume u (map seg_data segs)"
  have "joined False u (starts_sdu (framing_info segs)) (map seg_data segs) = ?r"
    by (rule joined_resume) (use split_starts [OF split segs ok(1)] segs u in auto)
  note absorb = absorb [unfolded absorb_def this Let_def]
  show ?thesis using split unfolding tx_split_def
  proof (elim disjE exE conjE)
    fix w assume w: "q = w @ q'" "segs = map fst w"
    have "ends_sdu (framing_info segs)" using w ok(1) segs
      by (cases w rule: rev_cases) (auto simp: framing_ends seg_ok_def)
    moreover have "set q' \<subseteq> set (tl q)" using w segs by (cases w) auto
    ultimately show ?thesis using absorb w segs ok(2) resume_append [of "map seg_data segs" u "queue_data q'"]
      by (cases q') (auto simp: head_is_rest_def queue_data_def [of w])
  next
    fix w g t rest a b
    assume c: "q = w @ (g, t) # rest" "seg_data g = a @ b" "a \<noteq> []" "b \<noteq> []"
      "segs = map fst w @ [\<lparr>seg_data = a, seg_status = (if seg_status g = FULL_SDU then FIRST_SEGMENT else MIDDLE_SEGMENT)\<rparr>]"
      "q' = (\<lparr>seg_data = b, seg_status = LAST_SEGMENT\<rparr>, t) # rest"
    have "\<not> ends_sdu (framing_info segs)" using c by (simp add: framing_ends)
    then have "ps = butlast ?r" "u' = Some (last ?r)" using absorb segs by (auto simp: resume_eq_Nil)
    moreover have "?r = resume u (queue_data w @ [a])" using c by (simp add: queue_data_def)
    ultimately show ?thesis using c resume_cut [of u "queue_data w" a b "queue_data rest"] by (simp add: head_is_rest_def)
  qed
qed

section \<open>Reception in order\<close>

text \<open>The receiver waits for the sequence number \<open>sn\<close> and holds no PDU back.\<close>

definition rx_sync :: "u16 \<Rightarrow> um \<Rightarrow> bool" where
  "rx_sync sn s = (unat sn < 1024 \<and> m_value (m_vrUr s) = sn \<and> m_value (m_vrUh s) = sn \<and>
     m_value (m_expectedSeqNumber s) = sn \<and> m_windowSize s = 512 \<and> rx_ok s \<and> \<not> m_reorderingTimer s \<and>
     \<not> m_outOfOrderDelivery s \<and> m_rxBuffer s = [] \<and> m_sdusBuffer s = [])"

lemma rx_sync_new: "rx_sync 0 (NrRlcUm_new budget)"
  using rx_ok_new [of budget] by (simp add: rx_sync_def NrRlcUm_new_def)

lemma unat_window_start: "unat ((u - 512) mod 1024 :: u16) = (unat u + 512) mod 1024"
proof -
  have "u - 512 = u + 65024" by simp
  then have "unat (u - 512) = (unat u + 65024) mod 65536" by (simp only: unat_word_ariths) simp
  then have "unat ((u - 512) mod 1024) = (unat u + 65024) mod 65536 mod 1024" by simp
  also have "\<dots> = (unat u + 65024) mod 1024" by (rule mod_mod_cancel) simp
  also have "\<dots> = (unat u + 512 + 63 * 1024) mod 1024" by (simp add: add.commute)
  also have "\<dots> = (unat u + 512) mod 1024" by (rule mod_mult_self1)
  finally show ?thesis .
qed

lemma dist_at_end:
  assumes "unat v < 1024" and "m_value a = v" and "m_modulusBase a = (v - 512) mod 1024"
  shows "sn_dist a = 512"
proof -
  have "(unat v + 1024 - (unat v + 512) mod 1024) mod 1024 = 512" using assms(1) by (auto simp: mod_if)
  then show ?thesis by (simp only: sn_dist_def assms unat_window_start)
qed

lemma dist_before_end:
  assumes "unat v < 1024" and "m_value a = v" and "m_modulusBase a = ((v + 1) mod 1024 - 512) mod 1024"
  shows "sn_dist a = 511"
proof -
  have "unat ((v + 1) mod 1024) = Suc (unat v) mod 1024" using assms(1) by (simp add: unat_word_ariths)
  then have b: "unat (m_modulusBase a) = (Suc (unat v) mod 1024 + 512) mod 1024" by (simp only: assms(3) unat_window_start)
  have "(unat v + 1024 - (Suc (unat v) mod 1024 + 512) mod 1024) mod 1024 = 511" using assms(1) by (auto simp: mod_if)
  then show ?thesis by (simp only: sn_dist_def assms(2) b)
qed

lemma interval_single:
  assumes "sn_ok a" and "sn_dist a < 1023" and "map_of (m_rxBuffer s) (m_value a) = Some p"
    and "ReassembleAndDeliver (pdu_bytes p) s = Inr t"
  shows "ReassembleSnInterval a (sn_incr a) s =
    Inr (t\<lparr>m_rxBuffer := filter (\<lambda>kv. fst kv \<noteq> m_value a) (m_rxBuffer t)\<rparr>)"
proof -
  have ok: "sn_ok (sn_incr a)" using assms(1) by (simp add: sn_okD)
  have "sn_lt a (sn_incr a) = Inr True"
    using sn_lt_dist [OF assms(1) ok] sn_dist_incr [OF assms(1,2)] by simp
  moreover have "sn_lt (sn_incr a) (sn_incr a) = Inr False" using sn_lt_dist [OF ok ok] by simp
  then have "reassemble_interval n (sn_incr a) (sn_incr a) u = Inr u" for n u by (cases n) simp_all
  moreover have "(1024 :: nat) = Suc 1023" by simp
  ultimately show ?thesis unfolding ReassembleSnInterval_def using assms(3,4) by (simp only: reassemble_interval.simps) simp
qed

text \<open>The window moves by one, and VR(UR) with it.\<close>

lemma update_window_in_order:
  assumes "unat sn < 1024" and "m_windowSize s = 512" and "m_rxBuffer s = [(sn, p)]"
    and "m_vrUr s = v" and "m_vrUh s = v" and v: "v = \<lparr>m_value = sn, m_modulusBase = (sn - 512) mod 1024\<rparr>"
  shows "update_window v s =
    Inr (s\<lparr>m_vrUh := \<lparr>m_value = (sn + 1) mod 1024, m_modulusBase = ((sn + 1) mod 1024 - 512) mod 1024\<rparr>\<rparr>)"
proof -
  have ok: "sn_ok v" by (simp add: v sn_ok_def assms(1))
  have start: "m_value (window_start t) = (m_value (m_vrUh t) - 512) mod 1024" if "m_windowSize t = 512" for t
    using that by (simp add: window_start_def)
  let ?w = "\<lparr>m_value = (sn + 1) mod 1024, m_modulusBase = ((sn + 1) mod 1024 - 512) mod 1024\<rparr>"
  let ?s = "s\<lparr>m_vrUh := sn_plus v 1\<rparr>" and ?t = "s\<lparr>m_vrUh := ?w\<rparr>"
  have outside: "IsInsideReorderingWindow v s = Inr (False, s)"
    using IsInside_eq [of s v] ok assms start [of s] by (simp add: SetModulusBase_def sn_ok_def)
  have uh: "SetModulusBase (window_start ?s) (m_vrUh ?s) = ?w" using start [of ?s] assms(2) by (simp add: SetModulusBase_def sn_plus_def v)
  have wt: "SetModulusBase (window_start ?t) (m_vrUh ?t) = ?w" using start [of ?t] assms(2) by (simp add: SetModulusBase_def)
  have d: "sn_dist ?w = 512" by (rule dist_at_end) (simp_all add: unat_word_ariths)
  have l: "sn_dist (SetModulusBase (window_start u) x) = 511" if "m_value x = sn" "m_value (m_vrUh u) = (sn + 1) mod 1024" "m_windowSize u = 512" for u x
    by (rule dist_before_end [OF assms(1)]) (use that start [of u] in simp_all)
  have "IsInsideReorderingWindow (SN sn) ?s = Inr (True, ?t)"
    using IsInside_eq [of ?s "SN sn"] ok assms(1,2) d l [of "SN sn" ?s] unfolding uh
    by (simp add: v sn_ok_def sn_plus_def word_unat_eq_iff)
  moreover have "IsInsideReorderingWindow v ?t = Inr (True, ?t)"
    using IsInside_eq [of ?t v] assms(1,2) d l [of v ?t] unfolding wt by (simp add: v sn_ok_def)
  ultimately show ?thesis using outside assms(3,4)
    by (simp add: update_window_def ReassembleOutsideWindow_def)
qed

lemma missing_u16_here: "map_of m v = None \<Longrightarrow> 0 < n \<Longrightarrow> missing_u16 n m v = Inr v"
  by (cases n) simp_all

lemma word_add_1_neq: "v + 1 \<noteq> (v :: u16)"
  by simp

lemma process_in_order:
  assumes "unat sn < 1024" and "m_windowSize s = 512" and "m_rxBuffer s = [(sn, p)]" and "\<not> m_outOfOrderDelivery s"
    and "m_vrUr s = v" and "m_vrUh s = v" and v: "v = \<lparr>m_value = sn, m_modulusBase = (sn - 512) mod 1024\<rparr>"
    and w: "w = \<lparr>m_value = (sn + 1) mod 1024, m_modulusBase = ((sn + 1) mod 1024 - 512) mod 1024\<rparr>"
    and t: "ReassembleAndDeliver (pdu_bytes p) (s\<lparr>m_vrUh := w, m_vrUr := sn_incr v\<rparr>) = Inr t"
  shows "process_buffer v s = Inr (t\<lparr>m_rxBuffer := filter (\<lambda>kv. fst kv \<noteq> sn) (m_rxBuffer t)\<rparr>)"
proof -
  let ?s = "s\<lparr>m_vrUh := w\<rparr>"
  have ok: "sn_ok v" by (simp add: v sn_ok_def assms(1))
  have d: "sn_dist v < 1023" using dist_at_end [OF assms(1), of v] by (simp add: v)
  have "sn_assign v (sn + 1) = sn_incr v" by (simp add: v sn_assign_def sn_incr_def)
  moreover have "missing_u16 1025 [(sn, p)] (sn + 1) = Inr (sn + 1)"
    by (rule missing_u16_here) (simp_all add: word_add_1_neq)
  moreover have "ReassembleSnInterval v (sn_incr v) (?s\<lparr>m_vrUr := sn_incr v\<rparr>) =
      Inr (t\<lparr>m_rxBuffer := filter (\<lambda>kv. fst kv \<noteq> m_value v) (m_rxBuffer t)\<rparr>)"
    by (rule interval_single [OF ok d _ t]) (simp add: assms(3) v)
  ultimately have "advance_vrUr ?s = Inr (t\<lparr>m_rxBuffer := filter (\<lambda>kv. fst kv \<noteq> sn) (m_rxBuffer t)\<rparr>)"
    using assms(3,5) by (simp add: advance_vrUr_def v Let_def)
  moreover have "update_window v s = Inr ?s"
    unfolding w by (rule update_window_in_order) (use assms in simp_all)
  ultimately show ?thesis using assms(4) by (simp add: process_buffer_def)
qed

lemma sn_gt_refl [simp]: "sn_gt a a = Inr False"
  by (simp add: sn_gt_def)

lemma timer_in_order:
  assumes "m_value (m_vrUr t) = m_value (m_vrUh t)" and "\<not> m_reorderingTimer t"
  shows "reordering_timer (rebase t) = Inr (rebase t)"
proof -
  have "m_vrUr (rebase t) = m_vrUh (rebase t)" using assms(1) by (simp add: rebase_def Let_def SetModulusBase_def window_start_def)
  moreover have "\<not> m_reorderingTimer (rebase t)" using assms(2) by (simp add: rebase_def Let_def)
  ultimately show ?thesis by (simp add: reordering_timer_def)
qed

lemma DoReceivePdu_in_order:
  assumes sync: "rx_sync sn s" and c: "carries (pdu_bytes p) fi sn chunks" and tag: "pdu_tag p = Some t0"
    and k: "kept_part s = None \<or> \<not> starts_sdu fi"
  shows "\<exists>t. DoReceivePdu now p s = Inr t \<and> rx_sync ((sn + 1) mod 1024) t \<and>
    (delivered t, kept_part t) =
      (let (ps, k) = absorb False (kept_part s) (starts_sdu fi) (ends_sdu fi) chunks in (delivered s @ ps, k))"
proof -
  have sn: "unat sn < 1024" "sn mod 1024 = sn" using sync by (simp_all add: rx_sync_def word_unat_eq_iff)
  let ?v = "\<lparr>m_value = sn, m_modulusBase = (sn - 512) mod 1024\<rparr>"
  let ?w = "\<lparr>m_value = (sn + 1) mod 1024, m_modulusBase = ((sn + 1) mod 1024 - 512) mod 1024\<rparr>"
  define s1 where "s1 = (emit (RxPduTrace (GetSize (pdu_bytes p)) (now - t0)) s)\<lparr>m_vrUr := ?v, m_vrUh := ?v\<rparr>"
  have base: "SetModulusBase (window_start (emit (RxPduTrace (GetSize (pdu_bytes p)) (now - t0)) s))
        (m_vrUr (emit (RxPduTrace (GetSize (pdu_bytes p)) (now - t0)) s)) = ?v"
    "SetModulusBase (window_start ((emit (RxPduTrace (GetSize (pdu_bytes p)) (now - t0)) s)\<lparr>m_vrUr := ?v\<rparr>))
        (m_vrUh ((emit (RxPduTrace (GetSize (pdu_bytes p)) (now - t0)) s)\<lparr>m_vrUr := ?v\<rparr>)) = ?v"
    "(emit (RxPduTrace (GetSize (pdu_bytes p)) (now - t0)) s)\<lparr>m_vrUr := ?v, m_vrUh := ?v\<rparr> = s1"
    "SetModulusBase (window_start s1) (SN sn) = ?v"
    using sync by (simp_all add: SetModulusBase_def window_start_def emit_def rx_sync_def s1_def SN_def sn(2)
        SequenceNumber10.equality)
  define s2 where "s2 = s1\<lparr>m_rxBuffer := [(sn, p)]\<rparr>"
  define s4 where "s4 = s2\<lparr>m_vrUh := ?w, m_vrUr := sn_incr ?v\<rparr>"
  have k4: "kept_part s4 = kept_part s" "delivered s4 = delivered s" "reassembly_ok s4" "m_sdusBuffer s4 = []"
    "m_value (m_expectedSeqNumber s4) = sn" "m_rxBuffer s4 = [(sn, p)]"
    using sync by (auto simp: s4_def s2_def s1_def emit_def kept_part_def delivered_def reassembly_ok_def rx_sync_def rx_ok_def
        window_ok_def sdu_of_def List.map_filter_def)
  obtain t where t: "ReassembleAndDeliver (pdu_bytes p) s4 = Inr t" "m_sdusBuffer t = []" "reassembly_ok t" "same_window s4 t"
    "m_value (m_expectedSeqNumber t) = (sn + 1) mod 1024"
    "(delivered t, kept_part t) =
      (let (ps, k) = absorb False (kept_part s) (starts_sdu fi) (ends_sdu fi) chunks in (delivered s @ ps, k))"
    using ReassembleAndDeliver_refines [OF c k4(3,4)] k k4(1,2,5) sn(2) by auto
  note f = frame_same_window [OF t(4)]
  define t5 where "t5 = t\<lparr>m_rxBuffer := []\<rparr>"
  have process: "process_buffer ?v s2 = Inr t5"
    using process_in_order [OF sn(1) _ _ _ _ _ refl refl t(1) [unfolded s4_def]] sync f k4(6)
    by (simp add: t5_def s2_def s1_def emit_def rx_sync_def)
  have t5: "m_vrUr t5 = sn_incr ?v" "m_vrUh t5 = ?w" "m_windowSize t5 = 512" "\<not> m_reorderingTimer t5" "\<not> m_outOfOrderDelivery t5"
    using f frame_sel [OF conjunct1 [OF f]] sync by (auto simp: t5_def s4_def s2_def s1_def emit_def rx_sync_def)
  have "pdu_is_discarded ?v s1 = Inr False"
    by (subst pdu_is_discarded_ok) (simp_all add: s1_def sn_ok_def sn(1))
  moreover have "smap_put sn p (m_rxBuffer s1) = [(sn, p)]" using sync by (simp add: s1_def emit_def rx_sync_def)
  ultimately have receive: "DoReceivePdu now p s = Inr (rebase t5)"
    using process timer_in_order [of t5] t5 unfolding DoReceivePdu_eq [OF c tag] Let_def base
    by (simp add: s2_def sn_incr_def)
  have "rx_sync ((sn + 1) mod 1024) (rebase t5)"
    using DoReceivePdu_ok [of s p fi sn chunks t0 now] receive sync c tag t(2,5) t5
    by (simp add: rx_sync_def rebase_def Let_def t5_def sn_incr_def unat_word_ariths)
  moreover have "delivered (rebase t5) = delivered t" "kept_part (rebase t5) = kept_part t"
    by (simp_all add: rebase_def Let_def t5_def delivered_def kept_part_def)
  ultimately show ?thesis using receive t(6) by simp
qed

section \<open>What has been sent\<close>

text \<open>
  Of the accepted SDUs, \<open>done\<close> are those that have been sent completely, and \<open>u\<close> is the part sent of the SDU
  at the head of the buffer.
\<close>

definition stream :: "um \<Rightarrow> bytes list \<Rightarrow> bytes list \<Rightarrow> bytes option \<Rightarrow> bool" where
  "stream s acc done u =
     (tx_ok s \<and> (u \<noteq> None \<longleftrightarrow> head_is_rest (m_txBuffer s)) \<and> acc = done @ resume u (queue_data (m_txBuffer s)))"

definition pdu_of :: "sap_call \<Rightarrow> rlc_pdu option" where
  "pdu_of c = (case c of TransmitPdu p \<Rightarrow> Some p | _ \<Rightarrow> None)"

definition sent_pdus :: "um \<Rightarrow> um \<Rightarrow> rlc_pdu list" where
  "sent_pdus s t = List.map_filter pdu_of (drop (length (calls s)) (calls t))"

definition offered :: "bytes \<Rightarrow> um \<Rightarrow> bytes list" where
  "offered p s = (if has_room p s then [p] else [])"

lemma stream_store:
  assumes "stream s acc done u" and "p \<noteq> []" and "length p < 2 ^ 31"
  shows "stream (DoTransmitPdcpPdu now p s) (acc @ offered p s) done u"
  using assms store_keeps_tx_ok [of s p now] resume_append [of "queue_data (m_txBuffer s)" u "[p]"]
  by (cases "m_txBuffer s") (auto simp: stream_def offered_def DoTransmitPdcpPdu_effect head_is_rest_def)

lemma opportunity_idle: "n \<le> 2 \<or> m_txBuffer s = [] \<Longrightarrow> DoNotifyTxOpportunity now n s = Inr s \<and> sent_pdus s s = []"
  by (auto simp: DoNotifyTxOpportunity_def sent_pdus_def List.map_filter_def)

lemma sent_when:
  assumes "DoNotifyTxOpportunity now n s = Inr t" and "sent_pdus s t = [p]"
  shows "2 < n" and "m_txBuffer s \<noteq> []"
proof -
  have "\<not> (n \<le> 2 \<or> m_txBuffer s = [])" using opportunity_idle [of n s now] assms by auto
  then show "2 < n" and "m_txBuffer s \<noteq> []" by auto
qed

definition sends_next :: "Time \<Rightarrow> u32 \<Rightarrow> bytes list \<Rightarrow> bytes list \<Rightarrow> bytes option \<Rightarrow> um \<Rightarrow> um \<Rightarrow> bytes \<Rightarrow> u8 \<Rightarrow> bytes list \<Rightarrow> bool" where
  "sends_next now n acc done u s t b fi chunks =
     (DoNotifyTxOpportunity now n s = Inr t \<and> sent_pdus s t = [\<lparr>pdu_bytes = b, pdu_tag = Some now\<rparr>] \<and> length b \<le> unat n \<and>
      carries b fi (m_value (m_sequenceNumber s)) chunks \<and> (u = None \<longleftrightarrow> starts_sdu fi) \<and>
      m_value (m_sequenceNumber t) = (m_value (m_sequenceNumber s) + 1) mod 1024 \<and>
      data_size (m_txBuffer t) < data_size (m_txBuffer s) \<and>
      (let (ps, u') = absorb False u (starts_sdu fi) (ends_sdu fi) chunks in stream t acc (done @ ps) u'))"

lemma sum_lengths_pos: "segs \<noteq> [] \<Longrightarrow> \<forall>g \<in> set segs. seg_data g \<noteq> [] \<Longrightarrow> 0 < (\<Sum>g\<leftarrow>segs. length (seg_data g))"
  by (cases segs) auto

lemma stream_send:
  assumes st: "stream s acc done u" and n: "2 < n" "header_fits n s" and q: "m_txBuffer s \<noteq> []"
  shows "\<exists>t b fi chunks. sends_next now n acc done u s t b fi chunks"
proof -
  have ok: "tx_ok s" "u \<noteq> None \<longleftrightarrow> head_is_rest (m_txBuffer s)" using st by (auto simp: stream_def)
  note tx = ok(1) [unfolded tx_ok_def]
  obtain segs q' b timer where send: "DoNotifyTxOpportunity now n s =
      Inr (s\<lparr>m_txBuffer := q', m_txBufferSize := of_nat (data_size q'), m_sequenceNumber := sn_incr (m_sequenceNumber s),
        m_bsrTimer := timer,
        calls := calls s @ [TxPduTrace (GetSize b), TransmitPdu \<lparr>pdu_bytes = b, pdu_tag = Some now\<rparr>]\<rparr>)"
    (is "_ = Inr ?t")
    and split: "tx_split (m_txBuffer s) segs q'" and segs: "segs \<noteq> []" "\<forall>g \<in> set segs. seg_data g \<noteq> []"
    and b: "length b \<le> unat n" "carries b (framing_info segs) (m_value (m_sequenceNumber s)) (map seg_data segs)"
    using DoNotifyTxOpportunity_sends [OF ok(1) n(1) q n(2), of now] by blast
  let ?fi = "framing_info segs"
  obtain ps u' where a: "absorb False u (starts_sdu ?fi) (ends_sdu ?fi) (map seg_data segs) = (ps, u')" by fastforce
  have adv: "resume u (queue_data (m_txBuffer s)) = ps @ resume u' (queue_data q')" "u' \<noteq> None \<longleftrightarrow> head_is_rest q'"
    using split_advances [OF split segs(1) _ _ ok(2) a] tx by auto
  have keep: "\<forall>e \<in> set q'. seg_ok (fst e)" "\<forall>e \<in> set (tl q'). seg_status (fst e) = FULL_SDU"
    "data_size (m_txBuffer s) = data_size q' + (\<Sum>g\<leftarrow>segs. length (seg_data g))"
    using tx_split_keeps [OF split] tx by blast+
  have "tx_ok ?t" using tx keep by (auto simp: tx_ok_def word_less_nat_alt)
  then have "stream ?t acc (done @ ps) u'" using st adv by (simp add: stream_def)
  moreover have "sent_pdus s ?t = [\<lparr>pdu_bytes = b, pdu_tag = Some now\<rparr>]"
    by (simp add: sent_pdus_def pdu_of_def List.map_filter_def)
  moreover have "u = None \<longleftrightarrow> starts_sdu ?fi" using split_starts [OF split segs(1)] tx ok(2) by blast
  ultimately have "sends_next now n acc done u s ?t b ?fi (map seg_data segs)"
    unfolding sends_next_def using send b a keep(3) sum_lengths_pos [OF segs] by simp
  then show ?thesis by blast
qed

section \<open>A link without loss\<close>

record link =
  l_tx :: um
  l_rx :: um
  l_accepted :: "bytes list"

datatype link_event = SduArrives Time bytes | TxOpportunity Time u32

fun link_step :: "link \<Rightarrow> link_event \<Rightarrow> link res" where
  "link_step l (SduArrives now p) =
     Inr (l\<lparr>l_tx := DoTransmitPdcpPdu now p (l_tx l), l_accepted := l_accepted l @ offered p (l_tx l)\<rparr>)"
| "link_step l (TxOpportunity now n) =
     res_bind (DoNotifyTxOpportunity now n (l_tx l)) (\<lambda>t.
     res_bind (for_each (\<lambda>r p. DoReceivePdu now p r) (sent_pdus (l_tx l) t) (l_rx l)) (\<lambda>r.
       Inr (l\<lparr>l_tx := t, l_rx := r\<rparr>)))"

definition link_run :: "link_event list \<Rightarrow> link \<Rightarrow> link res" where
  "link_run evs l = for_each link_step evs l"

definition link_new :: "u16 \<Rightarrow> link" where
  "link_new budget = \<lparr>l_tx = NrRlcUm_new budget, l_rx = NrRlcUm_new budget, l_accepted = []\<rparr>"

text \<open>SDUs are not empty, and the grants stay below the sizes that the 16-bit header length can express.\<close>

fun event_ok :: "link_event \<Rightarrow> bool" where
  "event_ok (SduArrives now p) = (p \<noteq> [] \<and> length p < 2 ^ 31)"
| "event_ok (TxOpportunity now n) = (n < 65536)"

definition link_inv :: "link \<Rightarrow> bool" where
  "link_inv l = (stream (l_tx l) (l_accepted l) (delivered (l_rx l)) (kept_part (l_rx l)) \<and>
     rx_sync (m_value (m_sequenceNumber (l_tx l))) (l_rx l))"

lemma link_inv_new: "link_inv (link_new budget)"
  using tx_ok_new [of budget] rx_sync_new [of budget]
  by (simp add: link_inv_def link_new_def stream_def) (simp add: NrRlcUm_new_def head_is_rest_def kept_part_def delivered_def
      List.map_filter_def SN_def)

lemma link_opportunity:
  assumes "link_inv l" and "2 < n" and "n < 65536" and "m_txBuffer (l_tx l) \<noteq> []"
  shows "\<exists>l'. link_step l (TxOpportunity now n) = Inr l' \<and> link_inv l' \<and> l_accepted l' = l_accepted l \<and>
    data_size (m_txBuffer (l_tx l')) < data_size (m_txBuffer (l_tx l))"
proof -
  let ?s = "l_tx l" and ?r = "l_rx l"
  have st: "stream ?s (l_accepted l) (delivered ?r) (kept_part ?r)" and sync: "rx_sync (m_value (m_sequenceNumber ?s)) ?r"
    using assms(1) by (auto simp: link_inv_def)
  have "header_fits n ?s" using assms(3) by (simp add: header_fits_def)
  then obtain t b fi chunks where send: "sends_next now n (l_accepted l) (delivered ?r) (kept_part ?r) ?s t b fi chunks"
    using stream_send [OF st assms(2) _ assms(4)] by blast
  note send = send [unfolded sends_next_def]
  obtain r where r: "DoReceivePdu now \<lparr>pdu_bytes = b, pdu_tag = Some now\<rparr> ?r = Inr r"
    "rx_sync ((m_value (m_sequenceNumber ?s) + 1) mod 1024) r"
    "(delivered r, kept_part r) = (let (ps, k) = absorb False (kept_part ?r) (starts_sdu fi) (ends_sdu fi) chunks
       in (delivered ?r @ ps, k))"
    using DoReceivePdu_in_order [OF sync, of "\<lparr>pdu_bytes = b, pdu_tag = Some now\<rparr>" fi chunks now now] send by auto
  have "link_inv (l\<lparr>l_tx := t, l_rx := r\<rparr>)" using send r by (auto simp: link_inv_def split: prod.splits)
  then show ?thesis using send r(1) by simp
qed

lemma link_step_ok:
  assumes "link_inv l" and "event_ok ev"
  shows "\<exists>l'. link_step l ev = Inr l' \<and> link_inv l'"
proof (cases ev)
  case (SduArrives now p)
  then show ?thesis using assms stream_store [of "l_tx l" "l_accepted l" _ _ p now] DoTransmitPdcpPdu_effect(4)
    by (auto simp: link_inv_def)
next
  case (TxOpportunity now n)
  show ?thesis
  proof (cases "n \<le> 2 \<or> m_txBuffer (l_tx l) = []")
    case True
    from opportunity_idle [OF this, of now] assms(1) show ?thesis by (simp add: TxOpportunity)
  next
    case False
    then have "2 < n" and "m_txBuffer (l_tx l) \<noteq> []" by auto
    with link_opportunity [OF assms(1)] assms(2) show ?thesis by (fastforce simp: TxOpportunity)
  qed
qed

lemma link_run_ok: "link_inv l \<Longrightarrow> \<forall>ev \<in> set evs. event_ok ev \<Longrightarrow> \<exists>l'. link_run evs l = Inr l' \<and> link_inv l'"
proof (induction evs arbitrary: l)
  case (Cons ev evs)
  then obtain l1 where "link_step l ev = Inr l1" "link_inv l1" using link_step_ok by fastforce
  with Cons.IH [of l1] Cons.prems show ?case by (simp add: link_run_def)
qed (simp add: link_run_def)

lemma link_drains:
  assumes "link_inv l" and "2 < n" and "n < 65536" and "data_size (m_txBuffer (l_tx l)) \<le> k"
  shows "\<exists>l'. link_run (replicate k (TxOpportunity now n)) l = Inr l' \<and> link_inv l' \<and> l_accepted l' = l_accepted l \<and>
    m_txBuffer (l_tx l') = []"
  using assms(1,4)
proof (induction k arbitrary: l)
  case 0
  have "seg_ok (fst e)" if "e \<in> set (m_txBuffer (l_tx l))" for e
    using 0(1) that by (simp add: link_inv_def stream_def tx_ok_def)
  with 0 have "m_txBuffer (l_tx l) = []" by (cases "m_txBuffer (l_tx l)") (auto simp: seg_ok_def)
  with 0 show ?case by (simp add: link_run_def)
next
  case (Suc k)
  show ?case
  proof (cases "m_txBuffer (l_tx l) = []")
    case True
    then have "link_step l (TxOpportunity now n) = Inr l" using opportunity_idle [of n "l_tx l" now] by simp
    with Suc.IH [OF Suc.prems(1)] True show ?thesis by (simp add: link_run_def)
  next
    case False
    from link_opportunity [OF Suc.prems(1) assms(2,3) this, of now] obtain l1 where
      "link_step l (TxOpportunity now n) = Inr l1" "link_inv l1" "l_accepted l1 = l_accepted l"
      "data_size (m_txBuffer (l_tx l1)) < data_size (m_txBuffer (l_tx l))" by auto
    with Suc.IH [of l1] Suc.prems(2) show ?thesis by (simp add: link_run_def)
  qed
qed

lemma link_inv_delivered:
  assumes "link_inv l"
  shows "prefix (delivered (l_rx l)) (l_accepted l)" and "m_txBuffer (l_tx l) = [] \<Longrightarrow> delivered (l_rx l) = l_accepted l"
proof -
  note st = assms [unfolded link_inv_def stream_def]
  show "prefix (delivered (l_rx l)) (l_accepted l)" using st by auto
  assume "m_txBuffer (l_tx l) = []"
  then show "delivered (l_rx l) = l_accepted l" using st by (auto simp: head_is_rest_def)
qed

text \<open>C4: SDUs survive segmentation and reassembly. Whatever SDUs arrive at the sending entity and whatever
  opportunities the MAC offers, on a link that loses nothing neither entity fails, the SDUs delivered so far are
  a prefix of those the sender accepted, and once as many further opportunities of more than two bytes have
  passed as bytes were buffered, exactly the accepted SDUs have been delivered, in their order.\<close>

theorem rlc_delivers_in_order:
  assumes "\<forall>ev \<in> set evs. event_ok ev" and "2 < n" and "n < 65536"
  shows "\<exists>l l'. link_run evs (link_new budget) = Inr l \<and> prefix (delivered (l_rx l)) (l_accepted l) \<and>
    link_run (replicate (data_size (m_txBuffer (l_tx l))) (TxOpportunity now n)) l = Inr l' \<and>
    l_accepted l' = l_accepted l \<and> delivered (l_rx l') = l_accepted l"
proof -
  obtain l where l: "link_run evs (link_new budget) = Inr l" "link_inv l"
    using link_run_ok [OF link_inv_new assms(1)] by blast
  obtain l' where l': "link_run (replicate (data_size (m_txBuffer (l_tx l))) (TxOpportunity now n)) l = Inr l'"
    "link_inv l'" "l_accepted l' = l_accepted l" "m_txBuffer (l_tx l') = []"
    using link_drains [OF l(2) assms(2,3) order_refl] by blast
  show ?thesis using l l' link_inv_delivered by metis
qed

section \<open>A link that loses PDUs\<close>

text \<open>
  The receiver reassembles the PDUs that arrive, in the order of sending, as the reordering hands them on;
  fewer than 1024 PDUs in a row are lost, so that their sequence numbers tell the loss.
\<close>

inductive lossy_link :: "um \<Rightarrow> um \<Rightarrow> bytes list \<Rightarrow> nat \<Rightarrow> bool" where
  start: "lossy_link (NrRlcUm_new budget) (NrRlcUm_new budget) [] 0"
| sdu: "lossy_link s r acc g \<Longrightarrow> p \<noteq> [] \<Longrightarrow> length p < 2 ^ 31 \<Longrightarrow>
    lossy_link (DoTransmitPdcpPdu now p s) r (acc @ offered p s) g"
| arrives: "lossy_link s r acc g \<Longrightarrow> header_fits n s \<Longrightarrow> DoNotifyTxOpportunity now n s = Inr t \<Longrightarrow> sent_pdus s t = [p] \<Longrightarrow>
    ReassembleAndDeliver (pdu_bytes p) r = Inr r' \<Longrightarrow> lossy_link t r' acc 0"
| lost: "lossy_link s r acc g \<Longrightarrow> header_fits n s \<Longrightarrow> DoNotifyTxOpportunity now n s = Inr t \<Longrightarrow> sent_pdus s t = [p] \<Longrightarrow>
    g < 1023 \<Longrightarrow> lossy_link t r acc (Suc g)"

text \<open>
  Compared with the reassembly of the complete stream, the receiver misses at most the first SDU of a PDU, and
  what it keeps is what the sender has sent of the SDU at its head.
\<close>

lemma absorb_subseq:
  assumes "chunks \<noteq> []" and "u = None \<longleftrightarrow> starts" and "lost \<or> kept = None \<or> kept = u"
    and "absorb False u starts ends chunks = (ps, u')" and "absorb lost kept starts ends chunks = (ps', k')"
  shows "subseq ps' ps \<and> (k' = None \<or> k' = u')"
proof -
  obtain c cs where ch: "chunks = c # cs" using assms(1) by (cases chunks) auto
  have "joined lost kept starts chunks = joined False u starts chunks \<or>
      joined lost kept starts chunks = tl (joined False u starts chunks)"
    using assms(2,3) by (auto simp: joined_def ch split: option.split)
  moreover obtain j js where J: "joined False u starts chunks = j # js"
    using assms(2) by (auto simp: joined_def ch split: option.splits)
  ultimately have "joined lost kept starts chunks = j # js \<or> joined lost kept starts chunks = js" by simp
  then show ?thesis using assms(4,5) unfolding absorb_def J Let_def by (elim disjE) (auto split: if_splits)
qed

definition lossy_inv :: "um \<Rightarrow> um \<Rightarrow> bytes list \<Rightarrow> nat \<Rightarrow> bool" where
  "lossy_inv s r acc g = (\<exists>done u. stream s acc done u \<and> subseq (delivered r) done \<and> reassembly_ok r \<and>
     m_sdusBuffer r = [] \<and> g < 1024 \<and> unat (m_value (m_expectedSeqNumber r)) < 1024 \<and>
     unat (m_value (m_sequenceNumber s)) = (unat (m_value (m_expectedSeqNumber r)) + g) mod 1024 \<and>
     (g = 0 \<longrightarrow> kept_part r = None \<or> kept_part r = u))"

lemma lossy_arrives:
  assumes inv: "lossy_inv s r acc g" and n: "2 < n" "header_fits n s" and q: "m_txBuffer s \<noteq> []"
  shows "\<exists>t p r'. DoNotifyTxOpportunity now n s = Inr t \<and> sent_pdus s t = [p] \<and>
    ReassembleAndDeliver (pdu_bytes p) r = Inr r' \<and> lossy_inv t r' acc 0 \<and> (g < 1023 \<longrightarrow> lossy_inv t r acc (Suc g))"
proof -
  obtain don u where st: "stream s acc don u" and sub: "subseq (delivered r) don" and r: "reassembly_ok r" "m_sdusBuffer r = []"
    and g: "g < 1024" "unat (m_value (m_expectedSeqNumber r)) < 1024"
      "unat (m_value (m_sequenceNumber s)) = (unat (m_value (m_expectedSeqNumber r)) + g) mod 1024"
      "g = 0 \<longrightarrow> kept_part r = None \<or> kept_part r = u"
    using inv unfolding lossy_inv_def by blast
  obtain t b fi chunks where "sends_next now n acc don u s t b fi chunks" using stream_send [OF st n q] by blast
  note send = this [unfolded sends_next_def]
  let ?sn = "m_value (m_sequenceNumber s)"
  have sn: "?sn mod 1024 = ?sn" using g(3) by (simp add: word_unat_eq_iff)
  have lost: "?sn mod 1024 \<noteq> m_value (m_expectedSeqNumber r) \<longleftrightarrow> g \<noteq> 0"
    unfolding sn word_unat_eq_iff g(3) using g(1,2) by (auto simp: mod_if)
  have next_sn: "unat ((?sn + 1) mod 1024) = Suc (unat ?sn) mod 1024" using g(3) by (intro unat_value_incr) simp
  obtain ps u' where a: "absorb False u (starts_sdu fi) (ends_sdu fi) chunks = (ps, u')" by fastforce
  obtain ps' k' where a': "absorb (g \<noteq> 0) (kept_part r) (starts_sdu fi) (ends_sdu fi) chunks = (ps', k')" by fastforce
  have k': "subseq ps' ps" "k' = None \<or> k' = u'"
    using absorb_subseq [OF _ _ _ a a'] send g(4) by (auto simp: carries_def)
  have "kept_part r = None \<or> ?sn mod 1024 \<noteq> m_value (m_expectedSeqNumber r) \<or> \<not> starts_sdu fi"
    using lost g(4) send by auto
  then obtain r' where r': "ReassembleAndDeliver b r = Inr r'" "m_sdusBuffer r' = []" "reassembly_ok r'"
    "m_value (m_expectedSeqNumber r') = (?sn + 1) mod 1024" "delivered r' = delivered r @ ps'" "kept_part r' = k'"
    using ReassembleAndDeliver_refines [of b fi ?sn chunks r] send r unfolding lost a' by (auto simp: sn)
  have "lossy_inv t r acc (Suc g)" if "g < 1023"
    unfolding lossy_inv_def
    by (rule exI [of _ "don @ ps"], rule exI [of _ u']) (use that send a sub r g next_sn in \<open>simp add: mod_Suc_eq subseq_rev_drop_many\<close>)
  moreover have "lossy_inv t r' acc 0"
    unfolding lossy_inv_def
    by (rule exI [of _ "don @ ps"], rule exI [of _ u']) (use send a sub r' k' next_sn in \<open>simp add: list_emb_append_mono\<close>)
  ultimately show ?thesis using send r'(1) by auto
qed

lemma lossy_invariant: "lossy_link s r acc g \<Longrightarrow> lossy_inv s r acc g"
proof (induction rule: lossy_link.induct)
  case (start budget)
  have "reassembly_ok (NrRlcUm_new budget)" by (simp add: NrRlcUm_new_def reassembly_ok_def)
  then show ?case using link_inv_new [of budget]
    by (auto simp: lossy_inv_def link_inv_def link_new_def NrRlcUm_new_def SN_def)
next
  case (sdu s r acc g p now)
  then show ?case using stream_store [of s acc _ _ p now] DoTransmitPdcpPdu_effect(4) [of now p s]
    unfolding lossy_inv_def by auto
next
  case (arrives s r acc g n now t p r')
  from lossy_arrives [OF arrives.IH _ arrives.hyps(2), of now] sent_when [OF arrives.hyps(3,4)] arrives show ?case by auto
next
  case (lost s r acc g n now t p)
  from lossy_arrives [OF lost.IH _ lost.hyps(2), of now] sent_when [OF lost.hyps(3,4)] lost show ?case by auto
qed


text \<open>
  An example: the PDU with the first two bytes of the first SDU is lost, the next one carries the third byte
  and the second SDU; the second SDU is delivered.
\<close>

definition demo_sender :: um where
  "demo_sender = DoTransmitPdcpPdu 0 [4, 5] (DoTransmitPdcpPdu 0 [1, 2, 3] (NrRlcUm_new 100))"

lemma demo_loss:
  "\<exists>t p t' p' r. DoNotifyTxOpportunity 1 4 demo_sender = Inr t \<and> sent_pdus demo_sender t = [p] \<and>
    DoNotifyTxOpportunity 2 10 t = Inr t' \<and> sent_pdus t t' = [p'] \<and>
    ReassembleAndDeliver (pdu_bytes p') (NrRlcUm_new 100) = Inr r \<and> delivered r = [[4, 5]]"
proof -
  have "case DoNotifyTxOpportunity 1 4 demo_sender of Inl e \<Rightarrow> False | Inr t \<Rightarrow>
      (case DoNotifyTxOpportunity 2 10 t of Inl e \<Rightarrow> False | Inr t' \<Rightarrow>
        length (sent_pdus demo_sender t) = 1 \<and> length (sent_pdus t t') = 1 \<and>
        (case ReassembleAndDeliver (pdu_bytes (hd (sent_pdus t t'))) (NrRlcUm_new 100) of
           Inl e \<Rightarrow> False | Inr r \<Rightarrow> delivered r = [[4, 5]]))"
    by code_simp
  then show ?thesis by (fastforce simp: length_Suc_conv split: sum.splits)
qed


theorem rlc_delivers_in_order_witness:
  "\<exists>l l'. link_run [SduArrives 0 [1, 2, 3], TxOpportunity 1 4] (link_new 100) = Inr l \<and>
    prefix (delivered (l_rx l)) (l_accepted l) \<and>
    link_run (replicate (data_size (m_txBuffer (l_tx l))) (TxOpportunity 2 9)) l = Inr l' \<and>
    l_accepted l' = l_accepted l \<and> delivered (l_rx l') = l_accepted l"
  by (rule rlc_delivers_in_order) simp_all

end
