(* ===== verification/NrRlcEntity.thy ===== *)
theory NrRlcEntity
  imports NrRlcLink
begin

text \<open>
  The states that an RLC entity in unacknowledged mode reaches through any sequence of its operations, and
  what holds in all of them.
\<close>

section \<open>Reachable states\<close>

inductive um_reachable :: "um \<Rightarrow> bool" where
  start: "maxSize < 2 ^ 31 \<Longrightarrow> um_reachable ((NrRlcUm_new budget)\<lparr>m_maxTxBufferSize := maxSize,
    m_enablePdcpDiscarding := discarding, m_discardTimerMs := timer, m_outOfOrderDelivery := outOfOrder\<rparr>)"
| transmit: "um_reachable s \<Longrightarrow> p \<noteq> [] \<Longrightarrow> length p < 2 ^ 31 \<Longrightarrow> um_reachable (DoTransmitPdcpPdu now p s)"
| opportunity: "um_reachable s \<Longrightarrow> header_fits n s \<Longrightarrow> DoNotifyTxOpportunity now n s = Inr t \<Longrightarrow> um_reachable t"
| receive: "um_reachable s \<Longrightarrow> carries (pdu_bytes p) fi sn chunks \<Longrightarrow> pdu_tag p = Some t0 \<Longrightarrow>
    DoReceivePdu now p s = Inr t \<Longrightarrow> um_reachable t"
| reordering: "um_reachable s \<Longrightarrow> m_reorderingTimer s \<Longrightarrow> unat k < 1024 \<Longrightarrow> map_of (m_rxBuffer s) k = None \<Longrightarrow>
    ExpireReorderingTimer s = Inr t \<Longrightarrow> um_reachable t"
| bsr: "um_reachable s \<Longrightarrow> m_bsrTimer s \<Longrightarrow> um_reachable (ExpireBsrTimer now s)"
| harq: "um_reachable s \<Longrightarrow> um_reachable (DoNotifyHarqDeliveryFailure s)"
| dispose: "um_reachable s \<Longrightarrow> um_reachable (DoDispose_um s)"

inductive_cases um_reachableE: "um_reachable s"

lemma opportunity_ok:
  assumes "tx_ok s" and "header_fits n s"
  shows "\<exists>t. DoNotifyTxOpportunity now n s = Inr t \<and> tx_ok t \<and> (rx_ok s \<longrightarrow> rx_ok t)"
proof (cases "n \<le> 2 \<or> m_txBuffer s = []")
  case True
  then show ?thesis using opportunity_idle [OF True, of now] assms(1) by auto
next
  case False
  then obtain segs q' b timer where t: "DoNotifyTxOpportunity now n s =
      Inr (s\<lparr>m_txBuffer := q', m_txBufferSize := of_nat (data_size q'), m_sequenceNumber := sn_incr (m_sequenceNumber s),
        m_bsrTimer := timer,
        calls := calls s @ [TxPduTrace (GetSize b), TransmitPdu \<lparr>pdu_bytes = b, pdu_tag = Some now\<rparr>]\<rparr>)"
    "tx_split (m_txBuffer s) segs q'"
    using DoNotifyTxOpportunity_sends [OF assms(1) _ _ assms(2), of now] by (auto simp: not_le)
  note tx = assms(1) [unfolded tx_ok_def]
  have "(\<forall>e \<in> set q'. seg_ok (fst e)) \<and> (\<forall>e \<in> set (tl q'). seg_status (fst e) = FULL_SDU) \<and>
      data_size q' \<le> data_size (m_txBuffer s)"
    using tx_split_keeps [OF t(2)] tx by simp
  then show ?thesis using t(1) tx
    by (auto simp: tx_ok_def word_less_nat_alt rx_ok_def window_ok_def buffer_ok_def reassembly_ok_def window_start_def)
qed

lemma rx_ok_sender_ops:
  "rx_ok (DoTransmitPdcpPdu now p s) = rx_ok s" "rx_ok (ExpireBsrTimer now s) = rx_ok s"
  "tx_ok (ExpireBsrTimer now s) = tx_ok s"
  by (simp_all add: DoTransmitPdcpPdu_def ExpireBsrTimer_def DoTransmitBufferStatusReport_def store_pdcp_pdu_def emit_def
      Let_def rx_ok_def window_ok_def buffer_ok_def reassembly_ok_def window_start_def tx_ok_def split: list.split)

lemma tx_same_ok: "tx_same s t \<Longrightarrow> tx_ok s \<Longrightarrow> tx_ok t"
  by (simp add: tx_same_def tx_ok_def)

lemma reachable_ok: "um_reachable s \<Longrightarrow> tx_ok s \<and> rx_ok s"
proof (induction rule: um_reachable.induct)
  case start
  then show ?case using tx_ok_new rx_ok_new
    by (simp add: tx_ok_def rx_ok_def window_ok_def buffer_ok_def reassembly_ok_def NrRlcUm_new_def word_less_nat_alt)
next
  case (transmit s p now)
  then show ?case using store_keeps_tx_ok by (simp add: rx_ok_sender_ops)
next
  case (opportunity s n now t)
  then show ?case using opportunity_ok [of s n now] by auto
next
  case (receive s p fi sn chunks t0 now t)
  then show ?case using DoReceivePdu_ok [of s p fi sn chunks t0 now] tx_same_ok by auto
next
  case (reordering s k t)
  then show ?case using ExpireReorderingTimer_ok [of s k] tx_same_ok by auto
next
  case (bsr s now)
  then show ?case by (simp add: rx_ok_sender_ops)
next
  case (harq s)
  then show ?case by (simp add: DoNotifyHarqDeliveryFailure_def)
next
  case (dispose s)
  then show ?case
    by (simp add: DoDispose_um_def tx_ok_def rx_ok_def window_ok_def buffer_ok_def reassembly_ok_def)
qed

lemma default_reachable: "um_reachable (NrRlcUm_new budget)"
  using um_reachable.start [where maxSize = 100000 and budget = budget and discarding = True and timer = 0 and outOfOrder = False] by (simp add: NrRlcUm_new_def)

section \<open>Properties\<close>



text \<open>C33: the byte count of the transmission buffer is exact. In every reachable state \<open>m_txBufferSize\<close> is the number of
  bytes that are buffered, within the configured maximum, and no buffered packet is empty; so the reported
  queue size never underflows.\<close>

theorem rlc_buffer_accounting:
  assumes "um_reachable s"
  shows "unat (m_txBufferSize s) = data_size (m_txBuffer s) \<and> data_size (m_txBuffer s) \<le> unat (m_maxTxBufferSize s) \<and>
    (\<forall>e \<in> set (m_txBuffer s). seg_data (fst e) \<noteq> [])"
  using reachable_ok [OF assms] by (auto simp: tx_ok_def seg_ok_def unat_of_nat)

theorem rlc_buffer_accounting_witness:
  "unat (m_txBufferSize (DoTransmitPdcpPdu 0 [1, 2, 3] (NrRlcUm_new 100))) =
    data_size (m_txBuffer (DoTransmitPdcpPdu 0 [1, 2, 3] (NrRlcUm_new 100)))"
proof -
  from default_reachable have "um_reachable (DoTransmitPdcpPdu 0 [1, 2, 3] (NrRlcUm_new 100))" by (rule um_reachable.transmit) simp_all
  with rlc_buffer_accounting show ?thesis by blast
qed

text \<open>C32: a PDU fits its grant. An answered opportunity of \<open>n\<close> bytes sends at most one PDU; it has at most \<open>n\<close> bytes,
  decodes with the sequence number of the sender, and carries no empty chunk.\<close>

theorem rlc_pdu_fits_grant:
  assumes "um_reachable s" and "header_fits n s" and "DoNotifyTxOpportunity now n s = Inr t" and "p \<in> set (sent_pdus s t)"
  shows "length (sent_pdus s t) = 1 \<and> length (pdu_bytes p) \<le> unat n \<and>
    (\<exists>fi chunks. carries (pdu_bytes p) fi (m_value (m_sequenceNumber s)) chunks \<and> [] \<notin> set chunks)"
proof -
  have tx: "tx_ok s" using reachable_ok [OF assms(1)] by simp
  have "\<not> (n \<le> 2 \<or> m_txBuffer s = [])" using opportunity_idle [of n s now] assms(3,4) by auto
  then have n: "2 < n" "m_txBuffer s \<noteq> []" by auto
  from DoNotifyTxOpportunity_sends [OF tx n assms(2), of now] assms(3) obtain segs b where
    "sent_pdus s t = [\<lparr>pdu_bytes = b, pdu_tag = Some now\<rparr>]" "length b \<le> unat n" "\<forall>g \<in> set segs. seg_data g \<noteq> []"
    "carries b (framing_info segs) (m_value (m_sequenceNumber s)) (map seg_data segs)"
    by (auto simp: sent_pdus_def pdu_of_def List.map_filter_def)
  with assms(4) show ?thesis by (force intro!: exI [of _ "framing_info segs"] exI [of _ "map seg_data segs"])
qed

theorem rlc_pdu_fits_grant_witness:
  "\<exists>t p. DoNotifyTxOpportunity 1 4 demo_sender = Inr t \<and> sent_pdus demo_sender t = [p] \<and> length (pdu_bytes p) \<le> 4"
proof -
  obtain t p where d: "DoNotifyTxOpportunity 1 4 demo_sender = Inr t" "sent_pdus demo_sender t = [p]"
    using demo_loss by blast
  from default_reachable have "um_reachable demo_sender" unfolding demo_sender_def by (intro um_reachable.transmit) simp_all
  from rlc_pdu_fits_grant [OF this _ d(1), of p] d show ?thesis by (simp add: header_fits_def)
qed

section \<open>Deviations\<close>



text \<open>PDUs with one SDU of one byte and sequence number \<open>256 * hi + lo\<close>, and receivers that wait for \<open>sn\<close>.\<close>

definition demo_pdu :: "u8 \<Rightarrow> u8 \<Rightarrow> rlc_pdu" where
  "demo_pdu hi lo = \<lparr>pdu_bytes = [hi, lo, 42], pdu_tag = Some 0\<rparr>"

definition demo_receiver :: "u16 \<Rightarrow> um" where
  "demo_receiver sn = (NrRlcUm_new 100)\<lparr>m_vrUr := SN sn, m_vrUh := SN sn, m_expectedSeqNumber := SN sn\<rparr>"

lemma demo_receiver_waits: "unat sn < 1024 \<Longrightarrow> rx_sync sn (demo_receiver sn)"
  by (simp add: rx_sync_def demo_receiver_def NrRlcUm_new_def rx_ok_def window_ok_def buffer_ok_def reassembly_ok_def
      word_unat_eq_iff)

definition receive_all :: "rlc_pdu list \<Rightarrow> um \<Rightarrow> um res" where
  "receive_all ps s = for_each (\<lambda>s p. DoReceivePdu 0 p s) ps s"

lemma res_case: "(case r of Inl e \<Rightarrow> False | Inr t \<Rightarrow> P t) \<Longrightarrow> \<exists>t. r = Inr t \<and> P t"
  by (simp split: sum.splits)


text \<open>A PDU can be left behind the window. \<open>ReassembleOutsideWindow\<close> walks the buffer in the numeric order of its keys
  and stops at the first PDU inside the window, which after a wrap-around has a smaller key than PDUs outside: a
  receiver in order that waits for 600 and gets the PDUs 601, 50 and 100 moves VR(UR) to 613, past PDU 601,
  which is neither delivered nor removed.\<close>

theorem rlc_pdu_left_behind_window:
  "rx_sync 600 (demo_receiver 600) \<and>
   (\<exists>t. receive_all [demo_pdu 2 89, demo_pdu 0 50, demo_pdu 0 100] (demo_receiver 600) = Inr t \<and>
     delivered t = [] \<and> m_value (m_vrUr t) = 613 \<and> map_of (m_rxBuffer t) 601 = Some (demo_pdu 2 89))"
proof
  show "rx_sync 600 (demo_receiver 600)" by (rule demo_receiver_waits) simp
  show "\<exists>t. receive_all [demo_pdu 2 89, demo_pdu 0 50, demo_pdu 0 100] (demo_receiver 600) = Inr t \<and>
     delivered t = [] \<and> m_value (m_vrUr t) = 613 \<and> map_of (m_rxBuffer t) 601 = Some (demo_pdu 2 89)"
    by (rule res_case) code_simp
qed

end
