(* ===== verification/NrUeMacGrant.thy ===== *)
theory NrUeMacGrant
  imports NrUeMac NrRlcEntity
begin

text \<open>
  What the MAC of the UE does with a grant: the PDUs that it sends, their sizes, and the contract of the RLC
  entities on which this rests, with the entity in unacknowledged mode as its implementation.
\<close>

section \<open>PDUs\<close>

text \<open>The packet that \<open>DoTransmitPdu\<close> makes of an RLC PDU.\<close>

definition wrap :: "TransmitPduParameters \<Rightarrow> mac_pdu" where
  "wrap p = \<lparr>mp_bytes = NrMacHeaderVs_Serialize \<lparr>vs_lcid = tp_lcid p, vs_size = of_nat (length (tp_pdu p))\<rparr> @ tp_pdu p,
     mp_rnti = tp_rnti p, mp_lcid = tp_lcid p\<rparr>"

definition wrapped_size :: "TransmitPduParameters list \<Rightarrow> nat" where
  "wrapped_size ps = (\<Sum>p\<leftarrow>ps. length (mp_bytes (wrap p)))"

definition sends :: "Dci \<Rightarrow> SfnSf \<Rightarrow> TransmitPduParameters list \<Rightarrow> mac_out list" where
  "sends dci sfn ps = map (\<lambda>p. SendMacPdu (wrap p) sfn (dci_symStart dci) (dci_rnti dci)) ps"

lemma wrapped_size_simps [simp]:
  "wrapped_size [] = 0" "wrapped_size (ps @ [p]) = wrapped_size ps + length (mp_bytes (wrap p))"
  by (simp_all add: wrapped_size_def)

lemma sends_simps [simp]:
  "sends dci sfn [] = []" "sends dci sfn (ps @ [p]) = sends dci sfn ps @ [SendMacPdu (wrap p) sfn (dci_symStart dci) (dci_rnti dci)]"
  by (simp_all add: sends_def)

lemma wrap_length: "length (mp_bytes (wrap p)) \<le> length (tp_pdu p) + 3" "length (mp_bytes (wrap p)) \<ge> 2"
  using vs_length [of "\<lparr>vs_lcid = tp_lcid p, vs_size = of_nat (length (tp_pdu p))\<rparr>"]
  by (auto simp: wrap_def NrMacHeaderVs_GetSerializedSize_def)

text \<open>The header of a wrapped PDU gives its channel, and the rest is the RLC PDU.\<close>

lemma unwrap:
  assumes "tp_lcid p \<le> 32"
  obtains n where "NrMacHeaderVs_Deserialize (mp_bytes (wrap p)) = Inr (\<lparr>vs_lcid = tp_lcid p, vs_size = of_nat (length (tp_pdu p))\<rparr>, n)"
    and "drop (unat n) (mp_bytes (wrap p)) = tp_pdu p"
proof -
  let ?h = "\<lparr>vs_lcid = tp_lcid p, vs_size = of_nat (length (tp_pdu p))\<rparr>"
  have "NrMacHeaderVs_Deserialize (mp_bytes (wrap p)) = Inr (?h, NrMacHeaderVs_GetSerializedSize ?h)"
    using vs_roundtrip [of ?h "tp_pdu p"] assms by (simp add: wrap_def)
  moreover have "drop (unat (NrMacHeaderVs_GetSerializedSize ?h)) (mp_bytes (wrap p)) = tp_pdu p"
    using vs_length [of ?h] by (simp add: wrap_def)
  ultimately show ?thesis by (rule that)
qed

lemma for_each_succeeds:
  assumes "\<And>s x. x \<in> set xs \<Longrightarrow> P s \<Longrightarrow> \<exists>t. body s x = Inr t \<and> P t" and "P s"
  shows "\<exists>t. for_each body xs s = Inr t \<and> P t"
  using assms
proof (induction xs arbitrary: s)
  case (Cons x xs)
  from Cons.prems obtain u where u: "body s x = Inr u" "P u" by (meson list.set_intros(1))
  with Cons show ?case by simp
qed simp

section \<open>A grant in progress\<close>

text \<open>
  The MAC works on the grant \<open>dci\<close>: it has sent the PDUs \<open>ps\<close> since \<open>base\<close>, counted their bytes and stored them in
  the HARQ process of the grant.
\<close>

definition burst_of :: "UlHarqProcessInfo \<Rightarrow> mac_pdu list" where
  "burst_of i = (case m_pktBurst i of None \<Rightarrow> [] | Some b \<Rightarrow> b)"

lemma burst_of_nonempty: "burst_of i = x # xs \<Longrightarrow> m_pktBurst i = Some (x # xs)"
  by (simp add: burst_of_def split: option.splits)

definition granted :: "Dci \<Rightarrow> SfnSf \<Rightarrow> mac_out list \<Rightarrow> TransmitPduParameters list \<Rightarrow> 'r UeMac \<Rightarrow> bool" where
  "granted dci sfn base ps s \<longleftrightarrow>
     m_ulDci s = Some dci \<and> m_ulDciSfnsf s = sfn \<and> out s = base @ sends dci sfn ps \<and>
     unat (m_ulDciTotalUsed s) = wrapped_size ps \<and>
     unat (dci_harqProcess dci) < length (m_miUlHarqProcessesPacket s) \<and>
     unat (dci_harqProcess dci) < length (m_miUlHarqProcessesPacketTimer s) \<and>
     burst_of (m_miUlHarqProcessesPacket s ! unat (dci_harqProcess dci)) = map wrap ps"

lemma SetLcId_allowed: "lcid \<le> 32 \<Longrightarrow> NrMacHeaderVs_SetLcId lcid h = Inr (h\<lparr>vs_lcid := lcid\<rparr>)"
proof -
  assume "lcid \<le> 32"
  then have "unat lcid \<in> set [0..<33]" by (simp add: word_le_nat_alt)
  then have "lcid \<in> set (map of_nat [0..<33])" by (metis image_eqI list.set_map of_nat_unat ucast_id)
  then show ?thesis by (simp add: NrMacHeaderVs_SetLcId_def del: set_map set_upt)
qed

lemma transmit_in_grant:
  assumes "granted dci sfn base ps s" and "tp_lcid p \<le> 32" and "tp_harqProcessId p = dci_harqProcess dci"
    and "wrapped_size ps + length (tp_pdu p) + 3 \<le> unat (dci_tbSize dci)"
  obtains packets timers used where
    "UeMac_DoTransmitPdu p s = Inr (s\<lparr>m_miUlHarqProcessesPacket := packets, m_miUlHarqProcessesPacketTimer := timers,
       m_ulDciTotalUsed := used, out := out s @ [SendMacPdu (wrap p) sfn (dci_symStart dci) (dci_rnti dci)]\<rparr>)"
    and "granted dci sfn base (ps @ [p]) (s\<lparr>m_miUlHarqProcessesPacket := packets, m_miUlHarqProcessesPacketTimer := timers,
       m_ulDciTotalUsed := used, out := out s @ [SendMacPdu (wrap p) sfn (dci_symStart dci) (dci_rnti dci)]\<rparr>)"
    and "length packets = length (m_miUlHarqProcessesPacket s)" and "length timers = length (m_miUlHarqProcessesPacketTimer s)"
proof -
  note g = assms(1) [unfolded granted_def]
  let ?h = "unat (dci_harqProcess dci)"
  have tb: "unat (dci_tbSize dci) < 2 ^ 32" by (rule unat_u32)
  let ?used = "m_ulDciTotalUsed s + of_nat (length (mp_bytes (wrap p)))"
  have used: "unat ?used = wrapped_size (ps @ [p])"
    using g assms(4) wrap_length(1) [of p] tb by (simp add: unat_word_ariths unat_of_nat)
  have le: "?used \<le> dci_tbSize dci"
    using used assms(4) wrap_length(1) [of p] by (simp add: word_le_nat_alt)
  note lc = SetLcId_allowed [OF assms(2), of NrMacHeaderVs_new]
  define packets where "packets = (m_miUlHarqProcessesPacket s)[?h := \<lparr>m_pktBurst = Some (map wrap ps @ [wrap p]),
     m_lcidList = m_lcidList (m_miUlHarqProcessesPacket s ! ?h) @ [tp_lcid p]\<rparr>]"
  define timers where "timers = (m_miUlHarqProcessesPacketTimer s)[?h := m_numHarqProcess s]"
  have "UeMac_DoTransmitPdu p s = Inr (s\<lparr>m_miUlHarqProcessesPacket := packets, m_miUlHarqProcessesPacketTimer := timers,
       m_ulDciTotalUsed := ?used, out := out s @ [SendMacPdu (wrap p) sfn (dci_symStart dci) (dci_rnti dci)]\<rparr>)"
    using g assms(3) le lc
    by (simp add: UeMac_DoTransmitPdu_def Let_def NrMacHeaderVs_SetSize_def NrMacHeaderVs_new_def wrap_def emit_out_def
        packets_def timers_def flip: burst_of_def)
  moreover have "granted dci sfn base (ps @ [p]) (s\<lparr>m_miUlHarqProcessesPacket := packets, m_miUlHarqProcessesPacketTimer := timers,
       m_ulDciTotalUsed := ?used, out := out s @ [SendMacPdu (wrap p) sfn (dci_symStart dci) (dci_rnti dci)]\<rparr>)"
    using g used by (simp add: granted_def packets_def timers_def burst_of_def)
  ultimately show ?thesis using that by (simp add: packets_def timers_def)
qed

section \<open>The contract of the RLC entities\<close>

text \<open>
  On an opportunity an entity sends at most one PDU, no larger than the opportunity, for its own channel and for
  the HARQ process of the opportunity.
\<close>

definition answers :: "u8 \<Rightarrow> u8 \<Rightarrow> u32 \<Rightarrow> mac_call list \<Rightarrow> bool" where
  "answers lcid harqId bytes cs \<longleftrightarrow> cs = [] \<or>
     (\<exists>p. cs = [TransmitPdu_call p] \<and> length (tp_pdu p) \<le> unat bytes \<and> tp_lcid p = lcid \<and> tp_harqProcessId p = harqId)"

locale mac_sap_user =
  fixes NotifyTxOpportunity :: "'r tx_operation" and entity_ok :: "u8 \<Rightarrow> 'r \<Rightarrow> bool"
  assumes notify: "entity_ok lcid r \<Longrightarrow> bytes < 65536 \<Longrightarrow>
    \<exists>r' cs. NotifyTxOpportunity bytes harqId r = Inr (r', cs) \<and> entity_ok lcid r' \<and> answers lcid harqId bytes cs"

text \<open>Well-formed states of the MAC over entities that keep the contract and have no status PDUs.\<close>

definition ue_mac_ok :: "(u8 \<Rightarrow> 'r \<Rightarrow> bool) \<Rightarrow> 'r UeMac \<Rightarrow> bool" where
  "ue_mac_ok entity_ok s \<longleftrightarrow>
     distinct (map fst (m_lcInfoMap s)) \<and>
     (\<forall>(k, i) \<in> set (m_lcInfoMap s). entity_ok k (macSapUser i) \<and> logicalChannelGroup i < 4 \<and> k \<le> 32) \<and>
     distinct (map fst (m_ulBsrReceived s)) \<and>
     (\<forall>(k, b) \<in> set (m_ulBsrReceived s). bsr_lcid b = k \<and> k \<in> fst ` set (m_lcInfoMap s) \<and> bsr_statusPduSize b = 0 \<and>
        (k = 0 \<longrightarrow> bsr_txQueueSize b = 0 \<and> bsr_retxQueueSize b = 0)) \<and>
     length (m_miUlHarqProcessesPacket s) = unat (m_numHarqProcess s) \<and>
     length (m_miUlHarqProcessesPacketTimer s) = unat (m_numHarqProcess s)"

definition keeps_bsr :: "(BufferStatusReportParameters \<Rightarrow> BufferStatusReportParameters) \<Rightarrow> bool" where
  "keeps_bsr f \<longleftrightarrow> (\<forall>b. bsr_lcid (f b) = bsr_lcid b \<and> bsr_statusPduSize (f b) = bsr_statusPduSize b \<and>
     (bsr_txQueueSize b = 0 \<longrightarrow> bsr_txQueueSize (f b) = 0) \<and> (bsr_retxQueueSize b = 0 \<longrightarrow> bsr_retxQueueSize (f b) = 0))"

lemma keeps_bsr_take [simp]: "keeps_bsr (take_tx n)" "keeps_bsr (take_retx n)"
  by (auto simp: keeps_bsr_def take_tx_def take_retx_def min_def)

lemma bsr_change_keys [simp]: "map fst (m_ulBsrReceived (bsr_change f k s)) = map fst (m_ulBsrReceived s)"
  by (auto simp: bsr_change_def split: prod.splits)

lemma bsr_change_fields [simp]:
  "m_lcInfoMap (bsr_change f k s) = m_lcInfoMap s" "mac_rnti (bsr_change f k s) = mac_rnti s" "out (bsr_change f k s) = out s"
  "m_srState (bsr_change f k s) = m_srState s" "m_currentSlot (bsr_change f k s) = m_currentSlot s"
  "m_numHarqProcess (bsr_change f k s) = m_numHarqProcess s" "m_ulDci (bsr_change f k s) = m_ulDci s"
  by (simp_all add: bsr_change_def)

lemma granted_bsr_change [simp]: "granted dci sfn base ps (bsr_change f k s) = granted dci sfn base ps s"
  by (simp add: granted_def bsr_change_def)

lemma ue_mac_ok_bsr_change:
  assumes "keeps_bsr f" and "ue_mac_ok ok s"
  shows "ue_mac_ok ok (bsr_change f k s)"
proof -
  have "\<forall>(k', b) \<in> set (m_ulBsrReceived (bsr_change f k s)). bsr_lcid b = k' \<and> k' \<in> fst ` set (m_lcInfoMap s) \<and>
      bsr_statusPduSize b = 0 \<and> (k' = 0 \<longrightarrow> bsr_txQueueSize b = 0 \<and> bsr_retxQueueSize b = 0)"
    using assms unfolding ue_mac_ok_def keeps_bsr_def bsr_change_def by (fastforce split: if_splits)
  moreover have "distinct (map fst (m_ulBsrReceived (bsr_change f k s)))" using assms(2) by (simp add: ue_mac_ok_def)
  ultimately show ?thesis using assms(2) by (simp add: ue_mac_ok_def bsr_change_def)
qed

lemma bsr_keys_known: "ue_mac_ok ok s \<Longrightarrow> set (map fst (m_ulBsrReceived s)) \<subseteq> fst ` set (m_lcInfoMap s)"
  unfolding ue_mac_ok_def by fastforce

lemma bsr_lookup:
  assumes "ue_mac_ok ok s" and "k \<in> set (map fst (m_ulBsrReceived s))"
  obtains b where "bsr_at k s = Inr b" and "bsr_lcid b = k" and "bsr_statusPduSize b = 0"
proof -
  from assms(2) obtain b where b: "map_of (m_ulBsrReceived s) k = Some b"
    by (metis image_set map_of_eq_None_iff not_None_eq)
  then have "(k, b) \<in> set (m_ulBsrReceived s)" by (rule map_of_SomeD)
  then have "bsr_lcid b = k" "bsr_statusPduSize b = 0" using assms(1) by (auto simp: ue_mac_ok_def)
  with b that show ?thesis by (simp add: bsr_at_def)
qed

text \<open>The invariant of the loops over the channels: at most \<open>bnd\<close> bytes of the grant are used.\<close>

definition within_grant :: "(u8 \<Rightarrow> 'r \<Rightarrow> bool) \<Rightarrow> Dci \<Rightarrow> SfnSf \<Rightarrow> mac_out list \<Rightarrow> nat \<Rightarrow> u8 list \<Rightarrow> 'r UeMac \<Rightarrow> 'r UeMac \<Rightarrow> bool" where
  "within_grant ok dci sfn base bnd ks s0 s \<longleftrightarrow>
     ue_mac_ok ok s \<and> map fst (m_ulBsrReceived s) = ks \<and> mac_rnti s = mac_rnti s0 \<and> m_srState s = m_srState s0 \<and>
     map (\<lambda>(k, i). (k, logicalChannelGroup i)) (m_lcInfoMap s) = map (\<lambda>(k, i). (k, logicalChannelGroup i)) (m_lcInfoMap s0) \<and>
     (\<exists>ps. granted dci sfn base ps s \<and> wrapped_size ps \<le> bnd \<and> (\<forall>p \<in> set ps. tp_lcid p \<in> set ks))"

lemma update_ball:
  "\<forall>(k', x) \<in> set m. P k' x \<Longrightarrow> P k v \<Longrightarrow> \<forall>(k', x) \<in> set (AList.update k v m). P k' x"
  by (induction m) auto

lemma update_groups:
  assumes "map_of m k = Some i" and "logicalChannelGroup j = logicalChannelGroup i"
  shows "map (\<lambda>(k, i). (k, logicalChannelGroup i)) (AList.update k j m) = map (\<lambda>(k, i). (k, logicalChannelGroup i)) m"
  using assms by (induction m) (auto split: if_splits)

section \<open>The buffer status report\<close>

text \<open>
  The report in the grant of a UE with this RNTI: none without an RNTI or without channels, otherwise one PDU with the
  levels of the four queues.
\<close>

definition reports :: "u16 \<Rightarrow> 'r UeMac \<Rightarrow> mac_pdu list \<Rightarrow> bool" where
  "reports rnti s bsr \<longleftrightarrow>
     (if rnti = 0 \<or> m_ulBsrReceived s = [] then bsr = []
      else \<exists>queue p. bsr_queues s = Inr queue \<and> length queue = 4 \<and> bsr_pdu rnti queue = Inr p \<and> bsr = [p])"

lemma bsr_queues_ok:
  assumes "ue_mac_ok ok s"
  shows "\<exists>queue. bsr_queues s = Inr queue \<and> length queue = 4"
  unfolding bsr_queues_def
proof (rule for_each_succeeds)
  fix queue :: "u32 list" and e assume e: "e \<in> set (m_ulBsrReceived s)" and l: "length queue = 4"
  obtain k b where kb: "e = (k, b)" by (cases e)
  have b: "k = 0 \<longrightarrow> bsr_txQueueSize b = 0 \<and> bsr_retxQueueSize b = 0" "bsr_statusPduSize b = 0"
    using assms e by (auto simp: kb ue_mac_ok_def)
  have "k \<in> fst ` set (m_lcInfoMap s)" using bsr_keys_known [OF assms] e by (force simp: kb)
  then obtain i where i: "map_of (m_lcInfoMap s) k = Some i" by (metis map_of_eq_None_iff not_None_eq)
  then have "logicalChannelGroup i < 4" using assms map_of_SomeD [OF i] by (auto simp: ue_mac_ok_def)
  then have "unat (logicalChannelGroup i) < 4" by (simp add: word_less_nat_alt)
  then show "\<exists>t. add_to_queue (m_lcInfoMap s) queue e = Inr t \<and> length t = 4"
    using b l by (auto simp: kb add_to_queue_def i Let_def ns_assert_def)
qed simp

lemma bsr_pdu_ok:
  shows "\<exists>p. bsr_pdu rnti queue = Inr p \<and> length (mp_bytes p) = 5 \<and> mp_rnti p = rnti \<and> mp_lcid p = SHORT_BSR"
proof -
  have "\<forall>k. \<exists>l. level_at queue k = Inr l \<and> l \<le> 31" using FromBytesToLevel_total by (simp add: level_at_def)
  then obtain l where l: "\<forall>k. level_at queue k = Inr (l k) \<and> l k \<le> 31" by metis
  then show ?thesis
    by (simp add: bsr_pdu_def NrMacShortBsrCe_Serialize_def NrMacShortBsrCe_new_def NrMacHeaderFs_Serialize_def)
qed

lemma reports_cong:
  "m_ulBsrReceived t = m_ulBsrReceived s \<Longrightarrow> m_lcInfoMap t = m_lcInfoMap s \<Longrightarrow> reports rnti t bsr = reports rnti s bsr"
  by (simp add: reports_def bsr_queues_def)

lemma reports_sizes: "reports rnti s bsr \<Longrightarrow> bsr = [] \<or> (\<exists>p. bsr = [p] \<and> length (mp_bytes p) = 5)"
proof -
  assume r: "reports rnti s bsr"
  have "length (mp_bytes p) = 5" if "bsr_pdu rnti queue = Inr p" for queue p
    using bsr_pdu_ok [of rnti queue] that by auto
  with r show ?thesis by (auto simp: reports_def split: if_splits)
qed

lemma SendBufferStatusReport_ok:
  assumes "ue_mac_ok ok s" and "m_ulDci s = Some dci" and "unat (m_ulDciTotalUsed s) + 5 \<le> unat (dci_tbSize dci)"
  shows "\<exists>bsr. SendBufferStatusReport sfn symStart s =
      Inr (s\<lparr>m_ulDciTotalUsed := m_ulDciTotalUsed s + of_nat (sum_list (map (length \<circ> mp_bytes) bsr)),
        out := out s @ map (\<lambda>p. SendMacPdu p sfn symStart (dci_rnti dci)) bsr\<rparr>) \<and> reports (mac_rnti s) s bsr"
proof (cases "mac_rnti s = 0 \<or> m_ulBsrReceived s = []")
  case True
  then show ?thesis by (intro exI [of _ "[]"]) (auto simp: SendBufferStatusReport_def reports_def)
next
  case False
  from bsr_queues_ok [OF assms(1)] obtain queue where q: "bsr_queues s = Inr queue" "length queue = 4" by blast
  from bsr_pdu_ok obtain p where p: "bsr_pdu (mac_rnti s) queue = Inr p" "length (mp_bytes p) = 5" by blast
  have "unat (dci_tbSize dci) < 2 ^ 32" by (rule unat_u32)
  then have "m_ulDciTotalUsed s + 5 \<le> dci_tbSize dci" using assms(3) by (simp add: word_le_nat_alt unat_word_ariths)
  then show ?thesis using False q p assms(2)
    by (intro exI [of _ "[p]"]) (simp add: SendBufferStatusReport_def reports_def with_dci_def Let_def emit_out_def)
qed

context mac_sap_user
begin

lemma notify_within:
  assumes w: "within_grant entity_ok dci sfn base bnd ks s0 s" and "k \<in> set ks" and "bytes < 65536"
    and room: "unat (m_ulDciTotalUsed s) + unat bytes + 3 \<le> bnd" and "bnd \<le> unat (dci_tbSize dci)"
  shows "\<exists>t. notify_rlc NotifyTxOpportunity k bytes (dci_harqProcess dci) s = Inr t \<and>
    within_grant entity_ok dci sfn base bnd ks s0 t \<and> m_ulBsrReceived t = m_ulBsrReceived s"
proof -
  note w' = w [unfolded within_grant_def]
  then have ok: "ue_mac_ok entity_ok s" by simp
  have "k \<in> fst ` set (m_lcInfoMap s)" using bsr_keys_known [OF ok] w' assms(2) by auto
  then obtain i where i: "map_of (m_lcInfoMap s) k = Some i" by (metis map_of_eq_None_iff not_None_eq)
  then have e: "entity_ok k (macSapUser i)" "logicalChannelGroup i < 4" "k \<le> 32"
    using ok map_of_SomeD [OF i] by (auto simp: ue_mac_ok_def)
  from notify [OF e(1) assms(3), of "dci_harqProcess dci"] obtain r cs where
    r: "NotifyTxOpportunity bytes (dci_harqProcess dci) (macSapUser i) = Inr (r, cs)" "entity_ok k r"
      "answers k (dci_harqProcess dci) bytes cs" by blast
  let ?s = "s\<lparr>m_lcInfoMap := AList.update k (i\<lparr>macSapUser := r\<rparr>) (m_lcInfoMap s)\<rparr>"
  have ok1: "ue_mac_ok entity_ok ?s"
  proof -
    have "\<forall>(k', j) \<in> set (AList.update k (i\<lparr>macSapUser := r\<rparr>) (m_lcInfoMap s)).
        entity_ok k' (macSapUser j) \<and> logicalChannelGroup j < 4 \<and> k' \<le> 32"
      by (rule update_ball) (use ok e r(2) in \<open>auto simp: ue_mac_ok_def\<close>)
    moreover have "fst ` set (AList.update k (i\<lparr>macSapUser := r\<rparr>) (m_lcInfoMap s)) = fst ` set (m_lcInfoMap s)"
      using map_of_SomeD [OF i] by (force simp: dom_update)
    ultimately show ?thesis using ok by (simp add: ue_mac_ok_def distinct_update)
  qed
  have keys: "map (\<lambda>(k, i). (k, logicalChannelGroup i)) (m_lcInfoMap ?s) = map (\<lambda>(k, i). (k, logicalChannelGroup i)) (m_lcInfoMap s)"
    using update_groups [OF i, of "i\<lparr>macSapUser := r\<rparr>"] by simp
  from w' obtain ps where ps: "granted dci sfn base ps s" "wrapped_size ps \<le> bnd" "\<forall>p \<in> set ps. tp_lcid p \<in> set ks" by blast
  then have gs: "granted dci sfn base ps ?s" by (simp add: granted_def)
  have w1: "within_grant entity_ok dci sfn base bnd ks s0 ?s"
    using w' ok1 keys gs ps(2,3) by (auto simp: within_grant_def)
  from r(3) consider "cs = []" | p where "cs = [TransmitPdu_call p]" "length (tp_pdu p) \<le> unat bytes" "tp_lcid p = k"
      "tp_harqProcessId p = dci_harqProcess dci" by (auto simp: answers_def)
  then show ?thesis
  proof cases
    case 1
    then show ?thesis using w1 i r(1) by (simp add: notify_rlc_def)
  next
    case 2
    have used: "unat (m_ulDciTotalUsed s) = wrapped_size ps" using ps(1) by (simp add: granted_def)
    have fit: "wrapped_size ps + length (tp_pdu p) + 3 \<le> unat (dci_tbSize dci)" using room assms(5) 2(2) used by simp
    have lc: "tp_lcid p \<le> 32" using 2(3) e(3) by simp
    obtain packets timers used' new where t: "UeMac_DoTransmitPdu p ?s = Inr (?s\<lparr>m_miUlHarqProcessesPacket := packets,
         m_miUlHarqProcessesPacketTimer := timers, m_ulDciTotalUsed := used', out := out ?s @ new\<rparr>)"
      and g: "granted dci sfn base (ps @ [p]) (?s\<lparr>m_miUlHarqProcessesPacket := packets,
         m_miUlHarqProcessesPacketTimer := timers, m_ulDciTotalUsed := used', out := out ?s @ new\<rparr>)"
      and l: "length packets = length (m_miUlHarqProcessesPacket ?s)" "length timers = length (m_miUlHarqProcessesPacketTimer ?s)"
      using transmit_in_grant [OF gs lc 2(4) fit] by metis
    let ?t = "?s\<lparr>m_miUlHarqProcessesPacket := packets, m_miUlHarqProcessesPacketTimer := timers, m_ulDciTotalUsed := used',
      out := out ?s @ new\<rparr>"
    have "ue_mac_ok entity_ok ?t" using ok1 l by (simp add: ue_mac_ok_def)
    moreover have "wrapped_size (ps @ [p]) \<le> bnd" using wrap_length(1) [of p] room 2(2) used by simp
    ultimately have "within_grant entity_ok dci sfn base bnd ks s0 ?t"
      using w1 g ps(3) 2(3) assms(2) unfolding within_grant_def by (auto intro!: exI [of _ "ps @ [p]"])
    then show ?thesis using i r(1) 2(1) t by (simp add: notify_rlc_def exec_call_def)
  qed
qed

lemma send_share_within:
  assumes w: "within_grant entity_ok dci sfn base bnd ks s0 s" and "k \<in> set ks" and "keeps_bsr sent"
    and "unat usefulTbs + 3 \<le> bnd" and "bnd \<le> unat (dci_tbSize dci)" and "unat (dci_tbSize dci) < 65536"
    and "bytesPerLcId \<le> usefulTbs"
  shows "\<exists>t. send_share NotifyTxOpportunity sent usefulTbs bytesPerLcId s k = Inr t \<and> within_grant entity_ok dci sfn base bnd ks s0 t"
proof -
  note w' = w [unfolded within_grant_def]
  then have "ue_mac_ok entity_ok s" "k \<in> set (map fst (m_ulBsrReceived s))" using assms(2) by auto
  then obtain b where b: "bsr_at k s = Inr b" "bsr_lcid b = k" by (rule bsr_lookup)
  show ?thesis
  proof (cases "m_ulDciTotalUsed s + bytesPerLcId \<le> usefulTbs")
    case False
    then show ?thesis using w b by (simp add: send_share_def)
  next
    case True
    from w' obtain ps where ps: "granted dci sfn base ps s" "wrapped_size ps \<le> bnd" by blast
    have small: "unat bytesPerLcId < 65536" using assms(4-7) by (simp add: word_le_nat_alt)
    have "unat (m_ulDciTotalUsed s) + unat bytesPerLcId < 2 ^ 32"
      using ps assms(4-7) by (simp add: granted_def word_le_nat_alt)
    then have "unat (m_ulDciTotalUsed s + bytesPerLcId) = unat (m_ulDciTotalUsed s) + unat bytesPerLcId"
      by (simp add: unat_word_ariths)
    with True assms(4) have room: "unat (m_ulDciTotalUsed s) + unat bytesPerLcId + 3 \<le> bnd" by (simp add: word_le_nat_alt)
    have "bytesPerLcId < 65536" using small by (simp add: word_less_nat_alt)
    from notify_within [OF w assms(2) this room assms(5)] obtain t where
      t: "notify_rlc NotifyTxOpportunity k bytesPerLcId (dci_harqProcess dci) s = Inr t"
        "within_grant entity_ok dci sfn base bnd ks s0 t" by blast
    have "within_grant entity_ok dci sfn base bnd ks s0 (bsr_change sent k t)"
      using t(2) ue_mac_ok_bsr_change [OF assms(3), of entity_ok t k] by (auto simp: within_grant_def)
    moreover have "m_ulDci s = Some dci" using ps(1) by (simp add: granted_def)
    ultimately show ?thesis using True b t(1) by (simp add: send_share_def with_dci_def)
  qed
qed

lemma SendData_within:
  assumes "within_grant entity_ok dci sfn base bnd ks s0 s" and "SendData \<in> {SendRetxData NotifyTxOpportunity, SendTxData NotifyTxOpportunity}"
    and "unat usefulTbs + 3 \<le> bnd" and "bnd \<le> unat (dci_tbSize dci)" and "unat (dci_tbSize dci) < 65536" and "n > 0"
  shows "\<exists>t. SendData usefulTbs n s = Inr t \<and> within_grant entity_ok dci sfn base bnd ks s0 t"
proof -
  let ?b = "usefulTbs div n"
  have b: "?b \<le> usefulTbs" by (simp add: word_le_nat_alt unat_div)
  have ks: "map fst (m_ulBsrReceived s) = ks" using assms(1) by (simp add: within_grant_def)
  have "\<exists>t. for_each (send_share NotifyTxOpportunity sent usefulTbs ?b) ks s = Inr t \<and> within_grant entity_ok dci sfn base bnd ks s0 t"
    if "keeps_bsr sent" for sent
    using send_share_within [OF _ _ that assms(3-5) b] assms(1) by (intro for_each_succeeds) auto
  from this [of "take_tx ?b"] this [of "take_retx ?b"] assms(2,6) ks show ?thesis
    by (auto simp: SendRetxData_def SendTxData_def Let_def)
qed

lemma phase_within:
  assumes w: "within_grant entity_ok dci sfn base bnd ks s0 s" and "SendData \<in> {SendRetxData NotifyTxOpportunity, SendTxData NotifyTxOpportunity}"
    and "bnd + 5 = unat (dci_tbSize dci)" and "unat (dci_tbSize dci) < 65536"
  shows "\<exists>t. send_phase SendData msg active s = Inr t \<and> within_grant entity_ok dci sfn base bnd ks s0 t"
proof -
  from w obtain ps where ps: "granted dci sfn base ps s" "wrapped_size ps \<le> bnd" by (auto simp: within_grant_def)
  then have dci: "m_ulDci s = Some dci" and used: "unat (m_ulDciTotalUsed s) \<le> bnd" by (simp_all add: granted_def)
  have u5: "unat (m_ulDciTotalUsed s + 5) = unat (m_ulDciTotalUsed s) + 5" using used assms(3,4) by (simp add: unat_word_ariths)
  then have fits: "m_ulDciTotalUsed s + 5 \<le> dci_tbSize dci" using used assms(3) by (simp add: word_le_nat_alt)
  define useful where "useful = dci_tbSize dci - m_ulDciTotalUsed s - 5"
  have "useful = dci_tbSize dci - (m_ulDciTotalUsed s + 5)" by (simp add: useful_def)
  then have u: "unat useful \<le> bnd" using unat_sub [OF fits] u5 assms(3) by simp
  show ?thesis
  proof (cases "active > 0 \<and> useful > 0 \<and> \<not> ucast active * 10 > useful")
    case False
    then show ?thesis using w dci fits by (auto simp: send_phase_def with_dci_def Let_def useful_def)
  next
    case True
    let ?a = "ucast active :: u32"
    have a: "unat ?a = unat active" "unat active < 65536"
      using unsigned_less [of active, where 'a = nat] by (simp_all add: unsigned_ucast_eq take_bit_nat_eq_self)
    then have m: "unat (?a * 10) = unat active * 10" "unat (?a * 3) = unat active * 3" by (simp_all add: unat_word_ariths)
    have pos: "unat active \<ge> 1" using True by (simp add: word_less_nat_alt)
    have le: "unat active * 10 \<le> unat useful" using True m(1) by (simp add: not_less word_le_nat_alt)
    then have "unat (useful - ?a * 3) = unat useful - unat active * 3" using m(2) by (subst unat_sub) (simp_all add: word_le_nat_alt)
    then have r: "unat (useful - ?a * 3) + 3 \<le> bnd" using u le pos by simp
    have "?a > 0" using a pos by (simp add: word_less_nat_alt)
    from SendData_within [OF w assms(2) r _ assms(4) this] assms(3) True dci fits show ?thesis
      by (auto simp: send_phase_def with_dci_def Let_def useful_def)
  qed
qed

lemma no_status_data:
  assumes "ue_mac_ok entity_ok s" and "m_ulDci s = Some dci"
  shows "SendNewStatusData NotifyTxOpportunity s = Inr s"
proof -
  have "\<exists>t. for_each (send_status NotifyTxOpportunity) (map fst (m_ulBsrReceived s)) (s, False, False) = Inr t \<and> t = (s, False, False)"
  proof (rule for_each_succeeds)
    fix t k assume k: "k \<in> set (map fst (m_ulBsrReceived s))" and t: "t = (s, False, False)"
    obtain b where "bsr_at k s = Inr b" "bsr_statusPduSize b = 0" by (rule bsr_lookup [OF assms(1) k])
    then show "\<exists>u. send_status NotifyTxOpportunity t k = Inr u \<and> u = (s, False, False)"
      using assms(2) t by (simp add: send_status_def with_dci_def)
  qed simp
  then show ?thesis by (auto simp: SendNewStatusData_def)
qed

text \<open>After \<open>SendNewData\<close>: the PDUs that were sent leave room for the SHORT BSR and are kept for retransmission.\<close>

lemma SendNewData_ok:
  assumes ok: "ue_mac_ok entity_ok s" and "m_ulDci s = Some dci" and "m_ulDciTotalUsed s = 0"
    and "dci_harqProcess dci < m_numHarqProcess s" and "5 \<le> unat (dci_tbSize dci)" and "unat (dci_tbSize dci) < 65536"
  shows "\<exists>t ps. SendNewData NotifyTxOpportunity s = Inr t \<and> ue_mac_ok entity_ok t \<and>
    map fst (m_ulBsrReceived t) = map fst (m_ulBsrReceived s) \<and> mac_rnti t = mac_rnti s \<and> m_ulDci t = Some dci \<and>
    m_ulDciSfnsf t = m_ulDciSfnsf s \<and> out t = out s @ sends dci (m_ulDciSfnsf s) ps \<and>
    unat (m_ulDciTotalUsed t) = wrapped_size ps \<and> wrapped_size ps + 5 \<le> unat (dci_tbSize dci) \<and>
    (\<forall>p \<in> set ps. tp_lcid p \<in> fst ` set (m_ulBsrReceived s)) \<and>
    m_pktBurst (m_miUlHarqProcessesPacket t ! unat (dci_harqProcess dci)) = (if ps = [] then None else Some (map wrap ps)) \<and>
    m_srState t = m_srState s \<and> dci_harqProcess dci < m_numHarqProcess t"
proof -
  let ?h = "unat (dci_harqProcess dci)"
  have h: "?h < length (m_miUlHarqProcessesPacket s)" "?h < length (m_miUlHarqProcessesPacketTimer s)"
    using ok assms(4) by (simp_all add: ue_mac_ok_def word_less_nat_alt)
  let ?s = "s\<lparr>m_miUlHarqProcessesPacket := (m_miUlHarqProcessesPacket s)[?h := \<lparr>m_pktBurst = Some [], m_lcidList = []\<rparr>]\<rparr>"
  have rs: "reset_burst (Some []) s = Inr ?s" using h assms(2) by (simp add: reset_burst_def with_dci_def Let_def not_le)
  have ok1: "ue_mac_ok entity_ok ?s" using ok by (simp add: ue_mac_ok_def)
  let ?bnd = "unat (dci_tbSize dci) - 5" and ?ks = "map fst (m_ulBsrReceived s)"
  have bnd: "?bnd + 5 = unat (dci_tbSize dci)" using assms(5) by simp
  have "granted dci (m_ulDciSfnsf s) (out s) [] ?s" using h assms(2,3) by (simp add: granted_def burst_of_def)
  then have w: "within_grant entity_ok dci (m_ulDciSfnsf s) (out s) ?bnd ?ks ?s ?s"
    using ok1 by (auto simp: within_grant_def)
  note st = no_status_data [OF ok1, of dci]
  let ?retx = "count_u16 (\<lambda>(k, b). bsr_retxQueueSize b > 0) (m_ulBsrReceived s)"
  let ?tx = "count_u16 (\<lambda>(k, b). bsr_txQueueSize b > 0) (m_ulBsrReceived s)"
  from phase_within [OF w _ bnd assms(6), of "SendRetxData NotifyTxOpportunity"] obtain u where
    u: "send_phase (SendRetxData NotifyTxOpportunity) ''no room for the SHORT_BSR after the StatusPDU'' ?retx ?s = Inr u"
      "within_grant entity_ok dci (m_ulDciSfnsf s) (out s) ?bnd ?ks ?s u" by blast
  from phase_within [OF u(2) _ bnd assms(6), of "SendTxData NotifyTxOpportunity"] obtain t where
    t: "send_phase (SendTxData NotifyTxOpportunity) ''no room for the SHORT_BSR after RETX'' ?tx u = Inr t"
      "within_grant entity_ok dci (m_ulDciSfnsf s) (out s) ?bnd ?ks ?s t" by blast
  from t(2) obtain ps where ps: "granted dci (m_ulDciSfnsf s) (out s) ps t" "wrapped_size ps \<le> ?bnd"
    "\<forall>p \<in> set ps. tp_lcid p \<in> set ?ks" by (auto simp: within_grant_def)
  have zero: "m_ulDciTotalUsed t = 0 \<longleftrightarrow> ps = []"
  proof
    assume "m_ulDciTotalUsed t = 0"
    then have "wrapped_size ps = 0" using ps(1) by (simp add: granted_def)
    then show "ps = []" using wrap_length(2) [of "hd ps"] by (cases ps) (auto simp: wrapped_size_def)
  next
    assume "ps = []"
    then show "m_ulDciTotalUsed t = 0" using ps(1) by (simp add: granted_def unat_eq_0)
  qed
  have run: "SendNewData NotifyTxOpportunity s = (if m_ulDciTotalUsed t = 0 then reset_burst None t else Inr t)"
    using rs st assms(2) u(1) t(1) by (simp add: SendNewData_def Let_def)
  note facts = t(2) [unfolded within_grant_def] ps [unfolded granted_def]
  have num: "dci_harqProcess dci < m_numHarqProcess t"
    using facts by (auto simp: ue_mac_ok_def word_less_nat_alt)
  show ?thesis
  proof (cases "ps = []")
    case True
    let ?t = "t\<lparr>m_miUlHarqProcessesPacket := (m_miUlHarqProcessesPacket t)[?h := \<lparr>m_pktBurst = None, m_lcidList = []\<rparr>]\<rparr>"
    have "SendNewData NotifyTxOpportunity s = Inr ?t"
      using run zero True facts by (simp add: reset_burst_def with_dci_def Let_def not_le)
    moreover have "ue_mac_ok entity_ok t" using t(2) by (simp add: within_grant_def)
    then have "ue_mac_ok entity_ok ?t" by (simp add: ue_mac_ok_def)
    ultimately show ?thesis using facts num True bnd by (intro exI [of _ ?t] exI [of _ "[]"]) simp
  next
    case False
    then have "SendNewData NotifyTxOpportunity s = Inr t" using run zero by simp
    moreover have "m_pktBurst (m_miUlHarqProcessesPacket t ! ?h) = Some (map wrap ps)"
      using facts False burst_of_nonempty by (cases ps) auto
    ultimately show ?thesis using facts num False bnd by (intro exI [of _ t] exI [of _ ps]) auto
  qed
qed

text \<open>
  A grant for new data: the PDUs of the channels, then the SHORT BSR if there are channels to report, or an empty PDU
  if nothing was sent and nothing is waiting. All of it fits the grant.
\<close>

lemma ProcessUlDci_ok:
  assumes ok: "ue_mac_ok entity_ok s" and "dci_ndi dci = 1" and "m_numerology (m_currentSlot s) \<le> 5"
    and "dci_harqProcess dci < m_numHarqProcess s" and "5 \<le> unat (dci_tbSize dci)" and "unat (dci_tbSize dci) < 65536"
  shows "\<exists>t sfn ps bsr. ProcessUlDci NotifyTxOpportunity dci kDelay s = Inr t \<and> Add kDelay (m_currentSlot s) = Inr sfn \<and>
    ue_mac_ok entity_ok t \<and> out t = out s @ sends dci sfn ps @ map (\<lambda>p. SendMacPdu p sfn (dci_symStart dci) (dci_rnti dci)) bsr \<and>
    reports (mac_rnti s) t bsr \<and>
    unat (m_ulDciTotalUsed t) = wrapped_size ps + sum_list (map (length \<circ> mp_bytes) bsr) \<and>
    m_ulDciTotalUsed t \<le> dci_tbSize dci \<and> (\<forall>p \<in> set ps. tp_lcid p \<in> insert 3 (fst ` set (m_ulBsrReceived s))) \<and>
    m_pktBurst (m_miUlHarqProcessesPacket t ! unat (dci_harqProcess dci)) = (if ps = [] then None else Some (map wrap ps)) \<and>
    (GetTotalBufSize t = 0 \<longrightarrow> m_srState t = SR_INACTIVE \<and> (ps \<noteq> [] \<or> bsr \<noteq> []))"
proof -
  obtain sfn where sfn: "Add kDelay (m_currentSlot s) = Inr sfn" using assms(3) by (simp add: Add_def Let_def)
  let ?s = "s\<lparr>m_ulDciSfnsf := sfn, m_ulDciTotalUsed := 0, m_ulDci := Some dci\<rparr>"
  have ok1: "ue_mac_ok entity_ok ?s" using ok by (simp add: ue_mac_ok_def)
  obtain u ps where u: "SendNewData NotifyTxOpportunity ?s = Inr u" "ue_mac_ok entity_ok u"
    "map fst (m_ulBsrReceived u) = map fst (m_ulBsrReceived s)" "mac_rnti u = mac_rnti s" "m_ulDci u = Some dci"
    "m_ulDciSfnsf u = sfn" "out u = out s @ sends dci sfn ps" "unat (m_ulDciTotalUsed u) = wrapped_size ps"
    "wrapped_size ps + 5 \<le> unat (dci_tbSize dci)" "\<forall>p \<in> set ps. tp_lcid p \<in> fst ` set (m_ulBsrReceived s)"
    "m_pktBurst (m_miUlHarqProcessesPacket u ! unat (dci_harqProcess dci)) = (if ps = [] then None else Some (map wrap ps))"
    "dci_harqProcess dci < m_numHarqProcess u"
    using SendNewData_ok [OF ok1, of dci] assms(4-6) by auto
  obtain v bsr where v: "SendBufferStatusReport sfn (dci_symStart dci) u = Inr v"
    "v = u\<lparr>m_ulDciTotalUsed := m_ulDciTotalUsed u + of_nat (sum_list (map (length \<circ> mp_bytes) bsr)),
       out := out u @ map (\<lambda>p. SendMacPdu p sfn (dci_symStart dci) (dci_rnti dci)) bsr\<rparr>"
    "reports (mac_rnti s) u bsr"
    using SendBufferStatusReport_ok [OF u(2,5), of sfn "dci_symStart dci"] u(4,8,9) by auto
  have len: "sum_list (map (length \<circ> mp_bytes) bsr) \<le> 5"
    using reports_sizes [OF v(3)] by auto
  have tb: "unat (dci_tbSize dci) < 2 ^ 32" by (rule unat_u32)
  have used: "unat (m_ulDciTotalUsed v) = wrapped_size ps + sum_list (map (length \<circ> mp_bytes) bsr)"
    using len u(8,9) tb by (simp add: v(2) unat_word_ariths unat_of_nat)
  then have le: "m_ulDciTotalUsed v \<le> dci_tbSize dci" using len u(9) by (simp add: word_le_nat_alt)
  have okv: "ue_mac_ok entity_ok v" using u(2) by (simp add: v(2) ue_mac_ok_def)
  have rep: "reports (mac_rnti s) v bsr" using v(3) reports_cong [of v u] by (simp add: v(2))
  have outv: "out v = out s @ sends dci sfn ps @ map (\<lambda>p. SendMacPdu p sfn (dci_symStart dci) (dci_rnti dci)) bsr"
    using u(7) by (simp add: v(2))
  have burst: "m_pktBurst (m_miUlHarqProcessesPacket v ! unat (dci_harqProcess dci)) = (if ps = [] then None else Some (map wrap ps))"
    using u(11) by (simp add: v(2))
  note run = assms(2) sfn u(1) v(1)
  consider "GetTotalBufSize v \<noteq> 0" | "GetTotalBufSize v = 0" "m_ulDciTotalUsed v \<noteq> 0" | "GetTotalBufSize v = 0" "m_ulDciTotalUsed v = 0"
    by blast
  then show ?thesis
  proof cases
    case 1
    then have "ProcessUlDci NotifyTxOpportunity dci kDelay s = Inr v" using run by (simp add: ProcessUlDci_def Let_def)
    then show ?thesis using 1 sfn okv outv rep used le u(10) burst by blast
  next
    case 2
    let ?v = "v\<lparr>m_srState := SR_INACTIVE\<rparr>"
    have "ProcessUlDci NotifyTxOpportunity dci kDelay s = Inr ?v" using run 2 by (simp add: ProcessUlDci_def Let_def)
    moreover have "ue_mac_ok entity_ok ?v" "reports (mac_rnti s) ?v bsr"
      using okv rep reports_cong [of ?v v] by (simp_all add: ue_mac_ok_def)
    moreover have "ps \<noteq> [] \<or> bsr \<noteq> []" using used 2(2) by (auto simp: unat_eq_0)
    ultimately show ?thesis using sfn outv used le u(10) burst
      by (intro exI [of _ ?v] exI [of _ sfn] exI [of _ ps] exI [of _ bsr]) auto
  next
    case 3
    let ?v = "v\<lparr>m_srState := SR_INACTIVE\<rparr>"
    let ?p = "\<lparr>tp_pdu = [], tp_rnti = mac_rnti s, tp_lcid = 3, tp_harqProcessId = dci_harqProcess dci\<rparr>"
    have none: "wrapped_size ps = 0" "sum_list (map (length \<circ> mp_bytes) bsr) = 0" using used 3(2) by simp_all
    have ps: "ps = []" using none(1) wrap_length(2) [of "hd ps"] by (cases ps) (auto simp: wrapped_size_def)
    have bsr: "bsr = []" using none(2) reports_sizes [OF rep] by auto
    have g: "granted dci sfn (out s) [] ?v"
      using u(5,6,12) outv used 3(2) burst ps bsr okv
      by (auto simp: granted_def burst_of_def v(2) ue_mac_ok_def word_less_nat_alt)
    obtain packets timers used' new where t: "UeMac_DoTransmitPdu ?p ?v = Inr (?v\<lparr>m_miUlHarqProcessesPacket := packets,
         m_miUlHarqProcessesPacketTimer := timers, m_ulDciTotalUsed := used', out := out ?v @ new\<rparr>)"
      and g': "granted dci sfn (out s) [?p] (?v\<lparr>m_miUlHarqProcessesPacket := packets,
         m_miUlHarqProcessesPacketTimer := timers, m_ulDciTotalUsed := used', out := out ?v @ new\<rparr>)"
      and l: "length packets = length (m_miUlHarqProcessesPacket ?v)" "length timers = length (m_miUlHarqProcessesPacketTimer ?v)"
    proof (rule transmit_in_grant [OF g, of ?p], goal_cases)
      case (4 packets timers used')
      then show ?case using that by (metis append_Nil)
    qed (use assms(5) in simp_all)
    let ?t = "?v\<lparr>m_miUlHarqProcessesPacket := packets, m_miUlHarqProcessesPacketTimer := timers, m_ulDciTotalUsed := used',
      out := out ?v @ new\<rparr>"
    have "ProcessUlDci NotifyTxOpportunity dci kDelay s = Inr ?t" using run 3 t u(4) by (simp add: ProcessUlDci_def Let_def v(2))
    moreover have "ue_mac_ok entity_ok ?t" "reports (mac_rnti s) ?t []"
      using okv rep l bsr reports_cong [of ?t v] by (simp_all add: ue_mac_ok_def)
    moreover have "out ?t = out s @ sends dci sfn [?p]" "unat (m_ulDciTotalUsed ?t) = wrapped_size [?p]"
      using g' by (simp_all add: granted_def)
    moreover have "m_ulDciTotalUsed ?t \<le> dci_tbSize dci"
      using g' wrap_length(1) [of ?p] assms(5) by (simp add: granted_def word_le_nat_alt wrapped_size_def)
    moreover have "m_pktBurst (m_miUlHarqProcessesPacket ?t ! unat (dci_harqProcess dci)) = Some (map wrap [?p])"
      using g' burst_of_nonempty by (simp add: granted_def)
    ultimately show ?thesis using sfn
      by (intro exI [of _ ?t] exI [of _ sfn] exI [of _ "[?p]"] exI [of _ "[]"]) simp
  qed
qed

end

section \<open>Entities in unacknowledged mode\<close>

text \<open>
  An entity with the identity that \<open>SetRnti\<close> and \<open>SetLcId\<close> gave it. The calls that an operation adds reach the MAC as
  \<open>TransmitPdu\<close> and \<open>BufferStatusReport\<close>; the others go to the PDCP and to the traces.
\<close>

record RlcUmEntity =
  rlc_rnti :: u16
  rlc_lcid :: u8
  rlc_um :: um

definition mac_call_of :: "u8 \<Rightarrow> RlcUmEntity \<Rightarrow> sap_call \<Rightarrow> mac_call option" where
  "mac_call_of harqId e c =
     (case c of
        TransmitPdu p \<Rightarrow> Some (TransmitPdu_call \<lparr>tp_pdu = pdu_bytes p, tp_rnti = rlc_rnti e, tp_lcid = rlc_lcid e, tp_harqProcessId = harqId\<rparr>)
      | BufferStatusReport queueSize delay expired \<Rightarrow>
          Some (BufferStatusReport_call (BufferStatusReportParameters (rlc_rnti e) (rlc_lcid e) queueSize delay 0 0 0 expired))
      | _ \<Rightarrow> None)"

definition um_NotifyTxOpportunity :: "Time \<Rightarrow> RlcUmEntity tx_operation" where
  "um_NotifyTxOpportunity now bytes harqId e =
     res_bind (DoNotifyTxOpportunity now bytes (rlc_um e)) (\<lambda>t.
       Inr (e\<lparr>rlc_um := t\<rparr>, List.map_filter (mac_call_of harqId e) (drop (length (calls (rlc_um e))) (calls t))))"

definition um_entity_ok :: "u8 \<Rightarrow> RlcUmEntity \<Rightarrow> bool" where
  "um_entity_ok lcid e \<longleftrightarrow> rlc_lcid e = lcid \<and> um_reachable (rlc_um e)"

lemma um_notify:
  assumes "um_entity_ok lcid e" and "bytes < 65536"
  shows "\<exists>e' cs. um_NotifyTxOpportunity now bytes harqId e = Inr (e', cs) \<and> um_entity_ok lcid e' \<and> answers lcid harqId bytes cs"
proof -
  have r: "um_reachable (rlc_um e)" and e: "rlc_lcid e = lcid" using assms(1) by (simp_all add: um_entity_ok_def)
  have fits: "header_fits bytes (rlc_um e)" using assms(2) by (simp add: header_fits_def)
  show ?thesis
  proof (cases "bytes \<le> 2 \<or> m_txBuffer (rlc_um e) = []")
    case True
    then have "um_NotifyTxOpportunity now bytes harqId e = Inr (e, [])"
      using opportunity_idle [OF True, of now] by (simp add: um_NotifyTxOpportunity_def List.map_filter_def)
    then show ?thesis using assms(1) by (simp add: answers_def)
  next
    case False
    then have n: "2 < bytes" "m_txBuffer (rlc_um e) \<noteq> []" by auto
    from DoNotifyTxOpportunity_sends [OF conjunct1 [OF reachable_ok [OF r]] n fits, of now] obtain t b where
      t: "DoNotifyTxOpportunity now bytes (rlc_um e) = Inr t" "length b \<le> unat bytes"
        "calls t = calls (rlc_um e) @ [TxPduTrace (GetSize b), TransmitPdu \<lparr>pdu_bytes = b, pdu_tag = Some now\<rparr>]"
      by fastforce
    have "um_reachable t" by (rule um_reachable.opportunity [OF r fits t(1)])
    then show ?thesis using t e
      by (simp add: um_NotifyTxOpportunity_def um_entity_ok_def answers_def List.map_filter_def mac_call_of_def)
  qed
qed

interpretation um_sap: mac_sap_user "um_NotifyTxOpportunity now" um_entity_ok for now
  by unfold_locales (rule um_notify)

section \<open>Properties\<close>

text \<open>C7: a grant is never exceeded. The MAC of a UE whose channels are served by RLC entities in unacknowledged mode
  answers every grant of 5 to 65535 bytes for new data: no assertion fails and no index is out of range. It sends the
  PDUs of its channels and the SHORT BSR, which reports the queues as they are after the grant, in the slot that is
  \<open>kDelay\<close> slots ahead; all of them with their subheaders fit into the transport block. The PDUs are kept in the HARQ
  process of the grant for a retransmission, and each one decodes to its channel and to the PDU of the entity. When
  nothing is waiting any more, the grant is not left empty and no scheduling request is pending.\<close>

theorem ue_grant_never_exceeded:
  assumes "ue_mac_ok um_entity_ok s" and "dci_ndi dci = 1" and "m_numerology (m_currentSlot s) \<le> 5"
    and "dci_harqProcess dci < m_numHarqProcess s" and "5 \<le> unat (dci_tbSize dci)" and "unat (dci_tbSize dci) < 65536"
  shows "\<exists>t sfn ps bsr. ProcessUlDci (um_NotifyTxOpportunity now) dci kDelay s = Inr t \<and> Add kDelay (m_currentSlot s) = Inr sfn \<and>
    ue_mac_ok um_entity_ok t \<and>
    out t = out s @ sends dci sfn ps @ map (\<lambda>p. SendMacPdu p sfn (dci_symStart dci) (dci_rnti dci)) bsr \<and>
    reports (mac_rnti s) t bsr \<and>
    wrapped_size ps + sum_list (map (length \<circ> mp_bytes) bsr) \<le> unat (dci_tbSize dci) \<and>
    m_pktBurst (m_miUlHarqProcessesPacket t ! unat (dci_harqProcess dci)) = (if ps = [] then None else Some (map wrap ps)) \<and>
    (\<forall>p \<in> set ps. \<exists>n. NrMacHeaderVs_Deserialize (mp_bytes (wrap p)) =
        Inr (\<lparr>vs_lcid = tp_lcid p, vs_size = of_nat (length (tp_pdu p))\<rparr>, n) \<and> drop (unat n) (mp_bytes (wrap p)) = tp_pdu p) \<and>
    (GetTotalBufSize t = 0 \<longrightarrow> m_srState t = SR_INACTIVE \<and> (ps \<noteq> [] \<or> bsr \<noteq> []))"
proof -
  from um_sap.ProcessUlDci_ok [OF assms, of now kDelay] obtain t sfn ps bsr where
    t: "ProcessUlDci (um_NotifyTxOpportunity now) dci kDelay s = Inr t" "Add kDelay (m_currentSlot s) = Inr sfn"
      "ue_mac_ok um_entity_ok t"
      "out t = out s @ sends dci sfn ps @ map (\<lambda>p. SendMacPdu p sfn (dci_symStart dci) (dci_rnti dci)) bsr"
      "reports (mac_rnti s) t bsr"
      "unat (m_ulDciTotalUsed t) = wrapped_size ps + sum_list (map (length \<circ> mp_bytes) bsr)" "m_ulDciTotalUsed t \<le> dci_tbSize dci"
      "\<forall>p \<in> set ps. tp_lcid p \<in> insert 3 (fst ` set (m_ulBsrReceived s))"
      "m_pktBurst (m_miUlHarqProcessesPacket t ! unat (dci_harqProcess dci)) = (if ps = [] then None else Some (map wrap ps))"
      "GetTotalBufSize t = 0 \<longrightarrow> m_srState t = SR_INACTIVE \<and> (ps \<noteq> [] \<or> bsr \<noteq> [])" by blast
  have "\<forall>p \<in> set ps. tp_lcid p \<le> 32" using t(8) bsr_keys_known [OF assms(1)] assms(1) by (fastforce simp: ue_mac_ok_def)
  then have "\<forall>p \<in> set ps. \<exists>n. NrMacHeaderVs_Deserialize (mp_bytes (wrap p)) =
      Inr (\<lparr>vs_lcid = tp_lcid p, vs_size = of_nat (length (tp_pdu p))\<rparr>, n) \<and> drop (unat n) (mp_bytes (wrap p)) = tp_pdu p"
    using unwrap by metis
  moreover have "wrapped_size ps + sum_list (map (length \<circ> mp_bytes) bsr) \<le> unat (dci_tbSize dci)"
    using t(6,7) by (simp add: word_le_nat_alt)
  ultimately show ?thesis using t(1-5,9,10) by blast
qed

definition demo_ue :: "RlcUmEntity UeMac" where
  "demo_ue = (NrUeMac_new \<lparr>numberOfRaPreambles = 52, preambleTransMax = 50, raResponseWindowSize = 3\<rparr>)
     \<lparr>m_currentSlot := \<lparr>m_frameNum = 1, m_subframeNum = 9, m_slotNum = 1, m_numerology = 1\<rparr>, mac_rnti := 7,
      m_lcInfoMap := [(4, \<lparr>logicalChannelGroup = 1,
        macSapUser = \<lparr>rlc_rnti = 7, rlc_lcid = 4, rlc_um = DoTransmitPdcpPdu 0 [1, 2, 3] (NrRlcUm_new 100)\<rparr>\<rparr>)],
      m_ulBsrReceived := [(4, BufferStatusReportParameters 7 4 3 0 0 0 0 False)]\<rparr>"

definition demo_grant :: Dci where
  "demo_grant = \<lparr>dci_rnti = 7, dci_symStart = 3, dci_numSym = 2, dci_tbSize = 100, dci_ndi = 1, dci_rv = 0, dci_harqProcess = 5\<rparr>"

lemma demo_ue_ok: "ue_mac_ok um_entity_ok demo_ue"
proof -
  from default_reachable [of 100] have "um_reachable (DoTransmitPdcpPdu 0 [1, 2, 3] (NrRlcUm_new 100))"
    by (rule um_reachable.transmit) simp_all
  then show ?thesis
    by (simp add: ue_mac_ok_def demo_ue_def um_entity_ok_def NrUeMac_new_def SetNumHarqProcess_def resize_def)
qed

theorem ue_grant_never_exceeded_witness:
  "\<exists>t ps bsr. ProcessUlDci (um_NotifyTxOpportunity 5) demo_grant 2 demo_ue = Inr t \<and>
     wrapped_size ps + sum_list (map (length \<circ> mp_bytes) bsr) \<le> 100 \<and> reports 7 t bsr"
  using ue_grant_never_exceeded [OF demo_ue_ok, of demo_grant 5 2]
  by (auto simp: demo_grant_def demo_ue_def NrUeMac_new_def SetNumHarqProcess_def)

end
