(* ===== verification/NrMacSchedulerInv.thy ===== *)
theory NrMacSchedulerInv
  imports NrMacScheduler
begin

text \<open>
  The invariant of the UE registry of the MAC scheduler, and that every operation of \<open>NrMacScheduler\<close> keeps it:
  every UE has well-formed logical channel groups, one channel in every uplink group, well-formed HARQ vectors,
  and the sounding offsets of the UEs and the free offsets are a permutation of all offsets of the period.
\<close>

section \<open>Logical channels\<close>

definition lcg_ok :: "LCG \<Rightarrow> bool" where
  "lcg_ok g \<longleftrightarrow> distinct (map fst (m_lcMap g)) \<and> (\<forall>(c, lc) \<in> set (m_lcMap g). lc_id lc = ucast c)"

definition dl_ok :: "(u8 \<times> LCG) list \<Rightarrow> bool" where
  "dl_ok gs \<longleftrightarrow> distinct (map fst gs) \<and> (\<forall>(l, g) \<in> set gs. lcg_ok g)"

definition ul_ok :: "(u8 \<times> LCG) list \<Rightarrow> bool" where
  "ul_ok gs \<longleftrightarrow> dl_ok gs \<and> (\<forall>(l, g) \<in> set gs. length (m_lcMap g) = 1)"

lemma dl_ok_groups: "dl_ok gs \<Longrightarrow> groups_ok gs"
  by (auto simp: dl_ok_def groups_ok_def lcg_ok_def)

lemma update_subset: "set (AList.update k v m) \<subseteq> insert (k, v) (set m)"
  by (induction m) auto

lemma update_all:
  assumes "\<forall>(k, v) \<in> set m. P v" and "P v"
  shows "\<forall>(k, v) \<in> set (AList.update k v m). P v"
  using assms update_subset [of k v m] by auto

lemma dl_ok_update: "dl_ok gs \<Longrightarrow> lcg_ok g \<Longrightarrow> dl_ok (AList.update l g gs)"
  unfolding dl_ok_def using update_all [of gs lcg_ok g l] by (simp add: distinct_update)

lemma ul_ok_update: "ul_ok gs \<Longrightarrow> lcg_ok g \<Longrightarrow> length (m_lcMap g) = 1 \<Longrightarrow> ul_ok (AList.update l g gs)"
  unfolding ul_ok_def using dl_ok_update [of gs g l] update_all [of gs "\<lambda>g. length (m_lcMap g) = 1" g l] by simp

lemma dl_ok_lookup: "dl_ok gs \<Longrightarrow> map_of gs l = Some g \<Longrightarrow> lcg_ok g"
  by (auto simp: dl_ok_def dest: map_of_SomeD)

lemma ul_ok_lookup: "ul_ok gs \<Longrightarrow> map_of gs l = Some g \<Longrightarrow> lcg_ok g \<and> length (m_lcMap g) = 1"
  by (auto simp: ul_ok_def dl_ok_def dest: map_of_SomeD)

lemma lcg_ok_update:
  "lcg_ok g \<Longrightarrow> lc_id lc = ucast c \<Longrightarrow> lcg_ok (g\<lparr>m_lcMap := AList.update c lc (m_lcMap g)\<rparr>)"
  using update_subset [of c lc "m_lcMap g"] by (auto simp: lcg_ok_def distinct_update)

lemma update_length: "map_of m k \<noteq> None \<Longrightarrow> length (AList.update k v m) = length m"
  by (induction m) (auto split: if_splits)

lemma LC_new_id: "LC_new release conf = Inr lc \<Longrightarrow> lc_id lc = ucast (m_logicalChannelIdentity conf)"
  by (auto simp: LC_new_def res_simps)

lemma LCG_Insert_ok:
  assumes "lcg_ok g" and "LCG_Insert lc g = Inr g'" and "lc_id lc = ucast (c :: u8)"
  shows "lcg_ok g'" and "length (m_lcMap g') = Suc (length (m_lcMap g))"
proof -
  have "(ucast (ucast c :: u32) :: u8) = c" by (rule bit_word_eqI) (auto simp: bit_simps)
  with assms show "lcg_ok g'" and "length (m_lcMap g') = Suc (length (m_lcMap g))"
    by (auto simp: LCG_Insert_def res_simps lcg_ok_def LCG_Contains_def map_of_eq_None_iff)
qed

lemma find_or_create_ok:
  assumes "dl_ok gs" and "find_or_create conf gs = (g, gs')"
  shows "dl_ok gs'" and "lcg_ok g"
proof -
  have new: "lcg_ok (LCG_new l)" for l by (simp add: lcg_ok_def LCG_new_def)
  show "lcg_ok g" using assms dl_ok_lookup new by (auto simp: find_or_create_def Let_def split: option.splits)
  show "dl_ok gs'" using assms new
    by (auto simp: find_or_create_def Let_def dl_ok_def map_of_eq_None_iff split: option.splits)
qed

lemma config_dl_ok:
  assumes "dl_ok gs" and "config_dl release conf gs = Inr gs'"
  shows "dl_ok gs'"
proof -
  obtain g gs1 where f: "find_or_create conf gs = (g, gs1)" by fastforce
  with assms(2) obtain lc g' where l: "LC_new release conf = Inr lc" "LCG_Insert lc g = Inr g'"
    "gs' = AList.update (m_logicalChannelGroup conf) g' gs1"
    by (auto simp: config_dl_def res_simps)
  note fc = find_or_create_ok [OF assms(1) f]
  have "lcg_ok g'" by (rule LCG_Insert_ok [OF fc(2) l(2) LC_new_id [OF l(1)]])
  with fc(1) show ?thesis unfolding l(3) by (rule dl_ok_update)
qed

lemma config_ul_ok:
  assumes "ul_ok gs" and "config_ul release conf gs = Inr gs'"
  shows "ul_ok gs'"
proof (cases "map_of gs (m_logicalChannelGroup conf)")
  case (Some g)
  have "LCG_NumOfLC g = 1" using ul_ok_lookup [OF assms(1) Some] by (simp add: LCG_NumOfLC_def)
  with Some assms show ?thesis by (simp add: config_ul_def find_or_create_def)
next
  case None
  let ?l = "m_logicalChannelGroup conf"
  have "find_or_create conf gs = (LCG_new ?l, (?l, LCG_new ?l) # gs)" using None by (simp add: find_or_create_def Let_def)
  with assms(2) obtain lc g' where l: "LC_new release conf = Inr lc" "LCG_Insert lc (LCG_new ?l) = Inr g'"
    "gs' = (?l, g') # gs"
    by (auto simp: config_ul_def res_simps LCG_NumOfLC_def LCG_new_def)
  have "lcg_ok (LCG_new ?l)" "length (m_lcMap (LCG_new ?l)) = 0" by (simp_all add: lcg_ok_def LCG_new_def)
  then have "lcg_ok g'" "length (m_lcMap g') = 1"
    using LCG_Insert_ok [OF _ l(2) LC_new_id [OF l(1)]] by simp_all
  with assms(1) None show ?thesis by (auto simp: l(3) ul_ok_def dl_ok_def map_of_eq_None_iff)
qed

lemma release_lcg_ok: "lcg_ok g \<Longrightarrow> lcg_ok (LCG_ReleaseLC c g)"
  by (auto simp: lcg_ok_def LCG_ReleaseLC_def AList.delete_eq distinct_map_filter)

lemma release_in_keys:
  assumes "distinct (map fst gs)"
  shows "distinct (map fst (release_in c gs))"
proof -
  have "map fst (map (\<lambda>(k, g). (k, LCG_ReleaseLC c g)) gs) = map fst gs" by auto
  with assms show ?thesis unfolding release_in_def by (metis distinct_map_filter)
qed

lemma release_in_mem:
  "(k, g) \<in> set (release_in c gs) \<Longrightarrow> \<exists>g0. (k, g0) \<in> set gs \<and> g = LCG_ReleaseLC c g0 \<and> m_lcMap g \<noteq> []"
  by (auto simp: release_in_def LCG_GetLCId_def)

lemma release_in_dl_ok: "dl_ok gs \<Longrightarrow> dl_ok (release_in c gs)"
  unfolding dl_ok_def using release_in_keys release_in_mem release_lcg_ok by (fastforce dest!: release_in_mem)

lemma release_in_ul_ok:
  assumes "ul_ok gs"
  shows "ul_ok (release_in c gs)"
proof -
  have "length (m_lcMap g) = 1" if "(k, g) \<in> set (release_in c gs)" for k g
  proof -
    from release_in_mem [OF that] obtain g0 where g0: "(k, g0) \<in> set gs" "g = LCG_ReleaseLC c g0" "m_lcMap g \<noteq> []"
      by blast
    then have "length (m_lcMap g0) = 1" using assms by (auto simp: ul_ok_def)
    then obtain kv where "m_lcMap g0 = [kv]" by (metis length_0_conv length_Suc_conv One_nat_def)
    with g0 show ?thesis by (cases kv) (auto simp: LCG_ReleaseLC_def split: if_splits)
  qed
  with assms release_in_dl_ok show ?thesis by (auto simp: ul_ok_def)
qed

lemma update_dl_keys: "update_dl params gs = Inr gs' \<Longrightarrow> map fst gs' = map fst gs"
  by (induction params gs arbitrary: gs' rule: update_dl.induct) (auto simp: res_simps split: if_splits)

lemma LCG_UpdateInfo_ok:
  assumes "lcg_ok g" and "LCG_Contains (req_logicalChannelIdentity params) g"
  obtains g' where "LCG_UpdateInfo params g = Inr g'" and "lcg_ok g'"
proof -
  from assms(2) obtain lc where lc: "map_of (m_lcMap g) (req_logicalChannelIdentity params) = Some lc"
    by (auto simp: LCG_Contains_def)
  then have "lc_id lc = ucast (req_logicalChannelIdentity params)"
    using assms(1) by (auto simp: lcg_ok_def dest: map_of_SomeD)
  with lc assms that lcg_ok_update show ?thesis
    by (fastforce simp: LCG_UpdateInfo_def LC_Update_def lc_at_def)
qed

lemma update_dl_ok: "\<forall>(l, g) \<in> set gs. lcg_ok g \<Longrightarrow> \<exists>gs'. update_dl params gs = Inr gs' \<and> (\<forall>(l, g) \<in> set gs'. lcg_ok g)"
proof (induction params gs rule: update_dl.induct)
  case (2 params k g groups)
  show ?case
  proof (cases "LCG_Contains (req_logicalChannelIdentity params) g")
    case True
    have "lcg_ok g" using "2.prems" by simp
    from LCG_UpdateInfo_ok [OF this True] obtain g' where "LCG_UpdateInfo params g = Inr g'" "lcg_ok g'" by blast
    with True "2.prems" show ?thesis by auto
  next
    case False
    with 2 show ?thesis by fastforce
  qed
qed simp

lemma LCG_UpdateInfo_ul_ok:
  assumes "lcg_ok g" and "length (m_lcMap g) = 1"
  obtains c lc where "m_lcMap g = [(c, lc)]"
    and "LCG_UpdateInfo_ul siz g = Inr (g\<lparr>m_lcMap := [(c, lc\<lparr>m_rlcTransmissionQueueSize := siz\<rparr>)]\<rparr>)"
    and "lcg_ok (g\<lparr>m_lcMap := [(c, lc\<lparr>m_rlcTransmissionQueueSize := siz\<rparr>)]\<rparr>)"
proof -
  from assms(2) obtain c lc where g: "m_lcMap g = [(c, lc)]" by (metis length_0_conv length_Suc_conv One_nat_def prod.exhaust)
  with assms(1) that show ?thesis by (auto simp: LCG_UpdateInfo_ul_def lcg_ok_def)
qed

lemma update_ul_ok:
  assumes "ul_ok gs" and "unat lcg < length levels"
  shows "\<exists>gs'. update_ul levels gs lcg = Inr gs' \<and> ul_ok gs'"
proof (cases "map_of gs lcg")
  case None
  with assms show ?thesis by (simp add: update_ul_def not_le)
next
  case (Some g)
  let ?siz = "ucast (FromLevelToBytes (levels ! unat lcg)) :: u32"
  have g: "lcg_ok g" "length (m_lcMap g) = 1" using ul_ok_lookup [OF assms(1) Some] by auto
  obtain c lc where u: "LCG_UpdateInfo_ul ?siz g = Inr (g\<lparr>m_lcMap := [(c, lc\<lparr>m_rlcTransmissionQueueSize := ?siz\<rparr>)]\<rparr>)"
    "lcg_ok (g\<lparr>m_lcMap := [(c, lc\<lparr>m_rlcTransmissionQueueSize := ?siz\<rparr>)]\<rparr>)"
    by (rule LCG_UpdateInfo_ul_ok [OF g])
  have "ul_ok (AList.update lcg (g\<lparr>m_lcMap := [(c, lc\<lparr>m_rlcTransmissionQueueSize := ?siz\<rparr>)]\<rparr>) gs)"
    by (rule ul_ok_update [OF assms(1) u(2)]) simp
  with Some u(1) assms(2) show ?thesis by (simp add: update_ul_def)
qed

lemma update_ul_all_ok:
  assumes "ul_ok gs" and "\<forall>l \<in> set ls. unat l < length levels"
  shows "\<exists>gs'. for_each (update_ul levels) ls gs = Inr gs' \<and> ul_ok gs'"
  using assms
proof (induction ls arbitrary: gs)
  case (Cons l ls)
  with update_ul_ok [of gs l levels] show ?case by fastforce
qed simp

lemma sr_groups_ok:
  assumes "\<forall>(l, g) \<in> set gs. lcg_ok g \<and> length (m_lcMap g) = 1"
  shows "\<exists>gs'. map_res sr_group gs = Inr gs' \<and> map fst gs' = map fst gs \<and>
    (\<forall>(l, g) \<in> set gs'. lcg_ok g \<and> length (m_lcMap g) = 1)"
  using assms
proof (induction gs)
  case (Cons lg gs)
  obtain l g where lg: "lg = (l, g)" by (cases lg)
  have "lcg_ok g" "length (m_lcMap g) = 1" using Cons.prems by (auto simp: lg)
  from LCG_UpdateInfo_ul_ok [OF this, of 12] Cons show ?case by (fastforce simp: lg sr_group_def)
qed simp

lemma sr_groups_ul_ok: "ul_ok gs \<Longrightarrow> \<exists>gs'. map_res sr_group gs = Inr gs' \<and> ul_ok gs'"
  using sr_groups_ok [of gs] by (fastforce simp: ul_ok_def dl_ok_def)

section \<open>The registry\<close>

definition ue_ok :: "NrMacSchedulerUeInfo \<Rightarrow> bool" where
  "ue_ok ue \<longleftrightarrow> dl_ok (m_dlLCG ue) \<and> ul_ok (m_ulLCG ue) \<and> harq_ok (m_dlHarq ue) \<and> harq_ok (m_ulHarq ue)"

definition ues_ok :: "(u16 \<times> NrMacSchedulerUeInfo) list \<Rightarrow> bool" where
  "ues_ok ues \<longleftrightarrow> distinct (map fst ues) \<and> (\<forall>(r, ue) \<in> set ues. ue_ok ue)"

definition offsets :: "(u16 \<times> NrMacSchedulerUeInfo) list \<Rightarrow> u32 list" where
  "offsets ues = map (\<lambda>(r, ue). m_srsOffset ue) ues"

definition srs_ok :: "(u16 \<times> NrMacSchedulerUeInfo) list \<Rightarrow> Srs \<Rightarrow> bool" where
  "srs_ok ues r \<longleftrightarrow> m_periodicity r \<in> set StandardPeriodicity \<and>
     mset (m_availableOffsetValues r) + mset (offsets ues) = mset (map of_nat [0..<unat (m_periodicity r)]) \<and>
     (\<forall>(rnti, ue) \<in> set ues. m_srsPeriodicity ue = m_periodicity r)"

definition sched_ok :: "Scheduler \<Rightarrow> bool" where
  "sched_ok s \<longleftrightarrow> ues_ok (m_ueMap s) \<and> srs_ok (m_ueMap s) (m_schedulerSrs s)"

lemma ues_ok_lookup: "ues_ok ues \<Longrightarrow> map_of ues r = Some ue \<Longrightarrow> ue_ok ue"
  by (auto simp: ues_ok_def dest: map_of_SomeD)

lemma ues_ok_update: "ues_ok ues \<Longrightarrow> ue_ok ue \<Longrightarrow> ues_ok (AList.update r ue ues)"
  unfolding ues_ok_def using update_all [of ues ue_ok ue r] by (simp add: distinct_update)

lemma offsets_update:
  "map_of ues r = Some ue \<Longrightarrow> m_srsOffset ue' = m_srsOffset ue \<Longrightarrow> offsets (AList.update r ue' ues) = offsets ues"
  by (induction ues) (auto simp: offsets_def split: if_splits)

lemma srs_ok_update:
  assumes "srs_ok ues r" and "map_of ues rnti = Some ue"
    and "m_srsOffset ue' = m_srsOffset ue" and "m_srsPeriodicity ue' = m_srsPeriodicity ue"
  shows "srs_ok (AList.update rnti ue' ues) r"
proof -
  have "m_srsPeriodicity ue' = m_periodicity r" using assms by (auto simp: srs_ok_def dest: map_of_SomeD)
  then show ?thesis
    using assms(1) offsets_update [OF assms(2,3)] update_all [of ues "\<lambda>ue. m_srsPeriodicity ue = m_periodicity r" ue' rnti]
    by (simp add: srs_ok_def)
qed

text \<open>Writing a UE back with other groups and processes keeps the invariant.\<close>

lemma ue_put_ok:
  assumes "sched_ok s" and "map_of (m_ueMap s) rnti = Some ue" and "ue_ok ue'"
    and "m_srsOffset ue' = m_srsOffset ue" and "m_srsPeriodicity ue' = m_srsPeriodicity ue"
  shows "sched_ok (ue_put rnti ue' s)"
  using assms by (simp add: sched_ok_def ue_put_def ues_ok_update srs_ok_update)

lemma sched_ok_lookup: "sched_ok s \<Longrightarrow> map_of (m_ueMap s) rnti = Some ue \<Longrightarrow> ue_ok ue"
  using ues_ok_lookup by (auto simp: sched_ok_def)

lemma config_lcs_ok:
  assumes "for_each (config_lc release) confs ue = Inr ue'" and "ue_ok ue"
  shows "ue_ok ue' \<and> m_srsOffset ue' = m_srsOffset ue \<and> m_srsPeriodicity ue' = m_srsPeriodicity ue"
proof (rule for_each_invariant [OF assms(1)])
  fix u c u'
  assume "ue_ok u \<and> m_srsOffset u = m_srsOffset ue \<and> m_srsPeriodicity u = m_srsPeriodicity ue"
    and "config_lc release u c = Inr u'"
  then show "ue_ok u' \<and> m_srsOffset u' = m_srsOffset ue \<and> m_srsPeriodicity u' = m_srsPeriodicity ue"
    by (auto simp: config_lc_def res_simps ue_ok_def split: if_splits intro: config_dl_ok config_ul_ok)
qed (use assms(2) in simp)

lemma DoCschedLcConfigReq_ok: "sched_ok s \<Longrightarrow> DoCschedLcConfigReq rnti confs s = Inr s' \<Longrightarrow> sched_ok s'"
  by (auto simp: DoCschedLcConfigReq_def res_simps split: option.splits
      dest!: config_lcs_ok intro!: ue_put_ok intro: sched_ok_lookup)

lemma release_lc_ok:
  assumes "sched_ok s" and "release_lc rnti s lcid = Inr s'"
  shows "sched_ok s'"
proof -
  from assms(2) obtain ue where ue: "map_of (m_ueMap s) rnti = Some ue" "s' = ue_put rnti (UeInfo_ReleaseLC lcid ue) s"
    by (auto simp: release_lc_def split: option.splits)
  have "ue_ok (UeInfo_ReleaseLC lcid ue)"
    using sched_ok_lookup [OF assms(1) ue(1)]
    by (simp add: ue_ok_def UeInfo_ReleaseLC_def release_in_dl_ok release_in_ul_ok)
  then show ?thesis unfolding ue(2)
    by (intro ue_put_ok [OF assms(1) ue(1)]) (simp_all add: UeInfo_ReleaseLC_def)
qed

lemma DoCschedLcReleaseReq_ok: "sched_ok s \<Longrightarrow> DoCschedLcReleaseReq rnti lcIds s = Inr s' \<Longrightarrow> sched_ok s'"
  unfolding DoCschedLcReleaseReq_def by (erule for_each_invariant) (auto intro: release_lc_ok)

lemma DoSchedDlRlcBufferReq_ok:
  assumes "sched_ok s" and "map_of (m_ueMap s) (req_rnti params) = Some ue"
  shows "\<exists>s'. DoSchedDlRlcBufferReq params s = Inr s' \<and> sched_ok s'"
proof -
  note ue = sched_ok_lookup [OF assms]
  from ue have "\<forall>(l, g) \<in> set (m_dlLCG ue). lcg_ok g" by (simp add: ue_ok_def dl_ok_def)
  from update_dl_ok [OF this, of params] obtain gs where
    gs: "update_dl params (m_dlLCG ue) = Inr gs" "\<forall>(l, g) \<in> set gs. lcg_ok g" by blast
  have "dl_ok gs" using ue gs update_dl_keys [OF gs(1)] by (simp add: ue_ok_def dl_ok_def)
  with ue have "ue_ok (ue\<lparr>m_dlLCG := gs\<rparr>)" by (simp add: ue_ok_def)
  with ue_put_ok [OF assms this] gs(1) assms(2) show ?thesis by (simp add: DoSchedDlRlcBufferReq_def)
qed

lemma BSRReceivedFromUe_ok:
  assumes "sched_ok s" and "map_of (m_ueMap s) (ce_rnti bsr) = Some ue"
    and "m_macCeType bsr = BSR" and "length (m_bufferStatus bsr) = 4"
  shows "\<exists>s'. BSRReceivedFromUe bsr s = Inr s' \<and> sched_ok s'"
proof -
  note ue = sched_ok_lookup [OF assms(1,2)]
  then have "ul_ok (m_ulLCG ue)" by (simp add: ue_ok_def)
  from update_ul_all_ok [OF this, of "[0, 1, 2, 3]" "m_bufferStatus bsr"] assms(4) obtain gs where
    gs: "for_each (update_ul (m_bufferStatus bsr)) [0, 1, 2, 3] (m_ulLCG ue) = Inr gs" "ul_ok gs" by auto
  from ue gs(2) have "ue_ok (ue\<lparr>m_ulLCG := gs\<rparr>)" by (simp add: ue_ok_def)
  with ue_put_ok [OF assms(1,2) this] gs(1) assms(2,3) show ?thesis
    by (simp add: BSRReceivedFromUe_def del: for_each.simps)
qed

lemma schedule_sr_ok:
  assumes "sched_ok s" and "map_of (m_ueMap s) rnti = Some ue"
  shows "\<exists>s'. schedule_sr s rnti = Inr s' \<and> sched_ok s' \<and> dom (map_of (m_ueMap s')) = dom (map_of (m_ueMap s))"
proof -
  note ue = sched_ok_lookup [OF assms]
  then have "ul_ok (m_ulLCG ue)" by (simp add: ue_ok_def)
  from sr_groups_ul_ok [OF this] obtain gs where gs: "map_res sr_group (m_ulLCG ue) = Inr gs" "ul_ok gs" by blast
  from ue gs(2) have "ue_ok (ue\<lparr>m_ulLCG := gs\<rparr>)" by (simp add: ue_ok_def)
  with ue_put_ok [OF assms this] gs(1) assms(2) show ?thesis
    by (auto simp: schedule_sr_def ue_put_def update_conv')
qed

lemma schedule_srs_ok:
  assumes "sched_ok s" and "set rs \<subseteq> dom (map_of (m_ueMap s))"
  shows "\<exists>s'. for_each schedule_sr rs s = Inr s' \<and> sched_ok s'"
  using assms
proof (induction rs arbitrary: s)
  case (Cons r rs)
  then obtain ue where "map_of (m_ueMap s) r = Some ue" by auto
  from schedule_sr_ok [OF Cons.prems(1) this] obtain s1 where
    s1: "schedule_sr s r = Inr s1" "sched_ok s1" "dom (map_of (m_ueMap s1)) = dom (map_of (m_ueMap s))" by blast
  with Cons.IH [of s1] Cons.prems(2) show ?case by auto
qed simp

lemma DoScheduleUlSr_ok:
  assumes "sched_ok s" and "set (m_srList s) \<subseteq> dom (map_of (m_ueMap s))"
  shows "\<exists>s'. DoScheduleUlSr s = Inr s' \<and> sched_ok s' \<and> m_srList s' = []"
  using schedule_srs_ok [OF assms] by (auto simp: DoScheduleUlSr_def sched_ok_def)

abbreviation sr_merge :: "u16 list \<Rightarrow> u16 list \<Rightarrow> u16 list" where
  "sr_merge rs l \<equiv> fold (\<lambda>ue l. if ue \<in> set l then l else l @ [ue]) rs l"

lemma sr_merge_set: "set (sr_merge rs l) = set rs \<union> set l"
  by (induction rs arbitrary: l) auto

lemma DoSchedUlSrInfoReq_ok:
  assumes "distinct rs"
  shows "DoSchedUlSrInfoReq rs s = Inr (s\<lparr>m_srList := sr_merge rs (m_srList s)\<rparr>)"
proof -
  have "card (set rs) \<le> card (set (sr_merge rs (m_srList s)))" by (intro card_mono) (auto simp: sr_merge_set)
  also have "\<dots> \<le> length (sr_merge rs (m_srList s))" by (rule card_length)
  finally have "length rs \<le> length (sr_merge rs (m_srList s))" using assms by (simp add: distinct_card)
  then show ?thesis by (simp add: DoSchedUlSrInfoReq_def)
qed

section \<open>Sounding offsets\<close>

lemma srs_ok_distinct:
  assumes "srs_ok ues r"
  shows "distinct (offsets ues)" and "\<forall>x \<in> set (offsets ues). x < m_periodicity r"
proof -
  let ?p = "unat (m_periodicity r)"
  have p: "?p < 2 ^ 32" by (rule unat_u32)
  have "distinct (map (of_nat :: nat \<Rightarrow> u32) [0..<?p])"
    using p by (auto simp: distinct_map inj_on_def word_of_nat_eq_iff take_bit_nat_eq_self)
  then have d: "distinct (m_availableOffsetValues r @ offsets ues)"
    using assms by (metis mset_append mset_eq_imp_distinct_iff srs_ok_def)
  then show "distinct (offsets ues)" by simp
  have "set (offsets ues) \<subseteq> set (map of_nat [0..<?p])"
    using assms unfolding srs_ok_def by (metis mset_append mset_eq_setD set_append Un_upper2)
  moreover have "of_nat i < m_periodicity r" if "i < ?p" for i
    using that p by (simp add: word_less_nat_alt unat_of_nat)
  ultimately show "\<forall>x \<in> set (offsets ues). x < m_periodicity r" by auto
qed

lemma srs_ok_count:
  assumes "srs_ok ues r"
  shows "length (m_availableOffsetValues r) + length ues = unat (m_periodicity r)"
proof -
  have "size (mset (m_availableOffsetValues r) + mset (offsets ues)) = size (mset (map (of_nat :: nat \<Rightarrow> u32) [0..<unat (m_periodicity r)]))"
    using assms by (simp add: srs_ok_def)
  then show ?thesis by (simp add: offsets_def)
qed

lemma Srs_AddUe_mset:
  assumes "Srs_AddUe r = (Some (offset, period), r')"
  shows "mset (m_availableOffsetValues r) = add_mset offset (mset (m_availableOffsetValues r'))"
    and "period = m_periodicity r" and "m_periodicity r' = m_periodicity r"
  using assms mset_butlast by (auto simp: Srs_AddUe_def split: if_splits)

lemma reassign_ok:
  assumes "length ues \<le> length (m_availableOffsetValues r)"
  shows "\<exists>r' ues'. for_each assign_srs ues (r, acc) = Inr (r', acc @ ues') \<and> m_periodicity r' = m_periodicity r \<and>
    mset (m_availableOffsetValues r') + mset (offsets ues') = mset (m_availableOffsetValues r) \<and>
    map fst ues' = map fst ues \<and> (\<forall>(rnti, ue) \<in> set ues'. m_srsPeriodicity ue = m_periodicity r) \<and>
    ((\<forall>(rnti, ue) \<in> set ues. ue_ok ue) \<longrightarrow> (\<forall>(rnti, ue) \<in> set ues'. ue_ok ue))"
  using assms
proof (induction ues arbitrary: r acc)
  case Nil
  then show ?case by (intro exI [of _ r] exI [of _ "[]"]) (simp add: offsets_def)
next
  case (Cons u ues)
  obtain rnti ue where u: "u = (rnti, ue)" by (cases u)
  have "m_availableOffsetValues r \<noteq> []" using Cons.prems by auto
  then obtain offset period r1 where a: "Srs_AddUe r = (Some (offset, period), r1)"
    by (simp add: Srs_AddUe_def)
  note m = Srs_AddUe_mset [OF a]
  let ?ue = "ue\<lparr>m_srsPeriodicity := period, m_srsOffset := offset\<rparr>"
  have "length ues \<le> length (m_availableOffsetValues r1)"
    using Cons.prems m(1) by (metis Suc_le_mono length_Cons size_add_mset size_mset)
  from Cons.IH [OF this, of "acc @ [(rnti, ?ue)]"] obtain r' ues' where
    IH: "for_each assign_srs ues (r1, acc @ [(rnti, ?ue)]) = Inr (r', (acc @ [(rnti, ?ue)]) @ ues')"
      "m_periodicity r' = m_periodicity r1"
      "mset (m_availableOffsetValues r') + mset (offsets ues') = mset (m_availableOffsetValues r1)"
      "map fst ues' = map fst ues" "\<forall>(rnti, ue) \<in> set ues'. m_srsPeriodicity ue = m_periodicity r1"
      "(\<forall>(rnti, ue) \<in> set ues. ue_ok ue) \<longrightarrow> (\<forall>(rnti, ue) \<in> set ues'. ue_ok ue)" by blast
  have "for_each assign_srs (u # ues) (r, acc) = Inr (r', acc @ ((rnti, ?ue) # ues'))"
    using IH(1) a by (simp add: u assign_srs_def)
  moreover have "mset (m_availableOffsetValues r') + mset (offsets ((rnti, ?ue) # ues')) = mset (m_availableOffsetValues r)"
    using IH(3) m(1) by (simp add: offsets_def)
  ultimately show ?case using IH m
    by (intro exI [of _ r'] exI [of _ "(rnti, ?ue) # ues'"]) (auto simp: u ue_ok_def)
qed

lemma IncreasePeriodicity_ok:
  assumes "ues_ok ues" and "m_periodicity r < 2560" and "length ues \<le> Suc (unat (m_periodicity r))"
  shows "\<exists>r' ues'. IncreasePeriodicity ues r = Inr (True, r', ues') \<and> ues_ok ues' \<and> srs_ok ues' r' \<and>
    map fst ues' = map fst ues \<and> m_periodicity r < m_periodicity r'"
proof -
  have "2560 \<in> set StandardPeriodicity" by (simp add: StandardPeriodicity_def)
  with assms(2) have "dropWhile (\<lambda>p. p \<le> m_periodicity r) StandardPeriodicity \<noteq> []"
    unfolding dropWhile_eq_Nil_conv by (auto simp: not_le)
  then obtain p rest where dw: "dropWhile (\<lambda>p. p \<le> m_periodicity r) StandardPeriodicity = p # rest"
    by (cases "dropWhile (\<lambda>p. p \<le> m_periodicity r) StandardPeriodicity") auto
  then have p: "m_periodicity r < p" "p \<in> set StandardPeriodicity"
    using hd_dropWhile [of "\<lambda>p. p \<le> m_periodicity r" StandardPeriodicity] set_dropWhileD [of p "\<lambda>p. p \<le> m_periodicity r"]
    by auto
  let ?r = "r\<lparr>m_availableOffsetValues := map of_nat [0..<unat p], m_periodicity := p\<rparr>"
  have "length ues \<le> length (m_availableOffsetValues ?r)"
    using assms(3) p(1) by (simp add: word_less_nat_alt)
  from reassign_ok [OF this, of "[]"] obtain r' ues' where
    ra: "for_each assign_srs ues (?r, []) = Inr (r', [] @ ues')" "m_periodicity r' = m_periodicity ?r"
      "mset (m_availableOffsetValues r') + mset (offsets ues') = mset (m_availableOffsetValues ?r)"
      "map fst ues' = map fst ues" "\<forall>(rnti, ue) \<in> set ues'. m_srsPeriodicity ue = m_periodicity ?r"
      "(\<forall>(rnti, ue) \<in> set ues. ue_ok ue) \<longrightarrow> (\<forall>(rnti, ue) \<in> set ues'. ue_ok ue)" by blast
  have "SetStartingPeriodicity p (r\<lparr>m_availableOffsetValues := []\<rparr>) = Inr ?r"
    using p(2) by (simp add: SetStartingPeriodicity_def)
  then have "IncreasePeriodicity ues r = Inr (True, r', ues')"
    using dw ra(1) by (simp add: IncreasePeriodicity_def ReassignSrsValue_def)
  moreover have "srs_ok ues' r'" using ra p(2) by (simp add: srs_ok_def)
  moreover have "ues_ok ues'" using assms(1) ra(4,6) by (simp add: ues_ok_def)
  moreover have "m_periodicity r < m_periodicity r'" using ra(2) p(1) by simp
  ultimately show ?thesis using ra(4) by blast
qed

lemma UeInfo_new_ok: "ue_ok (UeInfo_new rnti beamId)"
  by (simp add: ue_ok_def UeInfo_new_def dl_ok_def ul_ok_def harq_ok_def HarqVector_new_def)

lemma new_ue_ok: "ue_ok ((UeInfo_new rnti beamId)\<lparr>m_dlHarq := SetMaxSize n HarqVector_new, m_ulHarq := SetMaxSize n HarqVector_new,
    m_dlMcs := a, m_startMcsDlUe := b, m_ulMcs := c\<rparr>)"
  using SetMaxSize_ok [of n] by (simp add: ue_ok_def UeInfo_new_def dl_ok_def ul_ok_def)

text \<open>A UE can be registered as long as fewer than 2560 are.\<close>

lemma DoCschedUeConfigReq_ok:
  assumes "sched_ok s" and "length (m_ueMap s) < 2560 \<or> map_of (m_ueMap s) rnti \<noteq> None"
  shows "\<exists>s'. DoCschedUeConfigReq rnti beamId s = Inr s' \<and> sched_ok s' \<and>
    dom (map_of (m_ueMap s')) = insert rnti (dom (map_of (m_ueMap s)))"
proof (cases "map_of (m_ueMap s) rnti")
  case (Some ue)
  have "ue_ok (ue\<lparr>m_beamId := beamId\<rparr>)" using sched_ok_lookup [OF assms(1) Some] by (simp add: ue_ok_def)
  from ue_put_ok [OF assms(1) Some this] Some show ?thesis
    by (auto simp: DoCschedUeConfigReq_def ue_put_def update_conv')
next
  case None
  let ?ue = "(UeInfo_new rnti beamId)\<lparr>m_dlHarq := SetMaxSize (numHarqProcess s) HarqVector_new,
    m_ulHarq := SetMaxSize (numHarqProcess s) HarqVector_new, m_dlMcs := m_startMcsDl s,
    m_startMcsDlUe := m_startMcsDl s, m_ulMcs := m_startMcsUl s\<rparr>"
  have ue: "ue_ok ?ue" by (rule new_ue_ok)
  let ?r = "m_schedulerSrs s"
  have srs: "srs_ok (m_ueMap s) ?r" and ues: "ues_ok (m_ueMap s)" using assms(1) by (simp_all add: sched_ok_def)
  have new: "ues_ok ((rnti, ?ue) # m_ueMap s)" using ues ue None by (simp add: ues_ok_def map_of_eq_None_iff)
  have fields: "m_dlHarq (UeInfo_new rnti beamId) = HarqVector_new" "m_ulHarq (UeInfo_new rnti beamId) = HarqVector_new"
    by (simp_all add: UeInfo_new_def)
  show ?thesis
  proof (cases "m_availableOffsetValues ?r = []")
    case True
    then have full: "length (m_ueMap s) = unat (m_periodicity ?r)" using srs_ok_count [OF srs] by simp
    then have "m_periodicity ?r < 2560" using assms(2) None by (simp add: word_less_nat_alt)
    from IncreasePeriodicity_ok [OF new this] full obtain r' ues' where
      i: "IncreasePeriodicity ((rnti, ?ue) # m_ueMap s) ?r = Inr (True, r', ues')" "ues_ok ues'" "srs_ok ues' r'"
        "map fst ues' = map fst ((rnti, ?ue) # m_ueMap s)" by auto
    have "dom (map_of ues') = insert rnti (dom (map_of (m_ueMap s)))"
      using arg_cong [OF i(4), of set] by (simp add: dom_map_of_conv_image_fst)
    with i True None show ?thesis
      by (simp add: DoCschedUeConfigReq_def Srs_AddUe_def Let_def fields sched_ok_def)
  next
    case False
    then obtain offset period r' where a: "Srs_AddUe ?r = (Some (offset, period), r')" by (simp add: Srs_AddUe_def)
    note m = Srs_AddUe_mset [OF a]
    let ?ue' = "?ue\<lparr>m_srsPeriodicity := period, m_srsOffset := offset\<rparr>"
    have "srs_ok ((rnti, ?ue') # m_ueMap s) r'" using srs m by (simp add: srs_ok_def offsets_def)
    moreover have "ues_ok ((rnti, ?ue') # m_ueMap s)" using new by (simp add: ues_ok_def ue_ok_def)
    ultimately show ?thesis using a None
      by (simp add: DoCschedUeConfigReq_def Let_def fields sched_ok_def)
  qed
qed

lemma DoCschedUeConfigReq_room:
  assumes "sched_ok s" and "DoCschedUeConfigReq rnti beamId s = Inr s'"
  shows "length (m_ueMap s) < 2560 \<or> map_of (m_ueMap s) rnti \<noteq> None"
proof (rule ccontr)
  let ?r = "m_schedulerSrs s"
  assume "\<not> ?thesis"
  then have many: "2560 \<le> length (m_ueMap s)" and new: "map_of (m_ueMap s) rnti = None" by auto
  have srs: "srs_ok (m_ueMap s) ?r" using assms(1) by (simp add: sched_ok_def)
  then have "m_periodicity ?r \<in> set StandardPeriodicity" by (simp add: srs_ok_def)
  then have "unat (m_periodicity ?r) \<le> 2560" by (auto simp: StandardPeriodicity_def)
  with many srs_ok_count [OF srs] have "length (m_availableOffsetValues ?r) = 0" and "unat (m_periodicity ?r) = 2560" by linarith+
  then have none: "m_availableOffsetValues ?r = []" and p: "m_periodicity ?r = 2560"
    by (simp_all add: word_unat_eq_iff)
  have "dropWhile (\<lambda>p. p \<le> m_periodicity ?r) StandardPeriodicity = []" by (simp add: p StandardPeriodicity_def)
  then have "IncreasePeriodicity ues ?r = Inr (False, ?r\<lparr>m_availableOffsetValues := []\<rparr>, ues)" for ues
    by (simp add: IncreasePeriodicity_def Let_def del: dropWhile_eq_Nil_conv)
  with assms(2) new none show False
    by (simp add: DoCschedUeConfigReq_def Srs_AddUe_def Let_def ns_assert_def)
qed

lemma offsets_delete:
  assumes "distinct (map fst ues)" and "map_of ues rnti = Some ue"
  shows "add_mset (m_srsOffset ue) (mset (offsets (AList.delete rnti ues))) = mset (offsets ues)"
  using assms
proof (induction ues)
  case (Cons u ues)
  obtain r v where u: "u = (r, v)" by (cases u)
  show ?case
  proof (cases "r = rnti")
    case True
    then have "AList.delete rnti ues = ues" using Cons.prems(1) by (auto simp: u AList.delete_eq filter_id_conv image_iff)
    with True Cons.prems(2) show ?thesis by (simp add: u offsets_def)
  qed (use Cons in \<open>auto simp: u offsets_def\<close>)
qed simp

lemma DoCschedUeReleaseReq_ok:
  assumes "sched_ok s" and "map_of (m_ueMap s) rnti = Some ue"
  shows "\<exists>s'. DoCschedUeReleaseReq rnti s = Inr s' \<and> sched_ok s' \<and> map_of (m_ueMap s') rnti = None"
proof -
  let ?ues = "AList.delete rnti (m_ueMap s)"
  have d: "distinct (map fst (m_ueMap s))" using assms(1) by (simp add: sched_ok_def ues_ok_def)
  have sub: "set ?ues \<subseteq> set (m_ueMap s)" by (auto simp: AList.delete_eq)
  have "ues_ok ?ues" using assms(1) sub d
    by (auto simp: sched_ok_def ues_ok_def AList.delete_eq distinct_map_filter)
  moreover have "mset (m_availableOffsetValues (m_schedulerSrs s) @ [m_srsOffset ue]) + mset (offsets ?ues) =
      mset (m_availableOffsetValues (m_schedulerSrs s)) + mset (offsets (m_ueMap s))"
    by (simp flip: offsets_delete [OF d assms(2)])
  then have m: "mset (m_availableOffsetValues (m_schedulerSrs s) @ [m_srsOffset ue]) + mset (offsets ?ues) =
      mset (map of_nat [0..<unat (m_periodicity (m_schedulerSrs s))])"
    using assms(1) by (simp only: sched_ok_def srs_ok_def)
  then have "srs_ok ?ues (Srs_RemoveUe (m_srsOffset ue) (m_schedulerSrs s))"
    using assms(1) sub by (auto simp: sched_ok_def srs_ok_def Srs_RemoveUe_def)
  ultimately show ?thesis using assms(2)
    by (simp add: DoCschedUeReleaseReq_def sched_ok_def AList.delete_conv')
qed

end
