(* ===== verification/NrMacSchedulerRun.thy ===== *)
theory NrMacSchedulerRun
  imports NrMacSchedulerInv
begin

text \<open>
  HARQ feedback and transport blocks at the MAC scheduler, and the states of the registry that the operations
  of the scheduler reach.
\<close>

section \<open>Expiry\<close>

lemma GetHarqVector_Put [simp]: "GetHarqVector dir (PutHarqVector dir v ue) = v"
  by (simp add: GetHarqVector_def PutHarqVector_def split: direction.splits)

lemma PutHarqVector_fields [simp]:
  "m_srsOffset (PutHarqVector dir v ue) = m_srsOffset ue" "m_srsPeriodicity (PutHarqVector dir v ue) = m_srsPeriodicity ue"
  "m_dlLCG (PutHarqVector dir v ue) = m_dlLCG ue" "m_ulLCG (PutHarqVector dir v ue) = m_ulLCG ue"
  by (simp_all add: PutHarqVector_def split: direction.splits)

lemma ue_ok_harq: "ue_ok ue \<Longrightarrow> harq_ok (GetHarqVector dir ue)"
  by (simp add: ue_ok_def GetHarqVector_def split: direction.splits)

lemma ue_ok_put: "ue_ok ue \<Longrightarrow> harq_ok v \<Longrightarrow> ue_ok (PutHarqVector dir v ue)"
  by (simp add: ue_ok_def PutHarqVector_def split: direction.splits)

text \<open>Writing back a process with the same activity.\<close>

lemma harq_put_same:
  assumes "harq_ok v" and "map_of (hv_map v) k = Some p" and "process_ok q" and "m_active q = m_active p"
  shows "harq_ok (harq_put k q v)"
  using harq_put_ok [OF assms(1-3), of "m_usedSize v"] assms(4) by (simp add: harq_put_def)

lemma harq_ok_process: "harq_ok v \<Longrightarrow> map_of (hv_map v) k = Some p \<Longrightarrow> process_ok p"
  by (auto simp: harq_ok_def dest: map_of_SomeD)

lemma reset_process_ok:
  assumes "harq_ok v" and "map_of (hv_map v) k = Some p"
  shows "\<exists>v'. reset_process n v k = Inr v' \<and> harq_ok v' \<and> dom (map_of (hv_map v')) = dom (map_of (hv_map v)) \<and>
    m_maxSize v' = m_maxSize v"
proof -
  note p = harq_ok_process [OF assms]
  consider (off) "m_status p = HARQ_INACTIVE" | (tick) "m_status p \<noteq> HARQ_INACTIVE" "m_timer p < n"
    | (out) "m_status p \<noteq> HARQ_INACTIVE" "\<not> m_timer p < n" by blast
  then show ?thesis
  proof cases
    case off
    with assms show ?thesis by (simp add: reset_process_def harq_at_def)
  next
    case tick
    have "harq_ok (harq_put k (p\<lparr>m_timer := m_timer p + 1\<rparr>) v)"
      by (rule harq_put_same [OF assms]) (use p in \<open>simp_all add: process_ok_def\<close>)
    with tick assms(2) show ?thesis
      by (auto simp: reset_process_def harq_at_def harq_put_def update_conv')
  next
    case out
    then have "m_active p" using p by (simp add: process_ok_def)
    from HarqVector_Erase_ok [OF assms this] obtain v' where
      "HarqVector_Erase k v = Inr v'" "harq_ok v'" "map_of (hv_map v') = (map_of (hv_map v))(k \<mapsto> HarqProcess_Erase p)"
      "m_maxSize v' = m_maxSize v" by blast
    with out assms(2) show ?thesis by (auto simp: reset_process_def harq_at_def)
  qed
qed

lemma ResetExpiredHARQ_ok:
  assumes "harq_ok v"
  shows "\<exists>v'. ResetExpiredHARQ n v = Inr v' \<and> harq_ok v' \<and> dom (map_of (hv_map v')) = dom (map_of (hv_map v)) \<and>
    m_maxSize v' = m_maxSize v"
proof -
  have "\<exists>v'. for_each (reset_process n) ks w = Inr v' \<and> harq_ok v' \<and> dom (map_of (hv_map v')) = dom (map_of (hv_map w)) \<and>
      m_maxSize v' = m_maxSize w"
    if "harq_ok w" "set ks \<subseteq> dom (map_of (hv_map w))" for ks w
    using that
  proof (induction ks arbitrary: w)
    case (Cons k ks)
    then obtain p where "map_of (hv_map w) k = Some p" by auto
    from reset_process_ok [OF Cons.prems(1) this, of n] obtain w1 where
      w1: "reset_process n w k = Inr w1" "harq_ok w1" "dom (map_of (hv_map w1)) = dom (map_of (hv_map w))"
        "m_maxSize w1 = m_maxSize w" by blast
    with Cons.IH [of w1] Cons.prems(2) show ?case by auto
  qed simp
  from this [OF assms, of "map fst (hv_map v)"] show ?thesis
    by (simp add: ResetExpiredHARQ_def dom_map_of_conv_image_fst)
qed

text \<open>What the HARQ operations keep of the registry: the UEs and the identities of their processes.\<close>

definition process_ids :: "direction \<Rightarrow> (u16 \<times> NrMacSchedulerUeInfo) list \<Rightarrow> u16 \<Rightarrow> u8 set option" where
  "process_ids dir ues r = map_option (\<lambda>ue. dom (map_of (hv_map (GetHarqVector dir ue)))) (map_of ues r)"

lemma process_ids_Cons [simp]:
  "process_ids dir ((r', ue) # ues) r =
     (if r = r' then Some (dom (map_of (hv_map (GetHarqVector dir ue)))) else process_ids dir ues r)"
  by (simp add: process_ids_def)

text \<open>The list of UEs after a change of their HARQ vectors.\<close>

definition harq_change :: "direction \<Rightarrow> (u16 \<times> NrMacSchedulerUeInfo) list \<Rightarrow> (u16 \<times> NrMacSchedulerUeInfo) list \<Rightarrow> bool" where
  "harq_change dir ues ues' \<longleftrightarrow> map fst ues' = map fst ues \<and> offsets ues' = offsets ues \<and>
     map (\<lambda>(r, ue). m_srsPeriodicity ue) ues' = map (\<lambda>(r, ue). m_srsPeriodicity ue) ues \<and>
     process_ids dir ues' = process_ids dir ues \<and> (\<forall>(r, ue) \<in> set ues'. ue_ok ue)"

lemma harq_change_ok:
  assumes "sched_ok s" and "harq_change dir (m_ueMap s) ues'"
  shows "sched_ok (s\<lparr>m_ueMap := ues'\<rparr>)"
proof -
  have "(\<lambda>(r, ue). m_srsPeriodicity ue) ` set ues' = (\<lambda>(r, ue). m_srsPeriodicity ue) ` set (m_ueMap s)"
    using assms(2) by (metis harq_change_def set_map)
  then have "\<forall>(r, ue) \<in> set ues'. m_srsPeriodicity ue = m_periodicity (m_schedulerSrs s)"
    using assms(1) by (fastforce simp: sched_ok_def srs_ok_def image_iff)
  with assms show ?thesis by (simp add: sched_ok_def ues_ok_def srs_ok_def harq_change_def)
qed

lemma reset_all_ok:
  assumes "\<forall>(r, ue) \<in> set ues. ue_ok ue"
  shows "\<exists>ues'. map_res (\<lambda>(rnti, ue). res_bind (ResetExpiredHARQ n (GetHarqVector dir ue)) (\<lambda>v.
        Inr (rnti, PutHarqVector dir v ue))) ues = Inr ues' \<and> harq_change dir ues ues'"
  using assms
proof (induction ues)
  case (Cons u ues)
  obtain r ue where u: "u = (r, ue)" by (cases u)
  have ue: "ue_ok ue" using Cons.prems by (simp add: u)
  from ResetExpiredHARQ_ok [OF ue_ok_harq [OF ue], of n dir] obtain v where
    v: "ResetExpiredHARQ n (GetHarqVector dir ue) = Inr v" "harq_ok v"
      "dom (map_of (hv_map v)) = dom (map_of (hv_map (GetHarqVector dir ue)))" by blast
  from Cons obtain ues' where "map_res (\<lambda>(rnti, ue). res_bind (ResetExpiredHARQ n (GetHarqVector dir ue)) (\<lambda>v.
        Inr (rnti, PutHarqVector dir v ue))) ues = Inr ues'" "harq_change dir ues ues'" by auto
  with v ue_ok_put [OF ue v(2), of dir] show ?case
    by (auto simp: u offsets_def harq_change_def fun_eq_iff)
qed (simp add: harq_change_def)

lemma ResetAllExpired_ok:
  assumes "sched_ok s"
  obtains ues' where "ResetAllExpired dir s = Inr (s\<lparr>m_ueMap := ues'\<rparr>)" and "sched_ok (s\<lparr>m_ueMap := ues'\<rparr>)"
    and "process_ids dir ues' = process_ids dir (m_ueMap s)"
proof -
  have "\<forall>(r, ue) \<in> set (m_ueMap s). ue_ok ue" using assms by (simp add: sched_ok_def ues_ok_def)
  from reset_all_ok [OF this, of "numHarqProcess s" dir] obtain ues' where
    "map_res (\<lambda>(rnti, ue). res_bind (ResetExpiredHARQ (numHarqProcess s) (GetHarqVector dir ue)) (\<lambda>v.
        Inr (rnti, PutHarqVector dir v ue))) (m_ueMap s) = Inr ues'" "harq_change dir (m_ueMap s) ues'" by blast
  with harq_change_ok [OF assms this(2)] that show ?thesis by (simp add: ResetAllExpired_def harq_change_def)
qed

section \<open>Feedback\<close>

text \<open>A feedback names a process of a registered UE.\<close>

definition feedback_known :: "direction \<Rightarrow> (u16 \<times> NrMacSchedulerUeInfo) list \<Rightarrow> HarqInfo \<Rightarrow> bool" where
  "feedback_known dir ues fb \<longleftrightarrow>
     (case process_ids dir ues (fb_rnti fb) of None \<Rightarrow> False | Some ids \<Rightarrow> fb_harqProcessId fb \<in> ids)"

definition process_of :: "direction \<Rightarrow> (u16 \<times> NrMacSchedulerUeInfo) list \<Rightarrow> u16 \<times> u8 \<Rightarrow> HarqProcess option" where
  "process_of dir ues = (\<lambda>(r, k). Option.bind (map_of ues r) (\<lambda>ue. map_of (hv_map (GetHarqVector dir ue)) k))"

abbreviation fb_key :: "HarqInfo \<Rightarrow> u16 \<times> u8" where
  "fb_key fb \<equiv> (fb_rnti fb, fb_harqProcessId fb)"

lemma feedback_known_process:
  "feedback_known dir ues fb \<longleftrightarrow> (\<exists>p. process_of dir ues (fb_key fb) = Some p)"
  by (auto simp: feedback_known_def process_ids_def process_of_def split: option.splits)

lemma feedback_process_known:
  "process_of dir (m_ueMap s) (fb_key fb) = Some p \<Longrightarrow> feedback_process dir s fb = Inr p"
  by (auto simp: feedback_process_def process_of_def split: option.splits bind_splits)

definition process_live :: "direction \<Rightarrow> (u16 \<times> NrMacSchedulerUeInfo) list \<Rightarrow> HarqInfo \<Rightarrow> bool" where
  "process_live dir ues fb \<longleftrightarrow> (case process_of dir ues (fb_key fb) of None \<Rightarrow> False | Some p \<Rightarrow> m_active p)"

text \<open>The filter of the downlink keeps feedbacks on active processes, no two on the same.\<close>

lemma filter_feedbacks_ok:
  assumes "\<forall>fb \<in> set fbs. feedback_known dir (m_ueMap s) fb"
    and "\<forall>fb \<in> set kept. process_live dir (m_ueMap s) fb" and "dir = DL \<longrightarrow> distinct (map fb_key kept)" and "set seen = fb_key ` set kept"
  shows "\<exists>kept' seen'. for_each (filter_feedback dir s) fbs (kept, seen) = Inr (kept', seen') \<and>
    (\<forall>fb \<in> set kept'. process_live dir (m_ueMap s) fb) \<and> (dir = DL \<longrightarrow> distinct (map fb_key kept')) \<and>
    fb_key ` set kept \<subseteq> fb_key ` set kept' \<and>
    (\<forall>fb \<in> set fbs. process_live dir (m_ueMap s) fb \<longrightarrow> fb_key fb \<in> fb_key ` set kept')"
  using assms
proof (induction fbs arbitrary: kept seen)
  case (Cons fb fbs)
  from Cons.prems(1) obtain p where p: "process_of dir (m_ueMap s) (fb_key fb) = Some p"
    by (auto simp: feedback_known_process)
  note fp = feedback_process_known [OF p]
  consider (drop) "\<not> m_active p \<or> (dir = DL \<and> fb_key fb \<in> set seen)"
    | (keep) "m_active p" "\<not> (dir = DL \<and> fb_key fb \<in> set seen)" by blast
  then show ?case
  proof cases
    case drop
    with fp have "filter_feedback dir s (kept, seen) fb = Inr (kept, seen)" by (auto simp: filter_feedback_def)
    with Cons.IH [OF _ Cons.prems(2-4)] Cons.prems(1) obtain kept' seen' where
      IH: "for_each (filter_feedback dir s) (fb # fbs) (kept, seen) = Inr (kept', seen')"
        "\<forall>fb \<in> set kept'. process_live dir (m_ueMap s) fb" "dir = DL \<longrightarrow> distinct (map fb_key kept')"
        "fb_key ` set kept \<subseteq> fb_key ` set kept'"
        "\<forall>fb \<in> set fbs. process_live dir (m_ueMap s) fb \<longrightarrow> fb_key fb \<in> fb_key ` set kept'" by auto
    have "fb_key fb \<in> fb_key ` set kept'" if "process_live dir (m_ueMap s) fb"
      using that p drop IH(4) Cons.prems(4) by (auto simp: process_live_def)
    with IH show ?thesis by auto
  next
    case keep
    with fp have step: "filter_feedback dir s (kept, seen) fb = Inr (kept @ [fb], fb_key fb # seen)"
      by (auto simp: filter_feedback_def)
    have "\<forall>fb \<in> set (kept @ [fb]). process_live dir (m_ueMap s) fb" using Cons.prems(2) p keep(1) by (simp add: process_live_def)
    moreover have "dir = DL \<longrightarrow> distinct (map fb_key (kept @ [fb]))" using Cons.prems(3,4) keep(2) by auto
    moreover have "set (fb_key fb # seen) = fb_key ` set (kept @ [fb])" using Cons.prems(4) by simp
    ultimately show ?thesis using Cons.IH [of "kept @ [fb]" "fb_key fb # seen"] Cons.prems(1) step by auto
  qed
qed auto

text \<open>The process of a feedback ends when the block was received or its last retransmission failed.\<close>

definition ends :: "Scheduler \<Rightarrow> HarqInfo \<Rightarrow> HarqProcess \<Rightarrow> bool" where
  "ends s fb p \<longleftrightarrow> fb_receivedOk fb \<or> (case m_dciElement p of None \<Rightarrow> False
     | Some dci \<Rightarrow> dci_rv dci = (if m_enableHarqReTx s then 3 else 0))"

definition answered :: "Scheduler \<Rightarrow> HarqInfo \<Rightarrow> HarqProcess \<Rightarrow> HarqProcess" where
  "answered s fb p = (if ends s fb p then HarqProcess_Erase p else p\<lparr>m_status := RECEIVED_FEEDBACK\<rparr>)"

lemma process_of_put:
  assumes "map_of ues r = Some ue"
  shows "process_of dir (AList.update r (PutHarqVector dir v ue) ues) =
    (\<lambda>(r', k). if r' = r then map_of (hv_map v) k else process_of dir ues (r', k))"
  by (auto simp: process_of_def update_conv' fun_eq_iff)

lemma process_feedback_ok:
  assumes "sched_ok s" and "process_of dir (m_ueMap s) (fb_key fb) = Some p" and "m_active p"
  obtains s' where "process_feedback dir (s, kept) fb = Inr (s', if ends s fb p then kept else kept @ [fb])"
    and "sched_ok s'" and "process_of dir (m_ueMap s') = (process_of dir (m_ueMap s))(fb_key fb \<mapsto> answered s fb p)"
    and "m_enableHarqReTx s' = m_enableHarqReTx s"
proof -
  let ?r = "fb_rnti fb" and ?k = "fb_harqProcessId fb"
  from assms(2) obtain ue where ue: "map_of (m_ueMap s) ?r = Some ue" "map_of (hv_map (GetHarqVector dir ue)) ?k = Some p"
    by (auto simp: process_of_def bind_eq_Some_conv)
  let ?v = "GetHarqVector dir ue"
  note uok = sched_ok_lookup [OF assms(1) ue(1)]
  note vok = ue_ok_harq [OF uok, of dir]
  have "process_ok p" by (rule harq_ok_process [OF vok ue(2)])
  then obtain dci where dci: "m_dciElement p = Some dci" "dci_rv dci < 4"
    using assms(3) by (auto simp: process_ok_def split: option.splits)
  have get: "HarqVector_Get ?k ?v = Inr p" using ue(2) by (simp add: HarqVector_Get_def HarqVector_Exist_def harq_at_def)
  have put: "sched_ok (ue_put ?r (PutHarqVector dir w ue) s)" if "harq_ok w" for w
    by (rule ue_put_ok [OF assms(1) ue(1) ue_ok_put [OF uok that]]) simp_all
  show ?thesis
  proof (cases "ends s fb p")
    case True
    from HarqVector_Erase_ok [OF vok ue(2) assms(3)] obtain w where
      w: "HarqVector_Erase ?k ?v = Inr w" "harq_ok w" "map_of (hv_map w) = (map_of (hv_map ?v))(?k \<mapsto> HarqProcess_Erase p)"
      by blast
    let ?s = "ue_put ?r (PutHarqVector dir w ue) s"
    have "process_feedback dir (s, kept) fb = Inr (?s, kept)"
      using ue(1) get assms(3) dci w(1) True by (auto simp: process_feedback_def ends_def Let_def)
    moreover have "process_of dir (m_ueMap ?s) = (process_of dir (m_ueMap s))(fb_key fb \<mapsto> answered s fb p)"
      unfolding ue_put_def using ue w(3) True
      by (simp add: process_of_put) (auto simp: fun_eq_iff process_of_def answered_def)
    ultimately show ?thesis using that [of ?s] put [OF w(2)] True by (simp add: ue_put_def)
  next
    case False
    let ?q = "p\<lparr>m_status := RECEIVED_FEEDBACK\<rparr>"
    let ?w = "harq_put ?k ?q ?v"
    let ?s = "ue_put ?r (PutHarqVector dir ?w ue) s"
    have w: "harq_ok ?w" by (rule harq_put_same [OF vok ue(2)]) (use \<open>process_ok p\<close> assms(3) in \<open>simp_all add: process_ok_def\<close>)
    have "process_feedback dir (s, kept) fb = Inr (?s, kept @ [fb])"
      using ue(1) get assms(3) dci False by (auto simp: process_feedback_def ends_def Let_def)
    moreover have "process_of dir (m_ueMap ?s) = (process_of dir (m_ueMap s))(fb_key fb \<mapsto> answered s fb p)"
      unfolding ue_put_def using ue False
      by (simp add: process_of_put harq_put_def) (auto simp: fun_eq_iff process_of_def answered_def update_conv')
    ultimately show ?thesis using that [of ?s] put [OF w] False by (simp add: ue_put_def)
  qed
qed

text \<open>The outcome of a list of feedbacks: the kept ones are those whose process goes on.\<close>

definition handled :: "direction \<Rightarrow> Scheduler \<Rightarrow> HarqInfo list \<Rightarrow> Scheduler \<Rightarrow> HarqInfo list \<Rightarrow> bool" where
  "handled dir s fbs s' kept \<longleftrightarrow> set kept \<subseteq> set fbs \<and> distinct (map fb_key kept) \<and>
    (\<forall>k. k \<notin> fb_key ` set fbs \<longrightarrow> process_of dir (m_ueMap s') k = process_of dir (m_ueMap s) k) \<and>
    (\<forall>fb \<in> set fbs. \<exists>p. process_of dir (m_ueMap s) (fb_key fb) = Some p \<and>
       process_of dir (m_ueMap s') (fb_key fb) = Some (answered s fb p) \<and> (fb \<in> set kept \<longleftrightarrow> \<not> ends s fb p))"

lemma other_key:
  assumes "fb_key fb \<notin> fb_key ` set fbs" and "fb' \<in> set fbs"
  shows "fb_key fb' \<noteq> fb_key fb"
proof
  assume "fb_key fb' = fb_key fb"
  then have "fb_key fb \<in> fb_key ` set fbs" using assms(2) by (intro image_eqI [of _ _ fb']) simp_all
  with assms(1) show False ..
qed

lemma handled_Cons:
  assumes "process_of dir (m_ueMap s) (fb_key fb) = Some p" and "fb_key fb \<notin> fb_key ` set fbs"
    and s1: "process_of dir (m_ueMap s1) = (process_of dir (m_ueMap s))(fb_key fb \<mapsto> answered s fb p)"
      "m_enableHarqReTx s1 = m_enableHarqReTx s"
    and IH: "handled dir s1 fbs s' kept'"
  shows "handled dir s (fb # fbs) s' (if ends s fb p then kept' else fb # kept')"
proof -
  have same: "ends s1 = ends s" "answered s1 = answered s" by (simp_all add: fun_eq_iff ends_def answered_def s1(2))
  note other = other_key [OF assms(2)]
  have sub: "set kept' \<subseteq> set fbs" "distinct (map fb_key kept')" using IH by (simp_all add: handled_def)
  have nk: "fb \<notin> set kept'" using sub(1) assms(2) by auto
  let ?kept = "if ends s fb p then kept' else fb # kept'"
  have "\<exists>q. process_of dir (m_ueMap s) (fb_key fb') = Some q \<and>
       process_of dir (m_ueMap s') (fb_key fb') = Some (answered s fb' q) \<and> (fb' \<in> set ?kept \<longleftrightarrow> \<not> ends s fb' q)"
    if fb': "fb' \<in> set (fb # fbs)" for fb'
  proof (cases "fb' \<in> set fbs")
    case True
    with IH obtain q where q: "process_of dir (m_ueMap s1) (fb_key fb') = Some q"
      "process_of dir (m_ueMap s') (fb_key fb') = Some (answered s fb' q)" "fb' \<in> set kept' \<longleftrightarrow> \<not> ends s fb' q"
      unfolding handled_def same by blast
    moreover have "fb' \<noteq> fb" using other [OF True] by auto
    ultimately show ?thesis using other [OF True] by (intro exI [of _ q]) (auto simp: s1(1))
  next
    case False
    with fb' have "fb' = fb" by simp
    moreover have "process_of dir (m_ueMap s') (fb_key fb) = Some (answered s fb p)"
      using IH assms(2) s1(1) by (simp add: handled_def)
    ultimately show ?thesis using assms(1) nk by auto
  qed
  moreover have "set ?kept \<subseteq> set (fb # fbs)" "distinct (map fb_key ?kept)" using sub assms(2) by auto
  moreover have "\<forall>k. k \<notin> fb_key ` set (fb # fbs) \<longrightarrow> process_of dir (m_ueMap s') k = process_of dir (m_ueMap s) k"
    using IH by (auto simp: s1(1) handled_def)
  ultimately show ?thesis unfolding handled_def by blast
qed

lemma process_feedbacks_ok:
  assumes "sched_ok s" and "distinct (map fb_key fbs)" and "\<forall>fb \<in> set fbs. process_live dir (m_ueMap s) fb"
  shows "\<exists>s' kept'. for_each (process_feedback dir) fbs (s, kept) = Inr (s', kept @ kept') \<and> sched_ok s' \<and> handled dir s fbs s' kept'"
  using assms
proof (induction fbs arbitrary: s kept)
  case Nil
  then show ?case by (intro exI [of _ s] exI [of _ "[]"]) (simp add: handled_def)
next
  case (Cons fb fbs)
  from Cons.prems(3) obtain p where p: "process_of dir (m_ueMap s) (fb_key fb) = Some p" "m_active p"
    by (auto simp: process_live_def split: option.splits)
  define kept1 where "kept1 = (if ends s fb p then kept else kept @ [fb])"
  from process_feedback_ok [OF Cons.prems(1) p, of kept] obtain s1 where
    s1: "process_feedback dir (s, kept) fb = Inr (s1, kept1)" "sched_ok s1"
      "process_of dir (m_ueMap s1) = (process_of dir (m_ueMap s))(fb_key fb \<mapsto> answered s fb p)"
      "m_enableHarqReTx s1 = m_enableHarqReTx s" unfolding kept1_def by blast
  have dist: "distinct (map fb_key fbs)" "fb_key fb \<notin> fb_key ` set fbs" using Cons.prems(2) by auto
  note other = other_key [OF dist(2)]
  have "process_live dir (m_ueMap s1) fb'" if "fb' \<in> set fbs" for fb'
    using Cons.prems(3) other [OF that] that unfolding process_live_def s1(3) by (simp del: prod.inject)
  with Cons.IH [OF s1(2) dist(1), of kept1] obtain s' kept' where
    IH: "for_each (process_feedback dir) fbs (s1, kept1) = Inr (s', kept1 @ kept')" "sched_ok s'" "handled dir s1 fbs s' kept'"
    by blast
  have "for_each (process_feedback dir) (fb # fbs) (s, kept) = Inr (s', kept @ (if ends s fb p then kept' else fb # kept'))"
    using s1(1) IH(1) by (simp add: kept1_def)
  with handled_Cons [OF p(1) dist(2) s1(3,4) IH(3)] IH(2) show ?case by blast
qed

lemma process_ids_change: "process_ids dir ues' = process_ids dir ues \<Longrightarrow> feedback_known dir ues' = feedback_known dir ues"
  by (simp add: fun_eq_iff feedback_known_def)

definition to_retransmit :: "direction \<Rightarrow> Scheduler \<Rightarrow> HarqInfo list" where
  "to_retransmit dir s = (case dir of DL \<Rightarrow> m_dlHarqToRetransmit s | UL \<Rightarrow> m_ulHarqToRetransmit s)"

text \<open>In the downlink every list of known feedbacks is processed.\<close>

lemma trigger_harq_dl_ok:
  assumes "sched_ok s" and "\<forall>fb \<in> set (m_dlHarqToRetransmit s @ fbs). feedback_known DL (m_ueMap s) fb"
  obtains s' kept where "trigger_harq DL fbs s = Inr (s', kept)" and "sched_ok s'" and "distinct (map fb_key kept)"
    and "\<forall>fb \<in> set kept. \<not> fb_receivedOk fb \<and>
      (\<exists>p. process_of DL (m_ueMap s') (fb_key fb) = Some p \<and> m_active p \<and> m_status p = RECEIVED_FEEDBACK)"
    and "\<forall>fb \<in> set (m_dlHarqToRetransmit s @ fbs). process_live DL (m_ueMap s') fb \<longrightarrow> fb_key fb \<in> fb_key ` set kept"
proof -
  obtain ues where r: "ResetAllExpired DL s = Inr (s\<lparr>m_ueMap := ues\<rparr>)" "sched_ok (s\<lparr>m_ueMap := ues\<rparr>)"
    "process_ids DL ues = process_ids DL (m_ueMap s)" by (rule ResetAllExpired_ok [OF assms(1)])
  let ?all = "m_dlHarqToRetransmit s @ fbs"
  let ?s = "s\<lparr>m_ueMap := ues, m_dlHarqToRetransmit := []\<rparr>"
  show ?thesis
  proof (cases "?all = []")
    case True
    with r show ?thesis using that [of "s\<lparr>m_ueMap := ues\<rparr>" "[]"] by (simp add: trigger_harq_def)
  next
    case False
    have "\<forall>fb \<in> set ?all. feedback_known DL (m_ueMap ?s) fb" using assms(2) process_ids_change [OF r(3)] by simp
    from filter_feedbacks_ok [OF this, of "[]" "[]"] obtain kept1 seen where
      f: "for_each (filter_feedback DL ?s) ?all ([], []) = Inr (kept1, seen)" "\<forall>fb \<in> set kept1. process_live DL (m_ueMap ?s) fb"
        "distinct (map fb_key kept1)" "\<forall>fb \<in> set ?all. process_live DL (m_ueMap ?s) fb \<longrightarrow> fb_key fb \<in> fb_key ` set kept1" by auto
    have ok: "sched_ok ?s" using r(2) by (simp add: sched_ok_def)
    from process_feedbacks_ok [OF ok f(3,2), of "[]"] obtain s' kept where
      p: "for_each (process_feedback DL) kept1 (?s, []) = Inr (s', kept)" "sched_ok s'" "handled DL ?s kept1 s' kept" by auto
    have "trigger_harq DL fbs s = Inr (s', kept)"
      using r(1) f(1) p(1) False by (auto simp: trigger_harq_def MergeHARQ_def ProcessHARQFeedbacks_def)
    moreover have "\<not> fb_receivedOk fb \<and>
      (\<exists>p. process_of DL (m_ueMap s') (fb_key fb) = Some p \<and> m_active p \<and> m_status p = RECEIVED_FEEDBACK)"
      if k: "fb \<in> set kept" for fb
    proof -
      have k1: "fb \<in> set kept1" using p(3) k by (auto simp: handled_def)
      with p(3) obtain q where q: "process_of DL (m_ueMap ?s) (fb_key fb) = Some q"
        "process_of DL (m_ueMap s') (fb_key fb) = Some (answered ?s fb q)" "\<not> ends ?s fb q"
        using k unfolding handled_def by blast
      have "m_active q" using f(2) k1 q(1) by (auto simp: process_live_def)
      with q show ?thesis by (simp add: answered_def ends_def)
    qed
    moreover have "fb_key fb \<in> fb_key ` set kept" if fb: "fb \<in> set ?all" "process_live DL (m_ueMap s') fb" for fb
    proof (cases "fb_key fb \<in> fb_key ` set kept1")
      case True
      then obtain fb' where fb': "fb' \<in> set kept1" "fb_key fb' = fb_key fb" by force
      with p(3) obtain q where q': "process_of DL (m_ueMap s') (fb_key fb') = Some (answered ?s fb' q)"
        and q2: "fb' \<in> set kept \<longleftrightarrow> \<not> ends ?s fb' q" unfolding handled_def by blast
      have q: "process_of DL (m_ueMap s') (fb_key fb) = Some (answered ?s fb' q)" using q' unfolding fb'(2) .
      have "\<not> ends ?s fb' q" using fb(2) q by (auto simp: process_live_def answered_def HarqProcess_Erase_def split: if_splits)
      with q2 have "fb_key fb' \<in> fb_key ` set kept" by (intro imageI) simp
      then show ?thesis unfolding fb'(2) .
    next
      case False
      with p(3) have "process_of DL (m_ueMap s') (fb_key fb) = process_of DL (m_ueMap ?s) (fb_key fb)"
        by (simp add: handled_def)
      with fb have "process_live DL (m_ueMap ?s) fb" by (simp add: process_live_def)
      with f(4) fb(1) False show ?thesis by blast
    qed
    moreover have "distinct (map fb_key kept)" using p(3) by (simp add: handled_def)
    ultimately show ?thesis using that [of s' kept] p(2) by blast
  qed
qed

text \<open>The uplink does not drop duplicates: an acknowledgement that comes twice stops the simulation.\<close>

lemma duplicate_ack_aborts:
  assumes "sched_ok s" and "process_live dir (m_ueMap s) fb" and "fb_receivedOk fb" and "fb_key fb' = fb_key fb"
  shows "ProcessHARQFeedbacks dir (fb # fb' # fbs) s = Inl (NS_ABORT ''Received feedback for a process which is not active'')"
proof -
  from assms(2) obtain p where p: "process_of dir (m_ueMap s) (fb_key fb) = Some p" "m_active p"
    by (auto simp: process_live_def split: option.splits)
  have e: "ends s fb p" using assms(3) by (simp add: ends_def)
  obtain s' where s0: "process_feedback dir (s, []) fb = Inr (s', if ends s fb p then [] else [] @ [fb])"
      "process_of dir (m_ueMap s') = (process_of dir (m_ueMap s))(fb_key fb \<mapsto> answered s fb p)"
    by (rule process_feedback_ok [OF assms(1) p])
  then have s': "process_feedback dir (s, []) fb = Inr (s', [])"
      "process_of dir (m_ueMap s') (fb_key fb) = Some (HarqProcess_Erase p)"
    using e by (simp_all add: answered_def)
  from s'(2) obtain ue where "map_of (m_ueMap s') (fb_rnti fb) = Some ue"
    "map_of (hv_map (GetHarqVector dir ue)) (fb_harqProcessId fb) = Some (HarqProcess_Erase p)"
    by (auto simp: process_of_def bind_eq_Some_conv)
  with assms(4) have "process_feedback dir (s', []) fb' = Inl (NS_ABORT ''Received feedback for a process which is not active'')"
    by (simp add: process_feedback_def Let_def HarqVector_Get_def HarqVector_Exist_def harq_at_def HarqProcess_Erase_def)
  with s'(1) show ?thesis by (simp add: ProcessHARQFeedbacks_def)
qed

lemma process_feedback_keeps:
  assumes "sched_ok s" and "process_feedback dir (s, kept) fb = Inr (s', kept')"
  shows "sched_ok s'"
proof -
  from assms(2) obtain ue p where "map_of (m_ueMap s) (fb_rnti fb) = Some ue"
    "HarqVector_Get (fb_harqProcessId fb) (GetHarqVector dir ue) = Inr p" "m_active p"
    by (auto simp: process_feedback_def Let_def res_simps split: option.splits)
  then have p: "process_of dir (m_ueMap s) (fb_key fb) = Some p" "m_active p"
    by (auto simp: process_of_def HarqVector_Get_def harq_at_def res_simps split: option.splits)
  obtain t where "process_feedback dir (s, kept) fb = Inr (t, if ends s fb p then kept else kept @ [fb])" "sched_ok t"
    by (rule process_feedback_ok [OF assms(1) p])
  with assms(2) show ?thesis by simp
qed

lemma trigger_harq_keeps:
  assumes "sched_ok s" and "trigger_harq dir fbs s = Inr (s', kept)"
  shows "sched_ok s'"
proof -
  obtain ues where r: "ResetAllExpired dir s = Inr (s\<lparr>m_ueMap := ues\<rparr>)" "sched_ok (s\<lparr>m_ueMap := ues\<rparr>)"
    by (rule ResetAllExpired_ok [OF assms(1)])
  have loop: "sched_ok (fst t)" if "for_each (process_feedback dir) xs (u, []) = Inr t" "sched_ok u" for xs u t
    by (rule for_each_invariant [OF that(1)]) (use that(2) process_feedback_keeps in \<open>fastforce+\<close>)
  have clear: "sched_ok (s\<lparr>m_ueMap := ues, m_dlHarqToRetransmit := []\<rparr>)" "sched_ok (s\<lparr>m_ueMap := ues, m_ulHarqToRetransmit := []\<rparr>)"
    using r(2) by (simp_all add: sched_ok_def)
  show ?thesis using assms(2) r loop clear
    by (cases dir) (fastforce simp: trigger_harq_def MergeHARQ_def ProcessHARQFeedbacks_def Let_def res_simps split: if_splits)+
qed

section \<open>Transport blocks\<close>

lemma take_process_ok:
  assumes "ue_ok ue" and "CanInsert (GetHarqVector dir ue)" and "dci_rv dci < 4"
  obtains k ue' where "take_process dir dci ue = Inr (k, ue')" and "ue_ok ue'"
    and "m_dlLCG ue' = m_dlLCG ue" and "m_ulLCG ue' = m_ulLCG ue"
    and "m_srsOffset ue' = m_srsOffset ue" and "m_srsPeriodicity ue' = m_srsPeriodicity ue"
    and "unat (m_usedSize (GetHarqVector dir ue')) = Suc (unat (m_usedSize (GetHarqVector dir ue)))"
    and "\<exists>p. map_of (hv_map (GetHarqVector dir ue)) k = Some p \<and> \<not> m_active p"
    and "map_of (hv_map (GetHarqVector dir ue')) k =
      Some (HarqProcess_new True WAITING_FEEDBACK 0 (dci\<lparr>dci_harqProcess := k\<rparr>))"
proof -
  let ?e = "HarqProcess_new True WAITING_FEEDBACK 0 dci" and ?v = "GetHarqVector dir ue"
  have e: "process_ok ?e" "m_active ?e" using assms(3) by (simp_all add: process_ok_def HarqProcess_new_def)
  obtain k p v where i: "HarqVector_Insert ?e ?v = Inr (True, Some k, v)" "harq_ok v"
    "map_of (hv_map ?v) k = Some p" "\<not> m_active p" "map_of (hv_map v) = (map_of (hv_map ?v))(k \<mapsto> ?e)"
    "unat (m_usedSize v) = unat (m_usedSize ?v) + 1"
    by (rule HarqVector_Insert_ok [OF ue_ok_harq [OF assms(1)] assms(2) e])
  let ?q = "?e\<lparr>m_dciElement := Some (dci\<lparr>dci_harqProcess := k\<rparr>)\<rparr>"
  let ?w = "harq_put k ?q v"
  have vk: "map_of (hv_map v) k = Some ?e" using i(5) by simp
  have w: "harq_ok ?w" by (rule harq_put_same [OF i(2) vk]) (use assms(3) in \<open>simp_all add: process_ok_def HarqProcess_new_def\<close>)
  have "take_process dir dci ue = Inr (k, PutHarqVector dir ?w ue)"
    using assms(2) i(1) vk
    by (simp add: take_process_def Let_def HarqVector_Get_def HarqVector_Exist_def harq_at_def HarqProcess_new_def)
  moreover have "ue_ok (PutHarqVector dir ?w ue)" by (rule ue_ok_put [OF assms(1) w])
  ultimately show ?thesis using that [of k "PutHarqVector dir ?w ue"] i(3,4,6)
    by (simp add: harq_put_def update_conv' HarqProcess_new_def)
qed

text \<open>The logical channel of a key, and the update of one channel.\<close>

definition lc_of :: "(u8 \<times> LCG) list \<Rightarrow> u8 \<times> u8 \<Rightarrow> LC option" where
  "lc_of gs = (\<lambda>(l, c). Option.bind (map_of gs l) (\<lambda>g. map_of (m_lcMap g) c))"

lemma lc_of_demand: "demand gs k > 0 \<Longrightarrow> \<exists>lc. lc_of gs k = Some lc"
  by (cases k) (auto simp: demand_def demand_of_def lc_of_def split: option.splits)

lemma assigned_in_ok:
  assumes "lc_of gs (l, c) = Some lc"
  obtains gs' where "assigned_in type gs l c b = Inr gs'"
    and "lc_of gs' = (lc_of gs)((l, c) \<mapsto> LC_AssignedData c b type lc)"
    and "dl_ok gs \<Longrightarrow> dl_ok gs'" and "ul_ok gs \<Longrightarrow> ul_ok gs'"
proof -
  from assms obtain g where g: "map_of gs l = Some g" "map_of (m_lcMap g) c = Some lc"
    by (auto simp: lc_of_def bind_eq_Some_conv)
  let ?lc = "LC_AssignedData c b type lc"
  let ?g = "g\<lparr>m_lcMap := AList.update c ?lc (m_lcMap g)\<rparr>"
  have "m_lcMap g \<noteq> []" using g(2) by auto
  then have "assigned_in type gs l c b = Inr (AList.update l ?g gs)"
    using g by (simp add: assigned_in_def LCG_AssignedData_def lc_at_def)
  moreover have "lc_of (AList.update l ?g gs) = (lc_of gs)((l, c) \<mapsto> ?lc)"
    using g(1) by (auto simp: lc_of_def update_conv' fun_eq_iff)
  moreover have gok: "lcg_ok ?g" if "lcg_ok g"
  proof -
    have "lc_id ?lc = lc_id lc" by (simp add: LC_AssignedData_def)
    moreover have "lc_id lc = ucast c" using that g(2) by (auto simp: lcg_ok_def dest: map_of_SomeD)
    ultimately show ?thesis using lcg_ok_update [OF that] by simp
  qed
  moreover have "dl_ok (AList.update l ?g gs)" if "dl_ok gs"
    by (rule dl_ok_update [OF that gok [OF dl_ok_lookup [OF that g(1)]]])
  moreover have "ul_ok (AList.update l ?g gs)" if "ul_ok gs"
    using ul_ok_update [OF that gok] ul_ok_lookup [OF that g(1)] g(2) by (simp add: update_length)
  ultimately show ?thesis using that [of "AList.update l ?g gs"] by blast
qed

lemma assign_ul_all_ok:
  assumes "ul_ok gs" and "distinct (map a_key asg)" and "\<forall>a \<in> set asg. \<exists>lc. lc_of gs (a_key a) = Some lc"
  shows "\<exists>gs'. for_each assign_ul asg gs = Inr gs' \<and> ul_ok gs' \<and>
    (\<forall>k. k \<notin> a_key ` set asg \<longrightarrow> lc_of gs' k = lc_of gs k) \<and>
    (\<forall>a \<in> set asg. lc_of gs' (a_key a) = map_option (LC_AssignedData (a_lcId a) (a_bytes a) ''UL'') (lc_of gs (a_key a)))"
  using assms
proof (induction asg arbitrary: gs)
  case (Cons a asg)
  from Cons.prems(3) obtain lc where lc: "lc_of gs (a_lcg a, a_lcId a) = Some lc" by (auto simp: a_key_def)
  obtain gs1 where g1: "assigned_in ''UL'' gs (a_lcg a) (a_lcId a) (a_bytes a) = Inr gs1"
    "lc_of gs1 = (lc_of gs)((a_lcg a, a_lcId a) \<mapsto> LC_AssignedData (a_lcId a) (a_bytes a) ''UL'' lc)" "ul_ok gs1"
    by (rule assigned_in_ok [OF lc, of "''UL''" "a_bytes a"]) (use Cons.prems(1) in blast)
  have g1': "lc_of gs1 = (lc_of gs)(a_key a \<mapsto> LC_AssignedData (a_lcId a) (a_bytes a) ''UL'' lc)"
    using g1(2) by (simp add: a_key_def)
  have d: "distinct (map a_key asg)" "a_key a \<notin> a_key ` set asg" using Cons.prems(2) by auto
  have "\<forall>b \<in> set asg. \<exists>lc. lc_of gs1 (a_key b) = Some lc" using Cons.prems(3) by (auto simp: g1')
  from Cons.IH [OF g1(3) d(1) this] obtain gs' where
    IH: "for_each assign_ul asg gs1 = Inr gs'" "ul_ok gs'" "\<forall>k. k \<notin> a_key ` set asg \<longrightarrow> lc_of gs' k = lc_of gs1 k"
      "\<forall>b \<in> set asg. lc_of gs' (a_key b) = map_option (LC_AssignedData (a_lcId b) (a_bytes b) ''UL'') (lc_of gs1 (a_key b))" by blast
  have other: "a_key b \<noteq> a_key a" if "b \<in> set asg" for b using d(2) that by (metis imageI)
  have "for_each assign_ul (a # asg) gs = Inr gs'" using g1(1) IH(1) by (simp add: assign_ul_def)
  moreover have "lc_of gs' (a_key a) = map_option (LC_AssignedData (a_lcId a) (a_bytes a) ''UL'') (lc_of gs (a_key a))"
    using IH(3) d(2) lc by (simp add: g1') (simp add: a_key_def)
  ultimately show ?case using IH(2-4) other by (auto simp: g1')
qed simp

text \<open>A client of the interface of the uplink algorithms: the block of a UE with data is always accounted for.\<close>

context ul_lc_algorithm
begin

lemma ScheduleUlBlock_ok:
  assumes "ue_ok ue" and "CanInsert (m_ulHarq ue)" and "dci_rv dci < 4" and "demand (m_ulLCG ue) k > 0"
  shows "\<exists>asg ue'. AssignBytesToUlLC (m_ulLCG ue) (dci_tbSize dci) = Inr asg \<and>
    bytes_total asg \<le> unat (dci_tbSize dci) \<and> a_key ` set asg = {k. demand (m_ulLCG ue) k > 0} \<and>
    ScheduleUlBlock AssignBytesToUlLC dci ue = Inr ue' \<and> ue_ok ue' \<and>
    unat (m_usedSize (m_ulHarq ue')) = Suc (unat (m_usedSize (m_ulHarq ue))) \<and>
    (\<forall>k. demand (m_ulLCG ue) k = 0 \<longrightarrow> lc_of (m_ulLCG ue') k = lc_of (m_ulLCG ue) k) \<and>
    (\<forall>a \<in> set asg. lc_of (m_ulLCG ue') (a_key a) =
       map_option (LC_AssignedData (a_lcId a) (a_bytes a) ''UL'') (lc_of (m_ulLCG ue) (a_key a)))"
proof -
  have ul: "ul_ok (m_ulLCG ue)" and g: "groups_ok (m_ulLCG ue)"
    using assms(1) dl_ok_groups by (auto simp: ue_ok_def ul_ok_def)
  from ul_total [OF g] obtain asg where asg: "AssignBytesToUlLC (m_ulLCG ue) (dci_tbSize dci) = Inr asg" by blast
  note keys = ul_keys [OF g asg] and bytes = ul_bytes [OF g asg]
  obtain h u where t: "take_process UL dci ue = Inr (h, u)" "ue_ok u" "m_ulLCG u = m_ulLCG ue"
    "unat (m_usedSize (GetHarqVector UL u)) = Suc (unat (m_usedSize (GetHarqVector UL ue)))"
    by (rule take_process_ok [of ue UL dci]) (use assms in \<open>simp_all add: GetHarqVector_def\<close>)
  have "\<forall>a \<in> set asg. \<exists>lc. lc_of (m_ulLCG ue) (a_key a) = Some lc"
    using keys lc_of_demand by (metis (no_types, lifting) imageI mem_Collect_eq)
  from assign_ul_all_ok [OF ul _ this] keys obtain gs where
    gs: "for_each assign_ul asg (m_ulLCG ue) = Inr gs" "ul_ok gs"
      "\<forall>k. k \<notin> a_key ` set asg \<longrightarrow> lc_of gs k = lc_of (m_ulLCG ue) k"
      "\<forall>a \<in> set asg. lc_of gs (a_key a) = map_option (LC_AssignedData (a_lcId a) (a_bytes a) ''UL'') (lc_of (m_ulLCG ue) (a_key a))"
    by auto
  have "asg \<noteq> []" using keys assms(4) by auto
  then have "ScheduleUlBlock AssignBytesToUlLC dci ue = Inr (u\<lparr>m_ulLCG := gs\<rparr>)"
    using t asg gs(1) by (simp add: ScheduleUlBlock_def)
  moreover have "ue_ok (u\<lparr>m_ulLCG := gs\<rparr>)" using t(2) gs(2) by (simp add: ue_ok_def)
  ultimately show ?thesis using asg keys bytes gs(3,4) t(4)
    by (intro exI [of _ asg] exI [of _ "u\<lparr>m_ulLCG := gs\<rparr>"]) (auto simp: GetHarqVector_def word_gt_0)
qed

end

end
