(* ===== verification/NrMacSchedulerMain.thy ===== *)
theory NrMacSchedulerMain
  imports NrMacSchedulerRun
begin

text \<open>
  The states that the operations of the MAC scheduler reach, and the properties of its registry of UEs: sounding
  offsets, buffer status, HARQ feedback and transport blocks.
\<close>

section \<open>Reachable states\<close>

definition initial_scheduler :: "Srs \<Rightarrow> u8 \<Rightarrow> u8 \<Rightarrow> bool \<Rightarrow> u8 \<Rightarrow> u8 \<Rightarrow> Scheduler" where
  "initial_scheduler srs mcsDl mcsUl reTx numHarq release =
     \<lparr>m_ueMap = [], m_schedulerSrs = srs, m_srList = [], m_dlHarqToRetransmit = [], m_ulHarqToRetransmit = [],
      m_startMcsDl = mcsDl, m_startMcsUl = mcsUl, m_enableHarqReTx = reTx, numHarqProcess = numHarq, bearerRelease = release\<rparr>"

text \<open>
  \<open>NrMacSchedulerHarqRr::BufferHARQFeedback\<close> for a direction: the first feedback of the process is kept for
  the next slot.
\<close>

definition BufferHARQFeedback :: "direction \<Rightarrow> HarqInfo list \<Rightarrow> u16 \<Rightarrow> u8 \<Rightarrow> Scheduler \<Rightarrow> Scheduler res" where
  "BufferHARQFeedback dir feedbacks rnti harqProcess s =
     (case filter (\<lambda>fb. fb_rnti fb = rnti \<and> fb_harqProcessId fb = harqProcess) feedbacks of
        [] \<Rightarrow> Inl (NS_ASSERT ''found'')
      | fb # _ \<Rightarrow> Inr (case dir of DL \<Rightarrow> s\<lparr>m_dlHarqToRetransmit := m_dlHarqToRetransmit s @ [fb]\<rparr>
                                   | UL \<Rightarrow> s\<lparr>m_ulHarqToRetransmit := m_ulHarqToRetransmit s @ [fb]\<rparr>))"

inductive sched_reachable :: "Scheduler \<Rightarrow> bool" where
  start: "SetStartingPeriodicity start \<lparr>m_periodicity = 0, m_availableOffsetValues = []\<rparr> = Inr srs \<Longrightarrow>
    sched_reachable (initial_scheduler srs mcsDl mcsUl reTx numHarq release)"
| shuffle: "sched_reachable s \<Longrightarrow> mset perm = mset [0..<length (m_availableOffsetValues (m_schedulerSrs s))] \<Longrightarrow>
    sched_reachable (s\<lparr>m_schedulerSrs := ShuffleOffsets perm (m_schedulerSrs s)\<rparr>)"
| ue_config: "sched_reachable s \<Longrightarrow> DoCschedUeConfigReq rnti beamId s = Inr s' \<Longrightarrow> sched_reachable s'"
| ue_release: "sched_reachable s \<Longrightarrow> DoCschedUeReleaseReq rnti s = Inr s' \<Longrightarrow> sched_reachable s'"
| lc_config: "sched_reachable s \<Longrightarrow> DoCschedLcConfigReq rnti confs s = Inr s' \<Longrightarrow> sched_reachable s'"
| lc_release: "sched_reachable s \<Longrightarrow> DoCschedLcReleaseReq rnti lcIds s = Inr s' \<Longrightarrow> sched_reachable s'"
| dl_report: "sched_reachable s \<Longrightarrow> DoSchedDlRlcBufferReq params s = Inr s' \<Longrightarrow> sched_reachable s'"
| ul_report: "sched_reachable s \<Longrightarrow> DoSchedUlMacCtrlInfoReq ces s = Inr s' \<Longrightarrow> sched_reachable s'"
| sr_report: "sched_reachable s \<Longrightarrow> DoSchedUlSrInfoReq rntis s = Inr s' \<Longrightarrow> sched_reachable s'"
| sr_schedule: "sched_reachable s \<Longrightarrow> DoScheduleUlSr s = Inr s' \<Longrightarrow> sched_reachable s'"
| feedback: "sched_reachable s \<Longrightarrow> trigger_harq dir fbs s = Inr (s', kept) \<Longrightarrow> sched_reachable s'"
| buffered: "sched_reachable s \<Longrightarrow> BufferHARQFeedback dir fbs rnti harqId s = Inr s' \<Longrightarrow> sched_reachable s'"
| dl_block: "sched_reachable s \<Longrightarrow> map_of (m_ueMap s) rnti = Some ue \<Longrightarrow> dci_rv dci < 4 \<Longrightarrow>
    ScheduleDlBlock assign dci ue = Inr (ue', pdus) \<Longrightarrow> sched_reachable (ue_put rnti ue' s)"
| ul_block: "sched_reachable s \<Longrightarrow> map_of (m_ueMap s) rnti = Some ue \<Longrightarrow> dci_rv dci < 4 \<Longrightarrow>
    ScheduleUlBlock assign dci ue = Inr ue' \<Longrightarrow> sched_reachable (ue_put rnti ue' s)"

section \<open>The invariant holds in every reachable state\<close>

lemma SetStartingPeriodicity_ok:
  assumes "SetStartingPeriodicity start \<lparr>m_periodicity = 0, m_availableOffsetValues = []\<rparr> = Inr srs"
  shows "srs_ok [] srs"
  using assms by (auto simp: SetStartingPeriodicity_def res_simps srs_ok_def offsets_def)

lemma ShuffleOffsets_ok:
  assumes "srs_ok ues r" and "mset perm = mset [0..<length (m_availableOffsetValues r)]"
  shows "srs_ok ues (ShuffleOffsets perm r)"
proof -
  have "mset (map ((!) (m_availableOffsetValues r)) perm) = image_mset ((!) (m_availableOffsetValues r)) (mset perm)" by simp
  also have "\<dots> = mset (map ((!) (m_availableOffsetValues r)) [0..<length (m_availableOffsetValues r)])"
    unfolding assms(2) by simp
  also have "\<dots> = mset (m_availableOffsetValues r)" by (simp add: map_nth)
  finally show ?thesis using assms(1) by (simp add: srs_ok_def ShuffleOffsets_def)
qed

lemma BSRReceivedFromUe_keeps:
  assumes "sched_ok s" and "BSRReceivedFromUe bsr s = Inr s'"
  shows "sched_ok s'"
proof -
  from assms(2) obtain ue gs where ue: "map_of (m_ueMap s) (ce_rnti bsr) = Some ue"
    and gs: "for_each (update_ul (m_bufferStatus bsr)) [0, 1, 2, 3] (m_ulLCG ue) = Inr gs"
    and s': "s' = ue_put (ce_rnti bsr) (ue\<lparr>m_ulLCG := gs\<rparr>) s"
    by (auto simp: BSRReceivedFromUe_def res_simps simp del: for_each.simps split: option.splits)
  note u = sched_ok_lookup [OF assms(1) ue]
  have "ul_ok gs"
  proof (rule for_each_invariant [OF gs])
    show "ul_ok (m_ulLCG ue)" using u by (simp add: ue_ok_def)
    fix x l y assume x: "ul_ok x" "update_ul (m_bufferStatus bsr) x l = Inr y"
    then have "unat l < length (m_bufferStatus bsr)" by (auto simp: update_ul_def split: if_splits)
    from update_ul_ok [OF x(1) this] x(2) show "ul_ok y" by auto
  qed
  with u have "ue_ok (ue\<lparr>m_ulLCG := gs\<rparr>)" by (simp add: ue_ok_def)
  then show ?thesis unfolding s' by (intro ue_put_ok [OF assms(1) ue]) simp_all
qed

lemma DoSchedUlMacCtrlInfoReq_keeps: "sched_ok s \<Longrightarrow> DoSchedUlMacCtrlInfoReq ces s = Inr s' \<Longrightarrow> sched_ok s'"
  unfolding DoSchedUlMacCtrlInfoReq_def
  by (erule for_each_invariant) (auto intro: BSRReceivedFromUe_keeps split: if_splits)

lemma DoScheduleUlSr_keeps:
  assumes "sched_ok s" and "DoScheduleUlSr s = Inr s'"
  shows "sched_ok s'"
proof -
  from assms(2) obtain t where t: "for_each schedule_sr (m_srList s) s = Inr t" "s' = t\<lparr>m_srList := []\<rparr>"
    by (auto simp: DoScheduleUlSr_def res_simps)
  have "sched_ok t"
  proof (rule for_each_invariant [where P = sched_ok, OF t(1) assms(1)])
    fix u r v assume u: "sched_ok u" "schedule_sr u r = Inr v"
    then obtain ue where "map_of (m_ueMap u) r = Some ue" by (auto simp: schedule_sr_def split: option.splits)
    from schedule_sr_ok [OF u(1) this] u(2) show "sched_ok v" by auto
  qed
  then show ?thesis by (simp add: t(2) sched_ok_def)
qed

lemma take_process_CanInsert: "take_process dir dci ue = Inr r \<Longrightarrow> CanInsert (GetHarqVector dir ue)"
  by (auto simp: take_process_def Let_def res_simps)

lemma assigned_in_known: "assigned_in type gs l c b = Inr gs' \<Longrightarrow> \<exists>lc. lc_of gs (l, c) = Some lc"
  by (auto simp: assigned_in_def LCG_AssignedData_def lc_at_def lc_of_def res_simps split: option.splits)

lemma assigned_in_keeps:
  assumes "assigned_in type gs l c b = Inr gs'"
  shows "dl_ok gs \<Longrightarrow> dl_ok gs'" and "ul_ok gs \<Longrightarrow> ul_ok gs'"
proof -
  from assigned_in_known [OF assms] obtain lc where lc: "lc_of gs (l, c) = Some lc" by blast
  obtain gs1 where "assigned_in type gs l c b = Inr gs1" "dl_ok gs \<Longrightarrow> dl_ok gs1" "ul_ok gs \<Longrightarrow> ul_ok gs1"
    by (rule assigned_in_ok [OF lc, of type b]) blast
  with assms show "dl_ok gs \<Longrightarrow> dl_ok gs'" and "ul_ok gs \<Longrightarrow> ul_ok gs'" by auto
qed

text \<open>The fields that a block of the other direction or the bookkeeping of the offsets use.\<close>

definition same_srs :: "NrMacSchedulerUeInfo \<Rightarrow> NrMacSchedulerUeInfo \<Rightarrow> bool" where
  "same_srs ue ue' \<longleftrightarrow> m_srsOffset ue' = m_srsOffset ue \<and> m_srsPeriodicity ue' = m_srsPeriodicity ue"

lemma assign_dl_keeps:
  assumes "ue_ok ue" and "assign_dl harqId (ue, pdus) a = Inr (ue', pdus')"
  shows "ue_ok ue'" and "same_srs ue ue'"
proof -
  from assms(2) obtain p dl where p: "HarqVector_Get harqId (m_dlHarq ue) = Inr p"
    and dl: "assigned_in ''DL'' (m_dlLCG ue) (a_lcg a) (a_lcId a) (a_bytes a - 3) = Inr dl"
    and ue': "ue' = ue\<lparr>m_dlHarq := harq_put harqId (p\<lparr>m_rlcPduInfo := m_rlcPduInfo p @ [(a_lcId a, a_bytes a - 3)]\<rparr>) (m_dlHarq ue),
                  m_dlLCG := dl\<rparr>"
    by (auto simp: assign_dl_def Let_def res_simps)
  have h: "harq_ok (m_dlHarq ue)" using assms(1) by (simp add: ue_ok_def)
  have "map_of (hv_map (m_dlHarq ue)) harqId = Some p"
    using p by (auto simp: HarqVector_Get_def harq_at_def res_simps split: option.splits)
  then have "harq_ok (harq_put harqId (p\<lparr>m_rlcPduInfo := m_rlcPduInfo p @ [(a_lcId a, a_bytes a - 3)]\<rparr>) (m_dlHarq ue))"
    by (rule harq_put_same [OF h]) (use harq_ok_process [OF h] \<open>map_of (hv_map (m_dlHarq ue)) harqId = Some p\<close> in \<open>simp_all add: process_ok_def\<close>)
  with assms(1) assigned_in_keeps(1) [OF dl] show "ue_ok ue'" by (simp add: ue' ue_ok_def)
  show "same_srs ue ue'" by (simp add: ue' same_srs_def)
qed

lemma ScheduleDlBlock_keeps:
  assumes "ue_ok ue" and "dci_rv dci < 4" and "ScheduleDlBlock assign dci ue = Inr (ue', pdus)"
  shows "ue_ok ue' \<and> same_srs ue ue'"
proof -
  from assms(3) obtain h u asg where t: "take_process DL dci ue = Inr (h, u)"
    and loop: "for_each (assign_dl h) asg (u, []) = Inr (ue', pdus)"
    by (auto simp: ScheduleDlBlock_def res_simps)
  have u: "ue_ok u" "same_srs ue u"
    by (rule take_process_ok [OF assms(1) take_process_CanInsert [OF t] assms(2)], use t in \<open>simp add: same_srs_def\<close>)+
  have "(\<lambda>(u', p). ue_ok u' \<and> same_srs ue u') (ue', pdus)"
    by (rule for_each_invariant [OF loop]) (use u assign_dl_keeps in \<open>auto simp: same_srs_def\<close>)
  then show ?thesis by simp
qed

lemma ScheduleUlBlock_keeps:
  assumes "ue_ok ue" and "dci_rv dci < 4" and "ScheduleUlBlock assign dci ue = Inr ue'"
  shows "ue_ok ue' \<and> same_srs ue ue'"
proof -
  from assms(3) obtain h u asg gs where t: "take_process UL dci ue = Inr (h, u)"
    and loop: "for_each assign_ul asg (m_ulLCG u) = Inr gs" and ue': "ue' = u\<lparr>m_ulLCG := gs\<rparr>"
    by (auto simp: ScheduleUlBlock_def res_simps)
  have u: "ue_ok u" "same_srs ue u"
    by (rule take_process_ok [OF assms(1) take_process_CanInsert [OF t] assms(2)], use t in \<open>simp add: same_srs_def\<close>)+
  have "ul_ok gs"
    by (rule for_each_invariant [OF loop]) (use u assigned_in_keeps in \<open>auto simp: ue_ok_def assign_ul_def\<close>)
  with u show ?thesis by (simp add: ue' ue_ok_def same_srs_def)
qed

lemma sched_reachable_ok: "sched_reachable s \<Longrightarrow> sched_ok s"
proof (induction rule: sched_reachable.induct)
  case (start start srs)
  then show ?case using SetStartingPeriodicity_ok by (simp add: sched_ok_def ues_ok_def initial_scheduler_def)
next
  case (shuffle s perm)
  then show ?case by (simp add: sched_ok_def ShuffleOffsets_ok)
next
  case (ue_config s rnti beamId s')
  from DoCschedUeConfigReq_ok [OF ue_config.IH DoCschedUeConfigReq_room [OF ue_config.IH ue_config.hyps(2)], of beamId] ue_config.hyps(2)
  show ?case by auto
next
  case (ue_release s rnti s')
  then obtain ue where "map_of (m_ueMap s) rnti = Some ue" by (auto simp: DoCschedUeReleaseReq_def split: option.splits)
  with DoCschedUeReleaseReq_ok [of s rnti ue] ue_release show ?case by auto
next
  case (dl_report s params s')
  then obtain ue where "map_of (m_ueMap s) (req_rnti params) = Some ue"
    by (auto simp: DoSchedDlRlcBufferReq_def split: option.splits)
  with DoSchedDlRlcBufferReq_ok [of s params ue] dl_report show ?case by auto
next
  case (sr_report s rntis s')
  then show ?case by (auto simp: DoSchedUlSrInfoReq_def Let_def res_simps sched_ok_def)
next
  case (buffered s dir fbs rnti harqId s')
  then show ?case by (auto simp: BufferHARQFeedback_def sched_ok_def split: list.splits direction.splits)
next
  case (dl_block s rnti ue dci assign ue' pdus)
  from ScheduleDlBlock_keeps [OF sched_ok_lookup [OF dl_block.IH dl_block.hyps(2)] dl_block.hyps(3,4)]
  show ?case by (intro ue_put_ok [OF dl_block.IH dl_block.hyps(2)]) (simp_all add: same_srs_def)
next
  case (ul_block s rnti ue dci assign ue')
  from ScheduleUlBlock_keeps [OF sched_ok_lookup [OF ul_block.IH ul_block.hyps(2)] ul_block.hyps(3,4)]
  show ?case by (intro ue_put_ok [OF ul_block.IH ul_block.hyps(2)]) (simp_all add: same_srs_def)
qed (auto intro: DoCschedLcConfigReq_ok DoCschedLcReleaseReq_ok DoSchedUlMacCtrlInfoReq_keeps DoScheduleUlSr_keeps trigger_harq_keeps)

section \<open>Examples\<close>

definition example_conf :: "u8 \<Rightarrow> u8 \<Rightarrow> LogicalChannelConfig" where
  "example_conf lcId lcg = \<lparr>m_logicalChannelIdentity = lcId, m_logicalChannelGroup = lcg, m_direction = DIR_BOTH,
     conf_qci = 9, conf_eRabGuaranteedBitrateDl = 0\<rparr>"

definition example_start :: Scheduler where
  "example_start = initial_scheduler \<lparr>m_periodicity = 2, m_availableOffsetValues = [0, 1]\<rparr> 0 0 True 4 11"

text \<open>Three UEs at a scheduler that starts with a period of two slots, two channels of a group for the first.\<close>

definition example_run :: "Scheduler res" where
  "example_run =
     res_bind (DoCschedUeConfigReq 1 (0, 0) example_start) (\<lambda>s.
     res_bind (DoCschedUeConfigReq 2 (0, 0) s) (\<lambda>s.
     res_bind (DoCschedUeConfigReq 3 (0, 0) s) (\<lambda>s.
       DoCschedLcConfigReq 1 [example_conf 3 1, example_conf 4 1] s)))"

lemma example_start_reachable: "sched_reachable example_start"
proof -
  have "SetStartingPeriodicity 2 \<lparr>m_periodicity = 0, m_availableOffsetValues = []\<rparr> =
      Inr \<lparr>m_periodicity = 2, m_availableOffsetValues = [0, 1]\<rparr>"
    by (rule res_isD) code_simp
  from sched_reachable.start [OF this] show ?thesis by (simp add: example_start_def)
qed

lemma example_run_reachable:
  assumes "example_run = Inr s"
  shows "sched_reachable s"
proof -
  from assms obtain s1 s2 s3 where run: "DoCschedUeConfigReq 1 (0, 0) example_start = Inr s1"
    "DoCschedUeConfigReq 2 (0, 0) s1 = Inr s2" "DoCschedUeConfigReq 3 (0, 0) s2 = Inr s3"
    "DoCschedLcConfigReq 1 [example_conf 3 1, example_conf 4 1] s3 = Inr s"
    by (auto simp: example_run_def res_simps)
  have "sched_reachable s3"
    using sched_reachable.ue_config [OF sched_reachable.ue_config [OF sched_reachable.ue_config [OF example_start_reachable run(1)] run(2)] run(3)] .
  then show ?thesis by (rule sched_reachable.lc_config [OF _ run(4)])
qed

definition res_holds :: "('a \<Rightarrow> bool) \<Rightarrow> 'a res \<Rightarrow> bool" where
  "res_holds P r = (case r of Inl e \<Rightarrow> False | Inr x \<Rightarrow> P x)"

lemma res_holdsE: "res_holds P r \<Longrightarrow> (\<And>x. r = Inr x \<Longrightarrow> P x \<Longrightarrow> thesis) \<Longrightarrow> thesis"
  by (cases r) (simp_all add: res_holds_def)

lemma example_run_state: "res_holds (\<lambda>s. length (m_ueMap s) = 3 \<and> m_periodicity (m_schedulerSrs s) = 4) example_run"
  by code_simp

section \<open>Properties\<close>

text \<open>
  C12: in every state that the operations of the MAC scheduler reach, no two UEs share a sounding offset, every
  offset lies within the period (also after the period was increased for a UE that found no free offset), every
  uplink group of every UE has exactly one logical channel, and the counters of the HARQ vectors count the active
  processes.
\<close>

theorem sched_registry_invariant:
  assumes "sched_reachable s"
  shows "distinct (offsets (m_ueMap s)) \<and> list_all (\<lambda>x. x < m_periodicity (m_schedulerSrs s)) (offsets (m_ueMap s)) \<and>
    list_all (\<lambda>(r, ue). list_all (\<lambda>(l, g). length (m_lcMap g) = 1) (m_ulLCG ue) \<and>
      unat (m_usedSize (m_dlHarq ue)) = count_active (hv_map (m_dlHarq ue)) \<and>
      unat (m_usedSize (m_ulHarq ue)) = count_active (hv_map (m_ulHarq ue))) (m_ueMap s)"
proof -
  note ok = sched_reachable_ok [OF assms]
  then have srs: "srs_ok (m_ueMap s) (m_schedulerSrs s)" by (simp add: sched_ok_def)
  have "\<forall>(r, ue) \<in> set (m_ueMap s). ue_ok ue" using ok by (simp add: sched_ok_def ues_ok_def)
  then show ?thesis using srs_ok_distinct [OF srs]
    by (auto simp: list_all_iff ue_ok_def ul_ok_def harq_ok_def)
qed

theorem sched_registry_invariant_witness:
  "\<exists>s. sched_reachable s \<and> length (m_ueMap s) = 3 \<and> m_periodicity (m_schedulerSrs s) = 4 \<and> distinct (offsets (m_ueMap s))"
proof -
  obtain s where s: "example_run = Inr s" "length (m_ueMap s) = 3" "m_periodicity (m_schedulerSrs s) = 4"
    using example_run_state by (rule res_holdsE) blast
  with sched_registry_invariant [OF example_run_reachable [OF s(1)]] example_run_reachable [OF s(1)] show ?thesis by blast
qed

text \<open>
  C13: in a reachable state the HARQ part of the downlink trigger never fails on feedbacks of known processes,
  late and duplicated ones included. It returns negative feedbacks only, no two for the same process, each for an
  active process that is marked for retransmission, and every other process that was named in a feedback is free
  afterwards.
\<close>

theorem dl_feedback_is_processed:
  assumes "sched_reachable s" and "\<forall>fb \<in> set (m_dlHarqToRetransmit s @ fbs). feedback_known DL (m_ueMap s) fb"
  shows "\<exists>s' kept. trigger_harq DL fbs s = Inr (s', kept) \<and> distinct (map fb_key kept) \<and>
    (\<forall>fb \<in> set kept. \<not> fb_receivedOk fb \<and>
      (\<exists>p. process_of DL (m_ueMap s') (fb_key fb) = Some p \<and> m_active p \<and> m_status p = RECEIVED_FEEDBACK)) \<and>
    (\<forall>fb \<in> set (m_dlHarqToRetransmit s @ fbs). process_live DL (m_ueMap s') fb \<longrightarrow> fb_key fb \<in> fb_key ` set kept)"
  by (rule trigger_harq_dl_ok [OF sched_reachable_ok [OF assms(1)] assms(2)]) blast

text \<open>
  C14: a transport block for a UE with uplink data and a free HARQ process is always accounted for, with the
  round-robin and with the QoS algorithm: the bytes stay within the block, exactly the channels with data are
  served, their queues are updated and no other channel changes, and one more HARQ process is in use.
\<close>

theorem ul_block_is_accounted:
  assumes "sched_reachable s" and "map_of (m_ueMap s) rnti = Some ue" and "CanInsert (m_ulHarq ue)"
    and "dci_rv dci < 4" and "demand (m_ulLCG ue) k > 0"
    and "assign \<in> {RR_AssignBytesToUlLC, QoS_AssignBytesToUlLC}"
  shows "\<exists>asg ue'. assign (m_ulLCG ue) (dci_tbSize dci) = Inr asg \<and>
    bytes_total asg \<le> unat (dci_tbSize dci) \<and> a_key ` set asg = {k. demand (m_ulLCG ue) k > 0} \<and>
    ScheduleUlBlock assign dci ue = Inr ue' \<and> sched_reachable (ue_put rnti ue' s) \<and>
    unat (m_usedSize (m_ulHarq ue')) = Suc (unat (m_usedSize (m_ulHarq ue))) \<and>
    (\<forall>k. demand (m_ulLCG ue) k = 0 \<longrightarrow> lc_of (m_ulLCG ue') k = lc_of (m_ulLCG ue) k) \<and>
    (\<forall>a \<in> set asg. lc_of (m_ulLCG ue') (a_key a) =
       map_option (LC_AssignedData (a_lcId a) (a_bytes a) ''UL'') (lc_of (m_ulLCG ue) (a_key a)))"
proof -
  note u = sched_ok_lookup [OF sched_reachable_ok [OF assms(1)] assms(2)]
  note reach = sched_reachable.ul_block [OF assms(1,2,4)]
  from assms(6) consider "assign = RR_AssignBytesToUlLC" | "assign = QoS_AssignBytesToUlLC" by blast
  then show ?thesis
  proof cases
    case 1
    from rr_ul.ScheduleUlBlock_ok [OF u assms(3-5)] reach show ?thesis unfolding 1 by blast
  next
    case 2
    from qos_ul.ScheduleUlBlock_ok [OF u assms(3-5)] reach show ?thesis unfolding 2 by blast
  qed
qed

section \<open>Witnesses\<close>

definition example_dci :: "u32 \<Rightarrow> Dci" where
  "example_dci tbs = \<lparr>dci_rnti = 1, dci_symStart = 1, dci_numSym = 12, dci_tbSize = tbs, dci_ndi = 1, dci_rv = 0, dci_harqProcess = 0\<rparr>"

definition example_bsr :: "Scheduler res" where
  "example_bsr = res_bind example_run (DoSchedUlMacCtrlInfoReq [\<lparr>ce_rnti = 1, m_macCeType = BSR, m_bufferStatus = [0, 20, 0, 0]\<rparr>])"

lemma example_bsr_state:
  "res_holds (\<lambda>s. case map_of (m_ueMap s) 1 of None \<Rightarrow> False | Some ue \<Rightarrow>
     CanInsert (m_ulHarq ue) \<and> demand (m_ulLCG ue) (1, 3) > 0 \<and> m_usedSize (m_ulHarq ue) = 0) example_bsr"
  by code_simp

theorem ul_block_is_accounted_witness:
  "\<exists>s ue ue'. sched_reachable s \<and> map_of (m_ueMap s) 1 = Some ue \<and>
     ScheduleUlBlock RR_AssignBytesToUlLC (example_dci 1000) ue = Inr ue' \<and>
     sched_reachable (ue_put 1 ue' s) \<and> unat (m_usedSize (m_ulHarq ue')) = 1"
proof -
  obtain s where s: "example_bsr = Inr s" and h: "case map_of (m_ueMap s) 1 of None \<Rightarrow> False | Some ue \<Rightarrow>
     CanInsert (m_ulHarq ue) \<and> demand (m_ulLCG ue) (1, 3) > 0 \<and> m_usedSize (m_ulHarq ue) = 0"
    using example_bsr_state by (rule res_holdsE) blast
  from h obtain ue where ue: "map_of (m_ueMap s) 1 = Some ue" "CanInsert (m_ulHarq ue)" "demand (m_ulLCG ue) (1, 3) > 0"
    "m_usedSize (m_ulHarq ue) = 0" by (auto split: option.splits)
  from s obtain t where "example_run = Inr t"
    "DoSchedUlMacCtrlInfoReq [\<lparr>ce_rnti = 1, m_macCeType = BSR, m_bufferStatus = [0, 20, 0, 0]\<rparr>] t = Inr s"
    unfolding example_bsr_def res_bind_eq_Inr by blast
  then have r: "sched_reachable s" using example_run_reachable sched_reachable.ul_report by blast
  have "dci_rv (example_dci 1000) < 4" by (simp add: example_dci_def)
  from ul_block_is_accounted [OF r ue(1,2) this ue(3), of RR_AssignBytesToUlLC] ue(4) r ue(1) show ?thesis by auto
qed

definition example_dl :: "Scheduler res" where
  "example_dl =
     res_bind (res_bind example_run (DoSchedDlRlcBufferReq \<lparr>req_rnti = 1, req_logicalChannelIdentity = 3,
       req_rlcTransmissionQueueSize = 100, req_rlcTransmissionQueueHolDelay = 0, req_rlcRetransmissionQueueSize = 0,
       req_rlcRetransmissionHolDelay = 0, req_rlcStatusPduSize = 0\<rparr>)) (\<lambda>s.
     case map_of (m_ueMap s) 1 of None \<Rightarrow> Inl (UB '''') | Some ue \<Rightarrow>
       res_bind (ScheduleDlBlock RR_AssignBytesToLC (example_dci 50) ue) (\<lambda>(ue, pdus). Inr (ue_put 1 ue s)))"

lemma example_dl_reachable:
  assumes "example_dl = Inr s"
  shows "sched_reachable s"
proof -
  from assms obtain s1 s2 ue ue' pdus where "example_run = Inr s1" and dl: "DoSchedDlRlcBufferReq \<lparr>req_rnti = 1,
      req_logicalChannelIdentity = 3, req_rlcTransmissionQueueSize = 100, req_rlcTransmissionQueueHolDelay = 0,
      req_rlcRetransmissionQueueSize = 0, req_rlcRetransmissionHolDelay = 0, req_rlcStatusPduSize = 0\<rparr> s1 = Inr s2"
    and b: "map_of (m_ueMap s2) 1 = Some ue" "ScheduleDlBlock RR_AssignBytesToLC (example_dci 50) ue = Inr (ue', pdus)"
      "s = ue_put 1 ue' s2"
    by (auto simp: example_dl_def res_simps split: option.splits)
  have rv: "dci_rv (example_dci 50) < 4" by (simp add: example_dci_def)
  have "sched_reachable s2" using sched_reachable.dl_report [OF example_run_reachable [OF \<open>example_run = Inr s1\<close>] dl] .
  from sched_reachable.dl_block [OF this b(1) rv b(2)] show ?thesis by (simp add: b(3))
qed

definition example_nack :: HarqInfo where
  "example_nack = \<lparr>fb_rnti = 1, fb_harqProcessId = 3, fb_receivedOk = False\<rparr>"

lemma example_dl_state:
  "res_holds (\<lambda>s. m_dlHarqToRetransmit s = [] \<and>
     (case map_of (m_ueMap s) 1 of None \<Rightarrow> False | Some ue \<Rightarrow> map_of (hv_map (m_dlHarq ue)) 3 \<noteq> None)) example_dl"
  by code_simp

theorem dl_feedback_is_processed_witness:
  "\<exists>s s' kept. sched_reachable s \<and> trigger_harq DL [example_nack, example_nack] s = Inr (s', kept) \<and> distinct (map fb_key kept)"
proof -
  obtain s where s: "example_dl = Inr s" "m_dlHarqToRetransmit s = []"
    and h: "case map_of (m_ueMap s) 1 of None \<Rightarrow> False | Some ue \<Rightarrow> map_of (hv_map (m_dlHarq ue)) 3 \<noteq> None"
    using example_dl_state by (rule res_holdsE) blast
  have "\<forall>fb \<in> set (m_dlHarqToRetransmit s @ [example_nack, example_nack]). feedback_known DL (m_ueMap s) fb"
    using h s(2) by (auto simp: feedback_known_def process_ids_def example_nack_def GetHarqVector_def split: option.splits)
  from dl_feedback_is_processed [OF example_dl_reachable [OF s(1)] this] example_dl_reachable [OF s(1)]
  show ?thesis by blast
qed

section \<open>Where the code goes wrong\<close>

text \<open>
  C37: a logical channel without retransmissions whose share of the transport block is at most one byte after the
  subheader loses its whole queue at the scheduler: the difference of the share and the RLC overhead wraps around,
  so the queue is taken for sent, although no byte of it was.
\<close>

theorem small_share_forgets_queue:
  assumes "m_rlcStatusPduSize lc = 0" and "m_rlcRetransmissionQueueSize lc = 0"
    and "siz < 2" and "unat (m_rlcTransmissionQueueSize lc) < 2 ^ 32 - 4"
  shows "m_rlcTransmissionQueueSize (LC_AssignedData lcId siz type lc) = 0"
proof -
  have "siz = 0 \<or> siz = 1" using assms(3) by (auto simp: word_less_nat_alt word_unat_eq_iff)
  moreover have "unat (- 1 :: u32) = 4294967295" "unat (- 2 :: u32) = 4294967294" "unat (- 3 :: u32) = 4294967293"
    "unat (- 4 :: u32) = 4294967292"
    by (simp_all add: unsigned_minus_1_eq_mask mask_eq_exp_minus_1)
  ultimately have wrap: "m_rlcTransmissionQueueSize lc \<le> siz - 2" "m_rlcTransmissionQueueSize lc \<le> siz - 4"
    using assms(4) by (auto simp: word_le_nat_alt)
  show ?thesis
  proof (cases "m_rlcTransmissionQueueSize lc > 0")
    case True
    with wrap assms(1,2) show ?thesis by (simp add: LC_AssignedData_def assigned_queue_def)
  next
    case False
    with assms(1,2) show ?thesis by (simp add: LC_AssignedData_def word_gt_0)
  qed
qed

theorem small_share_forgets_queue_witness:
  "RR_AssignBytesToLC example_groups 11 = Inr [\<lparr>a_lcg = 1, a_lcId = 1, a_bytes = 4\<rparr>,
     \<lparr>a_lcg = 1, a_lcId = 3, a_bytes = 4\<rparr>, \<lparr>a_lcg = 2, a_lcId = 5, a_bytes = 3\<rparr>] \<and>
   m_rlcTransmissionQueueSize (LC_AssignedData 5 (3 - 3) ''DL'' (example_lc 5 1000)) = 0"
proof
  show "RR_AssignBytesToLC example_groups 11 = Inr [\<lparr>a_lcg = 1, a_lcId = 1, a_bytes = 4\<rparr>,
     \<lparr>a_lcg = 1, a_lcId = 3, a_bytes = 4\<rparr>, \<lparr>a_lcg = 2, a_lcId = 5, a_bytes = 3\<rparr>]"
    by (rule res_isD) code_simp
  show "m_rlcTransmissionQueueSize (LC_AssignedData 5 (3 - 3) ''DL'' (example_lc 5 1000)) = 0"
    by (rule small_share_forgets_queue) (simp_all add: example_lc_def)
qed

text \<open>
  The order of the beams for HARQ retransmissions is written out of the bounds of the vector as soon as a
  beam that was served before is not active any more.
\<close>

theorem beam_order_out_of_bounds:
  assumes "b1 \<noteq> b2"
  shows "res_bind (GetBeamOrderRR [b1] \<lparr>m_rrBeams = [], m_rrBeamsSet = []\<rparr>) (\<lambda>(order, q). GetBeamOrderRR [b2] q) =
    Inl (UB ''ret[i]'')"
  using assms by (simp add: GetBeamOrderRR_def numeral_2_eq_2)

theorem beam_order_out_of_bounds_witness:
  "(0, 0) \<noteq> (1 :: u16, 0 :: real) \<and>
   res_bind (GetBeamOrderRR [(0, 0)] \<lparr>m_rrBeams = [], m_rrBeamsSet = []\<rparr>) (\<lambda>(order, q). GetBeamOrderRR [(1, 0)] q) =
     Inl (UB ''ret[i]'')"
  using beam_order_out_of_bounds [of "(0, 0)" "(1, 0)"] by simp

text \<open>An acknowledgement that arrives twice for an uplink process stops the simulation; the downlink drops the second.\<close>

theorem ul_duplicate_ack_stops:
  assumes "sched_reachable s" and "process_live UL (m_ueMap s) fb" and "fb_receivedOk fb"
  shows "ProcessHARQFeedbacks UL [fb, fb] s = Inl (NS_ABORT ''Received feedback for a process which is not active'')"
  using duplicate_ack_aborts [OF sched_reachable_ok [OF assms(1)] assms(2,3) refl] .

text \<open>A scheduling request of a UE that was released before the uplink is scheduled stops the simulation.\<close>

lemma sr_of_released_ue_stops:
  assumes "sched_reachable s" and "m_srList s = []" and "map_of (m_ueMap s) rnti = Some ue"
  shows "res_bind (DoSchedUlSrInfoReq [rnti] s) (\<lambda>s. res_bind (DoCschedUeReleaseReq rnti s) DoScheduleUlSr) =
    Inl (NS_ABORT ''std::out_of_range'')"
  using assms by (simp add: DoSchedUlSrInfoReq_def DoCschedUeReleaseReq_def DoScheduleUlSr_def schedule_sr_def AList.delete_conv')

text \<open>\<open>DecreasePeriodicity\<close> never changes the period: the bound that it searches for is the period itself.\<close>

lemma ReassignSrsValue_period:
  assumes "ReassignSrsValue ues r = Inr (r', ues')"
  shows "m_periodicity r' = m_periodicity r"
proof -
  have "(\<lambda>(q, us). m_periodicity q = m_periodicity r) (r', ues')"
    using assms unfolding ReassignSrsValue_def
  proof (rule for_each_invariant)
    fix x st st'
    assume "case st of (q, us) \<Rightarrow> m_periodicity q = m_periodicity r" "assign_srs st x = Inr st'"
    then show "case st' of (q, us) \<Rightarrow> m_periodicity q = m_periodicity r"
      by (cases st; cases x) (auto simp: assign_srs_def Srs_AddUe_def Let_def res_simps split: if_splits option.splits list.splits)
  qed auto
  then show ?thesis by simp
qed

lemma standard_lower_bound:
  "p \<in> set StandardPeriodicity \<Longrightarrow> \<exists>rest. dropWhile (\<lambda>q. q < p) StandardPeriodicity = p # rest"
proof -
  have "\<forall>p \<in> set StandardPeriodicity. hd (dropWhile (\<lambda>q. q < p) StandardPeriodicity) = p \<and>
      dropWhile (\<lambda>q. q < p) StandardPeriodicity \<noteq> []" by code_simp
  then show "p \<in> set StandardPeriodicity \<Longrightarrow> ?thesis" by (metis list.collapse)
qed

lemma DecreasePeriodicity_keeps_period:
  assumes "m_periodicity r \<in> set StandardPeriodicity" and "DecreasePeriodicity ues r = Inr (done, r', ues')"
  shows "m_periodicity r' = m_periodicity r"
proof -
  obtain rest where "dropWhile (\<lambda>q. q < m_periodicity r) StandardPeriodicity = m_periodicity r # rest"
    using standard_lower_bound [OF assms(1)] by blast
  with assms(2) obtain r1 where r1: "SetStartingPeriodicity (m_periodicity r) (r\<lparr>m_availableOffsetValues := []\<rparr>) = Inr r1" "ReassignSrsValue ues r1 = Inr (r', ues')"
    by (auto simp: DecreasePeriodicity_def res_simps)
  have "m_periodicity r1 = m_periodicity r" using r1(1) by (auto simp: SetStartingPeriodicity_def res_simps split: if_splits)
  with ReassignSrsValue_period [OF r1(2)] show ?thesis by simp
qed

text \<open>
  The uplink group of two channels is forgotten when the first of them is released, although the other one is still
  configured: its reports are ignored from then on.
\<close>

definition example_lost :: "Scheduler res" where
  "example_lost = res_bind (res_bind example_run (DoCschedLcReleaseReq 1 [3]))
     (DoSchedUlMacCtrlInfoReq [\<lparr>ce_rnti = 1, m_macCeType = BSR, m_bufferStatus = [0, 31, 0, 0]\<rparr>])"

lemma ul_group_is_lost:
  "res_holds (\<lambda>s. case map_of (m_ueMap s) 1 of None \<Rightarrow> False | Some ue \<Rightarrow>
     m_ulLCG ue = [] \<and> map (\<lambda>(l, g). (l, LCG_GetLCId g)) (m_dlLCG ue) = [(1, [4])]) example_lost"
  by code_simp

end
