(* ===== verification/NrGnbMacCell.thy ===== *)
theory NrGnbMacCell
  imports NrGnbMac NrUeMacGrant NrMacSchedulerMain
begin

text \<open>
  The UEs of a cell: in every state that the operations of the MAC of the gNB reach, the RLC entities, the HARQ
  buffers and the scheduler belong to the same UEs.
\<close>

section \<open>The invariant\<close>

definition known_ues :: "Scheduler \<Rightarrow> u16 set" where
  "known_ues s = dom (map_of (m_ueMap s))"

definition keyed_by :: "'k set \<Rightarrow> ('k \<times> 'v) list \<Rightarrow> bool" where
  "keyed_by ks m \<longleftrightarrow> distinct (map fst m) \<and> set (map fst m) = ks"

definition cell_ok :: "'r GnbMac \<Rightarrow> bool" where
  "cell_ok s \<longleftrightarrow> sched_ok (m_sched s) \<and> keyed_by (known_ues (m_sched s)) (m_rlcAttached s) \<and>
     keyed_by (known_ues (m_sched s)) (m_miDlHarqProcessesPackets s) \<and>
     (\<forall>(rnti, buf) \<in> set (m_miDlHarqProcessesPackets s). length buf = unat (g_numHarqProcess s))"

lemma keyed_Cons: "keyed_by ks m \<Longrightarrow> k \<notin> ks \<Longrightarrow> keyed_by (insert k ks) ((k, v) # m)"
  by (auto simp: keyed_by_def)

lemma keyed_delete: "keyed_by ks m \<Longrightarrow> keyed_by (ks - {k}) (AList.delete k m)"
  by (auto simp: keyed_by_def AList.delete_eq distinct_map_filter)

lemma keyed_lookup: "keyed_by ks m \<Longrightarrow> map_of m k = None \<longleftrightarrow> k \<notin> ks"
  by (simp add: keyed_by_def map_of_eq_None_iff)

lemma keyed_update: "keyed_by ks m \<Longrightarrow> map_of m k = Some x \<Longrightarrow> keyed_by ks (AList.update k v m)"
proof -
  assume "keyed_by ks m" "map_of m k = Some x"
  moreover from this(2) have "map fst (AList.update k v m) = map fst m" by (induction m) (auto split: if_splits)
  ultimately show ?thesis by (simp add: keyed_by_def)
qed

lemma cell_ok_cong:
  assumes "m_sched t = m_sched s" and "m_rlcAttached t = m_rlcAttached s" and "m_miDlHarqProcessesPackets t = m_miDlHarqProcessesPackets s"
    and "g_numHarqProcess t = g_numHarqProcess s"
  shows "cell_ok t = cell_ok s"
  using assms by (simp add: cell_ok_def)

lemma change_dl_process_keeps:
  assumes "cell_ok s" and "change_dl_process e rnti h f s = Inr t"
  shows "cell_ok t"
proof -
  from assms(2) obtain buf where buf: "map_of (m_miDlHarqProcessesPackets s) rnti = Some buf"
    and t: "t = s\<lparr>m_miDlHarqProcessesPackets := AList.update rnti (buf[unat h := f (buf ! unat h)]) (m_miDlHarqProcessesPackets s)\<rparr>"
    by (auto simp: change_dl_process_def split: option.splits if_splits)
  let ?p = "AList.update rnti (buf[unat h := f (buf ! unat h)]) (m_miDlHarqProcessesPackets s)"
  have "length buf = unat (g_numHarqProcess s)" using assms(1) map_of_SomeD [OF buf] by (auto simp: cell_ok_def)
  then have "\<forall>(r, b) \<in> set ?p. length b = unat (g_numHarqProcess s)"
    using assms(1) by (intro update_ball) (auto simp: cell_ok_def)
  with assms(1) keyed_update [OF _ buf] show ?thesis by (simp add: t cell_ok_def)
qed

text \<open>A request that keeps the scheduler in order and its UEs keeps the cell in order.\<close>

definition keeps_ues :: "(Scheduler \<Rightarrow> Scheduler res) \<Rightarrow> bool" where
  "keeps_ues request \<longleftrightarrow> (\<forall>s t. sched_ok s \<and> request s = Inr t \<longrightarrow> sched_ok t \<and> known_ues t = known_ues s)"

lemma on_sched_keeps:
  assumes "keeps_ues request" and "cell_ok s" and "on_sched request s = Inr t"
  shows "cell_ok t"
proof -
  from assms(3) obtain sched where "request (m_sched s) = Inr sched" "t = s\<lparr>m_sched := sched\<rparr>" by (auto simp: on_sched_def res_simps)
  moreover from this assms(1,2) have "sched_ok sched" "known_ues sched = known_ues (m_sched s)" by (auto simp: keeps_ues_def cell_ok_def)
  ultimately show ?thesis using assms(2) by (simp add: cell_ok_def)
qed

lemma ue_put_known: "map_of (m_ueMap s) r = Some u \<Longrightarrow> known_ues (ue_put r ue s) = known_ues s"
  by (auto simp: known_ues_def ue_put_def update_conv')

lemma request_keeps [simp]:
  "keeps_ues (DoSchedDlRlcBufferReq params)" "keeps_ues (DoCschedLcConfigReq rnti confs)" "keeps_ues (DoSchedUlSrInfoReq rs)"
proof -
  show "keeps_ues (DoSchedDlRlcBufferReq params)"
    unfolding keeps_ues_def
  proof (intro allI impI)
    fix s t assume a: "sched_ok s \<and> DoSchedDlRlcBufferReq params s = Inr t"
    then obtain ue where "map_of (m_ueMap s) (req_rnti params) = Some ue"
      by (auto simp: DoSchedDlRlcBufferReq_def split: option.splits)
    with a DoSchedDlRlcBufferReq_ok [of s params ue] show "sched_ok t \<and> known_ues t = known_ues s"
      by (auto simp: DoSchedDlRlcBufferReq_def res_simps ue_put_known)
  qed
  show "keeps_ues (DoCschedLcConfigReq rnti confs)"
  proof -
    have "known_ues t = known_ues s" if "DoCschedLcConfigReq rnti confs s = Inr t" for s t
      using that by (auto simp: DoCschedLcConfigReq_def res_simps ue_put_known split: option.splits)
    then show ?thesis using DoCschedLcConfigReq_ok by (auto simp: keeps_ues_def)
  qed
  show "keeps_ues (DoSchedUlSrInfoReq rs)"
    by (auto simp: keeps_ues_def DoSchedUlSrInfoReq_def Let_def res_simps sched_ok_def known_ues_def)
qed

lemma keeps_ues_loop:
  assumes "\<And>x. x \<in> set xs \<Longrightarrow> keeps_ues (\<lambda>s. body s x)"
  shows "keeps_ues (for_each body xs)"
  unfolding keeps_ues_def
proof (intro allI impI, elim conjE)
  fix s t assume s: "sched_ok s" and t: "for_each body xs s = Inr t"
  show "sched_ok t \<and> known_ues t = known_ues s"
    by (rule for_each_invariant [OF t]) (use s assms in \<open>auto simp: keeps_ues_def\<close>)
qed

lemma release_keeps [simp]: "keeps_ues (DoCschedLcReleaseReq rnti lcIds)"
  unfolding DoCschedLcReleaseReq_def
proof (rule keeps_ues_loop)
  fix lcid
  have "known_ues t = known_ues s" if "release_lc rnti s lcid = Inr t" for s t
    using that by (auto simp: release_lc_def ue_put_known split: option.splits)
  then show "keeps_ues (\<lambda>s. release_lc rnti s lcid)" using release_lc_ok by (auto simp: keeps_ues_def)
qed

lemma reports_keep [simp]: "keeps_ues (DoSchedUlMacCtrlInfoReq ces)"
  unfolding DoSchedUlMacCtrlInfoReq_def
proof (rule keeps_ues_loop)
  fix ce :: MacCeElement
  have "known_ues t = known_ues s" if "BSRReceivedFromUe ce s = Inr t" for s t
    using that by (auto simp: BSRReceivedFromUe_def res_simps ue_put_known simp del: for_each.simps split: option.splits)
  then show "keeps_ues (\<lambda>s. if m_macCeType ce = BSR then BSRReceivedFromUe ce s else Inr s)"
    using BSRReceivedFromUe_keeps by (auto simp: keeps_ues_def)
qed

section \<open>Transport blocks and PDUs\<close>

lemma gnb_call_keeps: "cell_ok s \<Longrightarrow> gnb_call s c = Inr t \<Longrightarrow> cell_ok t"
proof (cases c)
  case (BufferStatusReport_call b)
  moreover assume "cell_ok s" "gnb_call s c = Inr t"
  ultimately show ?thesis using on_sched_keeps [OF request_keeps(1)] by (auto simp: gnb_call_def Gnb_DoTransmitBufferStatusReport_def)
next
  case (TransmitPdu_call p)
  moreover assume s: "cell_ok s" and "gnb_call s c = Inr t"
  ultimately obtain f u info where "change_dl_process (UB ''harqIt'') (tp_rnti p) (tp_harqProcessId p) f s = Inr u"
    and t: "m_sched t = m_sched u" "m_rlcAttached t = m_rlcAttached u" "m_miDlHarqProcessesPackets t = m_miDlHarqProcessesPackets u"
      "g_numHarqProcess t = g_numHarqProcess u"
    by (auto simp: gnb_call_def Gnb_DoTransmitPdu_def Let_def res_simps gnb_emit_def split: option.splits)
  then show ?thesis using change_dl_process_keeps [OF s] cell_ok_cong [of t u] by auto
qed

lemma run_entity_keeps:
  assumes "cell_ok s" and "map_of (m_rlcAttached s) rnti = Some es" and "run_entity operation rnti lcid r es s = Inr t"
  shows "cell_ok t"
proof -
  from assms(3) obtain r' cs where t: "for_each gnb_call cs
      (s\<lparr>m_rlcAttached := AList.update rnti (AList.update lcid r' es) (m_rlcAttached s)\<rparr>) = Inr t"
    by (auto simp: run_entity_def res_simps)
  show ?thesis
  proof (rule for_each_invariant [OF t])
    show "cell_ok (s\<lparr>m_rlcAttached := AList.update rnti (AList.update lcid r' es) (m_rlcAttached s)\<rparr>)"
      using assms(1) keyed_update [OF _ assms(2)] by (simp add: cell_ok_def)
  qed (rule gnb_call_keeps)
qed

lemma tx_opportunity_keeps: "cell_ok s \<Longrightarrow> tx_opportunity tx rnti h s e = Inr t \<Longrightarrow> cell_ok t"
  by (auto simp: tx_opportunity_def res_simps split: prod.splits option.splits intro: change_dl_process_keeps run_entity_keeps)

lemma gnb_emit_keeps [simp]: "cell_ok (gnb_emit x s) = cell_ok s"
  by (simp add: gnb_emit_def cell_ok_def)

lemma fold_emit_keeps [simp]: "cell_ok (fold (\<lambda>x. gnb_emit (f x)) xs s) = cell_ok s"
  by (induction xs arbitrary: s) simp_all

lemma pdu_map_keeps [simp]: "cell_ok (s\<lparr>m_macPduMap := m\<rparr>) = cell_ok s"
  by (simp add: cell_ok_def)

lemma fields_keep [simp]:
  "cell_ok (s\<lparr>m_rapIdRntiMap := rap\<rparr>) = cell_ok s" "cell_ok (s\<lparr>m_receivedRachPreambleCount := rach\<rparr>) = cell_ok s"
  "cell_ok (s\<lparr>m_ulCeReceived := ces\<rparr>) = cell_ok s" "cell_ok (s\<lparr>m_ulHarqInfoReceived := fbs\<rparr>) = cell_ok s"
  "cell_ok (s\<lparr>m_srRntiList := rs\<rparr>) = cell_ok s" "cell_ok (s\<lparr>m_ulCqiReceived := cqis\<rparr>) = cell_ok s"
  "cell_ok (s\<lparr>gout := os\<rparr>) = cell_ok s"
  by (simp_all add: cell_ok_def)

lemma indicate_keeps:
  assumes "cell_ok s" and "indicate tx sfn s v = Inr t"
  shows "cell_ok t"
proof -
  have "cell_ok t" if n: "send_new_block tx sfn v s = Inr t"
  proof -
    let ?key = "tbMapKey (dci_rnti (vt_dci v)) (dci_harqProcess (vt_dci v))"
    let ?s = "s\<lparr>m_macPduMap := (?key, \<lparr>pi_sfnSf = sfn, pi_dci = vt_dci v, pi_used = 0\<rparr>) # m_macPduMap s\<rparr>"
    from n obtain u w where u: "change_dl_process (NS_ASSERT ''harqIt != m_miDlHarqProcessesPackets.end ()'') (dci_rnti (vt_dci v))
        (dci_harqProcess (vt_dci v)) (\<lambda>i. \<lparr>dl_pktBurst = [], dl_lcidList = []\<rparr>) ?s = Inr u"
      and w: "for_each (tx_opportunity tx (dci_rnti (vt_dci v)) (dci_harqProcess (vt_dci v))) (vt_rlcPduInfo v) u = Inr w"
      and t: "t = w\<lparr>m_macPduMap := AList.delete ?key (m_macPduMap w)\<rparr>"
      by (auto simp: send_new_block_def Let_def res_simps split: if_splits)
    have "cell_ok u" by (rule change_dl_process_keeps [OF _ u]) (use assms(1) in simp)
    then have "cell_ok w" by (rule for_each_invariant [OF w]) (rule tx_opportunity_keeps)
    then show ?thesis by (simp add: t)
  qed
  moreover have "cell_ok t" if "resend_block sfn (vt_dci v) s = Inr t"
    using that assms(1) by (auto simp: resend_block_def split: if_splits option.splits)
  ultimately show ?thesis using assms by (auto simp: indicate_def res_simps split: if_splits)
qed

section \<open>UEs\<close>

lemma config_request:
  assumes "sched_ok s" and "DoCschedUeConfigReq rnti beam s = Inr t"
  shows "sched_ok t \<and> known_ues t = insert rnti (known_ues s)"
  using DoCschedUeConfigReq_ok [OF assms(1) DoCschedUeConfigReq_room [OF assms], of beam] assms(2) by (auto simp: known_ues_def)

lemma add_ue_keeps:
  assumes "cell_ok s" and "Gnb_DoAddUe beam rnti s = Inr t"
  shows "cell_ok t" and "rnti \<in> dom (map_of (m_rlcAttached t))"
proof -
  have new: "map_of (m_rlcAttached s) rnti = None" using assms(2) by (auto simp: Gnb_DoAddUe_def res_simps)
  have ks: "keyed_by (known_ues (m_sched s)) (m_rlcAttached s)" "keyed_by (known_ues (m_sched s)) (m_miDlHarqProcessesPackets s)"
    using assms(1) by (simp_all add: cell_ok_def)
  have none: "rnti \<notin> known_ues (m_sched s)" using keyed_lookup [OF ks(1), of rnti] new by simp
  then have h: "map_of (m_miDlHarqProcessesPackets s) rnti = None" using keyed_lookup [OF ks(2), of rnti] by simp
  from assms(2) new h obtain sched where c: "DoCschedUeConfigReq rnti (beam rnti) (m_sched s) = Inr sched"
    and t: "t = s\<lparr>m_rlcAttached := (rnti, []) # m_rlcAttached s, m_sched := sched, m_miDlHarqProcessesPackets :=
        (rnti, replicate (unat (g_numHarqProcess s)) \<lparr>dl_pktBurst = [], dl_lcidList = []\<rparr>) # m_miDlHarqProcessesPackets s\<rparr>"
    by (auto simp: Gnb_DoAddUe_def Let_def res_simps on_sched_def)
  have "sched_ok (m_sched s)" using assms(1) by (simp add: cell_ok_def)
  from config_request [OF this c] assms(1) show "cell_ok t" by (simp add: t cell_ok_def keyed_Cons [OF _ none])
  show "rnti \<in> dom (map_of (m_rlcAttached t))" by (simp add: t)
qed

lemma remove_ue_keeps:
  assumes "cell_ok s" and "Gnb_DoRemoveUe rnti s = Inr t"
  shows "cell_ok t" and "rnti \<notin> dom (map_of (m_rlcAttached t))"
proof -
  from assms(2) obtain sched where r: "DoCschedUeReleaseReq rnti (m_sched s) = Inr sched"
    and t: "t = forget_preambles rnti (s\<lparr>m_sched := sched, m_miDlHarqProcessesPackets := AList.delete rnti (m_miDlHarqProcessesPackets s),
         m_rlcAttached := AList.delete rnti (m_rlcAttached s)\<rparr>)"
    by (auto simp: Gnb_DoRemoveUe_def on_sched_def res_simps)
  from r obtain ue where ue: "map_of (m_ueMap (m_sched s)) rnti = Some ue"
    "m_ueMap sched = AList.delete rnti (m_ueMap (m_sched s))" by (auto simp: DoCschedUeReleaseReq_def split: option.splits)
  have "sched_ok sched" using DoCschedUeReleaseReq_ok [OF _ ue(1)] assms(1) r by (auto simp: cell_ok_def)
  moreover have "known_ues sched = known_ues (m_sched s) - {rnti}" by (auto simp: known_ues_def ue(2) AList.delete_conv')
  moreover have "set (AList.delete rnti (m_miDlHarqProcessesPackets s)) \<subseteq> set (m_miDlHarqProcessesPackets s)" by (auto simp: AList.delete_eq)
  ultimately show "cell_ok t" using assms(1) by (auto simp: t forget_preambles_def Let_def cell_ok_def intro: keyed_delete)
  show "rnti \<notin> dom (map_of (m_rlcAttached t))"
    by (simp add: t forget_preambles_def Let_def AList.delete_conv')
qed

lemma config_ues_keeps:
  assumes "cell_ok s" and "for_each (\<lambda>s (rnti, es). on_sched (DoCschedUeConfigReq rnti (beam rnti)) s) ues s = Inr t"
    and "fst ` set ues \<subseteq> known_ues (m_sched s)"
  shows "cell_ok t"
  using assms
proof (induction ues arbitrary: s)
  case (Cons e ues)
  obtain rnti es where e: "e = (rnti, es)" by (cases e)
  from Cons.prems(2) obtain sched where c: "DoCschedUeConfigReq rnti (beam rnti) (m_sched s) = Inr sched"
    and rest: "for_each (\<lambda>s (rnti, es). on_sched (DoCschedUeConfigReq rnti (beam rnti)) s) ues (s\<lparr>m_sched := sched\<rparr>) = Inr t"
    by (auto simp: e on_sched_def res_simps)
  have "sched_ok (m_sched s)" using Cons.prems(1) by (simp add: cell_ok_def)
  from config_request [OF this c] Cons.prems(3) have "sched_ok sched \<and> known_ues sched = known_ues (m_sched s)"
    by (auto simp: e)
  then show ?case using Cons.IH [OF _ rest] Cons.prems(1,3) by (simp add: cell_ok_def)
qed simp

section \<open>Reachable states\<close>

text \<open>
  \<open>NrGnbRrc::AddUe\<close>, as far as it concerns the MAC: \<open>AllocateTemporaryCellRnti\<close> picks an RNTI and adds the UE.
\<close>

definition allocate_ue :: "(u16 \<Rightarrow> BeamId) \<Rightarrow> ('r GnbMac \<Rightarrow> u16) \<Rightarrow> 'r GnbMac \<Rightarrow> (u16 \<times> 'r GnbMac) res" where
  "allocate_ue GetBeamId pick s = res_bind (Gnb_DoAddUe GetBeamId (pick s) s) (\<lambda>t. Inr (pick s, t))"

inductive cell_reachable :: "'r GnbMac \<Rightarrow> bool" where
  start: "sched_reachable sched \<Longrightarrow> m_ueMap sched = [] \<Longrightarrow> cell_reachable (Gnb_SetNumHarqProcess n (NrGnbMac_new bwpId sched))"
| add_ue: "cell_reachable s \<Longrightarrow> Gnb_DoAddUe beam rnti s = Inr t \<Longrightarrow> cell_reachable t"
| remove_ue: "cell_reachable s \<Longrightarrow> Gnb_DoRemoveUe rnti s = Inr t \<Longrightarrow> cell_reachable t"
| add_lc: "cell_reachable s \<Longrightarrow> Gnb_DoAddLc rnti conf r s = Inr t \<Longrightarrow> cell_reachable t"
| release_lc: "cell_reachable s \<Longrightarrow> Gnb_DoReleaseLc rnti lcid s = Inr t \<Longrightarrow> cell_reachable t"
| pdu: "cell_reachable s \<Longrightarrow> Gnb_DoReceivePhyPdu providers rx p s = Inr t \<Longrightarrow> cell_reachable t"
| control: "cell_reachable s \<Longrightarrow> Gnb_DoReceiveControlMessage providers msg s = Inr t \<Longrightarrow> cell_reachable t"
| preamble: "cell_reachable s \<Longrightarrow> cell_reachable (ReceiveRachPreamble raId s)"
| nc_preamble: "cell_reachable s \<Longrightarrow> cell_reachable (snd (DoAllocateNcRaPreamble completed now rnti s))"
| ul_feedback: "cell_reachable s \<Longrightarrow> cell_reachable (DoUlHarqFeedback fb s)"
| ul_cqi: "cell_reachable s \<Longrightarrow> cell_reachable (DoUlCqiReport cqi s)"
| dl_slot: "cell_reachable s \<Longrightarrow> DoSlotDlIndication beam sfn s = Inr t \<Longrightarrow> cell_reachable t"
| ul_slot: "cell_reachable s \<Longrightarrow> DoSlotUlIndication (allocate_ue beam pick) sfn s = Inr t \<Longrightarrow> cell_reachable t"
| rars: "cell_reachable s \<Longrightarrow> DoBuildRarList varTtis rars s = Inr (rars', t) \<Longrightarrow> cell_reachable t"
| blocks: "cell_reachable s \<Longrightarrow> DoSchedConfigIndication tx sfn varTtis s = Inr t \<Longrightarrow> cell_reachable t"
| new_slot: "cell_reachable s \<Longrightarrow> cell_reachable (SetCurrentSfn sfn s)"
| update_ue: "cell_reachable s \<Longrightarrow> rnti \<in> dom (map_of (m_rlcAttached s)) \<Longrightarrow> UeUpdateConfigurationReq beam rnti s = Inr t \<Longrightarrow> cell_reachable t"
| rlc_report: "cell_reachable s \<Longrightarrow> Gnb_DoTransmitBufferStatusReport b s = Inr t \<Longrightarrow> cell_reachable t"

inductive_cases cell_reachableE: "cell_reachable s"

lemma attach_keeps:
  assumes "cell_ok s" and "map_of (m_rlcAttached s) rnti = Some es"
  shows "cell_ok (s\<lparr>m_rlcAttached := AList.update rnti es' (m_rlcAttached s)\<rparr>)"
  using assms keyed_update [OF _ assms(2)] by (simp add: cell_ok_def)

lemma add_lc_keeps:
  assumes "cell_ok s" and "Gnb_DoAddLc rnti conf r s = Inr t"
  shows "cell_ok t"
proof -
  from assms(2) obtain es where es: "map_of (m_rlcAttached s) rnti = Some es" by (auto simp: Gnb_DoAddLc_def split: option.splits)
  let ?lcid = "m_logicalChannelIdentity conf"
  let ?u = "case map_of es ?lcid of None \<Rightarrow> s\<lparr>m_rlcAttached := AList.update rnti ((?lcid, r) # es) (m_rlcAttached s)\<rparr> | Some x \<Rightarrow> s"
  have "cell_ok ?u" using attach_keeps [OF assms(1) es] assms(1) by (simp split: option.split)
  moreover have "(if ?lcid \<noteq> 0 then on_sched (DoCschedLcConfigReq rnti [conf\<lparr>m_direction := DIR_BOTH\<rparr>]) ?u else Inr ?u) = Inr t"
    using assms(2) es by (simp add: Gnb_DoAddLc_def Let_def)
  ultimately show ?thesis using on_sched_keeps [OF request_keeps(2)] by (auto split: if_splits)
qed

lemma release_lc_keeps: "cell_ok s \<Longrightarrow> Gnb_DoReleaseLc rnti lcid s = Inr t \<Longrightarrow> cell_ok t"
  using attach_keeps on_sched_keeps [OF release_keeps] by (fastforce simp: Gnb_DoReleaseLc_def split: option.splits)

lemma pdu_keeps: "cell_ok s \<Longrightarrow> Gnb_DoReceivePhyPdu providers rx p s = Inr t \<Longrightarrow> cell_ok t"
  by (auto simp: Gnb_DoReceivePhyPdu_def ReceiveBsrMessage_def DoUlReceiveMacCe_def DoReportMacCeToScheduler_def Let_def res_simps
      split: option.splits if_splits intro: run_entity_keeps cell_ok_cong [THEN iffD2])

lemma feedback_keeps: "cell_ok s \<Longrightarrow> DoDlHarqFeedback fb s = Inr t \<Longrightarrow> cell_ok t"
  by (auto simp: DoDlHarqFeedback_def Let_def res_simps gnb_emit_def split: if_splits
      intro: change_dl_process_keeps cell_ok_cong [THEN iffD2])

lemma control_keeps: "cell_ok s \<Longrightarrow> Gnb_DoReceiveControlMessage providers msg s = Inr t \<Longrightarrow> cell_ok t"
  by (auto simp: Gnb_DoReceiveControlMessage_def DoUlReceiveSr_def DoReportSrToScheduler_def gnb_emit_def res_simps
      split: gnb_control.splits intro: feedback_keeps cell_ok_cong [THEN iffD2])

lemma preambles_keep:
  assumes "cell_ok s" and "ProcessRaPreambles (allocate_ue beam pick) s = Inr t"
  shows "cell_ok t"
proof -
  from assms(2) obtain u rachs where loop: "for_each (process_preamble (allocate_ue beam pick)) (m_receivedRachPreambleCount s) (s, []) = Inr (u, rachs)"
    and t: "t = gnb_emit (SchedDlRachInfoReq rachs) (u\<lparr>m_receivedRachPreambleCount := []\<rparr>)"
    by (auto simp: ProcessRaPreambles_def res_simps)
  have "(\<lambda>(u, rachs). cell_ok u) (u, rachs)"
  proof (rule for_each_invariant [OF loop])
    fix x e y assume x: "case x of (u, rachs) \<Rightarrow> cell_ok u" and y: "process_preamble (allocate_ue beam pick) x e = Inr y"
    obtain u rs k n where xe: "x = (u, rs)" "e = (k, n)" by (cases x; cases e) auto
    show "case y of (u, rachs) \<Rightarrow> cell_ok u"
    proof (cases "n > 1")
      case True
      then show ?thesis using x y by (auto simp: xe process_preamble_def res_simps)
    next
      case False
      let ?m = "case map_of (m_allocatedNcRaPreambleMap u) k of Some i \<Rightarrow> Inr (nc_rnti i, u) | None \<Rightarrow> allocate_ue beam pick u"
      let ?f = "(\<lambda>(rnti, v :: 'a GnbMac). Inr (case map_of (m_rapIdRntiMap v) (ucast rnti) of
          None \<Rightarrow> v\<lparr>m_rapIdRntiMap := (ucast rnti, ucast k) # m_rapIdRntiMap v\<rparr> | Some j \<Rightarrow> v,
        rs @ [\<lparr>rach_rnti = rnti, m_estimatedSize = 144\<rparr>])) :: u16 \<times> 'a GnbMac \<Rightarrow> ('a GnbMac \<times> RachListElement list) res"
      have "res_bind ?m ?f = Inr y" using y False by (simp add: xe process_preamble_def Let_def ns_assert_eq_Inr)
      then obtain rv where rv: "?m = Inr rv" "?f rv = Inr y" unfolding res_bind_eq_Inr by blast
      obtain rnti v where "rv = (rnti, v)" by (cases rv)
      note v = rv(1) [unfolded this] and f = rv(2) [unfolded this]
      have yv: "fst y = v \<or> (\<exists>m. fst y = v\<lparr>m_rapIdRntiMap := m\<rparr>)"
        using f by (cases "map_of (m_rapIdRntiMap v) (ucast rnti :: u8)") auto
      have "cell_ok v" using v x by (auto simp: xe allocate_ue_def res_simps split: option.splits dest: add_ue_keeps(1))
      then show ?thesis using yv by (auto simp: case_prod_beta)
    qed
  qed (use assms(1) in simp)
  then show ?thesis by (simp add: t)
qed

lemma dl_slot_keeps:
  assumes "cell_ok s" and "DoSlotDlIndication beam sfn s = Inr t"
  shows "cell_ok t"
proof -
  let ?s = "(gnb_emit (SchedDlCqiInfoReq sfn (m_dlCqiReceived s)) s)\<lparr>m_dlCqiReceived := [], m_dlHarqInfoReceived := []\<rparr>"
  from assms(2) obtain u where u: "for_each (\<lambda>s (rnti, es). on_sched (DoCschedUeConfigReq rnti (beam rnti)) s) (m_rlcAttached s) ?s = Inr u"
    and t: "t = gnb_emit (SchedDlTriggerReq sfn (m_dlHarqInfoReceived s)) u"
    by (auto simp: DoSlotDlIndication_def Let_def res_simps gnb_emit_def)
  have "cell_ok ?s" using assms(1) by (simp add: cell_ok_def gnb_emit_def)
  then have "cell_ok u" by (rule config_ues_keeps [OF _ u]) (use assms(1) in \<open>simp add: cell_ok_def keyed_by_def gnb_emit_def\<close>)
  then show ?thesis by (simp add: t)
qed

lemma update_ue_keeps:
  assumes "cell_ok s" and "rnti \<in> dom (map_of (m_rlcAttached s))" and "UeUpdateConfigurationReq beam rnti s = Inr t"
  shows "cell_ok t"
proof (rule config_ues_keeps [OF assms(1)])
  show "for_each (\<lambda>s (rnti, es). on_sched (DoCschedUeConfigReq rnti (beam rnti)) s) [(rnti, undefined)] s = Inr t"
    using assms(3) by (simp add: UeUpdateConfigurationReq_def)
qed (use assms(1,2) in \<open>auto simp: cell_ok_def keyed_by_def dom_map_of_conv_image_fst\<close>)

lemma ul_slot_keeps:
  assumes "cell_ok s" and "DoSlotUlIndication (allocate_ue beam pick) sfn s = Inr t"
  shows "cell_ok t"
proof -
  from assms(2) obtain u v w where u: "(if m_receivedRachPreambleCount s \<noteq> [] then ProcessRaPreambles (allocate_ue beam pick) s else Inr s) = Inr u"
    and v: "on_sched (DoSchedUlSrInfoReq (m_srRntiList u))
      (u\<lparr>gout := gout u @ map SchedUlCqiInfoReq (m_ulCqiReceived u), m_ulCqiReceived := [], m_srRntiList := []\<rparr>) = Inr v"
    and w: "(if m_ulCeReceived v \<noteq> [] then on_sched (DoSchedUlMacCtrlInfoReq (m_ulCeReceived v)) (v\<lparr>m_ulCeReceived := []\<rparr>) else Inr v) = Inr w"
    and t: "t = gnb_emit (SchedUlTriggerReq sfn (m_ulHarqInfoReceived w)) (w\<lparr>m_ulHarqInfoReceived := []\<rparr>)"
    by (auto simp: DoSlotUlIndication_def Let_def res_bind_eq_Inr)
  have "cell_ok u" using u preambles_keep assms(1) by (auto split: if_splits)
  then have "cell_ok (u\<lparr>gout := gout u @ map SchedUlCqiInfoReq (m_ulCqiReceived u), m_ulCqiReceived := [], m_srRntiList := []\<rparr>)" by simp
  then have "cell_ok v" by (rule on_sched_keeps [OF request_keeps(3) _ v])
  then have "cell_ok w" using w on_sched_keeps [OF reports_keep, of "v\<lparr>m_ulCeReceived := []\<rparr>"] by (auto split: if_splits)
  then show ?thesis by (simp add: t)
qed

lemma blocks_keep: "cell_ok s \<Longrightarrow> DoSchedConfigIndication tx sfn varTtis s = Inr t \<Longrightarrow> cell_ok t"
  by (auto simp: DoSchedConfigIndication_def Let_def res_simps intro: for_each_invariant [where P = cell_ok] indicate_keeps)

lemma cell_reachable_ok: "cell_reachable s \<Longrightarrow> cell_ok s"
proof (induction rule: cell_reachable.induct)
  case (start sched bwpId n)
  then show ?case using sched_reachable_ok [OF start(1)] by (simp add: cell_ok_def NrGnbMac_new_def Gnb_SetNumHarqProcess_def keyed_by_def known_ues_def)
next
  case (update_ue s rnti beam t)
  then show ?case using update_ue_keeps by blast
next
  case (nc_preamble s completed now rnti)
  then show ?case by (auto simp: DoAllocateNcRaPreamble_def Let_def cell_ok_def split: option.split)
next
  case (rlc_report s b t)
  then show ?case using on_sched_keeps [OF request_keeps(1)] by (auto simp: Gnb_DoTransmitBufferStatusReport_def)
next
  case (rars s varTtis rars rars' t)
  then show ?case by (auto simp: DoBuildRarList_def res_simps cell_ok_def split: if_splits)
qed (auto simp: ReceiveRachPreamble_def Let_def DoUlHarqFeedback_def DoUlCqiReport_def SetCurrentSfn_def intro: cell_ok_cong [THEN iffD2]
  dest: add_ue_keeps(1) remove_ue_keeps(1) add_lc_keeps release_lc_keeps pdu_keeps control_keeps dl_slot_keeps ul_slot_keeps blocks_keep)

section \<open>Properties\<close>


lemma example_start_empty: "m_ueMap example_start = []"
  by (simp add: example_start_def initial_scheduler_def)


section \<open>Where the code goes wrong\<close>

text \<open>
  Two preambles that get the RNTIs 1 and 257 share an entry of the map with 8-bit keys: both random access responses name
  the preamble of the first UE, and the second one never recognises its own.
\<close>

definition two_preambles :: "u16 \<Rightarrow> u16 \<Rightarrow> unit GnbMac \<Rightarrow> (u16 \<times> unit GnbMac) res" where
  "two_preambles a b s = Inr (if m_rapIdRntiMap s = [] then a else b, s)"

definition msg3 :: "u16 \<Rightarrow> VarTtiAllocInfo" where
  "msg3 rnti = \<lparr>vt_type = MSG3, vt_format = UL, vt_dci = (example_dci 20)\<lparr>dci_rnti := rnti\<rparr>, vt_rlcPduInfo = []\<rparr>"

definition rar_preambles :: "u16 \<Rightarrow> u16 \<Rightarrow> u8 list res" where
  "rar_preambles a b =
     res_bind (ProcessRaPreambles (two_preambles a b) (ReceiveRachPreamble 20 (ReceiveRachPreamble 10 (NrGnbMac_new 0 example_start)))) (\<lambda>s.
     res_bind (DoBuildRarList [msg3 a, msg3 b] [] s) (\<lambda>(rars, s). Inr (map rar_raPreambleId rars)))"

lemma rar_names_preambles: "rar_preambles 1 2 = Inr [10, 20]"
  by (rule res_isD) code_simp

lemma rar_names_the_wrong_preamble: "rar_preambles 1 257 = Inr [10, 10]"
  by (rule res_isD) code_simp

end
