(* ===== verification/NrGnbMacBsr.thy ===== *)
theory NrGnbMacBsr
  imports NrGnbMac NrUeMacGrant NrMacSchedulerMain
begin

text \<open>
  From the buffers of a UE to the queues of the scheduler: buffer status reports and scheduling requests through the
  MAC of the UE, the MAC of the gNB and the scheduler.
\<close>

section \<open>The queues of a report\<close>

definition buffered :: "BufferStatusReportParameters \<Rightarrow> nat" where
  "buffered b = unat (bsr_txQueueSize b) + unat (bsr_retxQueueSize b) + unat (bsr_statusPduSize b)"

definition in_group :: "(u8 \<times> 'r LcInfo) list \<Rightarrow> u8 \<Rightarrow> u8 \<Rightarrow> bool" where
  "in_group lcs lcg k \<longleftrightarrow> (\<exists>i. map_of lcs k = Some i \<and> logicalChannelGroup i = lcg)"

definition group_bytes :: "(u8 \<times> 'r LcInfo) list \<Rightarrow> u8 \<Rightarrow> (u8 \<times> BufferStatusReportParameters) list \<Rightarrow> nat" where
  "group_bytes lcs lcg bs = (\<Sum>(k, b)\<leftarrow>filter (\<lambda>(k, b). in_group lcs lcg k) bs. buffered b)"

definition all_bytes :: "(u8 \<times> BufferStatusReportParameters) list \<Rightarrow> nat" where
  "all_bytes bs = (\<Sum>(k, b)\<leftarrow>bs. buffered b + 11)"

lemma bsr_total_buffered: "buffered b < 2 ^ 32 \<Longrightarrow> unat (bsr_total b) = buffered b"
  by (simp add: bsr_total_def buffered_def unat_word_ariths unsigned_ucast_eq take_bit_nat_eq_self)

lemma add_to_queue_covers:
  assumes "add_to_queue lcs q (k, b) = Inr q'" and "length q = 4" and "unat (q ! unat lcg) + buffered b + 11 \<le> n" and "n < 2 ^ 32"
    and "lcg < 4"
  shows "unat (q ! unat lcg) + (if in_group lcs lcg k then buffered b else 0) \<le> unat (q' ! unat lcg)"
    and "unat (q' ! unat lcg) \<le> unat (q ! unat lcg) + buffered b + 11" and "length q' = 4"
proof -
  from assms(1) obtain i where i: "map_of lcs k = Some i" "unat (logicalChannelGroup i) < 4"
    and q': "q' = q[unat (logicalChannelGroup i) :=
      (let x = q ! unat (logicalChannelGroup i) + bsr_total b; x = (if x \<noteq> 0 then x + 5 else x);
           x = (if bsr_txQueueSize b > 0 then x + 3 else x) in if bsr_retxQueueSize b > 0 then x + 3 else x)]"
    using assms(2) by (auto simp: add_to_queue_def Let_def res_simps split: option.splits if_splits)
  show "length q' = 4" using assms(2) by (simp add: q')
  have t: "unat (bsr_total b) = buffered b" by (rule bsr_total_buffered) (use assms(3,4) in simp)
  let ?y = "q ! unat lcg"
  have y: "unat (?y + bsr_total b) = unat ?y + buffered b" using t assms(3,4) by (simp add: unat_word_ariths)
  have z: "?y + bsr_total b = 0 \<longleftrightarrow> unat ?y + buffered b = 0" by (metis y unat_eq_zero)
  define y1 where "y1 = (if ?y + bsr_total b \<noteq> 0 then ?y + bsr_total b + 5 else ?y + bsr_total b)"
  define y2 where "y2 = (if bsr_txQueueSize b > 0 then y1 + 3 else y1)"
  define y3 where "y3 = (if bsr_retxQueueSize b > 0 then y2 + 3 else y2)"
  have y1: "unat ?y + buffered b \<le> unat y1 \<and> unat y1 \<le> unat ?y + buffered b + 5"
  proof (cases "?y + bsr_total b = 0")
    case True
    then show ?thesis using z by (simp add: y1_def)
  next
    case False
    have "unat (?y + bsr_total b + 5) = unat ?y + buffered b + 5" using y assms(3,4) by (subst unat_word_ariths(1)) simp
    with False show ?thesis by (simp add: y1_def)
  qed
  have y2: "unat ?y + buffered b \<le> unat y2 \<and> unat y2 \<le> unat ?y + buffered b + 8"
    using y1 assms(3,4) by (auto simp: y2_def unat_word_ariths)
  have y3: "unat ?y + buffered b \<le> unat y3 \<and> unat y3 \<le> unat ?y + buffered b + 11"
    using y2 assms(3,4) by (auto simp: y3_def unat_word_ariths)
  have at: "q' ! unat lcg = (if logicalChannelGroup i = lcg then y3 else ?y)"
    using assms(2,5) i(2) by (auto simp: q' nth_list_update y1_def y2_def y3_def Let_def word_less_nat_alt unsigned_word_eqI)
  have "in_group lcs lcg k \<longleftrightarrow> logicalChannelGroup i = lcg" using i(1) by (simp add: in_group_def)
  with at y3 show "unat (q ! unat lcg) + (if in_group lcs lcg k then buffered b else 0) \<le> unat (q' ! unat lcg)"
    and "unat (q' ! unat lcg) \<le> unat (q ! unat lcg) + buffered b + 11" by auto
qed

lemma queues_cover:
  assumes "for_each (add_to_queue lcs) bs q = Inr q'" and "length q = 4" and "lcg < 4"
    and "unat (q ! unat lcg) + all_bytes bs \<le> n" and "n < 2 ^ 32"
  shows "unat (q ! unat lcg) + group_bytes lcs lcg bs \<le> unat (q' ! unat lcg) \<and> unat (q' ! unat lcg) \<le> n"
  using assms
proof (induction bs arbitrary: q)
  case Nil
  then show ?case by (simp add: group_bytes_def)
next
  case (Cons e bs)
  obtain k b where e: "e = (k, b)" by (cases e)
  from Cons.prems(1) obtain q1 where q1: "add_to_queue lcs q (k, b) = Inr q1" "for_each (add_to_queue lcs) bs q1 = Inr q'"
    by (auto simp: e res_simps)
  have n: "unat (q ! unat lcg) + buffered b + 11 \<le> n" "unat (q ! unat lcg) + buffered b + 11 + all_bytes bs \<le> n"
    using Cons.prems(4) by (simp_all add: e all_bytes_def)
  note a = add_to_queue_covers [OF q1(1) Cons.prems(2) n(1) Cons.prems(5,3)]
  from Cons.IH [OF q1(2) a(3) Cons.prems(3) _ Cons.prems(5)] a n(2) show ?case
    by (auto simp: e group_bytes_def)
qed

section \<open>The report at the gNB\<close>

lemma level_bytes_bound: "FromLevelToBytes l \<le> 1200000"
proof -
  have "\<forall>x \<in> set lookupVector. x \<le> 1200000" by (simp add: lookupVector_def)
  moreover have "lookupVector \<noteq> []" by (simp add: lookupVector_def)
  then have "FromLevelToBytes l = 1200000 \<or> FromLevelToBytes l \<in> set lookupVector"
    by (cases "unat l < length lookupVector") (auto simp: FromLevelToBytes_def)
  ultimately show ?thesis by auto
qed

lemma level_covers_queue:
  assumes "level_at queue k = Inr l" and "unat (queue ! k) \<le> 1200000"
  shows "unat (queue ! k) \<le> unat (ucast (FromLevelToBytes l) :: u32)"
proof -
  have u: "unat (ucast (queue ! k) :: u64) = unat (queue ! k)"
    using unat_u32 [of "queue ! k"] by (simp add: unsigned_ucast_eq take_bit_nat_eq_self)
  have "(ucast (queue ! k) :: u64) \<le> FromLevelToBytes l"
    by (rule level_covers) (use assms u in \<open>simp_all add: level_at_def word_le_nat_alt\<close>)
  then have "unat (queue ! k) \<le> unat (FromLevelToBytes l)" by (simp add: word_le_nat_alt u)
  moreover have "unat (FromLevelToBytes l) < 2 ^ 32" using level_bytes_bound [of l] by (simp add: word_le_nat_alt)
  ultimately show ?thesis by (simp add: unsigned_ucast_eq take_bit_nat_eq_self)
qed

lemma bsr_pdu_received:
  assumes "bsr_pdu rnti queue = Inr p"
  obtains levels where "length levels = 4" and "\<And>k. k < 4 \<Longrightarrow> level_at queue k = Inr (levels ! k)"
    and "\<And>providers rx (s :: 'r GnbMac) es. map_of (m_rlcAttached s) rnti = Some es \<Longrightarrow> ucast (g_bwpId s) \<in> set providers \<Longrightarrow>
      Gnb_DoReceivePhyPdu providers rx p s =
        Inr (s\<lparr>m_ulCeReceived := m_ulCeReceived s @ [\<lparr>ce_rnti = rnti, m_macCeType = BSR, m_bufferStatus = levels\<rparr>]\<rparr>)"
proof -
  from assms obtain l0 l1 l2 l3 bytes where l: "level_at queue 0 = Inr l0" "level_at queue 1 = Inr l1"
    "level_at queue 2 = Inr l2" "level_at queue 3 = Inr l3"
    and b: "NrMacShortBsrCe_Serialize (NrMacShortBsrCe_new\<lparr>m_bufferSizeLevel_0 := l0, m_bufferSizeLevel_1 := l1,
         m_bufferSizeLevel_2 := l2, m_bufferSizeLevel_3 := l3\<rparr>) = Inr bytes"
    and p: "p = \<lparr>mp_bytes = bytes, mp_rnti = rnti, mp_lcid = SHORT_BSR\<rparr>"
    by (auto simp: bsr_pdu_def res_simps)
  let ?c = "NrMacShortBsrCe_new\<lparr>m_bufferSizeLevel_0 := l0, m_bufferSizeLevel_1 := l1, m_bufferSizeLevel_2 := l2, m_bufferSizeLevel_3 := l3\<rparr>"
  have "NrMacShortBsrCe_Deserialize (bytes @ []) = Inr ?c"
    by (rule bsr_ce_roundtrip(1) [OF _ b]) (simp add: NrMacShortBsrCe_new_def)
  moreover have "NrMacHeaderFs_Deserialize bytes = Inr SHORT_BSR"
    using b by (auto simp: NrMacShortBsrCe_Serialize_def NrMacShortBsrCe_new_def NrMacHeaderFs_Serialize_def
        NrMacHeaderFs_Deserialize_def SHORT_BSR_def res_simps)
  ultimately have "Gnb_DoReceivePhyPdu providers rx p s =
      Inr (s\<lparr>m_ulCeReceived := m_ulCeReceived s @ [\<lparr>ce_rnti = rnti, m_macCeType = BSR, m_bufferStatus = [l0, l1, l2, l3]\<rparr>]\<rparr>)"
    if "map_of (m_rlcAttached s) rnti = Some es" "ucast (g_bwpId s) \<in> set providers" for providers rx and s :: "'r GnbMac" and es
    using that by (simp add: Gnb_DoReceivePhyPdu_def p ReceiveBsrMessage_def DoUlReceiveMacCe_def DoReportMacCeToScheduler_def
        NrMacShortBsrCe_new_def)
  moreover have "level_at queue k = Inr ([l0, l1, l2, l3] ! k)" if "k < 4" for k
    using l that by (auto simp: less_Suc_eq numeral_eq_Suc)
  ultimately show ?thesis using that [of "[l0, l1, l2, l3]"] by simp
qed

section \<open>The report at the scheduler\<close>

text \<open>The one channel of an uplink group has this queue.\<close>

definition group_queue :: "(u8 \<times> LCG) list \<Rightarrow> u8 \<Rightarrow> u32 \<Rightarrow> bool" where
  "group_queue gs l n \<longleftrightarrow> (\<forall>g. map_of gs l = Some g \<longrightarrow> (\<exists>c lc. m_lcMap g = [(c, lc)] \<and> m_rlcTransmissionQueueSize lc = n))"

lemma update_ul_sets:
  assumes "ul_ok gs" and "unat l < length levels"
  shows "\<exists>gs'. update_ul levels gs l = Inr gs' \<and> ul_ok gs' \<and> group_queue gs' l (ucast (FromLevelToBytes (levels ! unat l))) \<and>
    (\<forall>l'. l' \<noteq> l \<longrightarrow> map_of gs' l' = map_of gs l')"
proof (cases "map_of gs l")
  case None
  with assms show ?thesis by (simp add: update_ul_def not_le group_queue_def)
next
  case (Some g)
  let ?siz = "ucast (FromLevelToBytes (levels ! unat l)) :: u32"
  have g: "lcg_ok g" "length (m_lcMap g) = 1" using ul_ok_lookup [OF assms(1) Some] by auto
  obtain c lc where u: "LCG_UpdateInfo_ul ?siz g = Inr (g\<lparr>m_lcMap := [(c, lc\<lparr>m_rlcTransmissionQueueSize := ?siz\<rparr>)]\<rparr>)"
    "lcg_ok (g\<lparr>m_lcMap := [(c, lc\<lparr>m_rlcTransmissionQueueSize := ?siz\<rparr>)]\<rparr>)"
    by (rule LCG_UpdateInfo_ul_ok [OF g])
  let ?gs = "AList.update l (g\<lparr>m_lcMap := [(c, lc\<lparr>m_rlcTransmissionQueueSize := ?siz\<rparr>)]\<rparr>) gs"
  have "ul_ok ?gs" by (rule ul_ok_update [OF assms(1) u(2)]) simp
  moreover have "group_queue ?gs l ?siz" "\<forall>l'. l' \<noteq> l \<longrightarrow> map_of ?gs l' = map_of gs l'"
    by (simp_all add: group_queue_def update_conv')
  ultimately show ?thesis using Some u(1) assms(2) by (simp add: update_ul_def)
qed

lemma group_queue_cong: "map_of gs' l = map_of gs l \<Longrightarrow> group_queue gs' l n = group_queue gs l n"
  by (simp add: group_queue_def)

lemma update_ul_all_sets:
  assumes "ul_ok gs" and "\<forall>l \<in> set ls. unat l < length levels" and "distinct ls"
  shows "\<exists>gs'. for_each (update_ul levels) ls gs = Inr gs' \<and> ul_ok gs' \<and>
    (\<forall>l \<in> set ls. group_queue gs' l (ucast (FromLevelToBytes (levels ! unat l)))) \<and>
    (\<forall>l'. l' \<notin> set ls \<longrightarrow> map_of gs' l' = map_of gs l')"
  using assms
proof (induction ls arbitrary: gs)
  case (Cons l ls)
  from update_ul_sets [of gs l levels] Cons.prems obtain gs1 where
    g1: "update_ul levels gs l = Inr gs1" "ul_ok gs1" "group_queue gs1 l (ucast (FromLevelToBytes (levels ! unat l)))"
      "\<forall>l'. l' \<noteq> l \<longrightarrow> map_of gs1 l' = map_of gs l'" by auto
  from Cons.IH [OF g1(2)] Cons.prems obtain gs' where
    IH: "for_each (update_ul levels) ls gs1 = Inr gs'" "ul_ok gs'"
      "\<forall>l \<in> set ls. group_queue gs' l (ucast (FromLevelToBytes (levels ! unat l)))" "\<forall>l'. l' \<notin> set ls \<longrightarrow> map_of gs' l' = map_of gs1 l'"
    by auto
  have "group_queue gs' l (ucast (FromLevelToBytes (levels ! unat l)))"
    using g1(3) IH(4) Cons.prems(3) group_queue_cong [of gs' l gs1] by simp
  with g1 IH show ?case by auto
qed simp

text \<open>A control element that the scheduler can take, and what the scheduler knows of a UE after it.\<close>

definition ce_ok :: "Scheduler \<Rightarrow> MacCeElement \<Rightarrow> bool" where
  "ce_ok s ce \<longleftrightarrow> m_macCeType ce = BSR \<and> length (m_bufferStatus ce) = 4 \<and> ce_rnti ce \<in> dom (map_of (m_ueMap s))"

definition knows_report :: "Scheduler \<Rightarrow> MacCeElement \<Rightarrow> bool" where
  "knows_report s ce \<longleftrightarrow> (\<exists>ue. map_of (m_ueMap s) (ce_rnti ce) = Some ue \<and>
     (\<forall>l < 4. group_queue (m_ulLCG ue) l (ucast (FromLevelToBytes (m_bufferStatus ce ! unat l)))))"

lemma small_groups: "(l :: u8) < 4 \<Longrightarrow> l \<in> set [0, 1, 2, 3]"
proof -
  assume "l < 4"
  then have "unat l \<in> set [0, 1, 2, 3]" by (auto simp: word_less_nat_alt)
  then have "of_nat (unat l) \<in> set (map (of_nat :: nat \<Rightarrow> u8) [0, 1, 2, 3])" by (metis image_eqI list.set_map)
  then show ?thesis by simp
qed

lemma BSRReceivedFromUe_knows:
  assumes "sched_ok s" and "ce_ok s ce"
  shows "\<exists>t. BSRReceivedFromUe ce s = Inr t \<and> sched_ok t \<and> knows_report t ce \<and> m_srList t = m_srList s \<and>
    dom (map_of (m_ueMap t)) = dom (map_of (m_ueMap s))"
proof -
  from assms(2) obtain ue where ce: "m_macCeType ce = BSR" "length (m_bufferStatus ce) = 4" "map_of (m_ueMap s) (ce_rnti ce) = Some ue"
    by (auto simp: ce_ok_def)
  note ue = sched_ok_lookup [OF assms(1) ce(3)]
  then have "ul_ok (m_ulLCG ue)" by (simp add: ue_ok_def)
  from update_ul_all_sets [OF this, of "[0, 1, 2, 3]" "m_bufferStatus ce"] ce(2) obtain gs where
    gs: "for_each (update_ul (m_bufferStatus ce)) [0, 1, 2, 3] (m_ulLCG ue) = Inr gs" "ul_ok gs"
      "\<forall>l \<in> set [0, 1, 2, 3]. group_queue gs l (ucast (FromLevelToBytes (m_bufferStatus ce ! unat l)))" by auto
  let ?ue = "ue\<lparr>m_ulLCG := gs\<rparr>"
  have run: "BSRReceivedFromUe ce s = Inr (ue_put (ce_rnti ce) ?ue s)"
    using gs(1) ce by (simp add: BSRReceivedFromUe_def del: for_each.simps)
  have "ue_ok ?ue" using ue gs(2) by (simp add: ue_ok_def)
  then have "sched_ok (ue_put (ce_rnti ce) ?ue s)" by (intro ue_put_ok [OF assms(1) ce(3)]) simp_all
  moreover have "knows_report (ue_put (ce_rnti ce) ?ue s) ce"
    using bspec [OF gs(3) small_groups] by (simp add: knows_report_def ue_put_def update_conv')
  ultimately show ?thesis using run ce(3) by (auto simp: ue_put_def update_conv')
qed

lemma DoSchedUlMacCtrlInfoReq_knows:
  assumes "sched_ok s" and "\<forall>ce \<in> set ces. ce_ok s ce"
  shows "\<exists>t. DoSchedUlMacCtrlInfoReq ces s = Inr t \<and> sched_ok t \<and> (ces \<noteq> [] \<longrightarrow> knows_report t (last ces)) \<and>
    m_srList t = m_srList s \<and> dom (map_of (m_ueMap t)) = dom (map_of (m_ueMap s))"
  using assms(2)
proof (induction ces rule: rev_induct)
  case Nil
  with assms(1) show ?case by (simp add: DoSchedUlMacCtrlInfoReq_def)
next
  case (snoc ce ces)
  then obtain u where u: "DoSchedUlMacCtrlInfoReq ces s = Inr u" "sched_ok u" "m_srList u = m_srList s"
    "dom (map_of (m_ueMap u)) = dom (map_of (m_ueMap s))" by auto
  with snoc.prems have x: "ce_ok u ce" by (simp add: ce_ok_def)
  from BSRReceivedFromUe_knows [OF u(2) x] u x show ?case
    by (auto simp: DoSchedUlMacCtrlInfoReq_def for_each_append ce_ok_def)
qed

section \<open>Slots of the gNB\<close>

text \<open>A gNB between two slots: its scheduler is in order and can take what has been received.\<close>

definition gnb_ok :: "'r GnbMac \<Rightarrow> bool" where
  "gnb_ok s \<longleftrightarrow> sched_ok (m_sched s) \<and> distinct (m_srRntiList s) \<and>
     set (m_srRntiList s) \<union> set (m_srList (m_sched s)) \<subseteq> dom (map_of (m_ueMap (m_sched s))) \<and>
     (\<forall>ce \<in> set (m_ulCeReceived s). ce_ok (m_sched s) ce)"

lemma slot_reports:
  assumes "gnb_ok s" and "m_receivedRachPreambleCount s = []"
  shows "\<exists>t. DoSlotUlIndication alloc sfn s = Inr t \<and> gnb_ok t \<and>
    (m_ulCeReceived s \<noteq> [] \<longrightarrow> knows_report (m_sched t) (last (m_ulCeReceived s))) \<and>
    set (m_srList (m_sched t)) = set (m_srRntiList s) \<union> set (m_srList (m_sched s)) \<and>
    dom (map_of (m_ueMap (m_sched t))) = dom (map_of (m_ueMap (m_sched s)))"
proof -
  let ?sched = "m_sched s\<lparr>m_srList := sr_merge (m_srRntiList s) (m_srList (m_sched s))\<rparr>"
  have sr: "DoSchedUlSrInfoReq (m_srRntiList s) (m_sched s) = Inr ?sched"
    by (rule DoSchedUlSrInfoReq_ok) (use assms(1) in \<open>simp add: gnb_ok_def\<close>)
  have "sched_ok ?sched" "\<forall>ce \<in> set (m_ulCeReceived s). ce_ok ?sched ce"
    using assms(1) by (auto simp: gnb_ok_def sched_ok_def ce_ok_def)
  from DoSchedUlMacCtrlInfoReq_knows [OF this] obtain t where
    t: "DoSchedUlMacCtrlInfoReq (m_ulCeReceived s) ?sched = Inr t" "sched_ok t"
      "m_ulCeReceived s \<noteq> [] \<longrightarrow> knows_report t (last (m_ulCeReceived s))"
      "m_srList t = m_srList ?sched" "dom (map_of (m_ueMap t)) = dom (map_of (m_ueMap (m_sched s)))" by auto
  let ?t = "s\<lparr>m_ulCqiReceived := [], m_srRntiList := [], m_ulCeReceived := [], m_sched := t, m_ulHarqInfoReceived := [],
    gout := gout s @ map SchedUlCqiInfoReq (m_ulCqiReceived s) @ [SchedUlTriggerReq sfn (m_ulHarqInfoReceived s)]\<rparr>"
  have "DoSlotUlIndication alloc sfn s = Inr ?t"
  proof (cases "m_ulCeReceived s = []")
    case True
    then have "t = ?sched" "s\<lparr>m_ulCeReceived := []\<rparr> = s" using t(1) by (cases s; simp add: DoSchedUlMacCtrlInfoReq_def)+
    then show ?thesis using True assms(2) sr by (cases s) (simp add: DoSlotUlIndication_def Let_def on_sched_def gnb_emit_def)
  next
    case False
    then show ?thesis using assms(2) sr t(1) by (simp add: DoSlotUlIndication_def Let_def on_sched_def gnb_emit_def)
  qed
  moreover have "gnb_ok ?t" using t assms(1) by (simp add: gnb_ok_def sr_merge_set)
  ultimately show ?thesis using t by (intro exI [of _ ?t]) (simp add: sr_merge_set)
qed

lemma report_arrives:
  assumes u: "ue_mac_ok ok u" "mac_rnti u \<noteq> 0" "m_ulBsrReceived u \<noteq> []" "reports (mac_rnti u) u bsr"
    and small: "all_bytes (m_ulBsrReceived u) \<le> 1200000"
    and s: "gnb_ok s" "m_receivedRachPreambleCount s = []" "map_of (m_rlcAttached s) (mac_rnti u) = Some es"
      "ucast (g_bwpId s) \<in> set providers" "map_of (m_ueMap (m_sched s)) (mac_rnti u) \<noteq> None"
  shows "\<exists>p s' t ue. bsr = [p] \<and> Gnb_DoReceivePhyPdu providers rx p s = Inr s' \<and> DoSlotUlIndication alloc sfn s' = Inr t \<and>
    gnb_ok t \<and> map_of (m_ueMap (m_sched t)) (mac_rnti u) = Some ue \<and>
    (\<forall>lcg g. lcg < 4 \<and> map_of (m_ulLCG ue) lcg = Some g \<longrightarrow> (\<exists>c lc. m_lcMap g = [(c, lc)] \<and>
      group_bytes (m_lcInfoMap u) lcg (m_ulBsrReceived u) \<le> unat (m_rlcTransmissionQueueSize lc)))"
proof -
  from u(2-4) obtain queue p where q: "bsr_queues u = Inr queue" "length queue = 4" "bsr_pdu (mac_rnti u) queue = Inr p" "bsr = [p]"
    by (auto simp: reports_def)
  obtain levels where l: "length levels = 4" "\<And>k. k < 4 \<Longrightarrow> level_at queue k = Inr (levels ! k)"
    and rx: "Gnb_DoReceivePhyPdu providers rx p s = Inr (s\<lparr>m_ulCeReceived := m_ulCeReceived s @
        [\<lparr>ce_rnti = mac_rnti u, m_macCeType = BSR, m_bufferStatus = levels\<rparr>]\<rparr>)"
    by (rule bsr_pdu_received [OF q(3)]) (use s(3,4) in blast)
  let ?ce = "\<lparr>ce_rnti = mac_rnti u, m_macCeType = BSR, m_bufferStatus = levels\<rparr>"
  let ?s = "s\<lparr>m_ulCeReceived := m_ulCeReceived s @ [?ce]\<rparr>"
  have "gnb_ok ?s" using s(1,5) l(1) by (auto simp: gnb_ok_def ce_ok_def)
  from slot_reports [OF this, of alloc sfn] s(2) obtain t where
    t: "DoSlotUlIndication alloc sfn ?s = Inr t" "gnb_ok t" "knows_report (m_sched t) ?ce" by auto
  from t(3) obtain ue where ue: "map_of (m_ueMap (m_sched t)) (mac_rnti u) = Some ue"
    "\<forall>lcg < 4. group_queue (m_ulLCG ue) lcg (ucast (FromLevelToBytes (levels ! unat lcg)))"
    by (auto simp: knows_report_def)
  have cover: "group_bytes (m_lcInfoMap u) lcg (m_ulBsrReceived u) \<le> unat (ucast (FromLevelToBytes (levels ! unat lcg)) :: u32)"
    if "lcg < 4" for lcg
  proof -
    have k: "unat lcg < 4" using that by (simp add: word_less_nat_alt)
    have "[0, 0, 0, 0] ! unat lcg = (0 :: u32)" using k by (auto simp: less_Suc_eq numeral_eq_Suc)
    then have "group_bytes (m_lcInfoMap u) lcg (m_ulBsrReceived u) \<le> unat (queue ! unat lcg) \<and> unat (queue ! unat lcg) \<le> 1200000"
      using queues_cover [OF q(1) [unfolded bsr_queues_def] _ that, of 1200000] small by simp
    with level_covers_queue [OF l(2) [OF k]] show ?thesis by simp
  qed
  have "\<forall>lcg g. lcg < 4 \<and> map_of (m_ulLCG ue) lcg = Some g \<longrightarrow> (\<exists>c lc. m_lcMap g = [(c, lc)] \<and>
      group_bytes (m_lcInfoMap u) lcg (m_ulBsrReceived u) \<le> unat (m_rlcTransmissionQueueSize lc))"
    using ue(2) cover unfolding group_queue_def by metis
  with q(4) rx t(1,2) ue(1) show ?thesis by blast
qed

section \<open>Scheduling requests\<close>

lemma sr_groups_set:
  assumes "ul_ok gs" and "map_res sr_group gs = Inr gs'"
  shows "group_queue gs' l 12"
proof -
  have "\<forall>(k, g) \<in> set gs. lcg_ok g \<and> length (m_lcMap g) = 1" using assms(1) by (auto simp: ul_ok_def dl_ok_def)
  then have "\<forall>(k, g) \<in> set gs'. \<exists>c lc. m_lcMap g = [(c, lc)] \<and> m_rlcTransmissionQueueSize lc = 12"
    using assms(2)
  proof (induction gs arbitrary: gs')
    case (Cons kg gs)
    obtain k g where kg: "kg = (k, g)" by (cases kg)
    have "lcg_ok g" "length (m_lcMap g) = 1" using Cons.prems(1) by (auto simp: kg)
    then obtain c lc where "LCG_UpdateInfo_ul 12 g = Inr (g\<lparr>m_lcMap := [(c, lc\<lparr>m_rlcTransmissionQueueSize := 12\<rparr>)]\<rparr>)"
      by (rule LCG_UpdateInfo_ul_ok)
    with Cons show ?case by (auto simp: kg sr_group_def res_simps)
  qed simp
  then show ?thesis by (auto simp: group_queue_def dest: map_of_SomeD)
qed

definition requested :: "u16 \<Rightarrow> Scheduler \<Rightarrow> bool" where
  "requested rnti s \<longleftrightarrow> (\<exists>ue. map_of (m_ueMap s) rnti = Some ue \<and> (\<forall>l. group_queue (m_ulLCG ue) l 12))"

lemma schedule_sr_requests:
  assumes "sched_ok s" and "schedule_sr s r = Inr t"
  shows "requested r t" and "requested rnti s \<Longrightarrow> requested rnti t"
proof -
  from assms(2) obtain ue gs where ue: "map_of (m_ueMap s) r = Some ue" "map_res sr_group (m_ulLCG ue) = Inr gs"
    "t = ue_put r (ue\<lparr>m_ulLCG := gs\<rparr>) s" by (auto simp: schedule_sr_def res_simps split: option.splits)
  have "ul_ok (m_ulLCG ue)" using sched_ok_lookup [OF assms(1) ue(1)] by (simp add: ue_ok_def)
  from sr_groups_set [OF this ue(2)] have "\<forall>l. group_queue gs l 12" by simp
  then show "requested r t" and "requested rnti s \<Longrightarrow> requested rnti t"
    by (auto simp: requested_def ue(3) ue_put_def update_conv')
qed

lemma schedule_srs_requests:
  assumes "sched_ok s" and "set rs \<subseteq> dom (map_of (m_ueMap s))"
  shows "\<exists>t. for_each schedule_sr rs s = Inr t \<and> sched_ok t \<and> (\<forall>r. r \<in> set rs \<or> requested r s \<longrightarrow> requested r t)"
  using assms
proof (induction rs arbitrary: s)
  case (Cons r rs)
  then obtain ue where "map_of (m_ueMap s) r = Some ue" by auto
  from schedule_sr_ok [OF Cons.prems(1) this] obtain s1 where
    s1: "schedule_sr s r = Inr s1" "sched_ok s1" "dom (map_of (m_ueMap s1)) = dom (map_of (m_ueMap s))" by blast
  note q = schedule_sr_requests [OF Cons.prems(1) s1(1)]
  from Cons.IH [OF s1(2)] s1(3) Cons.prems(2) obtain t where
    "for_each schedule_sr rs s1 = Inr t" "sched_ok t" "\<forall>r. r \<in> set rs \<or> requested r s1 \<longrightarrow> requested r t" by auto
  with s1(1) q show ?case by auto
qed simp

lemma DoScheduleUlSr_requests:
  assumes "sched_ok s" and "set (m_srList s) \<subseteq> dom (map_of (m_ueMap s))" and "rnti \<in> set (m_srList s)"
  shows "\<exists>t. DoScheduleUlSr s = Inr t \<and> sched_ok t \<and> m_srList t = [] \<and> requested rnti t"
  using schedule_srs_requests [OF assms(1,2)] assms(3) by (auto simp: DoScheduleUlSr_def sched_ok_def requested_def)

section \<open>Properties\<close>


lemma bsr_reports_total:
  assumes "ue_mac_ok ok u"
  shows "\<exists>bsr. reports rnti u bsr"
proof -
  from bsr_queues_ok [OF assms] obtain queue where "bsr_queues u = Inr queue" "length queue = 4" by blast
  moreover obtain p where "bsr_pdu rnti queue = Inr p" using bsr_pdu_ok by blast
  ultimately show ?thesis by (auto simp: reports_def)
qed

definition bsr_gnb :: "Scheduler \<Rightarrow> RlcUmEntity GnbMac" where
  "bsr_gnb sched = (NrGnbMac_new 0 sched)\<lparr>m_rlcAttached := [(1, [])]\<rparr>"

lemma example_run_ue: "res_holds (\<lambda>s. m_srList s = [] \<and> map_of (m_ueMap s) 1 \<noteq> None) example_run"
  by code_simp

lemma bsr_gnb_ok:
  obtains sched where "example_run = Inr sched" and "gnb_ok (bsr_gnb sched)" and "map_of (m_ueMap sched) 1 \<noteq> None"
proof -
  obtain sched where s: "example_run = Inr sched" "m_srList sched = []" "map_of (m_ueMap sched) 1 \<noteq> None"
    by (rule res_holdsE [OF example_run_ue]) blast
  from sched_reachable_ok [OF example_run_reachable [OF s(1)]] s that show ?thesis
    by (simp add: gnb_ok_def bsr_gnb_def NrGnbMac_new_def)
qed


text \<open>C9: data that arrives at an idle UE is asked for. When an RLC entity reports data to a MAC without a pending
  request, the next slot of the UE sends a scheduling request; the gNB forwards it in its next uplink slot, and the
  scheduler then has 12 bytes to schedule in every uplink group of the UE. The UE does not repeat the request.\<close>

theorem sr_is_served:
  assumes "m_srState u = SR_INACTIVE" and "mac_rnti u \<noteq> 0"
    and "gnb_ok s" and "m_receivedRachPreambleCount s = []" and "mac_rnti u \<notin> set (m_srRntiList s)"
    and "ucast (g_bwpId s) \<in> set providers" and "map_of (m_ueMap (m_sched s)) (mac_rnti u) \<noteq> None"
  shows "\<exists>u' s' t sched. UeMac_DoTransmitBufferStatusReport params u = Inr u' \<and>
    out (DoSlotIndication ueSfn u') = out u @ [ReportBufferStatus params, SendSrMessage (mac_rnti u)] \<and>
    m_srState (DoSlotIndication ueSfn u') = SR_ACTIVE \<and> out (DoSlotIndication ueSfn' (DoSlotIndication ueSfn u')) = out (DoSlotIndication ueSfn u') \<and>
    Gnb_DoReceiveControlMessage providers (SR_message (mac_rnti u)) s = Inr s' \<and> DoSlotUlIndication alloc sfn s' = Inr t \<and>
    DoScheduleUlSr (m_sched t) = Inr sched \<and> sched_ok sched \<and> requested (mac_rnti u) sched"
proof -
  let ?u = "u\<lparr>out := out u @ [ReportBufferStatus params], m_ulBsrReceived := AList.update (bsr_lcid params) params (m_ulBsrReceived u),
    m_srState := TO_SEND\<rparr>"
  have ue: "UeMac_DoTransmitBufferStatusReport params u = Inr ?u"
    using assms(1) by (simp add: UeMac_DoTransmitBufferStatusReport_def Let_def emit_out_def sr_needed_def)
  have slot: "out (DoSlotIndication ueSfn ?u) = out u @ [ReportBufferStatus params, SendSrMessage (mac_rnti u)]"
    "m_srState (DoSlotIndication ueSfn ?u) = SR_ACTIVE"
    using assms(2) by (simp_all add: DoSlotIndication_def Let_def RefreshHarqProcessesPacketBuffer_def SendSR_def emit_out_def)
  have again: "out (DoSlotIndication ueSfn' v) = out v" if "m_srState v = SR_ACTIVE" for v :: "'a UeMac"
    using that by (simp add: DoSlotIndication_def Let_def RefreshHarqProcessesPacketBuffer_def)
  let ?s = "s\<lparr>m_srRntiList := m_srRntiList s @ [mac_rnti u], gout := gout s @ [SrReq (mac_rnti u)]\<rparr>"
  have gnb: "Gnb_DoReceiveControlMessage providers (SR_message (mac_rnti u)) s = Inr ?s"
    using assms(6) by (simp add: Gnb_DoReceiveControlMessage_def DoUlReceiveSr_def DoReportSrToScheduler_def gnb_emit_def)
  have "gnb_ok ?s" using assms(3,5,7) by (auto simp: gnb_ok_def)
  from slot_reports [OF this, of alloc sfn] assms(4) obtain t where t: "DoSlotUlIndication alloc sfn ?s = Inr t" "gnb_ok t"
    "mac_rnti u \<in> set (m_srList (m_sched t))" by auto
  from t(2) have "sched_ok (m_sched t)" "set (m_srList (m_sched t)) \<subseteq> dom (map_of (m_ueMap (m_sched t)))" by (auto simp: gnb_ok_def)
  from DoScheduleUlSr_requests [OF this t(3)] ue slot again [OF slot(2)] gnb t(1) show ?thesis by blast
qed

theorem sr_is_served_witness:
  "\<exists>sched s' t sched'. example_run = Inr sched \<and>
     Gnb_DoReceiveControlMessage [0] (SR_message 1) (bsr_gnb sched) = Inr s' \<and>
     DoSlotUlIndication (\<lambda>s. Inr (9, s)) SfnSf_default s' = Inr t \<and> DoScheduleUlSr (m_sched t) = Inr sched' \<and> requested 1 sched'"
proof -
  obtain sched where s: "example_run = Inr sched" "gnb_ok (bsr_gnb sched)" "map_of (m_ueMap sched) 1 \<noteq> None" by (rule bsr_gnb_ok)
  with sr_is_served [of "demo_ue\<lparr>mac_rnti := 1\<rparr>" "bsr_gnb sched" "[0]" "BufferStatusReportParameters 1 4 3 0 0 0 0 False"
      SfnSf_default SfnSf_default "\<lambda>s. Inr (9, s)" SfnSf_default]
  show ?thesis by (simp add: bsr_gnb_def NrGnbMac_new_def demo_ue_def NrUeMac_new_def SetNumHarqProcess_def) blast
qed

end
