(* ===== verification/NrGnbMacBlock.thy ===== *)
theory NrGnbMacBlock
  imports NrGnbMac NrUeMacGrant NrMacSchedulerMain
begin

text \<open>
  The transport blocks of the downlink: what the scheduler distributes over the channels of a UE, the MAC of the gNB
  fills with the PDUs of the RLC entities, keeps for retransmissions, and never exceeds.
\<close>

section \<open>A block being filled\<close>

definition gsends :: "Dci \<Rightarrow> SfnSf \<Rightarrow> TransmitPduParameters list \<Rightarrow> gnb_out list" where
  "gsends dci sfn ps = map (\<lambda>p. Gnb_SendMacPdu (wrap p) sfn (dci_symStart dci) (dci_rnti dci)) ps"

definition burst_is :: "u16 \<Rightarrow> u8 \<Rightarrow> mac_pdu list \<Rightarrow> 'r GnbMac \<Rightarrow> bool" where
  "burst_is rnti h b s \<longleftrightarrow> (\<exists>buf. map_of (m_miDlHarqProcessesPackets s) rnti = Some buf \<and> unat h < length buf \<and>
     dl_pktBurst (buf ! unat h) = b)"

definition filling :: "Dci \<Rightarrow> SfnSf \<Rightarrow> gnb_out list \<Rightarrow> (u32 \<times> NrMacPduInfo) list \<Rightarrow> TransmitPduParameters list \<Rightarrow> 'r GnbMac \<Rightarrow> bool" where
  "filling dci sfn base others ps s \<longleftrightarrow>
     (\<exists>used. m_macPduMap s = (tbMapKey (dci_rnti dci) (dci_harqProcess dci), \<lparr>pi_sfnSf = sfn, pi_dci = dci, pi_used = used\<rparr>) # others \<and>
        unat used = wrapped_size ps) \<and>
     burst_is (dci_rnti dci) (dci_harqProcess dci) (map wrap ps) s \<and> gout s = base @ gsends dci sfn ps"

lemma change_burst:
  assumes "burst_is rnti h b s"
  obtains t packets where "change_dl_process e rnti h f s = Inr t" and "t = s\<lparr>m_miDlHarqProcessesPackets := packets\<rparr>"
    and "\<And>b'. (\<And>i. dl_pktBurst i = b \<Longrightarrow> dl_pktBurst (f i) = b') \<Longrightarrow> burst_is rnti h b' t"
proof -
  from assms obtain buf where buf: "map_of (m_miDlHarqProcessesPackets s) rnti = Some buf" "unat h < length buf"
    "dl_pktBurst (buf ! unat h) = b" by (auto simp: burst_is_def)
  let ?p = "AList.update rnti (buf[unat h := f (buf ! unat h)]) (m_miDlHarqProcessesPackets s)"
  show ?thesis
  proof (rule that [of "s\<lparr>m_miDlHarqProcessesPackets := ?p\<rparr>" ?p])
    show "change_dl_process e rnti h f s = Inr (s\<lparr>m_miDlHarqProcessesPackets := ?p\<rparr>)"
      using buf by (simp add: change_dl_process_def)
    show "burst_is rnti h b' (s\<lparr>m_miDlHarqProcessesPackets := ?p\<rparr>)" if "\<And>i. dl_pktBurst i = b \<Longrightarrow> dl_pktBurst (f i) = b'" for b'
      using buf that by (simp add: burst_is_def update_conv')
  qed simp
qed

lemma burst_is_cong: "m_miDlHarqProcessesPackets t = m_miDlHarqProcessesPackets s \<Longrightarrow> burst_is rnti h b t = burst_is rnti h b s"
  by (simp add: burst_is_def)

lemma gnb_transmit:
  assumes "filling dci sfn base others ps s" and "tp_rnti p = dci_rnti dci" and "tp_harqProcessId p = dci_harqProcess dci"
    and "tp_lcid p \<le> 32" and "wrapped_size ps + length (tp_pdu p) + 3 \<le> unat (dci_tbSize dci)"
  shows "\<exists>t. Gnb_DoTransmitPdu p s = Inr t \<and> filling dci sfn base others (ps @ [p]) t \<and>
    m_rlcAttached t = m_rlcAttached s \<and> m_sched t = m_sched s"
proof -
  from assms(1) obtain used where m: "m_macPduMap s = (tbMapKey (dci_rnti dci) (dci_harqProcess dci),
      \<lparr>pi_sfnSf = sfn, pi_dci = dci, pi_used = used\<rparr>) # others" "unat used = wrapped_size ps"
    and b: "burst_is (dci_rnti dci) (dci_harqProcess dci) (map wrap ps) s" and g: "gout s = base @ gsends dci sfn ps"
    by (auto simp: filling_def)
  have tb: "unat (dci_tbSize dci) < 2 ^ 32" by (rule unat_u32)
  let ?used = "used + of_nat (length (mp_bytes (wrap p)))"
  have used: "unat ?used = wrapped_size (ps @ [p])"
    using m(2) assms(5) wrap_length(1) [of p] tb by (simp add: unat_word_ariths unat_of_nat)
  have le: "?used \<le> dci_tbSize dci" using used assms(5) wrap_length(1) [of p] by (simp add: word_le_nat_alt)
  obtain t packets where t: "change_dl_process (UB ''harqIt'') (dci_rnti dci) (dci_harqProcess dci)
      (\<lambda>i. i\<lparr>dl_pktBurst := dl_pktBurst i @ [wrap p]\<rparr>) s = Inr t" "t = s\<lparr>m_miDlHarqProcessesPackets := packets\<rparr>"
    "burst_is (dci_rnti dci) (dci_harqProcess dci) (map wrap ps @ [wrap p]) t"
    by (rule change_burst [OF b, of "UB ''harqIt''" "\<lambda>i. i\<lparr>dl_pktBurst := dl_pktBurst i @ [wrap p]\<rparr>"]) auto
  have w: "\<lparr>mp_bytes = NrMacHeaderVs_Serialize (NrMacHeaderVs_SetSize (of_nat (length (tp_pdu p)))
      (NrMacHeaderVs_new\<lparr>vs_lcid := tp_lcid p\<rparr>)) @ tp_pdu p, mp_rnti = dci_rnti dci, mp_lcid = tp_lcid p\<rparr> = wrap p"
    using assms(2) by (simp add: wrap_def NrMacHeaderVs_SetSize_def NrMacHeaderVs_new_def)
  have w2: "(of_nat (length (NrMacHeaderVs_Serialize (NrMacHeaderVs_SetSize (of_nat (length (tp_pdu p)))
      (NrMacHeaderVs_new\<lparr>vs_lcid := tp_lcid p\<rparr>)))) + of_nat (length (tp_pdu p)) :: u32) = of_nat (length (mp_bytes (wrap p)))"
    by (simp add: wrap_def NrMacHeaderVs_SetSize_def NrMacHeaderVs_new_def)
  let ?t = "t\<lparr>m_macPduMap := (tbMapKey (dci_rnti dci) (dci_harqProcess dci), \<lparr>pi_sfnSf = sfn, pi_dci = dci, pi_used = ?used\<rparr>) # others,
    gout := gout s @ [Gnb_SendMacPdu (wrap p) sfn (dci_symStart dci) (dci_rnti dci)]\<rparr>"
  have "Gnb_DoTransmitPdu p s = Inr ?t"
    using m(1) assms(2-4) t(1) le w by (simp add: Gnb_DoTransmitPdu_def Let_def SetLcId_allowed t(2) gnb_emit_def w2)
  moreover have "filling dci sfn base others (ps @ [p]) ?t"
    using t(3) used g burst_is_cong [of ?t t] by (simp add: filling_def gsends_def)
  ultimately show ?thesis by (simp add: t(2))
qed

section \<open>The entities of the gNB\<close>

text \<open>An entity of the gNB sends with the RNTI of its UE, by which the MAC finds the block.\<close>

locale gnb_sap_user = mac_sap_user NotifyTxOpportunity entity_ok
  for NotifyTxOpportunity :: "'r tx_operation" and entity_ok :: "u8 \<Rightarrow> 'r \<Rightarrow> bool" +
  fixes rnti_of :: "'r \<Rightarrow> u16"
  assumes own_rnti: "NotifyTxOpportunity bytes harqId r = Inr (r', cs) \<Longrightarrow>
    rnti_of r' = rnti_of r \<and> (\<forall>p. TransmitPdu_call p \<in> set cs \<longrightarrow> tp_rnti p = rnti_of r)"

definition attached_ok :: "(u8 \<Rightarrow> 'r \<Rightarrow> bool) \<Rightarrow> ('r \<Rightarrow> u16) \<Rightarrow> u16 \<Rightarrow> u8 set \<Rightarrow> 'r GnbMac \<Rightarrow> bool" where
  "attached_ok ok rnti_of rnti ks s \<longleftrightarrow> (\<exists>es. map_of (m_rlcAttached s) rnti = Some es \<and> dom (map_of es) = ks \<and>
     (\<forall>lcid r. map_of es lcid = Some r \<longrightarrow> ok lcid r \<and> rnti_of r = rnti \<and> lcid \<le> 32))"

definition pdu_room :: "(u8 \<times> u32) list \<Rightarrow> nat" where
  "pdu_room pdus = (\<Sum>(k, n)\<leftarrow>pdus. unat n + 3)"

context gnb_sap_user
begin

lemma tx_opportunity_fits:
  assumes f: "filling dci sfn base others ps s" and a: "attached_ok entity_ok rnti_of (dci_rnti dci) ks s" and "lcid \<in> ks"
    and "wrapped_size ps + unat bytes + 3 \<le> unat (dci_tbSize dci)" and "bytes < 65536"
  shows "\<exists>t qs. tx_opportunity NotifyTxOpportunity (dci_rnti dci) (dci_harqProcess dci) s (lcid, bytes) = Inr t \<and>
    filling dci sfn base others (ps @ qs) t \<and> attached_ok entity_ok rnti_of (dci_rnti dci) ks t \<and>
    wrapped_size (ps @ qs) \<le> wrapped_size ps + unat bytes + 3"
proof -
  let ?rnti = "dci_rnti dci" and ?h = "dci_harqProcess dci"
  from a obtain es where es: "map_of (m_rlcAttached s) ?rnti = Some es" "dom (map_of es) = ks"
    "\<And>lcid r. map_of es lcid = Some r \<Longrightarrow> entity_ok lcid r \<and> rnti_of r = ?rnti \<and> lcid \<le> 32" by (auto simp: attached_ok_def)
  from assms(3) es(2) obtain r where r: "map_of es lcid = Some r" by auto
  note ok = es(3) [OF r]
  from notify [of lcid r bytes ?h] ok assms(5) obtain r' cs where
    n: "NotifyTxOpportunity bytes ?h r = Inr (r', cs)" "entity_ok lcid r'" "answers lcid ?h bytes cs" by blast
  let ?s = "s\<lparr>m_rlcAttached := AList.update ?rnti (AList.update lcid r' es) (m_rlcAttached s)\<rparr>"
  have a1: "attached_ok entity_ok rnti_of ?rnti ks ?s"
    unfolding attached_ok_def using es r n(2) ok own_rnti [OF n(1)]
    by (intro exI [of _ "AList.update lcid r' es"]) (auto simp: update_conv')
  have f1: "filling dci sfn base others ps ?s" using f burst_is_cong [of ?s s] by (simp add: filling_def)
  have "\<exists>u qs. for_each gnb_call cs ?s = Inr u \<and> filling dci sfn base others (ps @ qs) u \<and>
    attached_ok entity_ok rnti_of ?rnti ks u \<and> wrapped_size (ps @ qs) \<le> wrapped_size ps + unat bytes + 3"
  proof (cases "cs = []")
    case True
    then show ?thesis using f1 a1 by (intro exI [of _ ?s] exI [of _ "[]"]) simp
  next
    case False
    with n(3) obtain p where p: "cs = [TransmitPdu_call p]" "length (tp_pdu p) \<le> unat bytes" "tp_lcid p = lcid" "tp_harqProcessId p = ?h"
      by (auto simp: answers_def)
    have "tp_rnti p = ?rnti" using own_rnti [OF n(1)] ok p(1) by simp
    with gnb_transmit [OF f1, of p] p ok assms(4) obtain u where
      u: "Gnb_DoTransmitPdu p ?s = Inr u" "filling dci sfn base others (ps @ [p]) u" "m_rlcAttached u = m_rlcAttached ?s" by auto
    then have "attached_ok entity_ok rnti_of ?rnti ks u" using a1 by (simp add: attached_ok_def)
    then show ?thesis using u(1,2) p(1,2) wrap_length(1) [of p]
      by (intro exI [of _ u] exI [of _ "[p]"]) (simp add: gnb_call_def)
  qed
  then obtain u qs where u: "for_each gnb_call cs ?s = Inr u" "filling dci sfn base others (ps @ qs) u"
    "attached_ok entity_ok rnti_of ?rnti ks u" "wrapped_size (ps @ qs) \<le> wrapped_size ps + unat bytes + 3" by blast
  have "burst_is ?rnti ?h (map wrap (ps @ qs)) u" using u(2) by (simp add: filling_def)
  then obtain t packets where t: "change_dl_process (UB ''harqIt'') ?rnti ?h (\<lambda>i. i\<lparr>dl_lcidList := dl_lcidList i @ [lcid]\<rparr>) u = Inr t"
    "t = u\<lparr>m_miDlHarqProcessesPackets := packets\<rparr>" "burst_is ?rnti ?h (map wrap (ps @ qs)) t"
    by (rule change_burst [of ?rnti ?h "map wrap (ps @ qs)" u "UB ''harqIt''" "\<lambda>i. i\<lparr>dl_lcidList := dl_lcidList i @ [lcid]\<rparr>"]) auto
  have "tx_opportunity NotifyTxOpportunity ?rnti ?h s (lcid, bytes) = Inr t"
    using es(1) r n(1) u(1) t(1) by (simp add: tx_opportunity_def run_entity_def)
  moreover have "filling dci sfn base others (ps @ qs) t" using u(2) t(3) by (simp add: filling_def t(2))
  moreover have "attached_ok entity_ok rnti_of ?rnti ks t" using u(3) by (simp add: attached_ok_def t(2))
  ultimately show ?thesis using u(4) by blast
qed

lemma opportunities_fit:
  assumes "filling dci sfn base others ps s" and "attached_ok entity_ok rnti_of (dci_rnti dci) ks s" and "fst ` set pdus \<subseteq> ks"
    and "wrapped_size ps + pdu_room pdus \<le> unat (dci_tbSize dci)" and "unat (dci_tbSize dci) < 65536"
  shows "\<exists>t qs. for_each (tx_opportunity NotifyTxOpportunity (dci_rnti dci) (dci_harqProcess dci)) pdus s = Inr t \<and>
    filling dci sfn base others (ps @ qs) t \<and> attached_ok entity_ok rnti_of (dci_rnti dci) ks t \<and>
    wrapped_size (ps @ qs) \<le> wrapped_size ps + pdu_room pdus"
  using assms(1-4)
proof (induction pdus arbitrary: ps s)
  case Nil
  then show ?case by (intro exI [of _ s] exI [of _ "[]"]) simp
next
  case (Cons e pdus)
  obtain lcid bytes where e: "e = (lcid, bytes)" by (cases e)
  have n: "wrapped_size ps + unat bytes + 3 \<le> unat (dci_tbSize dci)" "lcid \<in> ks" using Cons.prems(3,4) by (auto simp: e pdu_room_def)
  then have b: "bytes < 65536" using assms(5) by (simp add: word_less_nat_alt)
  from tx_opportunity_fits [OF Cons.prems(1,2) n(2,1) b] obtain u qs where
    u: "tx_opportunity NotifyTxOpportunity (dci_rnti dci) (dci_harqProcess dci) s (lcid, bytes) = Inr u"
      "filling dci sfn base others (ps @ qs) u" "attached_ok entity_ok rnti_of (dci_rnti dci) ks u"
      "wrapped_size (ps @ qs) \<le> wrapped_size ps + unat bytes + 3" by blast
  have "wrapped_size (ps @ qs) + pdu_room pdus \<le> unat (dci_tbSize dci)" using u(4) Cons.prems(4) by (simp add: e pdu_room_def)
  from Cons.IH [OF u(2,3) _ this] Cons.prems(3) obtain t rs where
    "for_each (tx_opportunity NotifyTxOpportunity (dci_rnti dci) (dci_harqProcess dci)) pdus u = Inr t"
      "filling dci sfn base others ((ps @ qs) @ rs) t" "attached_ok entity_ok rnti_of (dci_rnti dci) ks t"
      "wrapped_size ((ps @ qs) @ rs) \<le> wrapped_size (ps @ qs) + pdu_room pdus" by auto
  then show ?case using u(1,4) by (intro exI [of _ t] exI [of _ "qs @ rs"]) (simp add: e pdu_room_def)
qed

lemma new_block_fits:
  assumes a: "attached_ok entity_ok rnti_of (dci_rnti (vt_dci v)) ks s" and "burst_is (dci_rnti (vt_dci v)) (dci_harqProcess (vt_dci v)) b s"
    and "tbMapKey (dci_rnti (vt_dci v)) (dci_harqProcess (vt_dci v)) \<notin> fst ` set (m_macPduMap s)"
    and "vt_rlcPduInfo v \<noteq> []" and "fst ` set (vt_rlcPduInfo v) \<subseteq> ks"
    and "pdu_room (vt_rlcPduInfo v) \<le> unat (dci_tbSize (vt_dci v))" and "unat (dci_tbSize (vt_dci v)) < 65536"
  shows "\<exists>t ps. send_new_block NotifyTxOpportunity sfn v s = Inr t \<and> gout t = gout s @ gsends (vt_dci v) sfn ps \<and>
    wrapped_size ps \<le> unat (dci_tbSize (vt_dci v)) \<and> burst_is (dci_rnti (vt_dci v)) (dci_harqProcess (vt_dci v)) (map wrap ps) t \<and>
    attached_ok entity_ok rnti_of (dci_rnti (vt_dci v)) ks t \<and> m_macPduMap t = m_macPduMap s"
proof -
  let ?dci = "vt_dci v" and ?key = "tbMapKey (dci_rnti (vt_dci v)) (dci_harqProcess (vt_dci v))"
  let ?s = "s\<lparr>m_macPduMap := (?key, \<lparr>pi_sfnSf = sfn, pi_dci = ?dci, pi_used = 0\<rparr>) # m_macPduMap s\<rparr>"
  let ?e = "NS_ASSERT ''harqIt != m_miDlHarqProcessesPackets.end ()''"
  have "burst_is (dci_rnti ?dci) (dci_harqProcess ?dci) b ?s" using assms(2) burst_is_cong [of ?s s] by simp
  then obtain u packets where u: "change_dl_process ?e (dci_rnti ?dci) (dci_harqProcess ?dci) (\<lambda>i. \<lparr>dl_pktBurst = [], dl_lcidList = []\<rparr>) ?s = Inr u"
    "u = ?s\<lparr>m_miDlHarqProcessesPackets := packets\<rparr>" "burst_is (dci_rnti ?dci) (dci_harqProcess ?dci) [] u"
    by (rule change_burst [of "dci_rnti ?dci" "dci_harqProcess ?dci" b ?s ?e "\<lambda>i. \<lparr>dl_pktBurst = [], dl_lcidList = []\<rparr>"]) auto
  have "filling ?dci sfn (gout s) (m_macPduMap s) [] u" using u(3) by (simp add: filling_def gsends_def u(2))
  moreover have "attached_ok entity_ok rnti_of (dci_rnti ?dci) ks u" using a by (simp add: attached_ok_def u(2))
  ultimately obtain t ps where t: "for_each (tx_opportunity NotifyTxOpportunity (dci_rnti ?dci) (dci_harqProcess ?dci)) (vt_rlcPduInfo v) u = Inr t"
      "filling ?dci sfn (gout s) (m_macPduMap s) ps t" "attached_ok entity_ok rnti_of (dci_rnti ?dci) ks t"
      "wrapped_size ps \<le> pdu_room (vt_rlcPduInfo v)"
    using opportunities_fit [of ?dci sfn "gout s" "m_macPduMap s" "[]" u ks "vt_rlcPduInfo v"] assms(5-7) by auto
  let ?t = "t\<lparr>m_macPduMap := m_macPduMap s\<rparr>"
  have none: "map_of (m_macPduMap s) ?key = None" using assms(3) by (simp add: map_of_eq_None_iff)
  have "AList.delete ?key (m_macPduMap t) = m_macPduMap s"
    using t(2) assms(3) by (auto simp: filling_def)
  then have "send_new_block NotifyTxOpportunity sfn v s = Inr ?t"
    using none assms(4) u(1) t(1) by (simp add: send_new_block_def Let_def)
  moreover have "burst_is (dci_rnti ?dci) (dci_harqProcess ?dci) (map wrap ps) ?t"
    using t(2) burst_is_cong [of ?t t] by (simp add: filling_def)
  ultimately show ?thesis using t(2-4) assms(6)
    by (intro exI [of _ ?t] exI [of _ ps]) (simp add: filling_def attached_ok_def)
qed

end

lemma resend_burst:
  assumes "burst_is (dci_rnti dci) (dci_harqProcess dci) b s" and "dci_tbSize dci > 0"
  shows "resend_block sfn dci s = Inr (s\<lparr>gout := gout s @ map (\<lambda>p. Gnb_SendMacPdu p sfn (dci_symStart dci) (dci_rnti dci)) b\<rparr>)"
proof -
  have "fold (\<lambda>p. gnb_emit (Gnb_SendMacPdu p sfn (dci_symStart dci) (dci_rnti dci))) b s =
      s\<lparr>gout := gout s @ map (\<lambda>p. Gnb_SendMacPdu p sfn (dci_symStart dci) (dci_rnti dci)) b\<rparr>" for s :: "'a GnbMac"
    by (induction b arbitrary: s) (simp_all add: gnb_emit_def)
  with assms show ?thesis by (auto simp: resend_block_def burst_is_def)
qed

lemma um_own_rnti:
  assumes "um_NotifyTxOpportunity now bytes harqId e = Inr (e', cs)"
  shows "rlc_rnti e' = rlc_rnti e \<and> (\<forall>p. TransmitPdu_call p \<in> set cs \<longrightarrow> tp_rnti p = rlc_rnti e)"
  using assms by (auto simp: um_NotifyTxOpportunity_def res_simps List.map_filter_def mac_call_of_def split: sap_call.splits)

interpretation um_gnb: gnb_sap_user "um_NotifyTxOpportunity now" um_entity_ok rlc_rnti for now
  by unfold_locales (rule um_own_rnti)

section \<open>From the scheduler\<close>

lemma assign_dl_pdus:
  assumes "for_each (assign_dl h) asg (ue, pdus0) = Inr (ue', pdus)"
  shows "pdus = pdus0 @ map (\<lambda>a. (a_lcId a, a_bytes a - 3)) asg \<and> (\<forall>a \<in> set asg. 3 \<le> a_bytes a)"
  using assms
proof (induction asg arbitrary: ue pdus0)
  case (Cons a asg)
  from Cons.prems obtain u where "3 \<le> a_bytes a" "for_each (assign_dl h) asg (u, pdus0 @ [(a_lcId a, a_bytes a - 3)]) = Inr (ue', pdus)"
    by (auto simp: assign_dl_def Let_def res_simps)
  with Cons.IH show ?case by fastforce
qed simp

lemma pdu_room_of_assignations:
  assumes "\<forall>a \<in> set asg. 3 \<le> a_bytes a"
  shows "pdu_room (map (\<lambda>a. (a_lcId a, a_bytes a - 3)) asg) = bytes_total asg"
  using assms by (induction asg) (simp_all add: pdu_room_def bytes_total_def unat_sub word_le_nat_alt)

definition dl_channels :: "NrMacSchedulerUeInfo \<Rightarrow> u8 set" where
  "dl_channels ue = {c. \<exists>l lc. lc_of (m_dlLCG ue) (l, c) = Some lc}"

lemma ScheduleDlBlock_pdus:
  assumes "ue_ok ue" and "dci_rv dci < 4" and "ScheduleDlBlock RR_AssignBytesToLC dci ue = Inr (ue', pdus)"
  shows "pdus \<noteq> []" and "pdu_room pdus = unat (dci_tbSize dci)" and "fst ` set pdus \<subseteq> dl_channels ue"
proof -
  from assms(3) obtain h u asg where t: "take_process DL dci ue = Inr (h, u)" "RR_AssignBytesToLC (m_dlLCG u) (dci_tbSize dci) = Inr asg"
    and loop: "for_each (assign_dl h) asg (u, []) = Inr (ue', pdus)" and ne: "pdus \<noteq> []"
    by (auto simp: ScheduleDlBlock_def res_simps)
  show "pdus \<noteq> []" by (rule ne)
  have u: "m_dlLCG u = m_dlLCG ue"
    by (rule take_process_ok [OF assms(1) take_process_CanInsert [OF t(1)] assms(2)], use t(1) in simp)
  have g: "groups_ok (m_dlLCG ue)" using assms(1) dl_ok_groups by (auto simp: ue_ok_def)
  have p: "pdus = map (\<lambda>a. (a_lcId a, a_bytes a - 3)) asg" "\<forall>a \<in> set asg. 3 \<le> a_bytes a" using assign_dl_pdus [OF loop] by auto
  obtain asg' where a: "RR_AssignBytesToLC (m_dlLCG ue) (dci_tbSize dci) = Inr asg'" "a_key ` set asg' = {k. demand (m_dlLCG ue) k > 0}"
    "asg' \<noteq> [] \<Longrightarrow> bytes_total asg' = unat (dci_tbSize dci)" by (rule RR_AssignBytesToLC_fair [OF g, of "dci_tbSize dci"]) blast
  then have asg: "asg' = asg" using t(2) u by simp
  then show "pdu_room pdus = unat (dci_tbSize dci)" using a(3) p ne pdu_room_of_assignations by auto
  have "\<exists>lc. lc_of (m_dlLCG ue) (a_lcg x, a_lcId x) = Some lc" if "x \<in> set asg" for x
  proof (rule lc_of_demand)
    show "demand (m_dlLCG ue) (a_lcg x, a_lcId x) > 0" using that a(2) asg by (force simp: a_key_def)
  qed
  then show "fst ` set pdus \<subseteq> dl_channels ue" unfolding p(1) dl_channels_def by auto blast
qed

section \<open>Properties\<close>

text \<open>C10: the blocks of the downlink are never exceeded. What the round-robin algorithm of the scheduler assigns to the
  channels of a UE, 3 bytes of each share being kept for the subheader, the MAC of the gNB fills without a failure from the
  RLC entities of the UE: the PDUs with their subheaders fit into the block, no open block is left behind, and a
  retransmission for the same HARQ process sends the same PDUs again.\<close>

theorem dl_block_never_exceeded:
  assumes "ue_ok ue" and "dci_rv dci0 < 4" and "ScheduleDlBlock RR_AssignBytesToLC dci0 ue = Inr (ue', pdus)"
    and "dci = dci0\<lparr>dci_harqProcess := h\<rparr>" and "v = \<lparr>vt_type = DATA, vt_format = DL, vt_dci = dci, vt_rlcPduInfo = pdus\<rparr>" and "dci_ndi dci = 1"
    and "unat (dci_tbSize dci) < 65536" and "dl_channels ue \<subseteq> ks"
    and "attached_ok um_entity_ok rlc_rnti (dci_rnti dci) ks s" and "burst_is (dci_rnti dci) (dci_harqProcess dci) b s"
    and "tbMapKey (dci_rnti dci) (dci_harqProcess dci) \<notin> fst ` set (m_macPduMap s)"
  shows "\<exists>t ps. indicate (um_NotifyTxOpportunity now) sfn s v = Inr t \<and> gout t = gout s @ gsends dci sfn ps \<and>
    wrapped_size ps \<le> unat (dci_tbSize dci) \<and> m_macPduMap t = m_macPduMap s \<and>
    attached_ok um_entity_ok rlc_rnti (dci_rnti dci) ks t \<and>
    (\<forall>retx sfn'. dci_rnti retx = dci_rnti dci \<and> dci_harqProcess retx = dci_harqProcess dci \<and> dci_ndi retx = 0 \<and> dci_tbSize retx > 0 \<longrightarrow>
      indicate (um_NotifyTxOpportunity now) sfn' t (v\<lparr>vt_dci := retx\<rparr>) = Inr (t\<lparr>gout := gout t @ gsends retx sfn' ps\<rparr>))"
proof -
  note p = ScheduleDlBlock_pdus [OF assms(1-3)]
  have "fst ` set pdus \<subseteq> ks" "pdu_room pdus \<le> unat (dci_tbSize dci)" using p(2,3) assms(4,8) by auto
  with um_gnb.new_block_fits [of v ks s b now sfn] assms(5,7,9-11) p(1) obtain t ps where
    t: "send_new_block (um_NotifyTxOpportunity now) sfn v s = Inr t" "gout t = gout s @ gsends dci sfn ps"
      "wrapped_size ps \<le> unat (dci_tbSize dci)" "burst_is (dci_rnti dci) (dci_harqProcess dci) (map wrap ps) t"
      "attached_ok um_entity_ok rlc_rnti (dci_rnti dci) ks t" "m_macPduMap t = m_macPduMap s" by auto
  have new: "indicate (um_NotifyTxOpportunity now) sfn s v = Inr t"
    using t(1) assms(5,6,9) by (auto simp: indicate_def attached_ok_def)
  have "indicate (um_NotifyTxOpportunity now) sfn' t (v\<lparr>vt_dci := retx\<rparr>) = Inr (t\<lparr>gout := gout t @ gsends retx sfn' ps\<rparr>)"
    if "dci_rnti retx = dci_rnti dci" "dci_harqProcess retx = dci_harqProcess dci" "dci_ndi retx = 0" "dci_tbSize retx > 0" for retx sfn'
    using resend_burst [of retx "map wrap ps" t sfn'] t(4,5) that assms(5)
    by (auto simp: indicate_def attached_ok_def gsends_def comp_def)
  with new t show ?thesis by blast
qed

definition example_queue :: "Scheduler res" where
  "example_queue = res_bind example_run (DoSchedDlRlcBufferReq \<lparr>req_rnti = 1, req_logicalChannelIdentity = 3,
     req_rlcTransmissionQueueSize = 100, req_rlcTransmissionQueueHolDelay = 0, req_rlcRetransmissionQueueSize = 0,
     req_rlcRetransmissionHolDelay = 0, req_rlcStatusPduSize = 0\<rparr>)"

lemma example_queue_state:
  "res_holds (\<lambda>s. case map_of (m_ueMap s) 1 of None \<Rightarrow> False | Some ue \<Rightarrow>
     list_all (\<lambda>(l, g). list_all (\<lambda>(c, lc). c = 3 \<or> c = 4) (m_lcMap g)) (m_dlLCG ue) \<and>
     (case ScheduleDlBlock RR_AssignBytesToLC (example_dci 50) ue of Inl e \<Rightarrow> False | Inr r \<Rightarrow> True)) example_queue"
  by code_simp

lemma example_block:
  obtains ue ue' pdus where "ue_ok ue" and "ScheduleDlBlock RR_AssignBytesToLC (example_dci 50) ue = Inr (ue', pdus)"
    and "dl_channels ue \<subseteq> {3, 4}"
proof -
  obtain s where s: "example_queue = Inr s" and h: "case map_of (m_ueMap s) 1 of None \<Rightarrow> False | Some ue \<Rightarrow>
     list_all (\<lambda>(l, g). list_all (\<lambda>(c, lc). c = 3 \<or> c = 4) (m_lcMap g)) (m_dlLCG ue) \<and>
     (case ScheduleDlBlock RR_AssignBytesToLC (example_dci 50) ue of Inl e \<Rightarrow> False | Inr r \<Rightarrow> True)"
    using example_queue_state by (rule res_holdsE) blast
  from h obtain ue r where ue: "map_of (m_ueMap s) 1 = Some ue"
    "list_all (\<lambda>(l, g). list_all (\<lambda>(c, lc). c = 3 \<or> c = 4) (m_lcMap g)) (m_dlLCG ue)"
    "ScheduleDlBlock RR_AssignBytesToLC (example_dci 50) ue = Inr r" by (auto split: option.splits sum.splits)
  from s obtain t where "example_run = Inr t" "DoSchedDlRlcBufferReq \<lparr>req_rnti = 1, req_logicalChannelIdentity = 3,
     req_rlcTransmissionQueueSize = 100, req_rlcTransmissionQueueHolDelay = 0, req_rlcRetransmissionQueueSize = 0,
     req_rlcRetransmissionHolDelay = 0, req_rlcStatusPduSize = 0\<rparr> t = Inr s" unfolding example_queue_def res_bind_eq_Inr by blast
  then have "sched_ok s" using example_run_reachable sched_reachable.dl_report sched_reachable_ok by blast
  moreover have "dl_channels ue \<subseteq> {3, 4}"
    using ue(2) by (fastforce simp: dl_channels_def lc_of_def bind_eq_Some_conv list_all_iff dest: map_of_SomeD)
  ultimately show ?thesis using that [of ue "fst r" "snd r"] sched_ok_lookup ue by (metis prod.collapse)
qed

definition demo_entity :: "u8 \<Rightarrow> RlcUmEntity" where
  "demo_entity lcid = \<lparr>rlc_rnti = 1, rlc_lcid = lcid, rlc_um = NrRlcUm_new 100\<rparr>"

definition demo_cell :: "RlcUmEntity GnbMac" where
  "demo_cell = (NrGnbMac_new 0 example_start)\<lparr>m_rlcAttached := [(1, [(3, demo_entity 3), (4, demo_entity 4)])],
     m_miDlHarqProcessesPackets := [(1, replicate 4 \<lparr>dl_pktBurst = [], dl_lcidList = []\<rparr>)]\<rparr>"

lemma demo_cell_ok: "attached_ok um_entity_ok rlc_rnti 1 {3, 4} demo_cell" "burst_is 1 3 [] demo_cell" "m_macPduMap demo_cell = []"
  using default_reachable
  by (auto simp: demo_cell_def attached_ok_def um_entity_ok_def demo_entity_def burst_is_def NrGnbMac_new_def)

theorem dl_block_never_exceeded_witness:
  "\<exists>ue ue' pdus t ps. ScheduleDlBlock RR_AssignBytesToLC (example_dci 50) ue = Inr (ue', pdus) \<and>
     indicate (um_NotifyTxOpportunity 5) SfnSf_default demo_cell
       \<lparr>vt_type = DATA, vt_format = DL, vt_dci = (example_dci 50)\<lparr>dci_harqProcess := 3\<rparr>, vt_rlcPduInfo = pdus\<rparr> = Inr t \<and>
     gout t = gout demo_cell @ gsends ((example_dci 50)\<lparr>dci_harqProcess := 3\<rparr>) SfnSf_default ps \<and> wrapped_size ps \<le> 50"
proof -
  obtain ue ue' pdus where b: "ue_ok ue" "ScheduleDlBlock RR_AssignBytesToLC (example_dci 50) ue = Inr (ue', pdus)"
    "dl_channels ue \<subseteq> {3, 4}" by (rule example_block)
  have d: "dci_rv (example_dci 50) < 4" "dci_ndi (example_dci 50) = 1" "dci_rnti (example_dci 50) = 1" "dci_tbSize (example_dci 50) = 50"
    by (simp_all add: example_dci_def)
  from dl_block_never_exceeded [OF b(1) d(1) b(2) refl refl _ _ b(3), of 3 demo_cell "[]" 5 SfnSf_default] d demo_cell_ok b(2)
  show ?thesis by auto blast
qed

end
