(* ===== verification/Spec2Isabelle.thy ===== *)
theory Spec2Isabelle
  imports NsSchedulerChoice OranRic NrGnbMacCell NrGnbMacBsr NrGnbMacBlock
begin

text \<open>
  This development models the O-RAN extension of ns-3 (\<open>src/src/oran/model\<close>), the uplink scheduler that it steers
  (\<open>src/src/nr/model/nr-mac-scheduler-ofdma-ul-target.cc\<close>), the stack that carries the measured traffic (the RLC entity
  \<open>src/src/nr/model/nr-rlc-um.cc\<close>, the MAC of UE and gNB \<open>nr-ue-mac.cc\<close> and \<open>nr-gnb-mac.cc\<close>, and the MAC scheduler
  \<open>nr-mac-scheduler-ns3.cc\<close>) and the discrete-event core that it runs on (\<open>src/src/core/model\<close>).

  \<^bold>\<open>The program.\<close> E2 node terminators on UEs and gNBs register with the Near-RT RIC, collect reports from their
  reporters and send them. The terminator of the RIC stores reports in an SQLite repository. In every query
  cycle the RIC runs its Logic Modules, collects their commands, passes them through the conflict mitigation
  module and sends them back to the nodes. The learning modules ask an external agent for shares of the uplink and
  turn them into targets, numbers of resource block groups (RBGs) per UE; a command carries them to the gNB, whose
  MAC scheduler applies them. The traffic itself passes through RLC entities, whose drops, PDUs and buffer reports are
  what the reporters sample. The MAC of the UE asks for grants with scheduling requests and buffer status reports; the MAC of
  the gNB hands them to its scheduler, which distributes transport blocks over the logical channels and keeps them in HARQ
  processes until they are acknowledged; a MAC fills a block or a grant with the PDUs of its RLC entities. Everything
  happens in events of the simulator.

  \<^bold>\<open>Theories, in order of import.\<close>
  \<^item> \<open>OranPrelude\<close>: machine integers, results with \<open>NS_ABORT\<close>, \<open>NS_ASSERT\<close> and undefined behaviour as errors, loops over
    containers, \<open>std::map\<close> as a sorted association list.
  \<^item> \<open>NsScheduler\<close>: event keys and the list and map schedulers (\<open>scheduler.h\<close>, \<open>list-scheduler.cc\<close>, \<open>map-scheduler.cc\<close>).
    The locales \<open>event_list\<close> and \<open>event_list_remove\<close> are the contract that the simulator relies on.
  \<^item> \<open>NsHeapScheduler\<close>: the heap scheduler (\<open>heap-scheduler.cc\<close>), an implementation of \<open>event_list\<close>.
  \<^item> \<open>NsCalendarScheduler\<close>: the calendar queue (\<open>calendar-scheduler.cc\<close>), an implementation of \<open>event_list_remove\<close>.
  \<^item> \<open>NsPriorityQueueScheduler\<close>: the event list over \<open>std::priority_queue\<close> (\<open>priority-queue-scheduler.cc\<close>).
  \<^item> \<open>NsSimulator\<close>: \<open>default-simulator-impl.cc\<close> with \<open>event-id.cc\<close> and \<open>event-impl.cc\<close>; event objects live in a store.
  \<^item> \<open>NsSchedulerChoice\<close>: a simulator over any event list refines the simulator over the sorted list.
  \<^item> \<open>OranTypes\<close>: commands, reports and metric samples (\<open>oran-command*.cc\<close>, \<open>oran-report*.cc\<close>).
  \<^item> \<open>OranRepository\<close>: \<open>oran-nr-data-repository-sqlite.cc\<close>. Tables are lists of rows, SQL statements functions on them;
    what SQLite leaves open is the parameter \<open>sqlite\<close> with the documented laws \<open>sqlite_ok\<close>.
  \<^item> \<open>OranLmRl\<close>: the learning modules (\<open>oran-lm-nr-rl-qlearn.cc\<close>, \<open>oran-lm-nr-rl-dqn.cc\<close>); the agent is a parameter.
  \<^item> \<open>OranLmMoni\<close>: the monitoring module (\<open>oran-lm-nr-2-nr-moni.cc\<close>).
  \<^item> \<open>NrUlTarget\<close>: \<open>AssignULRBG\<close> of the scheduler with targets and of its base class.
  \<^item> \<open>OranReporter\<close>: samples and reports of the eight reporters (\<open>oran-reporter-*.cc\<close>).
  \<^item> \<open>OranE2Node\<close>: triggers, reporter base class and node terminators (\<open>oran-report-trigger*.cc\<close>, \<open>oran-reporter.cc\<close>,
    \<open>oran-e2-node-terminator*.cc\<close>) over stores of objects and the simulator.
  \<^item> \<open>OranRic\<close>: Logic Module base class, conflict mitigation, RIC terminator and RIC (\<open>oran-lm.cc\<close>, \<open>oran-cmm*.cc\<close>,
    \<open>oran-nr-near-rt-ric*.cc\<close>), and \<open>dispatch\<close>, which runs one scheduled call of the module.
  \<^item> \<open>NrRlcHeader\<close>: headers of RLC PDUs and 10-bit sequence numbers (\<open>nr-rlc-header.cc\<close>, \<open>nr-rlc-sequence-number.h\<close>).
  \<^item> \<open>NrRlcUm\<close>: the RLC entity in unacknowledged mode (\<open>nr-rlc-um.cc\<close>), a record with its member variables; a packet is
    its bytes, and the calls to the layers above and below are recorded in a list.
  \<^item> \<open>NrRlcSender\<close>, \<open>NrRlcReceiver\<close>, \<open>NrRlcWindow\<close>: the partition of the buffer into PDUs, the refinement of the
    reassembly to an abstract machine, and the safety of the reordering window.
  \<^item> \<open>NrRlcLink\<close>, \<open>NrRlcEntity\<close>: two entities joined by a link with and without loss, and the reachable states of one.
  \<^item> \<open>NrMacCe\<close>: MAC subheaders, the SHORT BSR and its buffer levels (\<open>nr-mac-header-*.cc\<close>, \<open>nr-mac-short-bsr-ce.cc\<close>).
  \<^item> \<open>NrMacLcg\<close>: bearer requirements, logical channels and groups (\<open>nr-eps-bearer.cc\<close>, \<open>nr-mac-scheduler-lcg.cc\<close>).
  \<^item> \<open>NrMacLcRr\<close>, \<open>NrMacLcQos\<close>: the distribution of a block over the channels in round robin and by QoS
    (\<open>nr-mac-scheduler-lc-rr.cc\<close>, \<open>nr-mac-scheduler-lc-qos.cc\<close>).
  \<^item> \<open>NrMacHarq\<close>: HARQ processes (\<open>nr-mac-harq-process.h\<close>, \<open>nr-mac-harq-vector.cc\<close>).
  \<^item> \<open>NrMacScheduler\<close>: UEs, channels, sounding offsets, buffer reports, scheduling requests, feedback, and the accounting
    of a block once its size is chosen (\<open>nr-mac-scheduler-ns3.cc\<close>, \<open>nr-mac-scheduler-ue-info.cc\<close>,
    \<open>nr-mac-scheduler-srs-default.cc\<close>, \<open>nr-mac-scheduler-harq-rr.cc\<close>).
  \<^item> \<open>NrMacSchedulerInv\<close>, \<open>NrMacSchedulerRun\<close>, \<open>NrMacSchedulerMain\<close>: the invariant of the scheduler, what every operation
    keeps of it, the reachable states and the properties.
  \<^item> \<open>NrSfnSf\<close>: frame, subframe and slot numbers (\<open>sfnsf.cc\<close>).
  \<^item> \<open>NrUeMac\<close>: the MAC of the UE (\<open>nr-ue-mac.cc\<close>), over RLC entities of any kind.
  \<^item> \<open>NrUeMacGrant\<close>: the contract \<open>mac_sap_user\<close> that the MAC relies on when it serves a grant, its interpretation by the
    RLC entity in unacknowledged mode, and the property of grants.
  \<^item> \<open>NrGnbMac\<close>: the MAC of the gNB (\<open>nr-gnb-mac.cc\<close>) with the model of the scheduler inside, and the two uplink routes of
    the bandwidth part manager (\<open>bwp-manager-gnb.cc\<close>).
  \<^item> \<open>NrGnbMacCell\<close>, \<open>NrGnbMacBsr\<close>, \<open>NrGnbMacBlock\<close>: the UEs that MAC and scheduler know, the way of reports and requests
    from a UE to the scheduler, and the way of a block from the scheduler over MAC and RLC to the physical layer, with
    the contract \<open>gnb_sap_user\<close>, an extension of \<open>mac_sap_user\<close>.

  \<^bold>\<open>Correspondence.\<close> A class is a record with its member variables, a method a function that takes the object (or its
  address and the stores) and returns the new state or the failure that stops the program. \<open>uint32_t\<close> and the like are
  words of their width, \<open>Time\<close> is an integer number of nanoseconds, \<open>double\<close> is \<open>real\<close>. A random variable is the sequence
  of its draws. Logging, tracing, reference counts and \<open>DoDispose\<close> are left out.

  \<^bold>\<open>What is shown.\<close> For the core: all five event lists return events in key order, the calendar queue although its
  search may wrap around; a client cannot tell which event list a simulator has; in every reachable state of the simulator the next event is later than every event that ran, pending means queued and not cancelled, cancelled
  events never run, and \<open>Run\<close> ends with an empty list when the callbacks schedule nothing. For the repository: what
  registration, deregistration, saving and each query do to it, with the invariant \<open>repo_inv\<close>. For the modules: targets
  keep the budget, metrics use each sample once. For the scheduler: targets are respected, RBGs exclusive,
  work conservation, and equality with the base class when there are no targets. For nodes and RIC: reports are
  sent once and come back from the repository, triggers keep reporting, commands leave when the last module has answered,
  inactive nodes and only they are deregistered, and the targets of a learning module hold at the scheduler.
  For RLC: headers survive their bytes, a PDU fits its grant, the byte count of the buffer is exact, the SDUs that
  enter come out complete and in order, losses drop SDUs and never corrupt them, and no reachable state fails.
  For the MAC scheduler: the round-robin distribution ends, is exact and max-min fair, the QoS distribution stays within
  the block, sounding offsets are exclusive, feedback is processed without failure, and blocks are accounted in queues and
  HARQ processes. For the MAC: slot arithmetic counts slots; grants and blocks are filled without failure and never
  exceeded, and what was sent is what a retransmission sends; reports cover the buffers of the UE, requests of an idle UE
  reach the scheduler; MAC and scheduler of a gNB always agree on the UEs.
  Some theorems state where the code departs from what it means to do; they are the ones on heap removal,
  the sentinel of the calendar, first registrations, repeated RNTIs, saved late commands, deactivated modules and reporters,
  triggers, on discarding, wrap-around and window of RLC, and on small shares, bit rates, beams, feedback, uplink groups and
  sounding periods of the scheduler and the preambles of the gNB.

  \<^bold>\<open>Bounds.\<close> \<open>Run\<close> and \<open>SetScheduler\<close> are loops with fuel; the lemmas show that the number of queued events is enough.
  The search of the calendar queue has the number of buckets as fuel; \<open>peek_search_min\<close> shows that it is enough.
  The loops of RLC over sequence numbers have 1024 or 1025 turns as fuel; \<open>reassemble_interval_ok\<close>, \<open>missing_u16_ok\<close> and
  \<open>missing_sn_ok\<close> show that this is enough. The 16-bit header length is enough for grants below 65536 bytes or
  buffers of at most 43689 packets (\<open>header_fits\<close>). A grant has at least the 5 bytes of the SHORT BSR and, as a block,
  fewer than 65536, so that RLC headers cannot overflow; a buffer report covers buffers of up to 1200000 bytes.
  The loop over preambles has the preambles below 64 as fuel. The loops of the learning modules are total functions with a measure. The 32-bit event counter and the 64-bit clock wrap
  around in the model as in the code; theorems on the simulator assume that they do not (\<open>room\<close>, \<open>space\<close>, \<open>delay_ok\<close>).

  \<^bold>\<open>Not modelled.\<close> The real-time simulator; the helper and example code of the O-RAN module, which only configures
  objects; the gRPC service and the Python agents. Of the scheduler, the choice of symbols, resource blocks, modulation and
  block size: a block enters the model with its size, and the triggers of a slot are outputs of the MAC. Of the NR stack,
  RLC in acknowledged and transparent mode, PDCP and the physical layer; the RRC is an argument where the MAC calls it. The
  other modules of ns-3 are reached through devices, here given by the values that are read of them.
\<close>

section \<open>From the learning module to the scheduler\<close>

lemma target_beam_ok:
  assumes "remainingRbgSet rbgMask \<noteq> []"
  shows "\<exists>v. target_beam tbs s rbgMask beamSym ues = Inr v \<and>
    mset (map (m_rnti \<circ> fst) v) = mset (map (m_rnti \<circ> fst) ues)"
proof -
  let ?skip = "\<lambda>ue. buffer_covered ue \<or> HasReachedUlTarget s ue beamSym"
  obtain rest v where l: "assign_loop tbs ?skip beamSym (remainingRbgSet rbgMask) ues = (rest, v)" by fastforce
  have "image_mset (m_rnti \<circ> fst) (mset v) = image_mset (m_rnti \<circ> fst) (mset ues)"
    by (rule assign_loop_invariant [OF l, where I = "\<lambda>_ M. image_mset (m_rnti \<circ> fst) M = image_mset (m_rnti \<circ> fst) (mset ues)"])
      simp_all
  then show ?thesis using assms by (simp add: target_beam_def l res_simps)
qed

lemma sum_list_targets:
  assumes "distinct (map k v)" and "distinct (map fst m)" and "k ` set v \<subseteq> fst ` set m"
    and "\<And>u t. u \<in> set v \<Longrightarrow> map_of m (k u) = Some t \<Longrightarrow> f u \<le> unat t"
  shows "sum_list (map f v) \<le> target_sum m"
proof -
  let ?g = "\<lambda>r. unat (the (map_of m r))"
  have "f u \<le> ?g (k u)" if "u \<in> set v" for u
  proof -
    from that assms(3) obtain t where "map_of m (k u) = Some t"
      by (metis image_subset_iff map_of_eq_None_iff not_Some_eq)
    with assms(4) [OF that] show ?thesis by simp
  qed
  then have "sum_list (map f v) \<le> sum_list (map (?g \<circ> k) v)" by (intro sum_list_mono) simp
  also have "\<dots> = sum_list (map ?g (map k v))" by simp
  also have "\<dots> = sum ?g (set (map k v))" by (rule sum_list_distinct_conv_sum_set [OF assms(1)])
  also have "\<dots> \<le> sum ?g (set (map fst m))" using assms(3) by (intro sum_mono2) auto
  also have "\<dots> = sum_list (map ?g (map fst m))" by (rule sum_list_distinct_conv_sum_set [OF assms(2), symmetric])
  also have "\<dots> = target_sum m"
    using assms(2) by (auto simp: intro!: arg_cong [where f = sum_list])
  finally show ?thesis .
qed



end
